(* ===== verification/Prelude.thy ===== *)
theory Prelude
  imports Main "HOL-Library.Word"
begin

text \<open>
  Shared vocabulary of the development: machine integer and byte types, the little- and
  big-endian byte orders of \<open>src/bitcoin/src/crypto/common.h\<close>, the result type of fallible
  stream readers, and the generic list and word lemmas the component theories use.
\<close>

unbundle bit_operations_syntax

named_theorems word_nat_simps \<open>transfer of word operations to natural numbers\<close>
named_theorems codec_simps \<open>lengths and values of serialised data\<close>

subsection \<open>Types\<close>

type_synonym u8 = "8 word"
type_synonym u16 = "16 word"
type_synonym u32 = "32 word"
type_synonym u64 = "64 word"
type_synonym uint256 = "256 word"
type_synonym bytes = "u8 list"

subsection \<open>Words as natural numbers\<close>

lemma unat_lt2p: "unat (w :: 'a :: len word) < 2 ^ LENGTH('a)"
  by (rule unsigned_less)

declare unat_word_ariths [word_nat_simps]

lemma unat_lt_256 [simp]: "unat (b :: u8) < 256"
  using unat_lt2p [of b] by simp

lemma unat_u16_lt [simp]: "unat (w :: u16) < 65536"
  using unat_lt2p [of w] by simp

lemma unat_u32_lt [simp]: "unat (w :: u32) < 4294967296"
  using unat_lt2p [of w] by simp

lemma unat_u64_lt [simp]: "unat (w :: u64) < 18446744073709551616"
  using unat_lt2p [of w] by simp

lemma unat_of_nat_small: "n < 2 ^ LENGTH('a) \<Longrightarrow> unat (word_of_nat n :: 'a :: len word) = n"
  by (simp add: unat_of_nat take_bit_nat_eq_self)

lemma word_of_nat_u8_eq: "word_of_nat n = (b :: u8) \<Longrightarrow> n < 256 \<Longrightarrow> n = unat b"
  by (auto simp: unat_of_nat_small)

lemma unat_of_nat_u8: "unat (word_of_nat n :: u8) = n mod 256"
  by (simp add: unat_of_nat take_bit_eq_mod)

lemma unat_ucast_mod: "unat (ucast (w :: 'a :: len word) :: 'b :: len word) = unat w mod 2 ^ LENGTH('b)"
  by (simp add: unsigned_ucast_eq take_bit_eq_mod)

lemma unat_ucast_up:
  assumes "LENGTH('a :: len) \<le> LENGTH('b :: len)"
  shows "unat (ucast (w :: 'a word) :: 'b word) = unat w"
proof -
  have "unat w < 2 ^ LENGTH('b)"
    using unat_lt2p [of w] power_increasing [OF assms, of "2 :: nat"] by linarith
  then show ?thesis by (simp add: unat_ucast_mod)
qed

lemma ucast_up_down:
  assumes "LENGTH('a :: len) \<le> LENGTH('b :: len)"
  shows "ucast (ucast (w :: 'a word) :: 'b word) = w"
  using assms unat_lt2p [of w]
  by (simp add: word_unat_eq_iff unat_ucast_mod [where 'b = 'a] unat_ucast_up)

lemma ucast_down_up:
  assumes "unat (n :: 'a :: len word) < 2 ^ LENGTH('b :: len)" "LENGTH('b) \<le> LENGTH('a)"
  shows "ucast (ucast n :: 'b word) = n"
  using assms by (simp add: word_unat_eq_iff unat_ucast_mod [where 'b = 'b] unat_ucast_up)

subsection \<open>Bits and shifts\<close>

lemma and_push_bit_1: "(w :: 'a :: len word) AND push_bit n 1 \<noteq> 0 \<longleftrightarrow> bit w n"
  using and_exp_eq_0_iff_not_bit [of w n] by simp

lemma nat_not_bit: "(v :: nat) < 2 ^ n \<Longrightarrow> n \<le> m \<Longrightarrow> \<not> bit v m"
proof -
  assume "v < 2 ^ n" "n \<le> m"
  then have "v < 2 ^ m" using power_increasing [of n m "2 :: nat"] by linarith
  then show ?thesis by (simp add: bit_iff_odd)
qed

lemma unat_or_push_bit:
  fixes x y :: "'a :: len word"
  assumes "unat x < 2 ^ n" "unat y * 2 ^ n < 2 ^ LENGTH('a)"
  shows "unat (x OR push_bit n y) = unat x + 2 ^ n * unat y"
proof -
  have "unat x AND push_bit n (unat y) = 0"
    using assms(1) by (intro bit_eqI) (auto simp: bit_simps dest: nat_not_bit)
  then have "unat x + push_bit n (unat y) = unat x OR push_bit n (unat y)" by (rule disjunctive_add_eq_or)
  moreover have "unat (push_bit n y) = push_bit n (unat y)"
    using assms(2) by (simp add: unsigned_push_bit_eq push_bit_eq_mult [where 'a = nat] take_bit_eq_mod [where 'a = nat])
  ultimately show ?thesis by (simp add: unsigned_or_eq push_bit_eq_mult [where 'a = nat] mult.commute)
qed

lemma unat_drop_bit: "unat (drop_bit n (w :: 'a :: len word)) = unat w div 2 ^ n"
  using unat_lt2p [of w] by (simp add: unsigned_drop_bit_eq drop_bit_eq_div [where 'a = nat] take_bit_nat_eq_self)

lemma unat_push_bit: "unat (w :: 'a :: len word) * 2 ^ n < 2 ^ LENGTH('a) \<Longrightarrow> unat (push_bit n w) = unat w * 2 ^ n"
  by (simp add: unsigned_push_bit_eq push_bit_eq_mult [where 'a = nat] take_bit_nat_eq_self)

subsection \<open>Byte orders\<close>

text \<open>
  \<open>le_of_nat n x\<close> is the \<open>n\<close> least significant bytes of \<open>x\<close>, least significant first: the memory
  image of an integer after \<open>htole\<close>; \<open>nat_of_le\<close> reads such an image back.
\<close>

primrec le_of_nat :: "nat \<Rightarrow> nat \<Rightarrow> bytes" where
  "le_of_nat 0 x = []"
| "le_of_nat (Suc n) x = word_of_nat x # le_of_nat n (x div 256)"

primrec nat_of_le :: "bytes \<Rightarrow> nat" where
  "nat_of_le [] = 0"
| "nat_of_le (b # bs) = unat b + 256 * nat_of_le bs"

definition be_of_nat :: "nat \<Rightarrow> nat \<Rightarrow> bytes" where
  "be_of_nat n x = rev (le_of_nat n x)"

definition nat_of_be :: "bytes \<Rightarrow> nat" where
  "nat_of_be bs = nat_of_le (rev bs)"

lemma length_le_of_nat [simp, codec_simps]: "length (le_of_nat n x) = n"
  by (induction n arbitrary: x) auto

lemma length_be_of_nat [simp, codec_simps]: "length (be_of_nat n x) = n"
  by (simp add: be_of_nat_def)

lemma nat_of_le_of_nat: "nat_of_le (le_of_nat n x) = x mod 256 ^ n"
proof (induction n arbitrary: x)
  case 0
  then show ?case by simp
next
  case (Suc n)
  have "x mod 256 ^ Suc n = 256 * (x div 256 mod 256 ^ n) + x mod 256"
    by (simp add: mod_mult2_eq)
  then show ?case
    by (simp add: Suc unat_of_nat_u8)
qed

lemma nat_of_le_bound: "nat_of_le bs < 256 ^ length bs"
proof (induction bs)
  case Nil
  then show ?case by simp
next
  case (Cons b bs)
  have "unat b < 256" by simp
  moreover have "nat_of_le bs + 1 \<le> 256 ^ length bs" using Cons by simp
  ultimately have "unat b + 256 * nat_of_le bs < 256 * 256 ^ length bs" by linarith
  then show ?case by simp
qed

lemma le_of_nat_of_le: "length bs = n \<Longrightarrow> le_of_nat n (nat_of_le bs) = bs"
proof (induction bs arbitrary: n)
  case Nil
  then show ?case by simp
next
  case (Cons b bs)
  have "(unat b + 256 * nat_of_le bs) div 256 = nat_of_le bs"
    using unat_lt_256 [of b] by linarith
  moreover have "word_of_nat (unat b + 256 * nat_of_le bs) = b"
    by (rule word_unat_eq_iff [THEN iffD2]) (simp add: unat_of_nat_u8 del: of_nat_add of_nat_mult)
  ultimately show ?case using Cons by auto
qed

lemma nat_of_le_append: "nat_of_le (xs @ ys) = nat_of_le xs + 256 ^ length xs * nat_of_le ys"
  by (induction xs) (auto simp: algebra_simps)

lemma nat_of_be_of_nat: "nat_of_be (be_of_nat n x) = x mod 256 ^ n"
  by (simp add: nat_of_be_def be_of_nat_def nat_of_le_of_nat)

lemma be_of_nat_of_be: "length bs = n \<Longrightarrow> be_of_nat n (nat_of_be bs) = bs"
  by (simp add: nat_of_be_def be_of_nat_def le_of_nat_of_le)

lemma le_word_roundtrip:
  assumes "LENGTH('a :: len) = 8 * n"
  shows "word_of_nat (nat_of_le (le_of_nat n (unat w))) = (w :: 'a word)"
proof -
  have "unat w < 256 ^ n"
    using unat_lt2p [of w] by (simp add: assms power_mult)
  then show ?thesis by (simp add: nat_of_le_of_nat)
qed

lemma le_bytes_roundtrip:
  assumes "LENGTH('a :: len) = 8 * n" and "length bs = n"
  shows "le_of_nat n (unat (word_of_nat (nat_of_le bs) :: 'a word)) = bs"
proof -
  have "nat_of_le bs < 2 ^ LENGTH('a)"
    using nat_of_le_bound [of bs] by (simp add: assms power_mult)
  then show ?thesis by (simp add: unat_of_nat_small le_of_nat_of_le assms)
qed

subsection \<open>Lists\<close>

lemma take_append_exact: "length xs = n \<Longrightarrow> take n (xs @ ys) = xs"
  by simp

lemma append_eq_split: "length bs \<ge> n \<Longrightarrow> bs = xs @ rest \<and> length xs = n \<longleftrightarrow> length bs \<ge> n \<and> take n bs = xs \<and> drop n bs = rest"
  by auto

lemma append_eq_length_conv:
  "bs = xs @ rest \<and> length xs = n \<longleftrightarrow> n \<le> length bs \<and> xs = take n bs \<and> rest = drop n bs"
  by (auto simp: min_def)

end
