(* ===== verification/Serialize.thy ===== *)
theory Serialize
  imports Prelude
begin

text \<open>
  Model of \<open>src/bitcoin/src/serialize.h\<close> and of the in-memory readers of
  \<open>src/bitcoin/src/streams.h\<close>: fixed-width integers, CompactSize, VarInt, byte vectors and
  vectors of elements. A reader takes the unread bytes of the stream and returns the value with
  the bytes left over, or the failure it throws. The locale \<open>codec\<close> states what every pair of
  \<open>Serialize\<close>/\<open>Unserialize\<close> routines promises: the decoder accepts exactly the encodings of valid
  values, each with one encoding.
\<close>

subsection \<open>Streams and failures\<close>

datatype ser_error =
    EndOfData
  | NonCanonicalCompactSize
  | CompactSizeTooLarge
  | VarIntTooLarge
  | SuperfluousWitness
  | UnknownOptionalData

type_synonym 'a reader = "bytes \<Rightarrow> ser_error + 'a \<times> bytes"

definition rreturn :: "'a \<Rightarrow> 'a reader" where
  "rreturn x s = Inr (x, s)"

definition rthrow :: "ser_error \<Rightarrow> 'a reader" where
  "rthrow e s = Inl e"

definition rbind :: "'a reader \<Rightarrow> ('a \<Rightarrow> 'b reader) \<Rightarrow> 'b reader" where
  "rbind m f s = (case m s of Inl e \<Rightarrow> Inl e | Inr (x, s') \<Rightarrow> f x s')"

definition SpanReader_read :: "nat \<Rightarrow> bytes reader" where
  "SpanReader_read n s =
     (if n = 0 then Inr ([], s)
      else if n > length s then Inl EndOfData
      else Inr (take n s, drop n s))"

lemma rbind_Inr_iff [simp]:
  "rbind m f s = Inr (y, r) \<longleftrightarrow> (\<exists>x s'. m s = Inr (x, s') \<and> f x s' = Inr (y, r))"
  by (auto simp: rbind_def split: sum.splits)

lemma rreturn_Inr_iff [simp]: "rreturn x s = Inr (y, r) \<longleftrightarrow> y = x \<and> r = s"
  by (auto simp: rreturn_def)

lemma rthrow_Inr [simp]: "rthrow e s \<noteq> Inr p"
  by (simp add: rthrow_def)

lemma SpanReader_read_iff:
  "SpanReader_read n s = Inr (x, r) \<longleftrightarrow> length x = n \<and> s = x @ r"
  by (auto simp: SpanReader_read_def)

subsection \<open>DataStream: a buffer with a read position\<close>

record DataStream =
  vch :: bytes
  m_read_pos :: nat

definition DataStream_size :: "DataStream \<Rightarrow> nat" where
  "DataStream_size s = length (vch s) - m_read_pos s"

text \<open>
  \<open>CheckedAdd\<close> fails when the sum leaves \<open>size_t\<close>; a position and a length of objects in memory.
\<close>

definition CheckedAdd_size :: "nat \<Rightarrow> nat \<Rightarrow> nat option" where
  "CheckedAdd_size i j = (if i > 2 ^ 64 - 1 - j then None else Some (i + j))"

definition DataStream_read :: "nat \<Rightarrow> DataStream \<Rightarrow> ser_error + bytes \<times> DataStream" where
  "DataStream_read n s =
     (if n = 0 then Inr ([], s)
      else case CheckedAdd_size (m_read_pos s) n of
        None \<Rightarrow> Inl EndOfData
      | Some next_read_pos \<Rightarrow>
          if next_read_pos > length (vch s) then Inl EndOfData
          else
            let dst = take n (drop (m_read_pos s) (vch s))
            in if next_read_pos = length (vch s) then Inr (dst, s\<lparr>vch := [], m_read_pos := 0\<rparr>)
               else Inr (dst, s\<lparr>m_read_pos := next_read_pos\<rparr>))"

definition DataStream_ignore :: "nat \<Rightarrow> DataStream \<Rightarrow> ser_error + DataStream" where
  "DataStream_ignore num_ignore s =
     (case CheckedAdd_size (m_read_pos s) num_ignore of
        None \<Rightarrow> Inl EndOfData
      | Some next_read_pos \<Rightarrow>
          if next_read_pos > length (vch s) then Inl EndOfData
          else if next_read_pos = length (vch s) then Inr (s\<lparr>vch := [], m_read_pos := 0\<rparr>)
          else Inr (s\<lparr>m_read_pos := next_read_pos\<rparr>))"

definition DataStream_write :: "bytes \<Rightarrow> DataStream \<Rightarrow> DataStream" where
  "DataStream_write src s = s\<lparr>vch := vch s @ src\<rparr>"

definition DataStream_Compact :: "DataStream \<Rightarrow> DataStream" where
  "DataStream_Compact s = s\<lparr>vch := drop (m_read_pos s) (vch s), m_read_pos := 0\<rparr>"

definition DataStream_Rewind :: "nat option \<Rightarrow> DataStream \<Rightarrow> bool \<times> DataStream" where
  "DataStream_Rewind n s =
     (case n of
        None \<Rightarrow> (True, s\<lparr>m_read_pos := 0\<rparr>)
      | Some k \<Rightarrow> if k > m_read_pos s then (False, s) else (True, s\<lparr>m_read_pos := m_read_pos s - k\<rparr>))"

text \<open>The unread bytes, and the invariant that the position lies inside a representable buffer.\<close>

definition unread :: "DataStream \<Rightarrow> bytes" where
  "unread s = drop (m_read_pos s) (vch s)"

definition DataStream_ok :: "DataStream \<Rightarrow> bool" where
  "DataStream_ok s \<longleftrightarrow> m_read_pos s \<le> length (vch s) \<and> length (vch s) < 2 ^ 64"

subsection \<open>Fixed-width integers\<close>

definition ser_writedata8 :: "u8 \<Rightarrow> bytes" where
  "ser_writedata8 obj = [obj]"

definition ser_writedata16 :: "u16 \<Rightarrow> bytes" where
  "ser_writedata16 obj = le_of_nat 2 (unat obj)"

definition ser_writedata32 :: "u32 \<Rightarrow> bytes" where
  "ser_writedata32 obj = le_of_nat 4 (unat obj)"

definition ser_writedata32be :: "u32 \<Rightarrow> bytes" where
  "ser_writedata32be obj = be_of_nat 4 (unat obj)"

definition ser_writedata64 :: "u64 \<Rightarrow> bytes" where
  "ser_writedata64 obj = le_of_nat 8 (unat obj)"

definition ser_readdata8 :: "u8 reader" where
  "ser_readdata8 = rbind (SpanReader_read 1) (\<lambda>b. rreturn (hd b))"

definition ser_readdata16 :: "u16 reader" where
  "ser_readdata16 = rbind (SpanReader_read 2) (\<lambda>b. rreturn (word_of_nat (nat_of_le b)))"

definition ser_readdata32 :: "u32 reader" where
  "ser_readdata32 = rbind (SpanReader_read 4) (\<lambda>b. rreturn (word_of_nat (nat_of_le b)))"

definition ser_readdata32be :: "u32 reader" where
  "ser_readdata32be = rbind (SpanReader_read 4) (\<lambda>b. rreturn (word_of_nat (nat_of_be b)))"

definition ser_readdata64 :: "u64 reader" where
  "ser_readdata64 = rbind (SpanReader_read 8) (\<lambda>b. rreturn (word_of_nat (nat_of_le b)))"

text \<open>\<open>base_blob\<close> (\<open>uint256\<close>) is written as its 32 bytes.\<close>

definition ser_uint256 :: "uint256 \<Rightarrow> bytes" where
  "ser_uint256 h = le_of_nat 32 (unat h)"

definition unser_uint256 :: "uint256 reader" where
  "unser_uint256 = rbind (SpanReader_read 32) (\<lambda>b. rreturn (word_of_nat (nat_of_le b)))"

subsection \<open>The serialisation contract\<close>

locale codec =
  fixes enc :: "'a \<Rightarrow> bytes"
    and dec :: "'a reader"
    and valid :: "'a \<Rightarrow> bool"
  assumes dec_iff: "dec bs = Inr (x, rest) \<longleftrightarrow> valid x \<and> bs = enc x @ rest"
begin

lemma decode_encode: "valid x \<Longrightarrow> dec (enc x @ rest) = Inr (x, rest)"
  by (simp add: dec_iff)

lemma encode_decode: "dec bs = Inr (x, rest) \<Longrightarrow> bs = enc x @ rest"
  by (simp add: dec_iff)

lemma enc_prefix_free: "valid x \<Longrightarrow> valid y \<Longrightarrow> enc x @ r = enc y @ s \<Longrightarrow> x = y \<and> r = s"
  by (metis decode_encode prod.inject sum.inject(2))

end

lemma codec_le_word:
  assumes "LENGTH('a :: len) = 8 * n"
  shows "codec (\<lambda>w :: 'a word. le_of_nat n (unat w))
    (rbind (SpanReader_read n) (\<lambda>b. rreturn (word_of_nat (nat_of_le b)))) (\<lambda>_. True)"
  using assms
  by unfold_locales
    (auto simp: SpanReader_read_iff le_word_roundtrip [OF assms]
      intro: le_bytes_roundtrip [symmetric])

interpretation u8c: codec ser_writedata8 ser_readdata8 "\<lambda>_. True"
  by unfold_locales
    (auto simp: ser_writedata8_def ser_readdata8_def SpanReader_read_iff length_Suc_conv)

interpretation u16c: codec ser_writedata16 ser_readdata16 "\<lambda>_. True"
  unfolding ser_writedata16_def [abs_def] ser_readdata16_def by (rule codec_le_word) simp

interpretation u32c: codec ser_writedata32 ser_readdata32 "\<lambda>_. True"
  unfolding ser_writedata32_def [abs_def] ser_readdata32_def by (rule codec_le_word) simp

interpretation u32bec: codec ser_writedata32be ser_readdata32be "\<lambda>_. True"
proof unfold_locales
  fix bs rest :: bytes and x :: u32
  have "word_of_nat (nat_of_le (le_of_nat 4 (unat x))) = x"
    by (rule le_word_roundtrip) simp
  moreover have "b = rev (le_of_nat 4 (unat (word_of_nat (nat_of_le (rev b)) :: u32)))"
    if "length b = 4" for b :: bytes
    using le_bytes_roundtrip [where 'a = 32 and n = 4 and bs = "rev b"] that by simp
  ultimately show "ser_readdata32be bs = Inr (x, rest) \<longleftrightarrow> True \<and> bs = ser_writedata32be x @ rest"
    by (auto simp: ser_writedata32be_def ser_readdata32be_def SpanReader_read_iff be_of_nat_def
        nat_of_be_def)
qed

interpretation u64c: codec ser_writedata64 ser_readdata64 "\<lambda>_. True"
  unfolding ser_writedata64_def [abs_def] ser_readdata64_def by (rule codec_le_word) simp

interpretation u256c: codec ser_uint256 unser_uint256 "\<lambda>_. True"
  unfolding ser_uint256_def [abs_def] unser_uint256_def by (rule codec_le_word) simp

subsection \<open>DataStream refines the span reader\<close>

lemma DataStream_read_refines:
  assumes "DataStream_ok s"
  shows "(case DataStream_read n s of Inl e \<Rightarrow> Inl e | Inr (b, s') \<Rightarrow> Inr (b, unread s')) =
      SpanReader_read n (unread s)
    \<and> (\<forall>b s'. DataStream_read n s = Inr (b, s') \<longrightarrow> DataStream_ok s')"
  using assms
  by (auto simp: DataStream_read_def SpanReader_read_def unread_def DataStream_ok_def
      CheckedAdd_size_def Let_def add.commute split: option.splits if_splits)

subsection \<open>CompactSize\<close>

definition MAX_SIZE :: u64 where
  "MAX_SIZE = 0x02000000"

definition GetSizeOfCompactSize :: "u64 \<Rightarrow> nat" where
  "GetSizeOfCompactSize nSize =
     (if nSize < 253 then 1
      else if nSize \<le> 0xFFFF then 1 + 2
      else if nSize \<le> 0xFFFFFFFF then 1 + 4
      else 1 + 8)"

definition WriteCompactSize :: "u64 \<Rightarrow> bytes" where
  "WriteCompactSize nSize =
     (if nSize < 253 then ser_writedata8 (ucast nSize)
      else if nSize \<le> 0xFFFF then ser_writedata8 253 @ ser_writedata16 (ucast nSize)
      else if nSize \<le> 0xFFFFFFFF then ser_writedata8 254 @ ser_writedata32 (ucast nSize)
      else ser_writedata8 255 @ ser_writedata64 nSize)"

definition ReadCompactSize :: "bool \<Rightarrow> u64 reader" where
  "ReadCompactSize range_check =
     rbind ser_readdata8 (\<lambda>chSize.
     rbind
       (if chSize < 253 then rreturn (ucast chSize)
        else if chSize = 253 then
          rbind ser_readdata16 (\<lambda>n. if ucast n < (253 :: u64) then rthrow NonCanonicalCompactSize else rreturn (ucast n))
        else if chSize = 254 then
          rbind ser_readdata32 (\<lambda>n. if ucast n < (0x10000 :: u64) then rthrow NonCanonicalCompactSize else rreturn (ucast n))
        else
          rbind ser_readdata64 (\<lambda>n. if n < 0x100000000 then rthrow NonCanonicalCompactSize else rreturn n))
       (\<lambda>nSizeRet. if range_check \<and> nSizeRet > MAX_SIZE then rthrow CompactSizeTooLarge else rreturn nSizeRet))"

lemma length_WriteCompactSize: "length (WriteCompactSize n) = GetSizeOfCompactSize n"
  by (simp add: WriteCompactSize_def GetSizeOfCompactSize_def ser_writedata8_def ser_writedata16_def
      ser_writedata32_def ser_writedata64_def)

lemmas compact_arith = word_le_nat_alt word_less_nat_alt word_unat_eq_iff unat_ucast_up

lemma ser_readdata8_iff: "ser_readdata8 s = Inr (b, t) \<longleftrightarrow> s = b # t"
  by (simp add: u8c.dec_iff ser_writedata8_def)

lemma ser_readdata8_Cons [simp]: "ser_readdata8 (b # t) = Inr (b, t)"
  by (simp add: ser_readdata8_iff)

lemmas read_write = rbind_def rreturn_def u16c.decode_encode u32c.decode_encode u64c.decode_encode

lemmas readdata_iff = ser_readdata8_iff u16c.dec_iff u32c.dec_iff u64c.dec_iff

lemma ReadCompactSize_Write:
  assumes "rc \<longrightarrow> n \<le> MAX_SIZE"
  shows "ReadCompactSize rc (WriteCompactSize n @ rest) = Inr (n, rest)"
proof -
  have ok: "\<not> (rc \<and> MAX_SIZE < n)" using assms by auto
  consider "n < 253" | "\<not> n < 253" "n \<le> 0xFFFF" | "\<not> n \<le> 0xFFFF" "n \<le> 0xFFFFFFFF" | "\<not> n \<le> 0xFFFFFFFF"
    by blast
  then show ?thesis
  proof cases
    case 1
    then have "ucast n < (253 :: u8)"
      by (simp add: word_less_nat_alt unat_ucast_mod)
    moreover have "ucast (ucast n :: u8) = n"
      using 1 by (intro ucast_down_up) (simp_all add: word_less_nat_alt)
    ultimately show ?thesis
      using 1 ok by (simp add: ReadCompactSize_def WriteCompactSize_def ser_writedata8_def read_write)
  next
    case 2
    moreover have "ucast (ucast n :: u16) = n"
      using 2 by (intro ucast_down_up) (simp_all add: word_le_nat_alt)
    ultimately show ?thesis
      using ok by (simp add: ReadCompactSize_def WriteCompactSize_def ser_writedata8_def read_write)
  next
    case 3
    moreover from 3 have "\<not> n < 253" by (simp add: word_le_nat_alt word_less_nat_alt)
    moreover from 3 have "\<not> n < 0x10000" by (simp add: word_le_nat_alt word_less_nat_alt)
    moreover have "ucast (ucast n :: u32) = n"
      using 3 by (intro ucast_down_up) (simp_all add: word_le_nat_alt)
    ultimately show ?thesis
      using ok by (simp add: ReadCompactSize_def WriteCompactSize_def ser_writedata8_def read_write)
  next
    case 4
    moreover from 4 have "\<not> n < 253" "\<not> n \<le> 0xFFFF" "\<not> n < 0x100000000" by (simp_all add: word_le_nat_alt word_less_nat_alt)
    ultimately show ?thesis
      using ok by (simp add: ReadCompactSize_def WriteCompactSize_def ser_writedata8_def read_write)
  qed
qed

lemma ReadCompactSize_sound:
  assumes "ReadCompactSize rc bs = Inr (n, rest)"
  shows "bs = WriteCompactSize n @ rest \<and> (rc \<longrightarrow> n \<le> MAX_SIZE)"
proof -
  from assms obtain b t where b: "bs = b # t"
    by (auto simp: ReadCompactSize_def readdata_iff)
  have up: "ucast x < (253 :: u64) \<longleftrightarrow> x < 253" for x :: u8
    by (simp add: compact_arith)
  have up16: "ucast x \<le> (0xFFFF :: u64)" for x :: u16
    using unat_u16_lt [of x] by (simp add: compact_arith del: unat_u16_lt)
  have up32: "ucast x \<le> (0xFFFFFFFF :: u64)" for x :: u32
    using unat_u32_lt [of x] by (simp add: compact_arith del: unat_u32_lt)
  have hi: "\<not> x < (0x10000 :: u64) \<Longrightarrow> \<not> x \<le> 0xFFFF \<and> \<not> x < 253" for x
    by (simp add: word_le_nat_alt word_less_nat_alt)
  have hi2: "\<not> x < (0x100000000 :: u64) \<Longrightarrow> \<not> x \<le> 0xFFFF \<and> \<not> x < 253 \<and> \<not> x \<le> 0xFFFFFFFF" for x
    by (simp add: word_le_nat_alt word_less_nat_alt)
  consider "b < 253" | "b = 253" | "b = 254" | "b = 255"
    using unat_lt_256 [of b] by (simp add: compact_arith del: unat_lt_256) linarith
  then show ?thesis
  proof cases
    case 1
    then show ?thesis using assms b
      by (auto simp: ReadCompactSize_def WriteCompactSize_def readdata_iff ser_writedata8_def up ucast_up_down split: if_splits)
  next
    case 2
    then show ?thesis using assms b
      by (auto simp: ReadCompactSize_def WriteCompactSize_def readdata_iff ser_writedata8_def up16 ucast_up_down split: if_splits)
  next
    case 3
    then show ?thesis using assms b
      by (auto simp: ReadCompactSize_def WriteCompactSize_def readdata_iff ser_writedata8_def up32 ucast_up_down dest: hi split: if_splits)
  next
    case 4
    then show ?thesis using assms b
      by (auto simp: ReadCompactSize_def WriteCompactSize_def readdata_iff ser_writedata8_def dest: hi2 split: if_splits)
  qed
qed
lemma codec_CompactSize: "codec WriteCompactSize (ReadCompactSize rc) (\<lambda>n. rc \<longrightarrow> n \<le> MAX_SIZE)"
  by unfold_locales (auto dest: ReadCompactSize_sound intro: ReadCompactSize_Write)

interpretation csc: codec WriteCompactSize "ReadCompactSize True" "\<lambda>n. n \<le> MAX_SIZE"
  using codec_CompactSize [of True] by simp

subsection \<open>VarInt\<close>

lemma varint_shift_less:
  assumes "\<not> (n :: 'a :: len word) \<le> 0x7F"
  shows "unat (drop_bit 7 n - 1) < unat n \<and> drop_bit 7 n \<noteq> 0 \<and> 8 \<le> LENGTH('a)"
proof -
  have L: "8 \<le> LENGTH('a)"
  proof (rule ccontr)
    assume "\<not> 8 \<le> LENGTH('a)"
    then have "mask 7 = (- 1 :: 'a word)"
      by (intro bit_word_eqI) (simp add: bit_simps)
    then have "(0x7F :: 'a word) = - 1"
      by (simp add: mask_eq_exp_minus_1)
    with assms show False by simp
  qed
  have "(256 :: nat) \<le> 2 ^ LENGTH('a)"
    using power_increasing [OF L, of "2 :: nat"] by simp
  then have "127 < unat n"
    using assms by (simp add: word_le_nat_alt unat_numeral take_bit_nat_eq_self)
  then have d: "unat (drop_bit 7 n) = unat n div 128" "0 < unat n div 128"
    by (simp_all add: unat_drop_bit_eq drop_bit_eq_div [where 'a = nat] div_greater_zero_iff)
  then have "drop_bit 7 n \<noteq> 0" by (metis less_irrefl unat_0)
  with d L show ?thesis
    by (simp add: unat_minus_one) 
qed

function WriteVarInt_tmp :: "'a :: len word \<Rightarrow> nat \<Rightarrow> bytes" where
  "WriteVarInt_tmp n len =
     (ucast (n AND 0x7F) OR (if len \<noteq> 0 then 0x80 else 0x00)) #
     (if n \<le> 0x7F then [] else WriteVarInt_tmp (drop_bit 7 n - 1) (Suc len))"
  by pat_completeness auto
termination
  by (relation "measure (\<lambda>(n, len). unat n)") (auto dest: varint_shift_less)

declare WriteVarInt_tmp.simps [simp del]

definition WriteVarInt :: "'a :: len word \<Rightarrow> bytes" where
  "WriteVarInt n = rev (WriteVarInt_tmp n 0)"

fun ReadVarInt_loop :: "'a :: len word \<Rightarrow> 'a word reader" where
  "ReadVarInt_loop n [] = Inl EndOfData"
| "ReadVarInt_loop n (chData # s) =
     (if n > drop_bit 7 (- 1) then Inl VarIntTooLarge
      else
        let n' = push_bit 7 n OR ucast (chData AND 0x7F)
        in if chData AND 0x80 \<noteq> 0 then
             (if n' = - 1 then Inl VarIntTooLarge else ReadVarInt_loop (n' + 1) s)
           else Inr (n', s))"

definition ReadVarInt :: "'a :: len word reader" where
  "ReadVarInt = ReadVarInt_loop 0"

lemma and_7F: "(n :: 'a :: len word) AND 0x7F = take_bit 7 n"
  by (simp add: take_bit_eq_mask mask_eq_exp_minus_1)

lemma and_80: "(b :: u8) AND 0x80 \<noteq> 0 \<longleftrightarrow> bit b 7"
  using and_exp_eq_0_iff_not_bit [of b 7] by simp

lemma or_80: "(b :: u8) OR 0x80 = set_bit 7 b"
  by (simp add: set_bit_eq_or)

lemma varint_digit:
  assumes "8 \<le> LENGTH('a :: len)"
  shows "ucast (take_bit 7 (set_bit 7 (ucast (take_bit 7 n) :: u8))) = take_bit 7 (n :: 'a word)"
    and "ucast (take_bit 7 (ucast (take_bit 7 n) :: u8)) = take_bit 7 (n :: 'a word)"
  using assms by (auto intro!: bit_word_eqI simp: bit_simps)

lemma varint_join:
  assumes "8 \<le> LENGTH('a :: len)"
  shows "push_bit 7 (drop_bit 7 n) OR take_bit 7 n = (n :: 'a word)"
  using assms by (auto intro!: bit_word_eqI simp: bit_simps)

lemma unat_varint_max: "unat (drop_bit 7 (- 1) :: 'a :: len word) = (2 ^ LENGTH('a) - 1) div 128"
proof -
  have "unat (- 1 :: 'a word) = 2 ^ LENGTH('a) - 1"
    by (simp add: unsigned_minus_1_eq_mask mask_eq_exp_minus_1)
  then show ?thesis
    unfolding unat_drop_bit_eq by (simp add: drop_bit_eq_div [where 'a = nat])
qed

lemma drop_bit_le_max: "\<not> drop_bit 7 (- 1) < drop_bit 7 (n :: 'a :: len word)"
proof -
  have "unat n \<le> 2 ^ LENGTH('a) - 1"
    using unat_lt2p [of n] by linarith
  then show ?thesis
    unfolding word_less_nat_alt unat_varint_max
    by (simp add: not_less unat_drop_bit_eq drop_bit_eq_div [where 'a = nat] div_le_mono)
qed

lemma le_max_bit:
  assumes "8 \<le> LENGTH('a :: len)" "(n :: 'a word) \<le> drop_bit 7 (- 1)" "bit n k"
  shows "k + 7 < LENGTH('a)"
proof (rule ccontr)
  assume k: "\<not> k + 7 < LENGTH('a)"
  have "(2 :: nat) ^ LENGTH('a) = 2 ^ (LENGTH('a) - 7) * 2 ^ 7"
    using assms(1) by (subst power_add [symmetric]) simp
  moreover have "unat n \<le> (2 ^ LENGTH('a) - 1) div 128"
    using assms(2) unfolding word_le_nat_alt unat_varint_max .
  moreover have "(0 :: nat) < 2 ^ (LENGTH('a) - 7)" by simp
  moreover have "(x * 128 - 1) div 128 < x" if "0 < x" for x :: nat
    using that by linarith
  ultimately have "unat n < 2 ^ (LENGTH('a) - 7)"
    by (simp add: le_less_trans)
  also have "\<dots> \<le> 2 ^ k"
    using k by (intro power_increasing) auto
  finally have "\<not> bit (unat n) k" by (simp add: bit_iff_odd)
  with assms(3) show False by (simp add: bit_unsigned_iff bit_imp_le_length)
qed

lemma varint_split:
  assumes "8 \<le> LENGTH('a :: len)" "(n :: 'a word) \<le> drop_bit 7 (- 1)"
  shows "drop_bit 7 (push_bit 7 n OR ucast (take_bit 7 (b :: u8))) = n"
    and "ucast (take_bit 7 (push_bit 7 n OR ucast (take_bit 7 b))) = take_bit 7 b"
  using assms(1) le_max_bit [OF assms]
  by (auto intro!: bit_word_eqI simp: bit_simps add.commute [of 7])

lemma varint_small_iff:
  assumes "8 \<le> LENGTH('a :: len)"
  shows "(n :: 'a word) \<le> 0x7F \<longleftrightarrow> drop_bit 7 n = 0"
proof -
  have "(256 :: nat) \<le> 2 ^ LENGTH('a)"
    using power_increasing [OF assms, of "2 :: nat"] by simp
  then have "n \<le> 0x7F \<longleftrightarrow> unat n \<le> 127"
    by (simp add: word_le_nat_alt unat_numeral take_bit_nat_eq_self)
  also have "\<dots> \<longleftrightarrow> unat (drop_bit 7 n) = 0"
    by (simp add: unat_drop_bit_eq drop_bit_eq_div [where 'a = nat] div_eq_0_iff) linarith
  finally show ?thesis by (simp add: unat_0_iff)
qed


lemma ReadVarInt_loop_tmp:
  assumes "8 \<le> LENGTH('a :: len)" "(n :: 'a word) \<noteq> - 1" "len \<noteq> 0"
  shows "ReadVarInt_loop 0 (rev (WriteVarInt_tmp n len) @ rest) = ReadVarInt_loop (n + 1) rest"
  using assms
proof (induction n len arbitrary: rest rule: WriteVarInt_tmp.induct)
  case (1 n len)
  show ?case
  proof (cases "n \<le> 0x7F")
    case True
    then have "drop_bit 7 n = 0" using 1 by (simp add: varint_small_iff)
    then have tb: "take_bit 7 n = n" using varint_join [of n] 1 by simp
    show ?thesis using True 1 varint_digit [of n, unfolded tb]
      by (simp add: WriteVarInt_tmp.simps [of n len] and_7F and_80 or_80 tb Let_def bit_set_bit_iff)
  next
    case False
    let ?m = "drop_bit 7 n - 1"
    have "?m \<noteq> - 1" using varint_shift_less [OF False] by (metis add.commute add.right_neutral diff_add_cancel add.right_inverse)
    then have "ReadVarInt_loop 0 (rev (WriteVarInt_tmp ?m (Suc len)) @ x # rest) = ReadVarInt_loop (?m + 1) (x # rest)" for x
      using 1 False by simp
    then show ?thesis using False 1 drop_bit_le_max [of n]
      by (simp add: WriteVarInt_tmp.simps [of n len] and_7F and_80 or_80 varint_digit varint_join Let_def bit_set_bit_iff)
  qed
qed

lemma ReadVarInt_Write:
  assumes "8 \<le> LENGTH('a :: len)"
  shows "ReadVarInt (WriteVarInt n @ rest) = Inr (n :: 'a word, rest)"
proof (cases "n \<le> 0x7F")
  case True
  then have "drop_bit 7 n = 0" using assms by (simp add: varint_small_iff)
  then have tb: "take_bit 7 n = n" using varint_join [of n] assms by simp
  then have "\<not> bit n 7" by (metis bit_take_bit_iff less_irrefl)
  then show ?thesis using True assms varint_digit [of n, unfolded tb]
    by (simp add: ReadVarInt_def WriteVarInt_def WriteVarInt_tmp.simps [of n] and_7F and_80 tb Let_def bit_simps)
next
  case False
  let ?m = "drop_bit 7 n - 1"
  have "?m \<noteq> - 1" using varint_shift_less [OF False] by (metis add.commute add.right_neutral diff_add_cancel add.right_inverse)
  then have "ReadVarInt_loop 0 (rev (WriteVarInt_tmp ?m (Suc 0)) @ x # rest) = ReadVarInt_loop (?m + 1) (x # rest)" for x
    using assms by (simp add: ReadVarInt_loop_tmp)
  then show ?thesis using False assms drop_bit_le_max [of n]
    by (simp add: ReadVarInt_def WriteVarInt_def WriteVarInt_tmp.simps [of n] and_7F and_80 or_80 varint_digit varint_join Let_def bit_simps)
qed

lemma byte_hi: "bit (b :: u8) 7 \<Longrightarrow> set_bit 7 (take_bit 7 b) = b"
  by (auto intro!: bit_word_eqI simp: bit_simps less_Suc_eq numeral_eq_Suc)

lemma byte_lo: "\<not> bit (b :: u8) 7 \<Longrightarrow> take_bit 7 b = b"
  by (auto intro!: bit_word_eqI simp: bit_simps less_Suc_eq numeral_eq_Suc)

definition varint_prefix :: "'a :: len word \<Rightarrow> bytes" where
  "varint_prefix n = (if n = 0 then [] else rev (WriteVarInt_tmp (n - 1) 1))"

lemma WriteVarInt_tmp_len: "len \<noteq> 0 \<Longrightarrow> len' \<noteq> 0 \<Longrightarrow> WriteVarInt_tmp n len = WriteVarInt_tmp n len'"
proof (induction n len arbitrary: len' rule: WriteVarInt_tmp.induct)
  case (1 n len)
  show ?case
  proof (cases "n \<le> 0x7F")
    case True
    then show ?thesis using 1 by (simp add: WriteVarInt_tmp.simps [of n])
  next
    case False
    have "WriteVarInt_tmp (drop_bit 7 n - 1) (Suc len) = WriteVarInt_tmp (drop_bit 7 n - 1) (Suc len')"
      by (rule "1.IH" [OF False]) simp_all
    then show ?thesis using "1.prems" by (simp add: WriteVarInt_tmp.simps [of n])
  qed
qed

lemma rev_WriteVarInt_tmp:
  assumes "8 \<le> LENGTH('a :: len)"
  shows "rev (WriteVarInt_tmp (n :: 'a word) len) =
    varint_prefix (drop_bit 7 n) @ [ucast (take_bit 7 n) OR (if len \<noteq> 0 then 0x80 else 0)]"
proof (cases "n \<le> 0x7F")
  case True
  then show ?thesis using assms
    by (simp add: WriteVarInt_tmp.simps [of n len] varint_small_iff varint_prefix_def and_7F)
next
  case False
  then show ?thesis using assms varint_shift_less [OF False]
      WriteVarInt_tmp_len [of "Suc len" 1 "drop_bit 7 n - 1"]
    by (simp add: WriteVarInt_tmp.simps [of n len] varint_prefix_def and_7F)
qed

lemma ReadVarInt_loop_sound:
  assumes "8 \<le> LENGTH('a :: len)" "ReadVarInt_loop (a :: 'a word) bs = Inr (n, rest)"
  shows "varint_prefix a @ bs = WriteVarInt n @ rest"
  using assms(2)
proof (induction bs arbitrary: a)
  case Nil
  then show ?case by simp
next
  case (Cons b bs)
  let ?n = "push_bit 7 a OR ucast (take_bit 7 b)"
  from Cons.prems have a: "a \<le> drop_bit 7 (- 1)"
    by (auto simp: not_less split: if_splits)
  note sp = varint_split [OF assms(1) a, of b]
  show ?case
  proof (cases "bit b 7")
    case True
    with Cons.prems a have n: "?n \<noteq> - 1" and "ReadVarInt_loop (?n + 1) bs = Inr (n, rest)"
      by (auto simp: and_7F and_80 Let_def not_less split: if_splits)
    from Cons.IH [OF this(2)] have "varint_prefix (?n + 1) @ bs = WriteVarInt n @ rest" .
    moreover have "?n + 1 \<noteq> 0" using n by (metis add_eq_0_iff2)
    then have "varint_prefix (?n + 1) = varint_prefix a @ [b]"
      using True sp rev_WriteVarInt_tmp [OF assms(1), of ?n 1]
      by (simp add: varint_prefix_def [of "_ + 1"] or_80 byte_hi)
    ultimately show ?thesis by simp
  next
    case False
    with Cons.prems a have "n = ?n" "rest = bs"
      by (auto simp: and_7F and_80 Let_def not_less split: if_splits)
    then show ?thesis
      using False sp rev_WriteVarInt_tmp [OF assms(1), of ?n 0]
      by (simp add: WriteVarInt_def byte_lo)
  qed
qed

lemma codec_VarInt:
  assumes "8 \<le> LENGTH('a :: len)"
  shows "codec (WriteVarInt :: 'a word \<Rightarrow> bytes) ReadVarInt (\<lambda>_. True)"
proof unfold_locales
  fix bs rest and x :: "'a word"
  show "ReadVarInt bs = Inr (x, rest) \<longleftrightarrow> True \<and> bs = WriteVarInt x @ rest"
    using ReadVarInt_loop_sound [OF assms, of 0 bs x rest] ReadVarInt_Write [OF assms, of x rest]
    by (auto simp: ReadVarInt_def varint_prefix_def)
qed


lemma length_WriteVarInt_tmp:
  assumes "8 \<le> LENGTH('a :: len)" "0 < k" "unat (n :: 'a word) < 2 ^ (7 * k)"
  shows "length (WriteVarInt_tmp n len) \<le> k"
  using assms(2,3)
proof (induction k arbitrary: n len)
  case 0
  then show ?case by simp
next
  case (Suc k)
  show ?case
  proof (cases "n \<le> 0x7F")
    case True
    then show ?thesis by (simp add: WriteVarInt_tmp.simps [of n])
  next
    case False
    note sh = varint_shift_less [OF False]
    have d: "unat (drop_bit 7 n) = unat n div 128"
      by (simp add: unat_drop_bit_eq drop_bit_eq_div [where 'a = nat])
    moreover have "unat n div 128 < 2 ^ (7 * k)"
      using Suc.prems(2) by (simp add: power_add less_mult_imp_div_less mult.commute)
    ultimately have lt: "unat (drop_bit 7 n) < 2 ^ (7 * k)" by simp
    have "0 < k"
    proof (rule ccontr)
      assume "\<not> 0 < k"
      with lt have "unat (drop_bit 7 n) = 0" by simp
      with sh show False by (simp add: unat_0_iff)
    qed
    moreover from sh have "unat (drop_bit 7 n - 1) < 2 ^ (7 * k)"
      using lt by (simp add: unat_minus_one)
    ultimately have "length (WriteVarInt_tmp (drop_bit 7 n - 1) (Suc len)) \<le> k"
      by (rule Suc.IH)
    with False show ?thesis by (simp add: WriteVarInt_tmp.simps [of n])
  qed
qed

lemma length_WriteVarInt:
  assumes "8 \<le> LENGTH('a :: len)"
  shows "length (WriteVarInt (n :: 'a word)) \<le> (LENGTH('a) + 6) div 7"
proof -
  have "LENGTH('a) \<le> 7 * ((LENGTH('a) + 6) div 7)" by linarith
  then have "unat n < 2 ^ (7 * ((LENGTH('a) + 6) div 7))"
    using unat_lt2p [of n] power_increasing [of _ _ "2 :: nat"] by (meson less_le_trans one_le_numeral)
  with assms show ?thesis
    unfolding WriteVarInt_def by (auto intro: length_WriteVarInt_tmp)
qed

function GetSizeOfVarInt_loop :: "'a :: len word \<Rightarrow> nat \<Rightarrow> nat" where
  "GetSizeOfVarInt_loop n nRet =
     (if n \<le> 0x7F then Suc nRet else GetSizeOfVarInt_loop (drop_bit 7 n - 1) (Suc nRet))"
  by pat_completeness auto
termination
  by (relation "measure (\<lambda>(n, nRet). unat n)") (auto dest: varint_shift_less)

declare GetSizeOfVarInt_loop.simps [simp del]

definition GetSizeOfVarInt :: "'a :: len word \<Rightarrow> nat" where
  "GetSizeOfVarInt n = GetSizeOfVarInt_loop n 0"

lemma GetSizeOfVarInt_loop_eq: "GetSizeOfVarInt_loop n k = k + length (WriteVarInt_tmp n len)"
proof (induction n k arbitrary: len rule: GetSizeOfVarInt_loop.induct)
  case (1 n k)
  then show ?case
    by (simp add: GetSizeOfVarInt_loop.simps [of n k] WriteVarInt_tmp.simps [of n len])
qed

lemma GetSizeOfVarInt_eq: "GetSizeOfVarInt n = length (WriteVarInt n)"
  using GetSizeOfVarInt_loop_eq [of n 0 0] by (simp add: GetSizeOfVarInt_def WriteVarInt_def)

interpretation vi64: codec "WriteVarInt :: u64 \<Rightarrow> bytes" ReadVarInt "\<lambda>_. True"
  by (rule codec_VarInt) simp

interpretation vi32: codec "WriteVarInt :: u32 \<Rightarrow> bytes" ReadVarInt "\<lambda>_. True"
  by (rule codec_VarInt) simp

subsection \<open>Vectors\<close>

definition MAX_VECTOR_ALLOCATE :: nat where
  "MAX_VECTOR_ALLOCATE = 5000000"

definition Serialize_bytes :: "bytes \<Rightarrow> bytes" where
  "Serialize_bytes v = WriteCompactSize (word_of_nat (length v)) @ v"

function Unserialize_bytes_loop :: "nat \<Rightarrow> bytes \<Rightarrow> bytes reader" where
  "Unserialize_bytes_loop nSize v s =
     (if length v < nSize then
        let blk = min (nSize - length v) (1 + 4999999 div 1)
        in case SpanReader_read blk s of
             Inl e \<Rightarrow> Inl e
           | Inr (b, s') \<Rightarrow> Unserialize_bytes_loop nSize (v @ b) s'
      else Inr (v, s))"
  by pat_completeness auto
termination
  by (relation "measure (\<lambda>(nSize, v, s). nSize - length v)") (auto simp: SpanReader_read_iff)

declare Unserialize_bytes_loop.simps [simp del]

definition Unserialize_bytes :: "bytes reader" where
  "Unserialize_bytes = rbind (ReadCompactSize True) (\<lambda>nSize. Unserialize_bytes_loop (unat nSize) [])"

definition VectorFormatter_Ser :: "('a \<Rightarrow> bytes) \<Rightarrow> 'a list \<Rightarrow> bytes" where
  "VectorFormatter_Ser ser v = WriteCompactSize (word_of_nat (length v)) @ concat (map ser v)"

text \<open>The inner loop fills the vector up to the allocated size.\<close>

primrec Unser_elems :: "'a reader \<Rightarrow> nat \<Rightarrow> 'a list reader" where
  "Unser_elems unser 0 s = Inr ([], s)"
| "Unser_elems unser (Suc n) s =
     (case unser s of
        Inl e \<Rightarrow> Inl e
      | Inr (x, s') \<Rightarrow>
          (case Unser_elems unser n s' of Inl e \<Rightarrow> Inl e | Inr (xs, s'') \<Rightarrow> Inr (x # xs, s'')))"

lemma length_Unser_elems: "Unser_elems unser n s = Inr (xs, r) \<Longrightarrow> length xs = n"
  by (induction n arbitrary: s xs r) (auto split: sum.splits)

text \<open>The outer loop allocates in batches of \<open>MAX_VECTOR_ALLOCATE / sizeof(value_type)\<close> elements.\<close>

lemma alloc_progress:
  "0 < esz \<Longrightarrow> esz \<le> MAX_VECTOR_ALLOCATE \<Longrightarrow> n < sz \<Longrightarrow> n < min sz (n + MAX_VECTOR_ALLOCATE div esz)"
  by (simp add: div_greater_zero_iff)

function VectorFormatter_Unser_loop :: "nat \<Rightarrow> 'a reader \<Rightarrow> nat \<Rightarrow> 'a list \<Rightarrow> 'a list reader" where
  "VectorFormatter_Unser_loop esz unser sz v s =
     (if length v < sz \<and> esz \<le> MAX_VECTOR_ALLOCATE \<and> 0 < esz then
        let allocated = min sz (length v + MAX_VECTOR_ALLOCATE div esz)
        in case Unser_elems unser (allocated - length v) s of
             Inl e \<Rightarrow> Inl e
           | Inr (es, s') \<Rightarrow> VectorFormatter_Unser_loop esz unser sz (v @ es) s'
      else Inr (v, s))"
  by pat_completeness auto
termination
  by (relation "measure (\<lambda>(esz, unser, sz, v, s). sz - length v)")
    (auto dest!: length_Unser_elems simp: div_greater_zero_iff intro!: diff_less_mono2)

declare VectorFormatter_Unser_loop.simps [simp del]

definition VectorFormatter_Unser :: "nat \<Rightarrow> 'a reader \<Rightarrow> 'a list reader" where
  "VectorFormatter_Unser esz unser =
     rbind (ReadCompactSize True) (\<lambda>n. VectorFormatter_Unser_loop esz unser (unat n) [])"

lemma Unserialize_bytes_loop_iff:
  "length v \<le> nSize \<Longrightarrow> Unserialize_bytes_loop nSize v s = Inr (x, r) \<longleftrightarrow>
     (\<exists>y. x = v @ y \<and> length x = nSize \<and> s = y @ r)"
proof (induction nSize v s rule: Unserialize_bytes_loop.induct)
  case (1 nSize v s)
  show ?case
  proof (cases "length v < nSize")
    case False
    with "1.prems" show ?thesis by (auto simp: Unserialize_bytes_loop.simps [of nSize v s])
  next
    case True
    let ?b = "min (nSize - length v) (1 + 4999999 div 1)"
    show ?thesis
    proof (cases "SpanReader_read ?b s")
      case (Inl e)
      then have "length s < ?b" by (auto simp: SpanReader_read_def split: if_splits)
      with Inl True show ?thesis
        by (auto simp: Unserialize_bytes_loop.simps [of nSize v s])
    next
      case (Inr p)
      then obtain b s' where p: "SpanReader_read ?b s = Inr (b, s')" by (cases p) auto
      then have b: "length b = ?b" "s = b @ s'" by (auto simp: SpanReader_read_iff)
      then have "length (v @ b) \<le> nSize" using True by simp
      from "1.IH" [OF True refl p refl this]
      have ih: "Unserialize_bytes_loop nSize (v @ b) s' = Inr (x, r) \<longleftrightarrow>
        (\<exists>y. x = v @ b @ y \<and> length x = nSize \<and> s' = y @ r)" by simp
      have step: "Unserialize_bytes_loop nSize v s = Unserialize_bytes_loop nSize (v @ b) s'"
        using True p by (simp add: Unserialize_bytes_loop.simps [of nSize v s])
      have pre: "\<exists>z. y = b @ z \<and> s' = z @ r"
        if "s = y @ r" "length (v @ y) = nSize" for y
      proof -
        from that b have "length b \<le> length y" by simp
        moreover from that b have "b @ s' = y @ r" by simp
        ultimately have "b = take (length b) y"
          by (metis append_eq_append_conv_if)
        then have y: "y = b @ drop (length b) y" by (metis append_take_drop_id)
        with \<open>b @ s' = y @ r\<close> have "s' = drop (length b) y @ r"
          by (metis append_assoc same_append_eq)
        with y show ?thesis by blast
      qed
      show ?thesis
        unfolding step ih using b(2) pre by fastforce
    qed
  qed
qed

lemma ReadSize_iff:
  "rbind (ReadCompactSize True) (\<lambda>n. f (unat n)) bs = Inr (x, r) \<longleftrightarrow>
     (\<exists>k t. k \<le> 0x2000000 \<and> bs = WriteCompactSize (word_of_nat k) @ t \<and> f k t = Inr (x, r))"
proof -
  have "n \<le> MAX_SIZE \<longleftrightarrow> unat n \<le> 0x2000000" for n
    by (simp add: MAX_SIZE_def word_le_nat_alt)
  moreover have "k \<le> 0x2000000 \<Longrightarrow> unat (word_of_nat k :: u64) = k" for k
    by (simp add: unat_of_nat_small)
  ultimately have "(\<exists>n t. n \<le> MAX_SIZE \<and> bs = WriteCompactSize n @ t \<and> f (unat n) t = Inr (x, r)) \<longleftrightarrow>
      (\<exists>k t. k \<le> 0x2000000 \<and> bs = WriteCompactSize (word_of_nat k) @ t \<and> f k t = Inr (x, r))"
    by (metis of_nat_unat ucast_id)
  then show ?thesis by (simp add: csc.dec_iff conj_assoc)
qed

lemma case_Inr_iff:
  "(case m of Inl e \<Rightarrow> Inl e | Inr (xs, r) \<Rightarrow> Inr (f xs, r)) = Inr (y, r') \<longleftrightarrow> (\<exists>xs. m = Inr (xs, r') \<and> y = f xs)"
  by (auto split: sum.splits)

interpretation bytesc: codec Serialize_bytes Unserialize_bytes "\<lambda>v. length v \<le> 0x2000000"
proof unfold_locales
  fix bs rest and v :: bytes
  show "Unserialize_bytes bs = Inr (v, rest) \<longleftrightarrow> length v \<le> 0x2000000 \<and> bs = Serialize_bytes v @ rest"
    by (auto simp: Unserialize_bytes_def Serialize_bytes_def ReadSize_iff [where f = "\<lambda>k. Unserialize_bytes_loop k []"] Unserialize_bytes_loop_iff
        simp del: rbind_Inr_iff)
qed

lemma Unser_elems_append:
  "Unser_elems unser (m + n) bs =
    (case Unser_elems unser m bs of Inl e \<Rightarrow> Inl e
     | Inr (xs, s) \<Rightarrow> (case Unser_elems unser n s of Inl e \<Rightarrow> Inl e | Inr (ys, s') \<Rightarrow> Inr (xs @ ys, s')))"
  by (induction m arbitrary: bs) (auto split: sum.splits)

lemma VectorFormatter_Unser_loop_eq:
  assumes "0 < esz" "esz \<le> MAX_VECTOR_ALLOCATE" "length v \<le> sz"
  shows "VectorFormatter_Unser_loop esz unser sz v s =
    (case Unser_elems unser (sz - length v) s of Inl e \<Rightarrow> Inl e | Inr (xs, r) \<Rightarrow> Inr (v @ xs, r))"
  using assms
proof (induction esz unser sz v s rule: VectorFormatter_Unser_loop.induct)
  case (1 esz unser sz v s)
  show ?case
  proof (cases "length v < sz")
    case False
    with "1.prems" show ?thesis by (simp add: VectorFormatter_Unser_loop.simps [of esz unser sz v s])
  next
    case True
    define k where "k = min sz (length v + MAX_VECTOR_ALLOCATE div esz) - length v"
    have split: "sz - length v = k + (sz - length v - k)" by (simp add: k_def)
    show ?thesis
    proof (cases "Unser_elems unser k s")
      case (Inl e)
      with True "1.prems" show ?thesis
        unfolding VectorFormatter_Unser_loop.simps [of esz unser sz v s]
        by (subst split, subst Unser_elems_append) (simp add: k_def Let_def)
    next
      case (Inr p)
      then obtain es s' where p: "Unser_elems unser k s = Inr (es, s')" by (cases p) auto
      have len: "length es = k" by (rule length_Unser_elems [OF p])
      then have "length (v @ es) \<le> sz" using True by (simp add: k_def)
      moreover have "length v < sz \<and> esz \<le> MAX_VECTOR_ALLOCATE \<and> 0 < esz" using True "1.prems" by simp
      ultimately have ih: "VectorFormatter_Unser_loop esz unser sz (v @ es) s' =
          (case Unser_elems unser (sz - length v - k) s' of Inl e \<Rightarrow> Inl e
           | Inr (xs, r) \<Rightarrow> Inr ((v @ es) @ xs, r))"
        using "1.IH" [OF _ refl p [unfolded k_def] refl] "1.prems" len by simp
      have "VectorFormatter_Unser_loop esz unser sz v s = VectorFormatter_Unser_loop esz unser sz (v @ es) s'"
        using True "1.prems" p unfolding VectorFormatter_Unser_loop.simps [of esz unser sz v s]
        by (simp add: k_def Let_def)
      also note ih
      finally show ?thesis
        by (subst split, subst Unser_elems_append) (simp add: p split: sum.splits prod.splits)
    qed
  qed
qed

context codec
begin

lemma Unser_elems_iff:
  "Unser_elems dec n bs = Inr (xs, rest) \<longleftrightarrow>
     length xs = n \<and> (\<forall>x \<in> set xs. valid x) \<and> bs = concat (map enc xs) @ rest"
proof (induction n arbitrary: bs xs)
  case 0
  then show ?case by auto
next
  case (Suc n)
  have "Unser_elems dec (Suc n) bs = Inr (xs, rest) \<longleftrightarrow>
      (\<exists>y ys s. xs = y # ys \<and> dec bs = Inr (y, s) \<and> Unser_elems dec n s = Inr (ys, rest))"
    by (auto split: sum.splits)
  also have "\<dots> \<longleftrightarrow> length xs = Suc n \<and> (\<forall>x \<in> set xs. valid x) \<and> bs = concat (map enc xs) @ rest"
    unfolding dec_iff Suc.IH by (auto simp: length_Suc_conv)
  finally show ?case .
qed

lemma VectorFormatter_codec:
  assumes "0 < esz" "esz \<le> MAX_VECTOR_ALLOCATE"
  shows "codec (VectorFormatter_Ser enc) (VectorFormatter_Unser esz dec)
    (\<lambda>v. length v \<le> 0x2000000 \<and> (\<forall>x \<in> set v. valid x))"
proof
  fix bs rest v
  show "VectorFormatter_Unser esz dec bs = Inr (v, rest) \<longleftrightarrow>
      (length v \<le> 0x2000000 \<and> (\<forall>x \<in> set v. valid x)) \<and> bs = VectorFormatter_Ser enc v @ rest"
    by (auto simp: VectorFormatter_Unser_def VectorFormatter_Ser_def
        ReadSize_iff [where f = "\<lambda>k. VectorFormatter_Unser_loop esz dec k []"] case_Inr_iff
        VectorFormatter_Unser_loop_eq [OF assms] Unser_elems_iff simp del: rbind_Inr_iff)
qed

end

subsection \<open>Properties\<close>

text \<open>
  CompactSize is a bijective code. With the range check, \<open>ReadCompactSize\<close> returns exactly the
  sizes up to \<open>MAX_SIZE\<close> from exactly the bytes \<open>WriteCompactSize\<close> writes for them, leaving the rest
  of the stream; without the check it does so for every 64-bit value; and the encoding has the
  length \<open>GetSizeOfCompactSize\<close> announces. Non-canonical encodings are therefore all refused.
\<close>

theorem compact_size_bijective:
  "(ReadCompactSize True bs = Inr (n, rest) \<longleftrightarrow> n \<le> MAX_SIZE \<and> bs = WriteCompactSize n @ rest)
   \<and> (ReadCompactSize False bs = Inr (n, rest) \<longleftrightarrow> bs = WriteCompactSize n @ rest)
   \<and> length (WriteCompactSize n) = GetSizeOfCompactSize n"
  using codec.dec_iff [OF codec_CompactSize, of False] csc.dec_iff length_WriteCompactSize by simp

text \<open>
  C34: VarInt is a bijective code for 64-bit values, as the comment in \<open>serialize.h\<close> promises ("every
  integer has exactly one encoding"): \<open>ReadVarInt\<close> returns \<open>n\<close> from a stream exactly when the stream
  starts with \<open>WriteVarInt n\<close>. The encoding has the length \<open>GetSizeOfVarInt\<close> computes and never
  exceeds the ten bytes of the buffer \<open>tmp[(sizeof(n)*8+6)/7]\<close> that \<open>WriteVarInt\<close> fills.
\<close>

theorem varint_bijective:
  fixes n :: u64
  shows "(ReadVarInt bs = Inr (n, rest) \<longleftrightarrow> bs = WriteVarInt n @ rest)
   \<and> length (WriteVarInt n) = GetSizeOfVarInt n
   \<and> length (WriteVarInt n) \<le> (8 * 8 + 6) div 7"
  using vi64.dec_iff GetSizeOfVarInt_eq [of n] length_WriteVarInt [of n] by simp

text \<open>
  A \<open>DataStream\<close> behaves as the plain sequence of its unread bytes: a read of \<open>n\<close> bytes through
  the buffer and its position returns what a \<open>SpanReader\<close> over the unread bytes returns, fails
  exactly when that one fails, and keeps the position inside the buffer (also when the buffer is
  reset after its last byte).
\<close>

theorem data_stream_read_refines_span:
  assumes "DataStream_ok s"
  shows "(case DataStream_read n s of Inl e \<Rightarrow> Inl e | Inr (b, s') \<Rightarrow> Inr (b, unread s')) =
      SpanReader_read n (unread s)
    \<and> (case DataStream_read n s of Inl e \<Rightarrow> True | Inr (b, s') \<Rightarrow> DataStream_ok s')"
  using DataStream_read_refines [OF assms, of n] by (auto split: sum.splits)

theorem data_stream_read_refines_span_witness:
  "DataStream_ok \<lparr>vch = [1, 2, 3], m_read_pos = 1\<rparr>
   \<and> (case DataStream_read 2 \<lparr>vch = [1, 2, 3], m_read_pos = 1\<rparr> of
        Inl e \<Rightarrow> Inl e | Inr (b, s') \<Rightarrow> Inr (b, unread s')) = Inr ([2, 3], [])"
proof -
  have ok: "DataStream_ok \<lparr>vch = [1, 2, 3], m_read_pos = 1\<rparr>"
    by (simp add: DataStream_ok_def)
  show ?thesis
    using ok data_stream_read_refines_span [OF ok, of 2]
    by (simp add: unread_def SpanReader_read_def)
qed

end
