(* ===== verification/Transaction.thy ===== *)
theory Transaction
  imports Serialize
begin

text \<open>
  Model of \<open>src/bitcoin/src/primitives/transaction.h\<close> and \<open>transaction.cpp\<close>: outpoints, inputs,
  outputs and transactions as records, and their two wire formats (with and without witness data).
  \<open>CAmount\<close> is a signed 64-bit integer, kept as a 64-bit word and read by \<open>sint\<close>; a \<open>uint256\<close> is
  a 256-bit word whose bytes are its little-endian image. The sizes of C++ objects, which only
  fix how many elements a vector allocates at a time, are a parameter of type \<open>abi\<close>.
\<close>

subsection \<open>Data\<close>

record COutPoint =
  op_hash :: uint256
  op_n :: u32

record CTxIn =
  prevout :: COutPoint
  scriptSig :: bytes
  nSequence :: u32
  scriptWitness :: "bytes list"

record CTxOut =
  nValue :: u64
  scriptPubKey :: bytes

record CTransaction =
  vin :: "CTxIn list"
  vout :: "CTxOut list"
  version :: u32
  nLockTime :: u32

record abi =
  sizeof_CTxIn :: nat
  sizeof_CTxOut :: nat
  sizeof_bytes :: nat

definition abi_ok :: "abi \<Rightarrow> bool" where
  "abi_ok a \<longleftrightarrow> (\<forall>n \<in> {sizeof_CTxIn a, sizeof_CTxOut a, sizeof_bytes a}. 0 < n \<and> n \<le> MAX_VECTOR_ALLOCATE)"

definition COutPoint_NULL_INDEX :: u32 where
  "COutPoint_NULL_INDEX = 0xFFFFFFFF"

definition COutPoint_IsNull :: "COutPoint \<Rightarrow> bool" where
  "COutPoint_IsNull o' \<longleftrightarrow> op_hash o' = 0 \<and> op_n o' = COutPoint_NULL_INDEX"

definition CTxOut_IsNull :: "CTxOut \<Rightarrow> bool" where
  "CTxOut_IsNull out \<longleftrightarrow> nValue out = - 1"

definition SEQUENCE_FINAL :: u32 where
  "SEQUENCE_FINAL = 0xFFFFFFFF"

definition SEQUENCE_LOCKTIME_DISABLE_FLAG :: u32 where
  "SEQUENCE_LOCKTIME_DISABLE_FLAG = push_bit 31 1"

definition SEQUENCE_LOCKTIME_TYPE_FLAG :: u32 where
  "SEQUENCE_LOCKTIME_TYPE_FLAG = push_bit 22 1"

definition SEQUENCE_LOCKTIME_MASK :: u32 where
  "SEQUENCE_LOCKTIME_MASK = 0x0000FFFF"

definition SEQUENCE_LOCKTIME_GRANULARITY :: nat where
  "SEQUENCE_LOCKTIME_GRANULARITY = 9"

definition IsCoinBase :: "CTransaction \<Rightarrow> bool" where
  "IsCoinBase tx \<longleftrightarrow> length (vin tx) = 1 \<and> COutPoint_IsNull (prevout (vin tx ! 0))"

definition HasWitness :: "CTransaction \<Rightarrow> bool" where
  "HasWitness tx \<longleftrightarrow> (\<exists>i \<in> set (vin tx). scriptWitness i \<noteq> [])"

subsection \<open>Amounts\<close>

definition COIN :: int where
  "COIN = 100000000"

definition MAX_MONEY :: int where
  "MAX_MONEY = 21000000 * COIN"

definition MoneyRange :: "int \<Rightarrow> bool" where
  "MoneyRange v \<longleftrightarrow> 0 \<le> v \<and> v \<le> MAX_MONEY"

text \<open>\<open>GetValueOut\<close> throws when a value or a partial sum leaves the money range.\<close>

fun GetValueOut_loop :: "int \<Rightarrow> CTxOut list \<Rightarrow> int option" where
  "GetValueOut_loop nValueOut [] = (if MoneyRange nValueOut then Some nValueOut else None)"
| "GetValueOut_loop nValueOut (tx_out # outs) =
     (if \<not> MoneyRange (sint (nValue tx_out)) \<or> \<not> MoneyRange (nValueOut + sint (nValue tx_out)) then None
      else GetValueOut_loop (nValueOut + sint (nValue tx_out)) outs)"

definition GetValueOut :: "CTransaction \<Rightarrow> int option" where
  "GetValueOut tx = GetValueOut_loop 0 (vout tx)"

subsection \<open>Serialisation\<close>

definition Ser_COutPoint :: "COutPoint \<Rightarrow> bytes" where
  "Ser_COutPoint o' = ser_uint256 (op_hash o') @ ser_writedata32 (op_n o')"

definition Unser_COutPoint :: "COutPoint reader" where
  "Unser_COutPoint = rbind unser_uint256 (\<lambda>h. rbind ser_readdata32 (\<lambda>n.
     rreturn \<lparr>op_hash = h, op_n = n\<rparr>))"

definition Ser_CTxIn :: "CTxIn \<Rightarrow> bytes" where
  "Ser_CTxIn i = Ser_COutPoint (prevout i) @ Serialize_bytes (scriptSig i) @ ser_writedata32 (nSequence i)"

definition Unser_CTxIn :: "CTxIn reader" where
  "Unser_CTxIn = rbind Unser_COutPoint (\<lambda>p. rbind Unserialize_bytes (\<lambda>sc. rbind ser_readdata32 (\<lambda>q.
     rreturn \<lparr>prevout = p, scriptSig = sc, nSequence = q, scriptWitness = []\<rparr>)))"

definition Ser_CTxOut :: "CTxOut \<Rightarrow> bytes" where
  "Ser_CTxOut out = ser_writedata64 (nValue out) @ Serialize_bytes (scriptPubKey out)"

definition Unser_CTxOut :: "CTxOut reader" where
  "Unser_CTxOut = rbind ser_readdata64 (\<lambda>v. rbind Unserialize_bytes (\<lambda>sc.
     rreturn \<lparr>nValue = v, scriptPubKey = sc\<rparr>))"

definition Ser_witness :: "bytes list \<Rightarrow> bytes" where
  "Ser_witness = VectorFormatter_Ser Serialize_bytes"

definition Unser_witness :: "abi \<Rightarrow> bytes list reader" where
  "Unser_witness a = VectorFormatter_Unser (sizeof_bytes a) Unserialize_bytes"

definition SerializeTransaction :: "bool \<Rightarrow> CTransaction \<Rightarrow> bytes" where
  "SerializeTransaction fAllowWitness tx =
     (let flags = (if fAllowWitness \<and> HasWitness tx then 1 else 0 :: u8)
      in ser_writedata32 (version tx)
         @ (if flags \<noteq> 0 then VectorFormatter_Ser Ser_CTxIn [] @ ser_writedata8 flags else [])
         @ VectorFormatter_Ser Ser_CTxIn (vin tx)
         @ VectorFormatter_Ser Ser_CTxOut (vout tx)
         @ (if flags AND 1 \<noteq> 0 then concat (map (\<lambda>i. Ser_witness (scriptWitness i)) (vin tx)) else [])
         @ ser_writedata32 (nLockTime tx))"

fun Unser_witnesses :: "abi \<Rightarrow> CTxIn list \<Rightarrow> CTxIn list reader" where
  "Unser_witnesses a [] s = Inr ([], s)"
| "Unser_witnesses a (i # is) s =
     (case Unser_witness a s of
        Inl e \<Rightarrow> Inl e
      | Inr (w, s') \<Rightarrow>
          (case Unser_witnesses a is s' of
             Inl e \<Rightarrow> Inl e
           | Inr (is', s'') \<Rightarrow> Inr (i\<lparr>scriptWitness := w\<rparr> # is', s'')))"

text \<open>
  \<open>UnserializeTransaction\<close> in its three stages: the inputs and outputs with the flag byte, the
  witnesses, and the whole.
\<close>

definition UnserializeTransaction_inouts :: "abi \<Rightarrow> bool \<Rightarrow> CTxIn list \<Rightarrow> (u8 \<times> CTxIn list \<times> CTxOut list) reader" where
  "UnserializeTransaction_inouts a fAllowWitness vin0 =
     (if vin0 = [] \<and> fAllowWitness then
        rbind ser_readdata8 (\<lambda>flags.
          if flags \<noteq> 0 then
            rbind (VectorFormatter_Unser (sizeof_CTxIn a) Unser_CTxIn) (\<lambda>vin1.
            rbind (VectorFormatter_Unser (sizeof_CTxOut a) Unser_CTxOut) (\<lambda>vout1.
            rreturn (flags, vin1, vout1)))
          else rreturn (flags, vin0, []))
      else
        rbind (VectorFormatter_Unser (sizeof_CTxOut a) Unser_CTxOut) (\<lambda>vout1. rreturn (0, vin0, vout1)))"

definition UnserializeTransaction_witness :: "abi \<Rightarrow> bool \<Rightarrow> u8 \<Rightarrow> CTransaction \<Rightarrow> (u8 \<times> CTransaction) reader" where
  "UnserializeTransaction_witness a fAllowWitness flags tx =
     (if flags AND 1 \<noteq> 0 \<and> fAllowWitness then
        rbind (Unser_witnesses a (vin tx)) (\<lambda>vin2.
          if \<not> HasWitness (tx\<lparr>vin := vin2\<rparr>) then rthrow SuperfluousWitness
          else rreturn (flags XOR 1, tx\<lparr>vin := vin2\<rparr>))
      else rreturn (flags, tx))"

definition UnserializeTransaction :: "abi \<Rightarrow> bool \<Rightarrow> CTransaction reader" where
  "UnserializeTransaction a fAllowWitness =
     rbind ser_readdata32 (\<lambda>ver.
     rbind (VectorFormatter_Unser (sizeof_CTxIn a) Unser_CTxIn) (\<lambda>vin0.
     rbind (UnserializeTransaction_inouts a fAllowWitness vin0) (\<lambda>(flags, vin1, vout1).
     rbind (UnserializeTransaction_witness a fAllowWitness flags
              \<lparr>vin = vin1, vout = vout1, version = ver, nLockTime = 0\<rparr>) (\<lambda>(flags', tx).
     if flags' \<noteq> 0 then rthrow UnknownOptionalData
     else rbind ser_readdata32 (\<lambda>lt. rreturn (tx\<lparr>nLockTime := lt\<rparr>))))))"

subsection \<open>Codecs of the parts\<close>

definition script_ok :: "bytes \<Rightarrow> bool" where
  "script_ok sc \<longleftrightarrow> length sc \<le> 0x2000000"

interpretation outpointc: codec Ser_COutPoint Unser_COutPoint "\<lambda>_. True"
proof unfold_locales
  fix bs rest and x :: COutPoint
  show "Unser_COutPoint bs = Inr (x, rest) \<longleftrightarrow> True \<and> bs = Ser_COutPoint x @ rest"
    by (cases x) (auto simp: Unser_COutPoint_def Ser_COutPoint_def u256c.dec_iff u32c.dec_iff)
qed

definition strip_witness :: "CTxIn \<Rightarrow> CTxIn" where
  "strip_witness i = i\<lparr>scriptWitness := []\<rparr>"

interpretation txinc: codec Ser_CTxIn Unser_CTxIn "\<lambda>i. script_ok (scriptSig i) \<and> scriptWitness i = []"
proof unfold_locales
  fix bs rest and x :: CTxIn
  show "Unser_CTxIn bs = Inr (x, rest) \<longleftrightarrow>
      (script_ok (scriptSig x) \<and> scriptWitness x = []) \<and> bs = Ser_CTxIn x @ rest"
    by (cases x) (auto simp: Unser_CTxIn_def Ser_CTxIn_def outpointc.dec_iff bytesc.dec_iff u32c.dec_iff
        script_ok_def)
qed

interpretation txoutc: codec Ser_CTxOut Unser_CTxOut "\<lambda>out. script_ok (scriptPubKey out)"
proof unfold_locales
  fix bs rest and x :: CTxOut
  show "Unser_CTxOut bs = Inr (x, rest) \<longleftrightarrow> script_ok (scriptPubKey x) \<and> bs = Ser_CTxOut x @ rest"
    by (cases x) (auto simp: Unser_CTxOut_def Ser_CTxOut_def bytesc.dec_iff u64c.dec_iff script_ok_def)
qed

definition witness_ok :: "bytes list \<Rightarrow> bool" where
  "witness_ok w \<longleftrightarrow> length w \<le> 0x2000000 \<and> (\<forall>e \<in> set w. length e \<le> 0x2000000)"

lemma abi_okD:
  assumes "abi_ok a"
  shows "0 < sizeof_CTxIn a" "sizeof_CTxIn a \<le> MAX_VECTOR_ALLOCATE"
    "0 < sizeof_CTxOut a" "sizeof_CTxOut a \<le> MAX_VECTOR_ALLOCATE"
    "0 < sizeof_bytes a" "sizeof_bytes a \<le> MAX_VECTOR_ALLOCATE"
  using assms by (auto simp: abi_ok_def)

lemma witness_iff:
  assumes "abi_ok a"
  shows "Unser_witness a bs = Inr (w, rest) \<longleftrightarrow> witness_ok w \<and> bs = Ser_witness w @ rest"
  using codec.dec_iff [OF bytesc.VectorFormatter_codec [OF abi_okD(5,6) [OF assms]]]
  by (simp add: Unser_witness_def Ser_witness_def witness_ok_def)

lemma vin_iff:
  assumes "abi_ok a"
  shows "VectorFormatter_Unser (sizeof_CTxIn a) Unser_CTxIn bs = Inr (v, rest) \<longleftrightarrow>
    (length v \<le> 0x2000000 \<and> (\<forall>i \<in> set v. script_ok (scriptSig i) \<and> scriptWitness i = [])) \<and>
    bs = VectorFormatter_Ser Ser_CTxIn v @ rest"
  by (rule codec.dec_iff [OF txinc.VectorFormatter_codec [OF abi_okD(1,2) [OF assms]]])

lemma vout_iff:
  assumes "abi_ok a"
  shows "VectorFormatter_Unser (sizeof_CTxOut a) Unser_CTxOut bs = Inr (v, rest) \<longleftrightarrow>
    (length v \<le> 0x2000000 \<and> (\<forall>out \<in> set v. script_ok (scriptPubKey out))) \<and>
    bs = VectorFormatter_Ser Ser_CTxOut v @ rest"
  by (rule codec.dec_iff [OF txoutc.VectorFormatter_codec [OF abi_okD(3,4) [OF assms]]])

lemma Unser_witnesses_iff:
  assumes "abi_ok a"
  shows "Unser_witnesses a is s = Inr (is', r) \<longleftrightarrow>
    map strip_witness is' = map strip_witness is \<and> (\<forall>i \<in> set is'. witness_ok (scriptWitness i)) \<and>
    s = concat (map (\<lambda>i. Ser_witness (scriptWitness i)) is') @ r"
proof (induction "is" arbitrary: s is')
  case Nil
  then show ?case by auto
next
  case (Cons i "is")
  have "Unser_witnesses a (i # is) s = Inr (is', r) \<longleftrightarrow>
      (\<exists>w s' js. is' = i\<lparr>scriptWitness := w\<rparr> # js \<and> Unser_witness a s = Inr (w, s') \<and>
        Unser_witnesses a is s' = Inr (js, r))"
    by (auto split: sum.splits)
  also have "\<dots> \<longleftrightarrow> (\<exists>w js. is' = i\<lparr>scriptWitness := w\<rparr> # js \<and> witness_ok w \<and>
      map strip_witness js = map strip_witness is \<and> (\<forall>i \<in> set js. witness_ok (scriptWitness i)) \<and>
      s = Ser_witness w @ concat (map (\<lambda>i. Ser_witness (scriptWitness i)) js) @ r)"
    unfolding witness_iff [OF assms] Cons.IH by auto
  also have "\<dots> \<longleftrightarrow> map strip_witness is' = map strip_witness (i # is) \<and> (\<forall>i \<in> set is'. witness_ok (scriptWitness i)) \<and>
    s = concat (map (\<lambda>i. Ser_witness (scriptWitness i)) is') @ r"
  proof -
    have "strip_witness j = strip_witness i \<longleftrightarrow> (\<exists>w. j = i\<lparr>scriptWitness := w\<rparr>)" for j
      by (cases i; cases j) (auto simp: strip_witness_def)
    then show ?thesis by (cases is') auto
  qed
  finally show ?case .
qed

lemma Ser_CTxIn_strip [simp]: "Ser_CTxIn (strip_witness i) = Ser_CTxIn i"
  by (simp add: Ser_CTxIn_def strip_witness_def)

lemma strip_witness_sel [simp]:
  "scriptSig (strip_witness i) = scriptSig i" "scriptWitness (strip_witness i) = []"
  by (simp_all add: strip_witness_def)

lemma strip_witness_id: "scriptWitness i = [] \<Longrightarrow> strip_witness i = i"
  by (cases i) (simp add: strip_witness_def)

lemma VectorSer_strip: "VectorFormatter_Ser Ser_CTxIn (map strip_witness v) = VectorFormatter_Ser Ser_CTxIn v"
  by (simp add: VectorFormatter_Ser_def comp_def)

lemma VectorSer_Nil: "VectorFormatter_Ser ser [] = [0]"
  by (simp add: VectorFormatter_Ser_def WriteCompactSize_def ser_writedata8_def)

subsection \<open>The whole transaction\<close>

definition tx_fields_ok :: "CTransaction \<Rightarrow> bool" where
  "tx_fields_ok tx \<longleftrightarrow> length (vin tx) \<le> 0x2000000 \<and> length (vout tx) \<le> 0x2000000
     \<and> (\<forall>i \<in> set (vin tx). script_ok (scriptSig i) \<and> witness_ok (scriptWitness i))
     \<and> (\<forall>out \<in> set (vout tx). script_ok (scriptPubKey out))"

text \<open>
  The transactions that have an encoding: with witnesses allowed, a transaction without inputs
  must have no outputs (its output count would be read as the flag byte); without them, no input
  carries a witness.
\<close>

definition tx_encodable :: "bool \<Rightarrow> CTransaction \<Rightarrow> bool" where
  "tx_encodable allow tx \<longleftrightarrow> tx_fields_ok tx \<and>
     (if allow then vin tx = [] \<longrightarrow> vout tx = [] else \<not> HasWitness tx)"

definition vin_ok :: "CTxIn list \<Rightarrow> bool" where
  "vin_ok v \<longleftrightarrow> length v \<le> 0x2000000 \<and> (\<forall>i \<in> set v. script_ok (scriptSig i) \<and> scriptWitness i = [])"

definition vout_ok :: "CTxOut list \<Rightarrow> bool" where
  "vout_ok v \<longleftrightarrow> length v \<le> 0x2000000 \<and> (\<forall>out \<in> set v. script_ok (scriptPubKey out))"

lemma inouts_iff:
  assumes a: "abi_ok a"
  shows "UnserializeTransaction_inouts a allow vin0 s = Inr ((flags, vin1, vout1), r) \<longleftrightarrow>
    (if vin0 = [] \<and> allow then
       (flags = 0 \<and> vin1 = [] \<and> vout1 = [] \<and> s = 0 # r) \<or>
       (flags \<noteq> 0 \<and> vin_ok vin1 \<and> vout_ok vout1 \<and>
         s = flags # VectorFormatter_Ser Ser_CTxIn vin1 @ VectorFormatter_Ser Ser_CTxOut vout1 @ r)
     else flags = 0 \<and> vin1 = vin0 \<and> vout_ok vout1 \<and> s = VectorFormatter_Ser Ser_CTxOut vout1 @ r)"
proof (cases "vin0 = [] \<and> allow")
  case True
  have "(if f \<noteq> 0 then
           rbind (VectorFormatter_Unser (sizeof_CTxIn a) Unser_CTxIn) (\<lambda>v.
           rbind (VectorFormatter_Unser (sizeof_CTxOut a) Unser_CTxOut) (\<lambda>w. rreturn (f, v, w)))
         else rreturn (f, [], [])) t = Inr ((flags, vin1, vout1), r) \<longleftrightarrow>
      f = flags \<and> (if flags = 0 then vin1 = [] \<and> vout1 = [] \<and> t = r
        else vin_ok vin1 \<and> vout_ok vout1 \<and> t = VectorFormatter_Ser Ser_CTxIn vin1 @ VectorFormatter_Ser Ser_CTxOut vout1 @ r)"
    for f :: u8 and t
    by (cases "f = 0") (auto simp: vin_iff [OF a] vout_iff [OF a] vin_ok_def vout_ok_def)
  with True show ?thesis
    by (auto simp: UnserializeTransaction_inouts_def ser_readdata8_iff)
next
  case False
  then show ?thesis
    by (auto simp: UnserializeTransaction_inouts_def vout_iff [OF a] vout_ok_def)
qed

lemma witness_stage_iff:
  assumes a: "abi_ok a"
  shows "UnserializeTransaction_witness a allow flags tx s = Inr ((flags', tx'), r) \<longleftrightarrow>
    (if flags AND 1 \<noteq> 0 \<and> allow then
       (\<exists>v. flags' = flags XOR 1 \<and> tx' = tx\<lparr>vin := v\<rparr> \<and> map strip_witness v = map strip_witness (vin tx)
         \<and> (\<forall>i \<in> set v. witness_ok (scriptWitness i)) \<and> HasWitness tx'
         \<and> s = concat (map (\<lambda>i. Ser_witness (scriptWitness i)) v) @ r)
     else flags' = flags \<and> tx' = tx \<and> r = s)"
  by (auto simp: UnserializeTransaction_witness_def Unser_witnesses_iff [OF a])

lemma xor_1_eq_0: "(flags :: u8) XOR 1 = 0 \<longleftrightarrow> flags = 1"
proof
  assume "flags XOR 1 = 0"
  then have "(flags XOR 1) XOR 1 = 0 XOR 1" by simp
  then show "flags = 1" by (simp add: xor.assoc)
qed simp

lemma map_strip_okD:
  assumes "map strip_witness v = map strip_witness vin1" "vin_ok vin1"
  shows "length v \<le> 0x2000000" "\<forall>i \<in> set v. script_ok (scriptSig i)"
    "VectorFormatter_Ser Ser_CTxIn vin1 = VectorFormatter_Ser Ser_CTxIn v"
proof -
  show "length v \<le> 0x2000000"
    using assms(2) map_eq_imp_length_eq [OF assms(1)] by (simp add: vin_ok_def)
  show "VectorFormatter_Ser Ser_CTxIn vin1 = VectorFormatter_Ser Ser_CTxIn v"
    using assms(1) VectorSer_strip [of v] VectorSer_strip [of vin1] by simp
  have "strip_witness ` set v = strip_witness ` set vin1"
    using arg_cong [OF assms(1), of set] by simp
  show "\<forall>i \<in> set v. script_ok (scriptSig i)"
  proof
    fix i assume "i \<in> set v"
    with \<open>strip_witness ` set v = strip_witness ` set vin1\<close>
    obtain j where "j \<in> set vin1" "strip_witness i = strip_witness j" by blast
    then have "scriptSig i = scriptSig j" using strip_witness_sel(1) [of i] by simp
    with \<open>j \<in> set vin1\<close> assms(2) show "script_ok (scriptSig i)" by (simp add: vin_ok_def)
  qed
qed

lemma UnserializeTransaction_iff:
  assumes a: "abi_ok a"
  shows "UnserializeTransaction a allow bs = Inr (tx, rest) \<longleftrightarrow>
    (\<exists>ver vin0 s1 flags vin1 vout1 s2 tx' lt.
       vin_ok vin0 \<and> bs = ser_writedata32 ver @ VectorFormatter_Ser Ser_CTxIn vin0 @ s1
       \<and> UnserializeTransaction_inouts a allow vin0 s1 = Inr ((flags, vin1, vout1), s2)
       \<and> UnserializeTransaction_witness a allow flags
            \<lparr>vin = vin1, vout = vout1, version = ver, nLockTime = 0\<rparr> s2 = Inr ((0, tx'), ser_writedata32 lt @ rest)
       \<and> tx = tx'\<lparr>nLockTime := lt\<rparr>)"
proof -
  have last: "(if flags' \<noteq> 0 then rthrow UnknownOptionalData
       else rbind ser_readdata32 (\<lambda>lt. rreturn (tx'\<lparr>nLockTime := lt\<rparr>))) s = Inr (tx, rest) \<longleftrightarrow>
     (\<exists>lt. flags' = 0 \<and> s = ser_writedata32 lt @ rest \<and> tx = tx'\<lparr>nLockTime := lt\<rparr>)"
    for flags' :: u8 and tx' s
    by (auto simp: u32c.dec_iff)
  show ?thesis
    unfolding UnserializeTransaction_def rbind_Inr_iff split_paired_Ex prod.case last u32c.dec_iff vin_iff [OF a] vin_ok_def
    by (simp, blast)
qed


lemma SerializeTransaction_plain:
  "\<not> (allow \<and> HasWitness tx) \<Longrightarrow> SerializeTransaction allow tx =
     ser_writedata32 (version tx) @ VectorFormatter_Ser Ser_CTxIn (vin tx) @
     VectorFormatter_Ser Ser_CTxOut (vout tx) @ ser_writedata32 (nLockTime tx)"
  by (auto simp: SerializeTransaction_def)

lemma SerializeTransaction_extended:
  "HasWitness tx \<Longrightarrow> SerializeTransaction True tx =
     ser_writedata32 (version tx) @ 0 # 1 # VectorFormatter_Ser Ser_CTxIn (vin tx) @
     VectorFormatter_Ser Ser_CTxOut (vout tx) @
     concat (map (\<lambda>i. Ser_witness (scriptWitness i)) (vin tx)) @ ser_writedata32 (nLockTime tx)"
  by (simp add: SerializeTransaction_def VectorSer_Nil ser_writedata8_def)

lemma tx_fields_ok_plain:
  "\<not> HasWitness tx \<Longrightarrow> tx_fields_ok tx \<longleftrightarrow> vin_ok (vin tx) \<and> vout_ok (vout tx)"
  by (auto simp: tx_fields_ok_def vin_ok_def vout_ok_def HasWitness_def witness_ok_def)

lemma UnserializeTransaction_sound:
  assumes a: "abi_ok a" and u: "UnserializeTransaction a allow bs = Inr (tx, rest)"
  shows "tx_encodable allow tx \<and> bs = SerializeTransaction allow tx @ rest"
proof -
  from u obtain ver vin0 s1 flags vin1 vout1 s2 tx' lt where
    v0: "vin_ok vin0" and bs: "bs = ser_writedata32 ver @ VectorFormatter_Ser Ser_CTxIn vin0 @ s1"
    and io: "UnserializeTransaction_inouts a allow vin0 s1 = Inr ((flags, vin1, vout1), s2)"
    and wi: "UnserializeTransaction_witness a allow flags
            \<lparr>vin = vin1, vout = vout1, version = ver, nLockTime = 0\<rparr> s2 = Inr ((0, tx'), ser_writedata32 lt @ rest)"
    and tx: "tx = tx'\<lparr>nLockTime := lt\<rparr>"
    unfolding UnserializeTransaction_iff [OF a] by blast
  show ?thesis
  proof (cases "flags = 0")
    case True
    from wi True have tx': "tx' = \<lparr>vin = vin1, vout = vout1, version = ver, nLockTime = 0\<rparr>"
      and s2: "s2 = ser_writedata32 lt @ rest"
      by (simp_all add: witness_stage_iff [OF a])
    have io': "vin1 = vin0 \<and> vout_ok vout1 \<and> s1 = VectorFormatter_Ser Ser_CTxOut vout1 @ s2 \<and>
        (allow \<and> vin0 = [] \<longrightarrow> vout1 = [])"
      using io True by (auto simp: inouts_iff [OF a] VectorSer_Nil vout_ok_def split: if_splits)
    have "\<not> HasWitness tx" using v0 io' by (auto simp: tx tx' HasWitness_def vin_ok_def)
    then show ?thesis
      using io' v0 by (auto simp: tx_encodable_def tx_fields_ok_plain SerializeTransaction_plain tx tx' bs s2)
  next
    case False
    with io have c: "vin0 = []" "allow" "vin_ok vin1" "vout_ok vout1"
      "s1 = flags # VectorFormatter_Ser Ser_CTxIn vin1 @ VectorFormatter_Ser Ser_CTxOut vout1 @ s2"
      by (auto simp: inouts_iff [OF a] split: if_splits)
    with wi False obtain v where w: "flags XOR 1 = 0" "tx' = \<lparr>vin = v, vout = vout1, version = ver, nLockTime = 0\<rparr>"
      "map strip_witness v = map strip_witness vin1" "\<forall>i \<in> set v. witness_ok (scriptWitness i)"
      "HasWitness tx'" "s2 = concat (map (\<lambda>i. Ser_witness (scriptWitness i)) v) @ ser_writedata32 lt @ rest"
      by (auto simp: witness_stage_iff [OF a] split: if_splits)
    note m = map_strip_okD [OF w(3) c(3)]
    have h: "HasWitness tx" "vin tx \<noteq> []" using w(5) by (auto simp: tx HasWitness_def)
    then have "tx_encodable allow tx"
      using m w c(2,4) by (simp add: tx_encodable_def tx_fields_ok_def tx vout_ok_def)
    moreover have "bs = SerializeTransaction allow tx @ rest"
      using c w h m by (simp add: bs SerializeTransaction_extended tx xor_1_eq_0 VectorSer_Nil)
    ultimately show ?thesis ..
  qed
qed

lemma UnserializeTransaction_complete:
  assumes a: "abi_ok a" and e: "tx_encodable allow tx"
  shows "UnserializeTransaction a allow (SerializeTransaction allow tx @ rest) = Inr (tx, rest)"
proof (cases "allow \<and> HasWitness tx")
  case False
  then have nw: "\<not> HasWitness tx" using e by (auto simp: tx_encodable_def split: if_splits)
  with e have ok: "vin_ok (vin tx)" "vout_ok (vout tx)" "allow \<and> vin tx = [] \<longrightarrow> vout tx = []"
    by (auto simp: tx_encodable_def tx_fields_ok_plain split: if_splits)
  have "UnserializeTransaction_inouts a allow (vin tx) (VectorFormatter_Ser Ser_CTxOut (vout tx) @ s) =
      Inr ((0, vin tx, vout tx), s)" for s
    using ok by (auto simp: inouts_iff [OF a] VectorSer_Nil)
  then show ?thesis
    unfolding UnserializeTransaction_iff [OF a] SerializeTransaction_plain [OF False]
    using ok nw
    by (intro exI [of _ "version tx"] exI [of _ "vin tx"] exI [of _ "0 :: u8"] exI [of _ "vout tx"]
        exI [of _ "nLockTime tx"] exI [of _ "tx\<lparr>nLockTime := 0\<rparr>"] exI conjI) (auto simp: witness_stage_iff [OF a])
next
  case True
  let ?v = "map strip_witness (vin tx)"
  from e True have ok: "vin_ok ?v" "vout_ok (vout tx)" "\<forall>i \<in> set (vin tx). witness_ok (scriptWitness i)"
    by (auto simp: tx_encodable_def tx_fields_ok_def vin_ok_def vout_ok_def)
  have "strip_witness \<circ> strip_witness = strip_witness" by (auto simp: strip_witness_def)
  then have idem: "map strip_witness (vin tx) = map strip_witness ?v" by simp
  have "vin_ok []" by (simp add: vin_ok_def)
  moreover have "UnserializeTransaction_inouts a allow []
      (1 # VectorFormatter_Ser Ser_CTxIn (vin tx) @ VectorFormatter_Ser Ser_CTxOut (vout tx) @ s) =
      Inr ((1, ?v, vout tx), s)" for s
    using ok True by (simp add: inouts_iff [OF a] VectorSer_strip)
  moreover have "UnserializeTransaction_witness a allow 1
      \<lparr>vin = ?v, vout = vout tx, version = version tx, nLockTime = 0\<rparr>
      (concat (map (\<lambda>i. Ser_witness (scriptWitness i)) (vin tx)) @ s) = Inr ((0, tx\<lparr>nLockTime := 0\<rparr>), s)" for s
    using ok True idem unfolding witness_stage_iff [OF a]
    by (auto simp: HasWitness_def intro!: exI [of _ "vin tx"])
  ultimately have "UnserializeTransaction a True (SerializeTransaction True tx @ rest) = Inr (tx, rest)"
    using True unfolding UnserializeTransaction_iff [OF a]
    by (intro exI [of _ "version tx"] exI [of _ "[]"] exI [of _ "1 :: u8"] exI [of _ "?v"] exI [of _ "vout tx"]
        exI [of _ "nLockTime tx"] exI [of _ "tx\<lparr>nLockTime := 0\<rparr>"] exI conjI)
      (auto simp: SerializeTransaction_extended VectorSer_Nil)
  with True show ?thesis by simp
qed

subsection \<open>Output values\<close>

lemma GetValueOut_loop_eq:
  "MoneyRange acc \<Longrightarrow> GetValueOut_loop acc outs =
     (if (\<forall>out \<in> set outs. MoneyRange (sint (nValue out))) \<and>
         MoneyRange (acc + (\<Sum>out \<leftarrow> outs. sint (nValue out)))
      then Some (acc + (\<Sum>out \<leftarrow> outs. sint (nValue out))) else None)"
proof (induction outs arbitrary: acc)
  case Nil
  then show ?case by simp
next
  case (Cons out outs)
  let ?v = "sint (nValue out)" and ?s = "\<Sum>out \<leftarrow> outs. sint (nValue out)"
  show ?case
  proof (cases "MoneyRange ?v \<and> MoneyRange (acc + ?v)")
    case True
    then have "GetValueOut_loop acc (out # outs) = GetValueOut_loop (acc + ?v) outs" by simp
    with Cons.IH [of "acc + ?v"] True show ?thesis by (auto simp: add.assoc)
  next
    case False
    have "0 \<le> ?s" if "\<forall>out \<in> set outs. MoneyRange (sint (nValue out))"
      using that by (intro sum_list_nonneg) (auto simp: MoneyRange_def)
    with False Cons.prems show ?thesis
      by (auto simp: MoneyRange_def)
  qed
qed

lemma GetValueOut_eq:
  "GetValueOut tx =
     (if (\<forall>out \<in> set (vout tx). MoneyRange (sint (nValue out))) \<and>
         MoneyRange (\<Sum>out \<leftarrow> vout tx. sint (nValue out))
      then Some (\<Sum>out \<leftarrow> vout tx. sint (nValue out)) else None)"
  using GetValueOut_loop_eq [of 0 "vout tx"] by (simp add: GetValueOut_def MoneyRange_def MAX_MONEY_def COIN_def)

subsection \<open>Properties\<close>

text \<open>
  C4: The transaction format is canonical in both modes. \<open>UnserializeTransaction\<close> returns \<open>tx\<close> from a
  stream exactly when \<open>tx\<close> is encodable and the stream starts with \<open>SerializeTransaction tx\<close>; so
  every encodable transaction survives a round trip, no transaction has two encodings, and the
  superfluous-witness, unknown-flag and non-canonical-size checks refuse everything else. The
  batch sizes in which vectors are allocated have no influence on the result.
\<close>

theorem transaction_encoding_canonical:
  assumes "abi_ok a"
  shows "UnserializeTransaction a allow bs = Inr (tx, rest) \<longleftrightarrow>
    tx_encodable allow tx \<and> bs = SerializeTransaction allow tx @ rest"
  using UnserializeTransaction_sound [OF assms] UnserializeTransaction_complete [OF assms] by blast

definition example_abi :: abi where
  "example_abi = \<lparr>sizeof_CTxIn = 104, sizeof_CTxOut = 48, sizeof_bytes = 24\<rparr>"

definition example_tx :: CTransaction where
  "example_tx = \<lparr>vin = [\<lparr>prevout = \<lparr>op_hash = 7, op_n = 1\<rparr>, scriptSig = [], nSequence = 0xFFFFFFFD,
       scriptWitness = [[1, 2], []]\<rparr>],
     vout = [\<lparr>nValue = 5000, scriptPubKey = [0x51]\<rparr>], version = 2, nLockTime = 0\<rparr>"

theorem transaction_encoding_canonical_witness:
  "abi_ok example_abi \<and>
   UnserializeTransaction example_abi True (SerializeTransaction True example_tx @ [9]) = Inr (example_tx, [9])"
proof -
  have a: "abi_ok example_abi"
    by (simp add: abi_ok_def example_abi_def MAX_VECTOR_ALLOCATE_def)
  moreover have "tx_encodable True example_tx"
    by (simp add: tx_encodable_def tx_fields_ok_def example_tx_def script_ok_def witness_ok_def)
  ultimately show ?thesis
    using transaction_encoding_canonical [OF a] by blast
qed

end
