(* ===== verification/Block.thy ===== *)
theory Block
  imports Transaction
begin

text \<open>
  Model of \<open>src/bitcoin/src/primitives/block.h\<close> and \<open>block.cpp\<close>: the 80-byte block header, the block and the block
  locator with their serializations. A header's hash is the hash of its serialization under the
  double SHA256 the caller passes as \<open>H\<close>.
\<close>

record CBlockHeader =
  nVersion :: u32
  hashPrevBlock :: uint256
  hashMerkleRoot :: uint256
  nTime :: u32
  nBits :: u32
  nNonce :: u32

record CBlock =
  header :: CBlockHeader
  vtx :: "CTransaction list"

record CBlockLocator =
  vHave :: "uint256 list"

definition CBlockHeader_SetNull :: CBlockHeader where
  "CBlockHeader_SetNull = \<lparr>nVersion = 0, hashPrevBlock = 0, hashMerkleRoot = 0, nTime = 0, nBits = 0, nNonce = 0\<rparr>"

definition CBlockHeader_IsNull :: "CBlockHeader \<Rightarrow> bool" where
  "CBlockHeader_IsNull h \<longleftrightarrow> nBits h = 0"

definition Ser_CBlockHeader :: "CBlockHeader \<Rightarrow> bytes" where
  "Ser_CBlockHeader h = ser_writedata32 (nVersion h) @ ser_uint256 (hashPrevBlock h) @ ser_uint256 (hashMerkleRoot h)
     @ ser_writedata32 (nTime h) @ ser_writedata32 (nBits h) @ ser_writedata32 (nNonce h)"

definition Unser_CBlockHeader :: "CBlockHeader reader" where
  "Unser_CBlockHeader =
     rbind ser_readdata32 (\<lambda>v. rbind unser_uint256 (\<lambda>p. rbind unser_uint256 (\<lambda>m.
     rbind ser_readdata32 (\<lambda>t. rbind ser_readdata32 (\<lambda>b. rbind ser_readdata32 (\<lambda>n.
     rreturn \<lparr>nVersion = v, hashPrevBlock = p, hashMerkleRoot = m, nTime = t, nBits = b, nNonce = n\<rparr>))))))"

definition CBlockHeader_GetHash :: "(bytes \<Rightarrow> uint256) \<Rightarrow> CBlockHeader \<Rightarrow> uint256" where
  "CBlockHeader_GetHash H h = H (Ser_CBlockHeader h)"

definition CBlockHeader_GetBlockTime :: "CBlockHeader \<Rightarrow> int" where
  "CBlockHeader_GetBlockTime h = uint (nTime h)"

definition Ser_CBlock :: "bool \<Rightarrow> CBlock \<Rightarrow> bytes" where
  "Ser_CBlock allow b = Ser_CBlockHeader (header b) @ VectorFormatter_Ser (SerializeTransaction allow) (vtx b)"

text \<open>\<open>esz\<close> is the size of a transaction pointer, which only sets how many elements are allocated at a time.\<close>

definition Unser_CBlock :: "abi \<Rightarrow> nat \<Rightarrow> bool \<Rightarrow> CBlock reader" where
  "Unser_CBlock a esz allow =
     rbind Unser_CBlockHeader (\<lambda>h. rbind (VectorFormatter_Unser esz (UnserializeTransaction a allow)) (\<lambda>txs.
     rreturn \<lparr>header = h, vtx = txs\<rparr>))"

definition CBlockLocator_DUMMY_VERSION :: u32 where
  "CBlockLocator_DUMMY_VERSION = 70016"

definition Ser_CBlockLocator :: "CBlockLocator \<Rightarrow> bytes" where
  "Ser_CBlockLocator l = ser_writedata32 CBlockLocator_DUMMY_VERSION @ VectorFormatter_Ser ser_uint256 (vHave l)"

text \<open>The version a locator was written with is read and dropped.\<close>

definition Unser_CBlockLocator :: "CBlockLocator reader" where
  "Unser_CBlockLocator = rbind ser_readdata32 (\<lambda>_. rbind (VectorFormatter_Unser 32 unser_uint256) (\<lambda>v.
     rreturn \<lparr>vHave = v\<rparr>))"

interpretation headerc: codec Ser_CBlockHeader Unser_CBlockHeader "\<lambda>_. True"
proof unfold_locales
  fix bs rest and x :: CBlockHeader
  show "Unser_CBlockHeader bs = Inr (x, rest) \<longleftrightarrow> True \<and> bs = Ser_CBlockHeader x @ rest"
    by (cases x) (auto simp: Unser_CBlockHeader_def Ser_CBlockHeader_def u256c.dec_iff u32c.dec_iff)
qed

lemma length_Ser_CBlockHeader: "length (Ser_CBlockHeader h) = 80"
  by (simp add: Ser_CBlockHeader_def ser_writedata32_def ser_uint256_def)

lemma transaction_codec:
  "abi_ok a \<Longrightarrow> codec (SerializeTransaction allow) (UnserializeTransaction a allow) (tx_encodable allow)"
  by unfold_locales (use UnserializeTransaction_sound UnserializeTransaction_complete in blast)

definition block_encodable :: "bool \<Rightarrow> CBlock \<Rightarrow> bool" where
  "block_encodable allow b \<longleftrightarrow> length (vtx b) \<le> 0x2000000 \<and> (\<forall>tx \<in> set (vtx b). tx_encodable allow tx)"

text \<open>C29: The block codec is canonical: a byte string decodes to a block and a rest exactly when it is the
  serialization of that block (with each transaction encodable) followed by the rest, so every block
  round trips and no two encodings decode to the same block.\<close>

theorem block_encoding_canonical:
  assumes "abi_ok a" "0 < esz" "esz \<le> MAX_VECTOR_ALLOCATE"
  shows "Unser_CBlock a esz allow bs = Inr (b, rest) \<longleftrightarrow> block_encodable allow b \<and> bs = Ser_CBlock allow b @ rest"
proof -
  have "codec (VectorFormatter_Ser (SerializeTransaction allow)) (VectorFormatter_Unser esz (UnserializeTransaction a allow))
      (\<lambda>v. length v \<le> 0x2000000 \<and> (\<forall>tx \<in> set v. tx_encodable allow tx))"
    by (rule codec.VectorFormatter_codec [OF transaction_codec [OF assms(1)] assms(2, 3)])
  from codec.dec_iff [OF this] show ?thesis
    by (cases b) (auto simp: Unser_CBlock_def Ser_CBlock_def headerc.dec_iff block_encodable_def)
qed

definition example_block :: CBlock where
  "example_block = \<lparr>header = CBlockHeader_SetNull\<lparr>nTime := 5, nBits := 0x1d00ffff\<rparr>, vtx = [example_tx]\<rparr>"

theorem block_encoding_canonical_witness:
  "Unser_CBlock example_abi 16 True (Ser_CBlock True example_block @ [1, 2]) = Inr (example_block, [1, 2])"
proof -
  have a: "abi_ok example_abi" by (simp add: abi_ok_def example_abi_def MAX_VECTOR_ALLOCATE_def)
  have "block_encodable True example_block"
    by (simp add: block_encodable_def example_block_def tx_encodable_def tx_fields_ok_def example_tx_def script_ok_def
        witness_ok_def)
  then show ?thesis
    using block_encoding_canonical [OF a, of 16] by (simp add: MAX_VECTOR_ALLOCATE_def)
qed

end
