(* ===== verification/ArithUint256.thy ===== *)
theory ArithUint256
  imports Serialize
begin

text \<open>
  Model of \<open>src/bitcoin/src/arith_uint256.h\<close> and \<open>arith_uint256.cpp\<close>: unsigned big integers as arrays of
  32-bit digits, least significant first, with the loops over the digits written as recursion over
  the list of digits. \<open>bval\<close> is the number an array stands for; the lemmas show that every
  operation computes the corresponding operation on numbers modulo \<open>2 ^ (32 * WIDTH)\<close>. The compact
  difficulty format (\<open>SetCompact\<close>, \<open>GetCompact\<close>) follows.
\<close>

subsection \<open>Operations\<close>

type_synonym base_uint = "u32 list"

definition base_uint_of_u64 :: "nat \<Rightarrow> u64 \<Rightarrow> base_uint" where
  "base_uint_of_u64 W b = [ucast b, ucast (drop_bit 32 b)] @ replicate (W - 2) 0"

definition base_uint_not :: "base_uint \<Rightarrow> base_uint" where
  "base_uint_not pn = map (\<lambda>x. NOT x) pn"

fun base_uint_incr :: "base_uint \<Rightarrow> base_uint" where
  "base_uint_incr [] = []"
| "base_uint_incr (x # xs) = (if x + 1 = 0 then (x + 1) # base_uint_incr xs else (x + 1) # xs)"

fun base_uint_decr :: "base_uint \<Rightarrow> base_uint" where
  "base_uint_decr [] = []"
| "base_uint_decr (x # xs) = (if x - 1 = 0xFFFFFFFF then (x - 1) # base_uint_decr xs else (x - 1) # xs)"

definition base_uint_neg :: "base_uint \<Rightarrow> base_uint" where
  "base_uint_neg pn = base_uint_incr (base_uint_not pn)"

fun base_uint_add_loop :: "u64 \<Rightarrow> base_uint \<Rightarrow> base_uint \<Rightarrow> base_uint" where
  "base_uint_add_loop carry (x # xs) (y # ys) =
     (let n = carry + ucast x + ucast y
      in ucast (n AND 0xFFFFFFFF) # base_uint_add_loop (drop_bit 32 n) xs ys)"
| "base_uint_add_loop carry xs ys = []"

definition base_uint_add :: "base_uint \<Rightarrow> base_uint \<Rightarrow> base_uint" where
  "base_uint_add a b = base_uint_add_loop 0 a b"

definition base_uint_sub :: "base_uint \<Rightarrow> base_uint \<Rightarrow> base_uint" where
  "base_uint_sub a b = base_uint_add a (base_uint_neg b)"

fun base_uint_mul32_loop :: "u64 \<Rightarrow> u32 \<Rightarrow> base_uint \<Rightarrow> base_uint" where
  "base_uint_mul32_loop carry b32 [] = []"
| "base_uint_mul32_loop carry b32 (x # xs) =
     (let n = carry + ucast b32 * ucast x
      in ucast (n AND 0xFFFFFFFF) # base_uint_mul32_loop (drop_bit 32 n) b32 xs)"

definition base_uint_mul32 :: "base_uint \<Rightarrow> u32 \<Rightarrow> base_uint" where
  "base_uint_mul32 a b32 = base_uint_mul32_loop 0 b32 a"

text \<open>The inner loop of the full product: \<open>xs\<close> are the digits \<open>a.pn[j..]\<close>, \<open>ys\<close> the digits of \<open>b\<close>.\<close>

fun base_uint_mul_inner :: "u64 \<Rightarrow> u32 \<Rightarrow> base_uint \<Rightarrow> base_uint \<Rightarrow> base_uint" where
  "base_uint_mul_inner carry p (x # xs) (y # ys) =
     (let n = carry + ucast x + ucast p * ucast y
      in ucast (n AND 0xFFFFFFFF) # base_uint_mul_inner (drop_bit 32 n) p xs ys)"
| "base_uint_mul_inner carry p xs ys = xs"

definition base_uint_mul :: "base_uint \<Rightarrow> base_uint \<Rightarrow> base_uint" where
  "base_uint_mul pn b =
     fold (\<lambda>j a. take j a @ base_uint_mul_inner 0 (pn ! j) (drop j a) b) [0..<length pn] (replicate (length pn) 0)"

text \<open>The body of the shift loops at digit \<open>i\<close>, with \<open>k\<close> whole digits and \<open>s\<close> bits to shift by.\<close>

definition base_uint_shl_step :: "base_uint \<Rightarrow> nat \<Rightarrow> nat \<Rightarrow> nat \<Rightarrow> base_uint \<Rightarrow> base_uint" where
  "base_uint_shl_step a k s i pn =
     (let W = length a;
          pn1 = (if i + k + 1 < W \<and> s \<noteq> 0
                 then pn[i + k + 1 := pn ! (i + k + 1) OR drop_bit (32 - s) (a ! i)] else pn)
      in if i + k < W then pn1[i + k := pn1 ! (i + k) OR push_bit s (a ! i)] else pn1)"

definition base_uint_shl :: "base_uint \<Rightarrow> nat \<Rightarrow> base_uint" where
  "base_uint_shl a sh =
     fold (base_uint_shl_step a (sh div 32) (sh mod 32)) [0..<length a] (replicate (length a) 0)"

definition base_uint_shr_step :: "base_uint \<Rightarrow> nat \<Rightarrow> nat \<Rightarrow> nat \<Rightarrow> base_uint \<Rightarrow> base_uint" where
  "base_uint_shr_step a k s i pn =
     (let pn1 = (if i \<ge> k + 1 \<and> s \<noteq> 0
                 then pn[i - k - 1 := pn ! (i - k - 1) OR push_bit (32 - s) (a ! i)] else pn)
      in if i \<ge> k then pn1[i - k := pn1 ! (i - k) OR drop_bit s (a ! i)] else pn1)"

definition base_uint_shr :: "base_uint \<Rightarrow> nat \<Rightarrow> base_uint" where
  "base_uint_shr a sh =
     fold (base_uint_shr_step a (sh div 32) (sh mod 32)) [0..<length a] (replicate (length a) 0)"

fun base_uint_CompareTo_loop :: "base_uint \<Rightarrow> base_uint \<Rightarrow> int" where
  "base_uint_CompareTo_loop (x # xs) (y # ys) =
     (if x < y then - 1 else if x > y then 1 else base_uint_CompareTo_loop xs ys)"
| "base_uint_CompareTo_loop xs ys = 0"

text \<open>The digits are compared from the most significant one down.\<close>

definition base_uint_CompareTo :: "base_uint \<Rightarrow> base_uint \<Rightarrow> int" where
  "base_uint_CompareTo a b = base_uint_CompareTo_loop (rev a) (rev b)"

definition base_uint_EqualTo :: "base_uint \<Rightarrow> u64 \<Rightarrow> bool" where
  "base_uint_EqualTo pn b \<longleftrightarrow>
     (\<forall>x \<in> set (drop 2 pn). x = 0) \<and> ucast (pn ! 1) = drop_bit 32 b \<and> ucast (pn ! 0) = b AND 0xFFFFFFFF"

fun highest_bit :: "nat \<Rightarrow> u32 \<Rightarrow> nat" where
  "highest_bit 0 w = 0"
| "highest_bit (Suc nbits) w = (if w AND push_bit (Suc nbits) 1 \<noteq> 0 then Suc nbits else highest_bit nbits w)"

fun base_uint_bits_loop :: "nat \<Rightarrow> base_uint \<Rightarrow> nat" where
  "base_uint_bits_loop 0 pn = 0"
| "base_uint_bits_loop (Suc pos) pn =
     (if pn ! pos \<noteq> 0 then 32 * pos + highest_bit 31 (pn ! pos) + 1 else base_uint_bits_loop pos pn)"

definition base_uint_bits :: "base_uint \<Rightarrow> nat" where
  "base_uint_bits pn = base_uint_bits_loop (length pn) pn"

fun base_uint_div_loop :: "nat \<Rightarrow> base_uint \<Rightarrow> base_uint \<Rightarrow> base_uint \<Rightarrow> base_uint" where
  "base_uint_div_loop 0 num dv q = q"
| "base_uint_div_loop (Suc sh) num dv q =
     (if base_uint_CompareTo num dv \<ge> 0 then
        base_uint_div_loop sh (base_uint_sub num dv) (base_uint_shr dv 1)
          (q[sh div 32 := q ! (sh div 32) OR push_bit (sh mod 32) 1])
      else base_uint_div_loop sh num (base_uint_shr dv 1) q)"

text \<open>Division; \<open>None\<close> is the thrown \<open>uint_error("Division by zero")\<close>.\<close>

definition base_uint_div :: "base_uint \<Rightarrow> base_uint \<Rightarrow> base_uint option" where
  "base_uint_div a b =
     (let num_bits = base_uint_bits a; div_bits = base_uint_bits b; q = replicate (length a) 0
      in if div_bits = 0 then None
         else if div_bits > num_bits then Some q
         else let sh = num_bits - div_bits
              in Some (base_uint_div_loop (Suc sh) a (base_uint_shl b sh) q))"

definition base_uint_GetLow64 :: "base_uint \<Rightarrow> u64" where
  "base_uint_GetLow64 pn = ucast (pn ! 0) OR push_bit 32 (ucast (pn ! 1))"

subsection \<open>The number a digit array stands for\<close>

primrec bval :: "base_uint \<Rightarrow> nat" where
  "bval [] = 0"
| "bval (x # xs) = unat x + 2 ^ 32 * bval xs"

lemma bval_append: "bval (xs @ ys) = bval xs + 2 ^ (32 * length xs) * bval ys"
  by (induction xs) (simp_all add: algebra_simps power_add)

lemma bval_bound: "bval xs < 2 ^ (32 * length xs)"
proof (induction xs)
  case (Cons x xs)
  have "bval xs + 1 \<le> 2 ^ (32 * length xs)" using Cons by simp
  then have "2 ^ 32 * (bval xs + 1) \<le> 2 ^ 32 * 2 ^ (32 * length xs)" by simp
  then show ?case using unat_u32_lt [of x] by (simp add: power_add del: unat_u32_lt)
qed simp

lemma bval_replicate [simp]: "bval (replicate n 0) = 0"
  by (induction n) simp_all

lemma bval_inj: "length xs = length ys \<Longrightarrow> bval xs = bval ys \<Longrightarrow> xs = ys"
proof (induction xs ys rule: list_induct2)
  case (Cons x xs y ys)
  have e: "unat x + 2 ^ 32 * bval xs = unat y + 2 ^ 32 * bval ys" using Cons.prems by simp
  have b: "unat x < 2 ^ 32" "unat y < 2 ^ 32" by simp_all
  from arg_cong [OF e, of "\<lambda>n. n mod 2 ^ 32"] b have "unat x = unat y"
    by (simp only: mod_mult_self2 mod_less)
  moreover from this e have "bval xs = bval ys" by simp
  ultimately show ?case using Cons.IH by (simp add: word_unat_eq_iff)
qed simp

text \<open>One step of a digit loop: the low digit of \<open>n\<close> stays, the rest is carried.\<close>

lemma unat_low32: "unat (ucast ((n :: u64) AND 0xFFFFFFFF) :: u32) = unat n mod 2 ^ 32"
proof -
  have "n AND 0xFFFFFFFF = take_bit 32 n" by (simp add: take_bit_eq_mask mask_eq_exp_minus_1)
  then show ?thesis by (simp add: unat_ucast_mod unsigned_take_bit_eq take_bit_eq_mod [where 'a = nat])
qed

lemma unat_high32: "unat (drop_bit 32 (n :: u64)) = unat n div 2 ^ 32"
  by (simp add: unat_drop_bit_eq drop_bit_eq_div [where 'a = nat])

lemma unat_ucast_u32_u64 [simp]: "unat (ucast (x :: u32) :: u64) = unat x"
  by (simp add: unat_ucast_up)

lemma carry_step:
  "(n mod B) + B * ((n div B + X) mod M) = (n + B * X) mod (B * M)" for n B X M :: nat
proof (cases "B = 0")
  case False
  have "(n + B * X) mod (B * M) = B * ((n + B * X) div B mod M) + (n + B * X) mod B"
    by (rule mod_mult2_eq)
  also have "(n + B * X) div B = n div B + X" using False by simp
  finally show ?thesis by simp
qed simp


subsection \<open>Addition, negation, subtraction\<close>

lemma length_base_uint_add_loop [simp]:
  "length xs = length ys \<Longrightarrow> length (base_uint_add_loop c xs ys) = length xs"
  by (induction c xs ys rule: base_uint_add_loop.induct) (auto simp: Let_def)

lemma bval_add_loop:
  "length xs = length ys \<Longrightarrow> unat c < 2 ^ 33 \<Longrightarrow>
   bval (base_uint_add_loop c xs ys) = (unat c + bval xs + bval ys) mod 2 ^ (32 * length xs)"
proof (induction xs ys arbitrary: c rule: list_induct2)
  case Nil
  then show ?case by simp
next
  case (Cons x xs y ys)
  define n where "n = c + ucast x + ucast y"
  have n: "unat n = unat c + unat x + unat y"
    using Cons.prems unat_u32_lt [of x] unat_u32_lt [of y]
    by (simp add: n_def unat_word_ariths del: unat_u32_lt)
  have "unat (drop_bit 32 n) < 2 ^ 33"
    using unat_u64_lt [of n] unfolding unat_high32 by (simp add: less_mult_imp_div_less del: unat_u64_lt)
  then have ih: "bval (base_uint_add_loop (drop_bit 32 n) xs ys) =
      (unat n div 2 ^ 32 + (bval xs + bval ys)) mod 2 ^ (32 * length xs)"
    using Cons.IH by (simp add: unat_high32 add.assoc)
  have "bval (base_uint_add_loop c (x # xs) (y # ys)) =
      unat n mod 2 ^ 32 + 2 ^ 32 * ((unat n div 2 ^ 32 + (bval xs + bval ys)) mod 2 ^ (32 * length xs))"
    by (simp add: Let_def unat_low32 ih flip: n_def)
  also have "\<dots> = (unat n + 2 ^ 32 * (bval xs + bval ys)) mod (2 ^ 32 * 2 ^ (32 * length xs))"
    by (rule carry_step)
  finally show ?case by (simp add: n algebra_simps power_add)
qed

lemma length_base_uint_add [simp]: "length a = length b \<Longrightarrow> length (base_uint_add a b) = length a"
  by (simp add: base_uint_add_def)

lemma bval_add:
  "length a = length b \<Longrightarrow> bval (base_uint_add a b) = (bval a + bval b) mod 2 ^ (32 * length a)"
  by (simp add: base_uint_add_def bval_add_loop)

lemma unat_Suc2': "(x :: 'a :: len word) + 1 \<noteq> 0 \<Longrightarrow> unat (x + 1) = Suc (unat x)"
  by (metis unatSuc add.commute)

lemma length_base_uint_incr [simp]: "length (base_uint_incr xs) = length xs"
  by (induction xs) auto

lemma bval_incr: "bval (base_uint_incr xs) = (bval xs + 1) mod 2 ^ (32 * length xs)"
proof (induction xs)
  case Nil
  then show ?case by simp
next
  case (Cons x xs)
  show ?case
  proof (cases "x + 1 = 0")
    case True
    then have "x = - 1" by (simp add: add_eq_0_iff2)
    then have x: "unat x = 2 ^ 32 - 1" by (simp add: unsigned_minus_1_eq_mask mask_eq_exp_minus_1)
    show ?thesis using True carry_step [of "2 ^ 32" "2 ^ 32" "bval xs" "2 ^ (32 * length xs)"]
      by (simp add: Cons x power_add add.commute)
  next
    case False
    have "unat (x + 1) = unat x + 1"
      using False unat_Suc2' [of x] by (simp add: add.commute)
    then show ?thesis using False bval_bound [of "(x + 1) # xs"]
      by (simp add: power_add)
  qed
qed

lemma length_base_uint_not [simp]: "length (base_uint_not xs) = length xs"
  by (simp add: base_uint_not_def)

lemma bval_not: "bval (base_uint_not xs) + bval xs + 1 = 2 ^ (32 * length xs)"
proof (induction xs)
  case Nil
  then show ?case by (simp add: base_uint_not_def)
next
  case (Cons x xs)
  have "NOT x = - 1 - x" by (simp add: not_eq_complement)
  then have "unat (NOT x) = unat (- 1 :: u32) - unat x" by (simp add: unat_sub)
  then have "unat (NOT x) + unat x = 2 ^ 32 - 1"
    using unat_u32_lt [of x] by (simp add: unsigned_minus_1_eq_mask mask_eq_exp_minus_1 del: unat_u32_lt)
  then have "bval (base_uint_not (x # xs)) + bval (x # xs) + 1 = 2 ^ 32 * (bval (base_uint_not xs) + bval xs + 1)"
    by (simp add: base_uint_not_def)
  also have "\<dots> = 2 ^ (32 * length (x # xs))" by (simp only: Cons) (simp add: power_add)
  finally show ?case .
qed

lemma length_base_uint_neg [simp]: "length (base_uint_neg xs) = length xs"
  by (simp add: base_uint_neg_def)

lemma bval_neg: "bval (base_uint_neg xs) = (2 ^ (32 * length xs) - bval xs) mod 2 ^ (32 * length xs)"
  using bval_not [of xs] by (simp add: base_uint_neg_def bval_incr flip: bval_not)

lemma length_base_uint_sub [simp]: "length a = length b \<Longrightarrow> length (base_uint_sub a b) = length a"
  by (simp add: base_uint_sub_def)

lemma bval_sub:
  "length a = length b \<Longrightarrow>
   bval (base_uint_sub a b) = (bval a + (2 ^ (32 * length a) - bval b)) mod 2 ^ (32 * length a)"
  by (simp add: base_uint_sub_def bval_add bval_neg mod_simps)

lemma bval_sub_le:
  assumes "length a = length b" "bval b \<le> bval a"
  shows "bval (base_uint_sub a b) = bval a - bval b"
proof -
  have "bval a < 2 ^ (32 * length a)" "bval b < 2 ^ (32 * length a)"
    using bval_bound [of a] bval_bound [of b] assms by auto
  then have "bval a + (2 ^ (32 * length a) - bval b) = (bval a - bval b) + 2 ^ (32 * length a)"
    "bval a - bval b < 2 ^ (32 * length a)"
    using assms by auto
  then show ?thesis using assms(1) by (simp add: bval_sub)
qed

subsection \<open>Products\<close>

lemma length_base_uint_mul32_loop [simp]: "length (base_uint_mul32_loop c b xs) = length xs"
  by (induction xs arbitrary: c) (auto simp: Let_def)

lemma mul_digit_bound: "unat (p :: u32) * unat (q :: u32) \<le> (2 ^ 32 - 1) * (2 ^ 32 - 1)"
  using unat_u32_lt [of p] unat_u32_lt [of q] by (intro mult_le_mono) (simp_all del: unat_u32_lt)

lemma bval_mul32_loop:
  "unat c < 2 ^ 32 \<Longrightarrow>
   bval (base_uint_mul32_loop c b xs) = (unat c + unat b * bval xs) mod 2 ^ (32 * length xs)"
proof (induction xs arbitrary: c)
  case Nil
  then show ?case by simp
next
  case (Cons x xs)
  define n where "n = c + ucast b * ucast x"
  have n: "unat n = unat c + unat b * unat x"
    using Cons.prems mul_digit_bound [of b x] by (simp add: n_def unat_word_ariths)
  have "unat (drop_bit 32 n) < 2 ^ 32"
    using unat_u64_lt [of n] unfolding unat_high32 by (simp add: less_mult_imp_div_less del: unat_u64_lt)
  then have ih: "bval (base_uint_mul32_loop (drop_bit 32 n) b xs) =
      (unat n div 2 ^ 32 + unat b * bval xs) mod 2 ^ (32 * length xs)"
    using Cons.IH by (simp add: unat_high32)
  have "bval (base_uint_mul32_loop c b (x # xs)) =
      unat n mod 2 ^ 32 + 2 ^ 32 * ((unat n div 2 ^ 32 + unat b * bval xs) mod 2 ^ (32 * length xs))"
    by (simp add: Let_def unat_low32 ih flip: n_def)
  also have "\<dots> = (unat n + 2 ^ 32 * (unat b * bval xs)) mod (2 ^ 32 * 2 ^ (32 * length xs))"
    by (rule carry_step)
  finally show ?case by (simp add: n algebra_simps power_add)
qed

lemma length_base_uint_mul32 [simp]: "length (base_uint_mul32 a b) = length a"
  by (simp add: base_uint_mul32_def)

lemma bval_mul32: "bval (base_uint_mul32 a b) = (bval a * unat b) mod 2 ^ (32 * length a)"
  by (simp add: base_uint_mul32_def bval_mul32_loop mult.commute)

lemma length_base_uint_mul_inner [simp]:
  "length xs \<le> length ys \<Longrightarrow> length (base_uint_mul_inner c p xs ys) = length xs"
  by (induction c p xs ys rule: base_uint_mul_inner.induct) (auto simp: Let_def)

lemma bval_mul_inner:
  "length xs \<le> length ys \<Longrightarrow> unat c < 2 ^ 32 \<Longrightarrow>
   bval (base_uint_mul_inner c p xs ys) = (unat c + bval xs + unat p * bval ys) mod 2 ^ (32 * length xs)"
proof (induction xs arbitrary: c ys)
  case Nil
  then show ?case by simp
next
  case (Cons x xs)
  then obtain y ys' where ys: "ys = y # ys'" by (cases ys) auto
  define n where "n = c + ucast x + ucast p * ucast y"
  have n: "unat n = unat c + unat x + unat p * unat y"
    using Cons.prems unat_u32_lt [of x] mul_digit_bound [of p y]
    by (simp add: n_def unat_word_ariths del: unat_u32_lt)
  have "unat (drop_bit 32 n) < 2 ^ 32"
    using unat_u64_lt [of n] unfolding unat_high32 by (simp add: less_mult_imp_div_less del: unat_u64_lt)
  then have ih: "bval (base_uint_mul_inner (drop_bit 32 n) p xs ys') =
      (unat n div 2 ^ 32 + (bval xs + unat p * bval ys')) mod 2 ^ (32 * length xs)"
    using Cons.IH Cons.prems by (simp add: unat_high32 ys add.assoc)
  have "bval (base_uint_mul_inner c p (x # xs) ys) =
      unat n mod 2 ^ 32 + 2 ^ 32 * ((unat n div 2 ^ 32 + (bval xs + unat p * bval ys')) mod 2 ^ (32 * length xs))"
    by (simp add: Let_def unat_low32 ih ys flip: n_def)
  also have "\<dots> = (unat n + 2 ^ 32 * (bval xs + unat p * bval ys')) mod (2 ^ 32 * 2 ^ (32 * length xs))"
    by (rule carry_step)
  finally show ?case by (simp add: n ys algebra_simps power_add)
qed

lemma bval_take_drop: "bval xs = bval (take j xs) + 2 ^ (32 * min j (length xs)) * bval (drop j xs)"
  using bval_append [of "take j xs" "drop j xs"] by (simp add: min.commute)

lemma bval_mul_fold:
  assumes "length b = length pn" "m \<le> length pn"
  defines "r \<equiv> \<lambda>m. fold (\<lambda>j a. take j a @ base_uint_mul_inner 0 (pn ! j) (drop j a) b) [0..<m] (replicate (length pn) 0)"
  shows "length (r m) = length pn \<and> bval (r m) = (bval (take m pn) * bval b) mod 2 ^ (32 * length pn)"
  using assms(2)
proof (induction m)
  case 0
  then show ?case by (simp add: r_def)
next
  case (Suc m)
  let ?W = "length pn" and ?a = "r m" and ?p = "pn ! m"
  have ih: "length ?a = ?W" "bval ?a = (bval (take m pn) * bval b) mod 2 ^ (32 * ?W)"
    using Suc by auto
  have step: "r (Suc m) = take m ?a @ base_uint_mul_inner 0 ?p (drop m ?a) b"
    by (simp add: r_def)
  have len: "length (r (Suc m)) = ?W" using ih assms(1) by (simp add: step)
  have pw: "(2 :: nat) ^ (32 * ?W) = 2 ^ (32 * m) * 2 ^ (32 * (?W - m))"
    using Suc.prems by (simp flip: power_add add: distrib_left [symmetric])
  have small: "bval (take m ?a) < 2 ^ (32 * m)"
    using bval_bound [of "take m ?a"] ih Suc.prems by simp
  have "bval (r (Suc m)) = bval (take m ?a) + 2 ^ (32 * m) * ((bval (drop m ?a) + unat ?p * bval b) mod 2 ^ (32 * (?W - m)))"
    using ih Suc.prems assms(1) by (simp add: step bval_append bval_mul_inner)
  also have "\<dots> = (bval (take m ?a) + 2 ^ (32 * m) * (bval (drop m ?a) + unat ?p * bval b)) mod 2 ^ (32 * ?W)"
    using carry_step [of "bval (take m ?a)" "2 ^ (32 * m)" "bval (drop m ?a) + unat ?p * bval b" "2 ^ (32 * (?W - m))"] small
    by (simp add: pw)
  also have "\<dots> = (bval ?a + 2 ^ (32 * m) * unat ?p * bval b) mod 2 ^ (32 * ?W)"
    using bval_take_drop [of ?a m] ih Suc.prems by (simp add: algebra_simps)
  also have "\<dots> = ((bval (take m pn) + 2 ^ (32 * m) * unat ?p) * bval b) mod 2 ^ (32 * ?W)"
    by (simp add: ih mod_simps algebra_simps)
  also have "bval (take m pn) + 2 ^ (32 * m) * unat ?p = bval (take (Suc m) pn)"
    using Suc.prems by (simp add: take_Suc_conv_app_nth bval_append)
  finally show ?case using len by simp
qed

lemma length_base_uint_mul [simp]: "length b = length a \<Longrightarrow> length (base_uint_mul a b) = length a"
  using bval_mul_fold [of b a "length a"] by (simp add: base_uint_mul_def)

lemma bval_mul: "length b = length a \<Longrightarrow> bval (base_uint_mul a b) = (bval a * bval b) mod 2 ^ (32 * length a)"
  using bval_mul_fold [of b a "length a"] by (simp add: base_uint_mul_def)

subsection \<open>Comparison\<close>

lemma bval_CompareTo:
  "length a = length b \<Longrightarrow>
   base_uint_CompareTo a b = (if bval a < bval b then - 1 else if bval a > bval b then 1 else 0)"
proof (induction a arbitrary: b rule: rev_induct)
  case Nil
  then show ?case by (simp add: base_uint_CompareTo_def)
next
  case (snoc x xs)
  then obtain y ys where b: "b = ys @ [y]" by (cases b rule: rev_cases) auto
  let ?M = "2 ^ (32 * length xs) :: nat"
  have len: "length ys = length xs" using snoc.prems b by simp
  have bnd: "bval xs < ?M" "bval ys < ?M" using bval_bound [of xs] bval_bound [of ys] len by auto
  have less: "bval u + ?M * unat p < bval v + ?M * unat q"
    if "p < q" "bval u < ?M" for u v and p q :: u32
  proof -
    have "?M * (unat p + 1) \<le> ?M * unat q" using that(1) by (intro mult_le_mono2) (simp add: word_less_nat_alt)
    with that(2) show ?thesis by (simp add: algebra_simps)
  qed
  show ?case
    using less [of x y xs ys] less [of y x ys xs] bnd snoc.IH [of ys] len b
    by (cases x y rule: linorder_cases) (auto simp: base_uint_CompareTo_def bval_append)
qed

subsection \<open>Bits\<close>

lemma bit_bval: "bit (bval xs) n \<longleftrightarrow> n < 32 * length xs \<and> bit (xs ! (n div 32)) (n mod 32)"
proof (induction xs arbitrary: n)
  case Nil
  then show ?case by simp
next
  case (Cons x xs)
  have disj: "\<not> bit (unat x) k \<or> \<not> bit (push_bit 32 (bval xs)) k" for k
    by (cases "k < 32") (auto simp: bit_simps dest: bit_imp_le_length)
  have "bval (x # xs) = unat x OR push_bit 32 (bval xs)"
    using disjunctive_add [OF disj] by (simp add: push_bit_eq_mult mult.commute)
  then have "bit (bval (x # xs)) n \<longleftrightarrow> (if n < 32 then bit x n else bit (bval xs) (n - 32))"
    by (auto simp: bit_or_iff bit_push_bit_iff bit_unsigned_iff dest: bit_imp_le_length)
  also have "\<dots> \<longleftrightarrow> n < 32 * length (x # xs) \<and> bit ((x # xs) ! (n div 32)) (n mod 32)"
  proof (cases "n < 32")
    case False
    then have "n div 32 = Suc ((n - 32) div 32)" "(n - 32) mod 32 = n mod 32"
      by (simp_all add: le_div_geq le_mod_geq)
    with False show ?thesis by (auto simp: Cons)
  qed simp
  finally show ?case .
qed

lemma bit_bval_at: "r < 32 \<Longrightarrow> bit (bval xs) (32 * q + r) \<longleftrightarrow> q < length xs \<and> bit (xs ! q) r"
  by (auto simp: bit_bval)

lemma bval_eqI:
  "(\<And>q r. q < length xs \<Longrightarrow> r < 32 \<Longrightarrow> bit (xs ! q) r \<longleftrightarrow> bit v (32 * q + r)) \<Longrightarrow>
   v < 2 ^ (32 * length xs) \<Longrightarrow> bval xs = v"
proof (rule bit_eqI)
  fix n assume "\<And>q r. q < length xs \<Longrightarrow> r < 32 \<Longrightarrow> bit (xs ! q) r \<longleftrightarrow> bit v (32 * q + r)"
    and v: "v < 2 ^ (32 * length xs)"
  from this(1) [of "n div 32" "n mod 32"]
  have "n < 32 * length xs \<Longrightarrow> bit (xs ! (n div 32)) (n mod 32) \<longleftrightarrow> bit v n"
    by (simp add: less_mult_imp_div_less mult.commute)
  moreover have "\<not> bit v n" if "\<not> n < 32 * length xs"
  proof -
    have "(2 :: nat) ^ (32 * length xs) \<le> 2 ^ n" using that by (intro power_increasing) auto
    then have "v < 2 ^ n" using v by linarith
    then show ?thesis by (simp add: bit_iff_odd)
  qed
  ultimately show "bit (bval xs) n \<longleftrightarrow> bit v n" by (auto simp: bit_bval)
qed

text \<open>The digits after the shift loops, and the number they give.\<close>

lemma length_shift_steps [simp]:
  "length (base_uint_shl_step a k s i pn) = length pn" "length (base_uint_shr_step a k s i pn) = length pn"
  by (simp_all add: base_uint_shl_step_def base_uint_shr_step_def Let_def)

lemma nth_shl_step:
  "length pn = length a \<Longrightarrow> q < length a \<Longrightarrow> base_uint_shl_step a k s i pn ! q = (pn ! q OR
     (if q = i + k + 1 \<and> s \<noteq> 0 then drop_bit (32 - s) (a ! i) else 0)) OR (if q = i + k then push_bit s (a ! i) else 0)"
  by (auto simp: base_uint_shl_step_def Let_def nth_list_update)

lemma nth_shr_step:
  "length pn = length a \<Longrightarrow> q < length a \<Longrightarrow> i < length a \<Longrightarrow> base_uint_shr_step a k s i pn ! q = (pn ! q OR
     (if i = q + k + 1 \<and> s \<noteq> 0 then push_bit (32 - s) (a ! i) else 0)) OR (if i = q + k then drop_bit s (a ! i) else 0)"
  by (auto simp: base_uint_shr_step_def Let_def nth_list_update)

lemma shl_fold:
  "m \<le> length a \<Longrightarrow> length (fold (base_uint_shl_step a k s) [0..<m] (replicate (length a) 0)) = length a \<and>
   (\<forall>q < length a. fold (base_uint_shl_step a k s) [0..<m] (replicate (length a) 0) ! q =
    (if q < k + 1 \<or> q \<ge> k + 1 + m \<or> s = 0 then 0 else drop_bit (32 - s) (a ! (q - k - 1))) OR
    (if q < k \<or> q \<ge> k + m then 0 else push_bit s (a ! (q - k))))"
proof (induction m)
  case (Suc m)
  then show ?case
    by (auto simp: nth_shl_step less_Suc_eq not_less or.assoc not_less_eq_eq dest!: le_antisym)
qed (auto simp: not_less)

lemma shr_fold:
  "m \<le> length a \<Longrightarrow> length (fold (base_uint_shr_step a k s) [0..<m] (replicate (length a) 0)) = length a \<and>
   (\<forall>q < length a. fold (base_uint_shr_step a k s) [0..<m] (replicate (length a) 0) ! q =
    (if q + k < m then drop_bit s (a ! (q + k)) else 0) OR
    (if q + k + 1 < m \<and> s \<noteq> 0 then push_bit (32 - s) (a ! (q + k + 1)) else 0))"
proof (induction m)
  case (Suc m)
  then show ?case
    by (auto simp: nth_shr_step less_Suc_eq or.assoc or.commute)
qed simp

lemma length_shl [simp]: "length (base_uint_shl a sh) = length a"
  using shl_fold [of "length a" a] by (simp add: base_uint_shl_def)

lemma length_shr [simp]: "length (base_uint_shr a sh) = length a"
  using shr_fold [of "length a" a] by (simp add: base_uint_shr_def)

lemma bval_shl: "bval (base_uint_shl a sh) = (bval a * 2 ^ sh) mod 2 ^ (32 * length a)"
proof -
  define k s where "k = sh div 32" and "s = sh mod 32"
  have sh: "sh = 32 * k + s" and s: "s < 32" by (simp_all add: k_def s_def)
  have "bval (base_uint_shl a sh) = take_bit (32 * length a) (push_bit sh (bval a))"
  proof (rule bval_eqI)
    fix q r assume q: "q < length (base_uint_shl a sh)" and r: "r < (32 :: nat)"
    then have nth: "base_uint_shl a sh ! q =
      (if q < k + 1 \<or> s = 0 then 0 else drop_bit (32 - s) (a ! (q - k - 1))) OR
      (if q < k then 0 else push_bit s (a ! (q - k)))"
      using shl_fold [of "length a" a k s] by (simp add: base_uint_shl_def flip: k_def s_def)
    have rhs: "bit (take_bit (32 * length a) (push_bit sh (bval a))) (32 * q + r) \<longleftrightarrow>
      32 * k + s \<le> 32 * q + r \<and> bit (bval a) (32 * q + r - (32 * k + s))"
      using q r by (auto simp: bit_take_bit_iff bit_push_bit_iff sh)
    show "bit (base_uint_shl a sh ! q) r \<longleftrightarrow> bit (take_bit (32 * length a) (push_bit sh (bval a))) (32 * q + r)"
    proof (cases "k \<le> q")
      case False
      then show ?thesis using r s unfolding rhs nth by auto
    next
      case True
      show ?thesis
      proof (cases "s \<le> r")
        case le: True
        have e: "32 * q + r - (32 * k + s) = 32 * (q - k) + (r - s)" using True le by simp
        have "\<not> bit (drop_bit (32 - s) (a ! (q - k - 1))) r"
          using le s by (auto simp: bit_drop_bit_eq dest!: bit_imp_le_length)
        moreover have "bit (bval a) (32 * (q - k) + (r - s)) \<longleftrightarrow> bit (a ! (q - k)) (r - s)"
          using r q by (subst bit_bval_at) auto
        ultimately show ?thesis using True le r unfolding rhs nth e
          by (auto simp: bit_or_iff bit_push_bit_iff)
      next
        case lt: False
        show ?thesis
        proof (cases "k + 1 \<le> q")
          case True
          have e: "32 * q + r - (32 * k + s) = 32 * (q - k - 1) + (32 - s + r)" using True lt s by simp
          moreover have "bit (bval a) (32 * (q - k - 1) + (32 - s + r)) \<longleftrightarrow> bit (a ! (q - k - 1)) (32 - s + r)"
            using lt s q by (subst bit_bval_at) auto
          ultimately show ?thesis using True lt r s unfolding rhs nth
            by (auto simp: bit_or_iff bit_push_bit_iff bit_drop_bit_eq)
        next
          case False
          then show ?thesis using True lt s unfolding rhs nth by (auto simp: bit_or_iff bit_push_bit_iff)
        qed
      qed
    qed
  next
    show "take_bit (32 * length a) (push_bit sh (bval a)) < 2 ^ (32 * length (base_uint_shl a sh))"
      by (simp add: take_bit_nat_less_exp)
  qed
  then show ?thesis by (simp add: take_bit_eq_mod push_bit_eq_mult)
qed

lemma bval_shr: "bval (base_uint_shr a sh) = bval a div 2 ^ sh"
proof -
  define k s where "k = sh div 32" and "s = sh mod 32"
  have sh: "sh = 32 * k + s" and s: "s < 32" by (simp_all add: k_def s_def)
  have "bval (base_uint_shr a sh) = drop_bit sh (bval a)"
  proof (rule bval_eqI)
    fix q r assume q: "q < length (base_uint_shr a sh)" and r: "r < (32 :: nat)"
    then have nth: "base_uint_shr a sh ! q =
      (if q + k < length a then drop_bit s (a ! (q + k)) else 0) OR
      (if q + k + 1 < length a \<and> s \<noteq> 0 then push_bit (32 - s) (a ! (q + k + 1)) else 0)"
      using shr_fold [of "length a" a k s] by (simp add: base_uint_shr_def flip: k_def s_def)
    have rhs: "bit (drop_bit sh (bval a)) (32 * q + r) \<longleftrightarrow> bit (bval a) (32 * (q + k) + (s + r))"
      by (simp add: bit_drop_bit_eq sh ac_simps)
    show "bit (base_uint_shr a sh ! q) r \<longleftrightarrow> bit (drop_bit sh (bval a)) (32 * q + r)"
    proof (cases "s + r < 32")
      case True
      then show ?thesis unfolding rhs nth bit_bval_at [OF True]
        by (auto simp: bit_or_iff bit_push_bit_iff bit_drop_bit_eq)
    next
      case False
      have e: "32 * (q + k) + (s + r) = 32 * (q + k + 1) + (s + r - 32)" using False by simp
      have "\<not> bit (drop_bit s (a ! (q + k))) r"
        using False by (auto simp: bit_drop_bit_eq dest!: bit_imp_le_length)
      moreover have "bit (bval a) (32 * (q + k + 1) + (s + r - 32)) \<longleftrightarrow>
          q + k + 1 < length a \<and> bit (a ! (q + k + 1)) (s + r - 32)"
        using r s by (intro bit_bval_at) simp
      moreover have "r - (32 - s) = s + r - 32" "32 - s \<le> r" "s \<noteq> 0" using False r s by auto
      ultimately show ?thesis unfolding rhs nth e
        using r by (auto simp: bit_or_iff bit_push_bit_iff)
    qed
  next
    show "drop_bit sh (bval a) < 2 ^ (32 * length (base_uint_shr a sh))"
      using bval_bound [of a] by (simp add: drop_bit_eq_div) (meson div_le_dividend le_less_trans)
  qed
  then show ?thesis by (simp add: drop_bit_eq_div)
qed

subsection \<open>Bit length\<close>

lemma highest_bit_Suc: "highest_bit (Suc n) w = (if bit w (Suc n) then Suc n else highest_bit n w)"
  by (simp only: highest_bit.simps and_push_bit_1)

declare highest_bit.simps(2) [simp del]

lemma highest_bit_spec:
  "(w :: u32) \<noteq> 0 \<Longrightarrow> (\<And>k. n < k \<Longrightarrow> \<not> bit w k) \<Longrightarrow>
   bit w (highest_bit n w) \<and> (\<forall>k. highest_bit n w < k \<longrightarrow> \<not> bit w k)"
proof (induction n)
  case 0
  obtain k where "bit w k" using 0(1) by (auto simp: bit_eq_iff)
  then have "bit w 0" using 0(2) by (cases k) auto
  with 0(2) show ?case by simp
next
  case (Suc n)
  show ?case
  proof (cases "bit w (Suc n)")
    case True
    with Suc.prems(2) show ?thesis by (simp add: highest_bit_Suc)
  next
    case False
    have "\<not> bit w k" if "n < k" for k
      using that False Suc.prems(2) by (cases "k = Suc n") auto
    from Suc.IH [OF Suc.prems(1) this] False show ?thesis by (simp add: highest_bit_Suc)
  qed
qed

lemma unat_highest_bit:
  assumes "(w :: u32) \<noteq> 0"
  shows "2 ^ highest_bit 31 w \<le> unat w \<and> unat w < 2 ^ (highest_bit 31 w + 1)"
proof -
  let ?h = "highest_bit 31 w"
  have h: "bit w ?h" "\<forall>k > ?h. \<not> bit w k"
    using highest_bit_spec [OF assms, of 31] bit_imp_le_length [of w] by fastforce+
  have "2 ^ ?h \<le> unat w"
  proof (rule ccontr)
    assume "\<not> 2 ^ ?h \<le> unat w"
    then have "\<not> bit (unat w) ?h" by (simp add: bit_iff_odd)
    with h(1) show False by (simp add: bit_unsigned_iff bit_imp_le_length)
  qed
  moreover have "take_bit (?h + 1) (unat w) = unat w"
    using h(2) not_less_eq by (intro bit_eqI) (auto simp: bit_take_bit_iff bit_unsigned_iff)
  then have "unat w < 2 ^ (?h + 1)" by (metis take_bit_nat_less_exp)
  ultimately show ?thesis by simp
qed

fun nat_bits :: "nat \<Rightarrow> nat" where
  "nat_bits v = (if v = 0 then 0 else Suc (nat_bits (v div 2)))"

declare nat_bits.simps [simp del]

lemma nat_bits_0 [simp]: "nat_bits 0 = 0"
  by (simp add: nat_bits.simps)

lemma nat_bits_le: "nat_bits v \<le> n \<longleftrightarrow> v < 2 ^ n"
proof (induction v arbitrary: n rule: nat_bits.induct)
  case (1 v)
  show ?case
  proof (cases "v = 0")
    case False
    then show ?thesis
    proof (cases n)
      case (Suc m)
      have "nat_bits v = Suc (nat_bits (v div 2))"
        using False by (subst nat_bits.simps) simp
      moreover have "nat_bits (v div 2) \<le> m \<longleftrightarrow> v div 2 < 2 ^ m"
        by (rule "1.IH" [OF False])
      moreover have "v div 2 < 2 ^ m \<longleftrightarrow> v < 2 ^ Suc m"
        by (auto simp: div_less_iff_less_mult mult.commute)
      ultimately show ?thesis by (simp add: Suc)
    qed (subst nat_bits.simps, simp)
  qed simp
qed

lemma nat_bits_unique: "2 ^ n \<le> v \<Longrightarrow> v < 2 ^ (n + 1) \<Longrightarrow> nat_bits v = n + 1"
  using nat_bits_le [of v n] nat_bits_le [of v "n + 1"] by simp

lemma nat_bits_bounds: "0 < v \<Longrightarrow> 2 ^ (nat_bits v - 1) \<le> v \<and> v < 2 ^ nat_bits v"
  using nat_bits_le [of v "nat_bits v"] nat_bits_le [of v "nat_bits v - 1"] nat_bits_le [of v 0]
  by (auto simp: not_less)

lemma base_uint_bits_loop_eq:
  "pos \<le> length pn \<Longrightarrow> base_uint_bits_loop pos pn = nat_bits (bval (take pos pn))"
proof (induction pos)
  case 0
  then show ?case by simp
next
  case (Suc pos)
  have v: "bval (take (Suc pos) pn) = bval (take pos pn) + 2 ^ (32 * pos) * unat (pn ! pos)"
    using Suc.prems by (simp add: take_Suc_conv_app_nth bval_append)
  show ?case
  proof (cases "pn ! pos = 0")
    case True
    with Suc show ?thesis by (simp add: v)
  next
    case False
    let ?h = "highest_bit 31 (pn ! pos)" and ?M = "2 ^ (32 * pos) :: nat"
    have h: "2 ^ ?h \<le> unat (pn ! pos)" "unat (pn ! pos) + 1 \<le> 2 ^ (?h + 1)"
      using unat_highest_bit [OF False] by auto
    have "bval (take pos pn) < ?M"
      using bval_bound [of "take pos pn"] Suc.prems by simp
    moreover have "?M * 2 ^ ?h \<le> ?M * unat (pn ! pos)" "?M * (unat (pn ! pos) + 1) \<le> ?M * 2 ^ (?h + 1)"
      using h by (intro mult_le_mono2; simp)+
    ultimately have "2 ^ (32 * pos + ?h) \<le> bval (take (Suc pos) pn)"
      "bval (take (Suc pos) pn) < 2 ^ (32 * pos + ?h + 1)"
      unfolding v by (simp_all add: power_add trans_le_add2)
    from nat_bits_unique [OF this] False show ?thesis by simp
  qed
qed

lemma base_uint_bits_eq: "base_uint_bits pn = nat_bits (bval pn)"
  by (simp add: base_uint_bits_def base_uint_bits_loop_eq)


subsection \<open>Division\<close>

lemma bval_list_update:
  "i < length xs \<Longrightarrow> bval (xs[i := x]) + 2 ^ (32 * i) * unat (xs ! i) = bval xs + 2 ^ (32 * i) * unat x"
proof (induction xs arbitrary: i)
  case (Cons y ys)
  then show ?case
  proof (cases i)
    case (Suc j)
    have "bval (ys[j := x]) + 2 ^ (32 * j) * unat (ys ! j) = bval ys + 2 ^ (32 * j) * unat x"
      using Cons Suc by simp
    then have "2 ^ 32 * (bval (ys[j := x]) + 2 ^ (32 * j) * unat (ys ! j)) = 2 ^ 32 * (bval ys + 2 ^ (32 * j) * unat x)"
      by (rule arg_cong)
    then show ?thesis by (simp add: Suc power_add algebra_simps)
  qed simp
qed simp

lemma unat_set_bit: "s < 32 \<Longrightarrow> \<not> bit (w :: u32) s \<Longrightarrow> unat (w OR push_bit s 1) = unat w + 2 ^ s"
proof -
  assume s: "s < 32" "\<not> bit w s"
  then have "unat w AND 2 ^ s = 0"
    by (intro bit_eqI) (auto simp: bit_simps)
  then have "unat w + 2 ^ s = unat w OR 2 ^ s" by (rule disjunctive_add_eq_or)
  moreover have "unat (push_bit s 1 :: u32) = 2 ^ s"
    using s power_strict_increasing [of s 32 "2 :: nat"] by (simp add: unsigned_push_bit_eq take_bit_eq_mod [where 'a = nat] del: push_bit_of_1)
  ultimately show ?thesis by (simp add: unsigned_or_eq)
qed

lemma bval_set_bit:
  assumes "n < 32 * length q" "\<not> bit (bval q) n"
  shows "bval (q[n div 32 := q ! (n div 32) OR push_bit (n mod 32) 1]) = bval q + 2 ^ n"
proof -
  let ?k = "n div 32" and ?s = "n mod 32"
  have k: "?k < length q" and nb: "\<not> bit (q ! ?k) ?s" using assms by (auto simp: bit_bval)
  have u: "unat (q ! ?k OR push_bit ?s 1) = unat (q ! ?k) + 2 ^ ?s"
    using nb by (intro unat_set_bit) auto
  have "2 ^ n = 2 ^ (32 * ?k) * (2 ^ ?s :: nat)"
    by (simp flip: power_add)
  with bval_list_update [OF k, of "q ! ?k OR push_bit ?s 1", unfolded u] show ?thesis
    by (simp add: distrib_left)
qed

lemma length_div_loop [simp]: "length (base_uint_div_loop n num dv q) = length q"
  by (induction n arbitrary: num dv q) auto

lemma bval_div_loop:
  assumes "length num = W" "length dv = W" "length q = W" "n \<le> 32 * W" "0 < B"
    and "0 < n \<Longrightarrow> bval dv = B * 2 ^ (n - 1)" "bval num < B * 2 ^ n" "2 ^ n dvd bval q"
  shows "bval (base_uint_div_loop n num dv q) = bval q + bval num div B"
  using assms
proof (induction n arbitrary: num dv q)
  case 0
  then show ?case by simp
next
  case (Suc sh)
  have dv: "bval dv = B * 2 ^ sh" using Suc.prems(6) by simp
  have dv': "0 < sh \<Longrightarrow> bval (base_uint_shr dv 1) = B * 2 ^ (sh - 1)"
    by (cases sh) (simp_all add: bval_shr dv)
  have cmp: "base_uint_CompareTo num dv \<ge> 0 \<longleftrightarrow> B * 2 ^ sh \<le> bval num"
    using Suc.prems by (simp add: bval_CompareTo dv)
  have dq: "2 ^ sh dvd bval q"
    using Suc.prems(8) by (rule power_le_dvd) simp
  show ?case
  proof (cases "B * 2 ^ sh \<le> bval num")
    case True
    have "\<not> bit (bval q) sh" using Suc.prems(8) by (auto simp: bit_iff_odd elim!: dvdE)
    then have q: "bval (q[sh div 32 := q ! (sh div 32) OR push_bit (sh mod 32) 1]) = bval q + 2 ^ sh"
      using Suc.prems by (intro bval_set_bit) auto
    have n: "bval (base_uint_sub num dv) = bval num - B * 2 ^ sh"
      using Suc.prems True by (simp add: bval_sub_le dv)
    have "bval (base_uint_div_loop (Suc sh) num dv q) = bval q + 2 ^ sh + (bval num - B * 2 ^ sh) div B"
      using Suc.prems True dv' dq cmp Suc.IH [OF _ _ _ _ _ dv', of "base_uint_sub num dv"
          "q[sh div 32 := q ! (sh div 32) OR push_bit (sh mod 32) 1]"]
      by (simp add: q n del: push_bit_of_1)
    moreover have "bval num div B = (bval num - B * 2 ^ sh) div B + 2 ^ sh"
      using True Suc.prems(5) by (metis add.commute div_mult_self4 le_add_diff_inverse less_numeral_extra(3))
    ultimately show ?thesis by simp
  next
    case False
    then show ?thesis using Suc.prems dv' dq cmp by (simp add: Suc.IH)
  qed
qed

lemma base_uint_div_eq:
  assumes "length a = length b"
  shows "case base_uint_div a b of None \<Rightarrow> bval b = 0
         | Some q \<Rightarrow> bval b \<noteq> 0 \<and> length q = length a \<and> bval q = bval a div bval b"
proof -
  let ?na = "nat_bits (bval a)" and ?nb = "nat_bits (bval b)"
  consider "bval b = 0" | "bval b \<noteq> 0" "?nb > ?na" | "bval b \<noteq> 0" "?nb \<le> ?na" by linarith
  then show ?thesis
  proof cases
    case 1
    then show ?thesis by (simp add: base_uint_div_def base_uint_bits_eq Let_def)
  next
    case 2
    then have "bval a < bval b" 
      using nat_bits_le [of "bval a" "?na"] nat_bits_le [of "bval b" "?na"] by simp
    then show ?thesis using 2 nat_bits_le [of "bval b" 0]
      by (simp add: base_uint_div_def base_uint_bits_eq Let_def)
  next
    case 3
    have "?nb \<noteq> 0" using nat_bits_le [of "bval b" 0] 3 by simp
    have a0: "0 < bval a" using 3 \<open>?nb \<noteq> 0\<close> by (cases "bval a = 0") auto
    have aW: "?na \<le> 32 * length a" using bval_bound [of a] by (simp add: nat_bits_le)
    let ?sh = "?na - ?nb"
    have b: "2 ^ (?nb - 1) \<le> bval b" "bval b < 2 ^ ?nb" "bval a < 2 ^ ?na"
      using nat_bits_bounds [of "bval b"] nat_bits_bounds [OF a0] 3 by auto
    have "bval b * 2 ^ ?sh < 2 ^ ?nb * 2 ^ ?sh" using b by simp
    also have "\<dots> = 2 ^ ?na" using 3 by (simp flip: power_add)
    also have "\<dots> \<le> 2 ^ (32 * length a)" using aW by simp
    finally have dv: "bval (base_uint_shl b ?sh) = bval b * 2 ^ ?sh" using assms by (simp add: bval_shl)
    have "2 ^ ?na = 2 ^ (?nb - 1) * (2 ^ (Suc ?sh) :: nat)"
      using 3 \<open>?nb \<noteq> 0\<close> by (simp flip: power_add power_Suc)
    also have "\<dots> \<le> bval b * 2 ^ Suc ?sh" using b by (intro mult_le_mono1)
    finally have "bval a < bval b * 2 ^ Suc ?sh" using b by simp
    then have "bval (base_uint_div_loop (Suc ?sh) a (base_uint_shl b ?sh) (replicate (length a) 0)) = 0 + bval a div bval b"
      using assms dv aW \<open>?nb \<noteq> 0\<close> 3
      by (subst bval_div_loop [where W = "length a" and B = "bval b"]) auto
    then show ?thesis using 3 \<open>?nb \<noteq> 0\<close>
      by (simp add: base_uint_div_def base_uint_bits_eq Let_def del: base_uint_div_loop.simps)
  qed
qed


subsection \<open>Conversion from and to 64 bits\<close>

lemma bval_of_u64: "2 \<le> W \<Longrightarrow> bval (base_uint_of_u64 W b) = unat b"
  using unat_u64_lt [of b]
  by (simp add: base_uint_of_u64_def unat_ucast_mod unsigned_drop_bit_eq drop_bit_eq_div [where 'a = nat]
      take_bit_eq_mod [where 'a = nat] less_mult_imp_div_less del: unat_u64_lt)

lemma unat_GetLow64: "2 \<le> length pn \<Longrightarrow> unat (base_uint_GetLow64 pn) = bval pn mod 2 ^ 64"
proof -
  assume "2 \<le> length pn"
  then obtain x y zs where pn: "pn = x # y # zs"
    by (cases pn; cases "tl pn") auto
  have "unat (base_uint_GetLow64 pn) = unat x + 2 ^ 32 * unat y"
    using unat_u32_lt [of x] unat_u32_lt [of y]
    by (simp add: base_uint_GetLow64_def pn unat_or_push_bit unat_ucast_up del: unat_u32_lt)
  moreover have "bval pn = unat x + 2 ^ 32 * unat y + 2 ^ 64 * bval zs" by (simp add: pn)
  moreover have "unat x + 2 ^ 32 * unat y < 2 ^ 64"
    using unat_u32_lt [of x] unat_u32_lt [of y] by (simp del: unat_u32_lt)
  ultimately show ?thesis by (simp add: mod_mult_self2)
qed

lemma bval_eq_0_iff: "bval xs = 0 \<longleftrightarrow> (\<forall>x \<in> set xs. x = 0)"
  by (induction xs) (auto simp: unat_eq_zero)

lemma base_uint_EqualTo_iff: "2 \<le> length pn \<Longrightarrow> base_uint_EqualTo pn b \<longleftrightarrow> bval pn = unat b"
proof -
  assume "2 \<le> length pn"
  then obtain x y zs where pn: "pn = x # y # zs"
    by (cases pn; cases "tl pn") auto
  have v: "bval pn = unat x + 2 ^ 32 * (unat y + 2 ^ 32 * bval zs)" by (simp add: pn)
  have b: "b AND 0xFFFFFFFF = take_bit 32 b" by (simp add: take_bit_eq_mask mask_eq_exp_minus_1)
  have "base_uint_EqualTo pn b \<longleftrightarrow> bval zs = 0 \<and> unat y = unat b div 2 ^ 32 \<and> unat x = unat b mod 2 ^ 32"
    by (simp add: base_uint_EqualTo_def pn bval_eq_0_iff b word_unat_eq_iff unat_ucast_up unsigned_drop_bit_eq
        unsigned_take_bit_eq drop_bit_eq_div [where 'a = nat] take_bit_eq_mod [where 'a = nat])
  also have "\<dots> \<longleftrightarrow> bval pn = unat b"
  proof
    assume "bval zs = 0 \<and> unat y = unat b div 2 ^ 32 \<and> unat x = unat b mod 2 ^ 32"
    then show "bval pn = unat b" unfolding v by simp
  next
    assume e: "bval pn = unat b"
    have "unat b mod 2 ^ 32 = unat x" 
      unfolding e [symmetric] v by (simp only: mod_mult_self2) simp
    moreover have d: "unat b div 2 ^ 32 = unat y + 2 ^ 32 * bval zs"
      unfolding e [symmetric] v by (subst div_mult_self2) (simp_all add: div_less)
    moreover have "unat b div 2 ^ 32 < 2 ^ 32" using unat_u64_lt [of b] by (simp add: less_mult_imp_div_less del: unat_u64_lt)
    ultimately have "2 ^ 32 * bval zs < 2 ^ 32 * 1" "unat b mod 2 ^ 32 = unat x" by simp_all
    then have "bval zs = 0" by simp
    then show "bval zs = 0 \<and> unat y = unat b div 2 ^ 32 \<and> unat x = unat b mod 2 ^ 32"
      using d \<open>unat b mod 2 ^ 32 = unat x\<close> by simp
  qed
  finally show ?thesis .
qed

lemma length_base_uint_decr [simp]: "length (base_uint_decr xs) = length xs"
  by (induction xs) auto

lemma base_uint_incr_decr: "base_uint_incr (base_uint_decr xs) = xs"
  by (induction xs) auto

lemma base_uint_decr_incr: "base_uint_decr (base_uint_incr xs) = xs"
proof (induction xs)
  case (Cons x xs)
  have "(0xFFFFFFFF :: u32) = - 1" by simp
  then have "x + 1 = 0 \<longleftrightarrow> x = 0xFFFFFFFF"
    using eq_neg_iff_add_eq_0 [of x 1] by metis
  with Cons show ?case by auto
qed simp

subsection \<open>The compact format of difficulty targets\<close>

text \<open>\<open>SetCompact\<close> returns the new value with the two flags it writes through its pointer arguments.\<close>

definition SetCompact :: "u32 \<Rightarrow> base_uint \<times> bool \<times> bool" where
  "SetCompact nCompact =
     (let nSize = unat (drop_bit 24 nCompact);
          nWord0 = nCompact AND 0x007FFFFF;
          nWord = (if nSize \<le> 3 then drop_bit (8 * (3 - nSize)) nWord0 else nWord0);
          v = (if nSize \<le> 3 then base_uint_of_u64 8 (ucast nWord)
               else base_uint_shl (base_uint_of_u64 8 (ucast nWord)) (8 * (nSize - 3)))
      in (v, nWord \<noteq> 0 \<and> nCompact AND 0x00800000 \<noteq> 0,
          nWord \<noteq> 0 \<and> (nSize > 34 \<or> (nWord > 0xFF \<and> nSize > 33) \<or> (nWord > 0xFFFF \<and> nSize > 32))))"

text \<open>\<open>GetCompact\<close>; \<open>None\<close> is a failed \<open>assert\<close>.\<close>

definition GetCompact :: "base_uint \<Rightarrow> bool \<Rightarrow> u32 option" where
  "GetCompact a fNegative =
     (let nSize0 = (base_uint_bits a + 7) div 8;
          nCompact0 = (if nSize0 \<le> 3 then ucast (push_bit (8 * (3 - nSize0)) (base_uint_GetLow64 a))
                       else ucast (base_uint_GetLow64 (base_uint_shr a (8 * (nSize0 - 3)))) :: u32);
          (nCompact1, nSize) = (if nCompact0 AND 0x00800000 \<noteq> 0 then (drop_bit 8 nCompact0, nSize0 + 1)
                                else (nCompact0, nSize0))
      in if nCompact1 AND NOT 0x007FFFFF \<noteq> 0 then None
         else if \<not> nSize < 256 then None
         else let nCompact2 = nCompact1 OR push_bit 24 (of_nat nSize)
              in Some (nCompact2 OR (if fNegative \<and> nCompact2 AND 0x007FFFFF \<noteq> 0 then 0x00800000 else 0)))"

text \<open>The same format on numbers: the exponent leaves room for a clear sign bit, the mantissa keeps the
  top three bytes, and \<open>compact_round\<close> is the number that survives.\<close>

definition compact_size :: "nat \<Rightarrow> nat" where
  "compact_size v = (if v = 0 then 0 else nat_bits v div 8 + 1)"

definition mantissa_at :: "nat \<Rightarrow> nat \<Rightarrow> nat" where
  "mantissa_at sz v = (if sz \<le> 3 then v * 2 ^ (8 * (3 - sz)) else v div 2 ^ (8 * (sz - 3)))"

abbreviation compact_mantissa :: "nat \<Rightarrow> nat" where
  "compact_mantissa v \<equiv> mantissa_at (compact_size v) v"

definition compact_round :: "nat \<Rightarrow> nat" where
  "compact_round v = (if compact_size v \<le> 3 then v
                      else v div 2 ^ (8 * (compact_size v - 3)) * 2 ^ (8 * (compact_size v - 3)))"

definition compact_value :: "nat \<Rightarrow> nat \<Rightarrow> nat" where
  "compact_value sz m = (if sz \<le> 3 then m div 2 ^ (8 * (3 - sz)) else m * 2 ^ (8 * (sz - 3)))"

lemma pow2_split: "c = a + b \<Longrightarrow> (2 :: nat) ^ c = 2 ^ a * 2 ^ b"
  by (simp add: power_add)

lemma nat_bits_ge: "n < nat_bits v \<longleftrightarrow> 2 ^ n \<le> v"
  using nat_bits_le [of v n] by linarith

lemma nat_bits_mono: "v \<le> w \<Longrightarrow> nat_bits v \<le> nat_bits w"
  using nat_bits_le [of w "nat_bits w"] by (auto simp: nat_bits_le)

lemma compact_size_bounds:
  assumes "0 < v"
  shows "v < 2 ^ (8 * compact_size v - 1)" "compact_size v > 1 \<Longrightarrow> 2 ^ (8 * compact_size v - 9) \<le> v"
proof -
  have "nat_bits v \<le> 8 * compact_size v - 1" using assms by (simp add: compact_size_def)
  then show "v < 2 ^ (8 * compact_size v - 1)" by (simp only: nat_bits_le)
  assume "compact_size v > 1"
  then have "8 * compact_size v - 9 < nat_bits v" using assms by (simp add: compact_size_def)
  then show "2 ^ (8 * compact_size v - 9) \<le> v" by (simp only: nat_bits_ge)
qed

lemma compact_mantissa_lt: "compact_mantissa v < 2 ^ 23"
proof (cases "v = 0")
  case False
  let ?s = "compact_size v"
  have s: "0 < ?s" "v < 2 ^ (8 * ?s - 1)" using False compact_size_bounds by (auto simp: compact_size_def)
  show ?thesis
  proof (cases "?s \<le> 3")
    case True
    have "v * 2 ^ (8 * (3 - ?s)) < 2 ^ (8 * ?s - 1) * 2 ^ (8 * (3 - ?s))" using s by simp
    also have "\<dots> = 2 ^ 23" using True s by (intro pow2_split [symmetric]) linarith
    finally show ?thesis using True by (simp add: mantissa_at_def)
  next
    case False
    have "2 ^ (8 * ?s - 1) = (2 ^ 23 * 2 ^ (8 * (?s - 3)) :: nat)" by (rule pow2_split) (use False in linarith)
    then show ?thesis using False s by (simp add: mantissa_at_def less_mult_imp_div_less)
  qed
qed (simp add: mantissa_at_def)

lemma compact_mantissa_ge: "3 < compact_size v \<Longrightarrow> 2 ^ 15 \<le> compact_mantissa v"
proof -
  let ?s = "compact_size v"
  assume s: "3 < ?s"
  then have "2 ^ (8 * ?s - 9) \<le> v" by (intro compact_size_bounds) (auto simp: compact_size_def split: if_splits)
  then have "2 ^ (8 * ?s - 9) div 2 ^ (8 * (?s - 3)) \<le> v div 2 ^ (8 * (?s - 3))" by (rule div_le_mono)
  moreover have "2 ^ (8 * ?s - 9) = (2 ^ 15 * 2 ^ (8 * (?s - 3)) :: nat)" by (rule pow2_split) (use s in linarith)
  ultimately show ?thesis using s by (simp add: mantissa_at_def)
qed

lemma compact_value_round: "compact_value (compact_size v) (compact_mantissa v) = compact_round v"
  by (simp add: compact_value_def mantissa_at_def compact_round_def)

lemma compact_round_le: "compact_round v \<le> v"
  by (simp add: compact_round_def)

lemma compact_size_mono: "v \<le> w \<Longrightarrow> compact_size v \<le> compact_size w"
  by (auto simp: compact_size_def intro: div_le_mono nat_bits_mono)

lemma compact_round_mono:
  assumes "v \<le> w"
  shows "compact_round v \<le> compact_round w"
proof (cases "compact_size v = compact_size w")
  case True
  then show ?thesis using assms by (auto simp: compact_round_def intro: div_le_mono)
next
  case False
  then have lt: "compact_size v < compact_size w" using compact_size_mono [OF assms] by simp
  show ?thesis
  proof (cases "v = 0 \<or> compact_size w \<le> 3")
    case True
    then show ?thesis using assms lt compact_round_le [of v] by (auto simp: compact_round_def)
  next
    case F: False
    let ?s = "compact_size w"
    have "v < 2 ^ (8 * compact_size v - 1)" using F compact_size_bounds by simp
    also have "\<dots> \<le> 2 ^ (8 * ?s - 9)" using lt by (intro power_increasing) auto
    also have "\<dots> = 2 ^ 15 * 2 ^ (8 * (?s - 3))" by (rule pow2_split) (use F in linarith)
    also have "\<dots> \<le> compact_mantissa w * 2 ^ (8 * (?s - 3))"
      using F compact_mantissa_ge [of w] by (intro mult_le_mono1) simp
    also have "\<dots> = compact_round w" using F by (simp add: mantissa_at_def compact_round_def)
    finally show ?thesis using compact_round_le [of v] by simp
  qed
qed

lemma compact_size_round: "compact_size (compact_round v) = compact_size v"
proof (cases "compact_size v \<le> 3")
  case False
  let ?s = "compact_size v"
  have "2 ^ (8 * ?s - 9) = (2 ^ 15 * 2 ^ (8 * (?s - 3)) :: nat)" by (rule pow2_split) (use False in linarith)
  also have "\<dots> \<le> compact_mantissa v * 2 ^ (8 * (?s - 3))"
    using False compact_mantissa_ge [of v] by (intro mult_le_mono1) simp
  also have "\<dots> = compact_round v" using False by (simp add: mantissa_at_def compact_round_def)
  finally have "8 * ?s - 9 < nat_bits (compact_round v)" by (simp add: nat_bits_ge)
  moreover have "compact_size (compact_round v) \<le> ?s" by (rule compact_size_mono [OF compact_round_le])
  ultimately show ?thesis using False by (auto simp: compact_size_def split: if_splits) 
qed (simp add: compact_round_def)

lemma compact_mantissa_round: "compact_mantissa (compact_round v) = compact_mantissa v"
  by (simp add: mantissa_at_def compact_size_round) (simp add: compact_round_def)

text \<open>The rounding loses less than one part in \<open>2 ^ 15\<close>.\<close>

lemma compact_round_error: "(v - compact_round v) * 2 ^ 15 \<le> compact_round v"
proof (cases "compact_size v \<le> 3")
  case False
  let ?M = "2 ^ (8 * (compact_size v - 3)) :: nat"
  have "v - compact_round v = v mod ?M" using False by (simp add: compact_round_def minus_div_mult_eq_mod)
  also have "\<dots> \<le> ?M" by simp
  finally have "(v - compact_round v) * 2 ^ 15 \<le> ?M * 2 ^ 15" by simp
  also have "\<dots> \<le> ?M * compact_mantissa v" using compact_mantissa_ge [of v] False by simp
  also have "\<dots> = compact_round v" using False by (simp add: mantissa_at_def compact_round_def)
  finally show ?thesis .
qed (simp add: compact_round_def)


lemma unat_and_low23: "unat ((w :: u32) AND 0x007FFFFF) = unat w mod 2 ^ 23"
proof -
  have "w AND 0x007FFFFF = take_bit 23 w" by (simp add: take_bit_eq_mask mask_eq_exp_minus_1)
  then show ?thesis by (simp add: unsigned_take_bit_eq take_bit_eq_mod [where 'a = nat])
qed

lemma and_sign_bit: "(w :: u32) AND 0x00800000 \<noteq> 0 \<longleftrightarrow> bit w 23"
  using and_push_bit_1 [of w 23] by simp

lemma bit_23_iff: "unat (w :: u32) < 2 ^ 24 \<Longrightarrow> bit w 23 \<longleftrightarrow> 2 ^ 23 \<le> unat w"
proof -
  assume w: "unat w < 2 ^ 24"
  have "bit w 23 \<longleftrightarrow> bit (unat w) 23" by (simp add: bit_unsigned_iff)
  also have "\<dots> \<longleftrightarrow> odd (unat w div 2 ^ 23)" by (simp only: bit_iff_odd)
  also have "unat w div 2 ^ 23 < 2" using w by (simp add: less_mult_imp_div_less)
  then have "odd (unat w div 2 ^ 23) \<longleftrightarrow> unat w div 2 ^ 23 \<noteq> 0" by (auto dest!: less_2_cases)
  finally show ?thesis by (simp add: div_eq_0_iff not_less)
qed

lemma and_not_low23: "(w :: u32) AND NOT 0x007FFFFF = 0 \<longleftrightarrow> unat w < 2 ^ 23"
proof -
  have m: "(0x007FFFFF :: u32) = mask 23" by (simp add: mask_eq_exp_minus_1)
  have "w AND NOT 0x007FFFFF = 0 \<longleftrightarrow> take_bit 23 w = w"
    unfolding m by (auto simp: bit_eq_iff bit_simps)
  also have "\<dots> \<longleftrightarrow> unat w mod 2 ^ 23 = unat w"
    by (simp add: word_unat_eq_iff unsigned_take_bit_eq take_bit_eq_mod [where 'a = nat])
  finally show ?thesis by (metis mod_less mod_less_divisor zero_less_numeral zero_less_power)
qed

text \<open>Before the sign bit is cleared the exponent is the byte length \<open>(bits + 7) / 8\<close>; the mantissa then
  has bit 23 set exactly when the bit length is a multiple of eight.\<close>

lemma mantissa_at_lt:
  assumes "nat_bits v \<le> 8 * sz" "8 * sz < nat_bits v + 8"
  shows "mantissa_at sz v < 2 ^ (24 - (8 * sz - nat_bits v))"
proof -
  have v: "v < 2 ^ nat_bits v" using nat_bits_le [of v "nat_bits v"] by simp
  show ?thesis
  proof (cases "sz \<le> 3")
    case True
    have "v * 2 ^ (8 * (3 - sz)) < 2 ^ nat_bits v * 2 ^ (8 * (3 - sz))" using v by simp
    also have "\<dots> = 2 ^ (24 - (8 * sz - nat_bits v))"
      by (rule pow2_split [symmetric]) (use True assms in linarith)
    finally show ?thesis using True by (simp add: mantissa_at_def)
  next
    case False
    have "2 ^ nat_bits v = (2 ^ (24 - (8 * sz - nat_bits v)) * 2 ^ (8 * (sz - 3)) :: nat)"
      by (rule pow2_split) (use False assms in linarith)
    then show ?thesis using False v by (simp add: mantissa_at_def less_mult_imp_div_less)
  qed
qed

lemma mantissa_at_ge:
  assumes "nat_bits v = 8 * sz" "v \<noteq> 0"
  shows "2 ^ 23 \<le> mantissa_at sz v"
proof -
  have s0: "0 < sz" and b: "2 ^ (8 * sz - 1) \<le> v"
    using nat_bits_ge [of "8 * sz - 1" v] assms nat_bits_le [of v 0] by simp_all
  show ?thesis
  proof (cases "sz \<le> 3")
    case True
    have "(2 :: nat) ^ 23 = 2 ^ (8 * sz - 1) * 2 ^ (8 * (3 - sz))"
      by (rule pow2_split) (use True s0 in linarith)
    also have "\<dots> \<le> v * 2 ^ (8 * (3 - sz))" using b by simp
    finally show ?thesis using True by (simp add: mantissa_at_def)
  next
    case False
    have "(2 :: nat) ^ (8 * sz - 1) = 2 ^ 23 * 2 ^ (8 * (sz - 3))"
      by (rule pow2_split) (use False in linarith)
    then have "2 ^ 23 * 2 ^ (8 * (sz - 3)) div 2 ^ (8 * (sz - 3)) \<le> v div 2 ^ (8 * (sz - 3))"
      using b by (intro div_le_mono) simp
    then show ?thesis using False by (simp add: mantissa_at_def)
  qed
qed

lemma mantissa_at_Suc: "mantissa_at (Suc sz) v = mantissa_at sz v div 2 ^ 8"
proof (cases "sz \<le> 2")
  case True
  have "(2 :: nat) ^ (8 * (3 - sz)) = 2 ^ (8 * (3 - Suc sz)) * 2 ^ 8"
    by (rule pow2_split) (use True in linarith)
  then show ?thesis using True by (simp add: mantissa_at_def)
next
  case False
  have "(2 :: nat) ^ (8 * (Suc sz - 3)) = 2 ^ (8 * (sz - 3)) * 2 ^ 8"
    by (rule pow2_split) (use False in linarith)
  then show ?thesis using False by (auto simp: mantissa_at_def div_mult2_eq)
qed

lemma GetCompact_mantissa:
  fixes v
  defines "sz \<equiv> (nat_bits v + 7) div 8"
  shows "mantissa_at sz v < 2 ^ 24"
    "compact_size v = (if 2 ^ 23 \<le> mantissa_at sz v then sz + 1 else sz)"
proof -
  have n: "nat_bits v \<le> 8 * sz" "8 * sz < nat_bits v + 8" unfolding sz_def by presburger+
  note lt = mantissa_at_lt [OF n]
  show "mantissa_at sz v < 2 ^ 24"
    using lt power_increasing [of "24 - (8 * sz - nat_bits v)" 24 "2 :: nat"] by linarith
  show "compact_size v = (if 2 ^ 23 \<le> mantissa_at sz v then sz + 1 else sz)"
  proof (cases "v \<noteq> 0 \<and> nat_bits v = 8 * sz")
    case True
    then show ?thesis using mantissa_at_ge [of v sz] by (simp add: compact_size_def)
  next
    case False
    have "mantissa_at sz v < 2 ^ 23"
    proof (cases "v = 0")
      case False
      then show ?thesis
        using lt power_increasing [of "24 - (8 * sz - nat_bits v)" 23 "2 :: nat"]
          \<open>\<not> (v \<noteq> 0 \<and> nat_bits v = 8 * sz)\<close> n by linarith
    qed (simp add: mantissa_at_def)
    moreover have "compact_size v = sz"
      using False n by (auto simp: compact_size_def sz_def)
    ultimately show ?thesis by simp
  qed
qed

lemma GetCompact_word0:
  fixes a
  defines "sz \<equiv> (nat_bits (bval a) + 7) div 8"
  assumes "length a = 8"
  shows "unat (if sz \<le> 3 then ucast (push_bit (8 * (3 - sz)) (base_uint_GetLow64 a))
               else ucast (base_uint_GetLow64 (base_uint_shr a (8 * (sz - 3)))) :: u32) = mantissa_at sz (bval a)"
proof -
  have m: "mantissa_at sz (bval a) < 2 ^ 24" unfolding sz_def by (rule GetCompact_mantissa)
  show ?thesis
  proof (cases "sz \<le> 3")
    case True
    then have mv: "mantissa_at sz (bval a) = bval a * 2 ^ (8 * (3 - sz))" by (simp add: mantissa_at_def)
    have "bval a \<le> bval a * 2 ^ (8 * (3 - sz))" by simp
    then have "bval a < 2 ^ 24" using m mv by linarith
    then have "unat (base_uint_GetLow64 a) = bval a" using assms by (simp add: unat_GetLow64)
    then have "unat (push_bit (8 * (3 - sz)) (base_uint_GetLow64 a)) = bval a * 2 ^ (8 * (3 - sz))"
      using m mv by (subst unat_push_bit) simp_all
    then have "unat (ucast (push_bit (8 * (3 - sz)) (base_uint_GetLow64 a)) :: u32) = bval a * 2 ^ (8 * (3 - sz))"
      using m mv by (simp only: unat_ucast_mod) simp
    then show ?thesis using True mv by (simp only: if_True)
  next
    case False
    then show ?thesis using m assms
      by (simp add: mantissa_at_def unat_ucast_mod unat_GetLow64 bval_shr)
  qed
qed

lemma compact_size_le_33: "length a = 8 \<Longrightarrow> compact_size (bval a) \<le> 33"
  using bval_bound [of a] nat_bits_le [of "bval a" 256] by (auto simp: compact_size_def)

lemma GetCompact_eq:
  assumes "length a = 8"
  obtains c where "GetCompact a neg = Some c"
    "unat c = compact_size (bval a) * 2 ^ 24 + (if neg \<and> compact_mantissa (bval a) \<noteq> 0 then 2 ^ 23 else 0) + compact_mantissa (bval a)"
proof -
  let ?sz = "(nat_bits (bval a) + 7) div 8" and ?s = "compact_size (bval a)" and ?m = "compact_mantissa (bval a)"
  define w0 :: u32 where "w0 = (if ?sz \<le> 3 then ucast (push_bit (8 * (3 - ?sz)) (base_uint_GetLow64 a))
               else ucast (base_uint_GetLow64 (base_uint_shr a (8 * (?sz - 3)))))"
  have w0: "unat w0 = mantissa_at ?sz (bval a)" unfolding w0_def by (rule GetCompact_word0 [OF assms])
  note m0 = GetCompact_mantissa [of "bval a"]
  define w1 where "w1 = (if w0 AND 0x00800000 \<noteq> 0 then drop_bit 8 w0 else w0)"
  define sz1 where "sz1 = (if w0 AND 0x00800000 \<noteq> 0 then ?sz + 1 else ?sz)"
  have b: "w0 AND 0x00800000 \<noteq> 0 \<longleftrightarrow> 2 ^ 23 \<le> mantissa_at ?sz (bval a)"
    using m0(1) by (simp add: and_sign_bit bit_23_iff w0)
  have s1: "sz1 = ?s" unfolding sz1_def b using m0(2) by simp
  have w1: "unat w1 = ?m"
    using m0(2) mantissa_at_Suc [of ?sz "bval a"] unfolding w1_def b
    using m0(1) by (simp add: w0 unsigned_drop_bit_eq drop_bit_eq_div [where 'a = nat] take_bit_nat_eq_self)
  have m: "?m < 2 ^ 23" by (rule compact_mantissa_lt)
  define w2 :: u32 where "w2 = w1 OR push_bit 24 (of_nat sz1)"
  have s: "?s \<le> 33" using assms by (rule compact_size_le_33)
  have sn: "unat (of_nat sz1 :: u32) = ?s" using s by (simp add: s1 unat_of_nat_small)
  have w2: "unat w2 = ?m + 2 ^ 24 * ?s"
    unfolding w2_def using m s by (subst unat_or_push_bit) (simp_all add: w1 sn)
  define c where "c = w2 OR (if neg \<and> w2 AND 0x007FFFFF \<noteq> 0 then 0x00800000 else 0)"
  have z: "w2 AND 0x007FFFFF \<noteq> 0 \<longleftrightarrow> ?m \<noteq> 0"
    using m mod_mult_self2 [of ?m "2 ^ 23" "2 * ?s"] by (simp add: word_unat_eq_iff unat_and_low23 w2)
  have p: "(if w0 AND 0x00800000 \<noteq> 0 then (drop_bit 8 w0, ?sz + 1) else (w0, ?sz)) = (w1, sz1)"
    by (simp add: w1_def sz1_def)
  have nz: "w1 AND NOT 0x007FFFFF = 0" using m w1 by (simp only: and_not_low23)
  have "GetCompact a neg = Some c"
    unfolding GetCompact_def base_uint_bits_eq Let_def w0_def [symmetric] p
    using s nz by (simp add: c_def w2_def s1)
  moreover have "bit w2 23 \<longleftrightarrow> bit (unat w2) 23" by (simp add: bit_unsigned_iff)
  then have "bit w2 23 \<longleftrightarrow> odd ((?m + 2 ^ 23 * (2 * ?s)) div 2 ^ 23)"
    by (simp add: bit_iff_odd [where 'a = nat] w2)
  then have "\<not> bit w2 23" using m by (subst (asm) div_mult_self2) simp_all
  then have "unat (w2 OR 0x00800000) = unat w2 + 2 ^ 23" using unat_set_bit [of 23 w2] by simp
  then have "unat c = ?s * 2 ^ 24 + (if neg \<and> ?m \<noteq> 0 then 2 ^ 23 else 0) + ?m"
    unfolding c_def z by (simp add: w2)
  ultimately show ?thesis by (rule that)
qed

lemma length_of_u64 [simp]: "2 \<le> W \<Longrightarrow> length (base_uint_of_u64 W b) = W"
  by (simp add: base_uint_of_u64_def)

lemma compact_value_overflow:
  assumes "m < 2 ^ 23"
  shows "2 ^ 256 \<le> compact_value sz m \<longleftrightarrow> m \<noteq> 0 \<and> (sz > 34 \<or> (m > 0xFF \<and> sz > 33) \<or> (m > 0xFFFF \<and> sz > 32))"
proof -
  consider "sz \<le> 3" | "3 < sz" "sz \<le> 32" | "sz = 33" | "sz = 34" | "34 < sz" by linarith
  then show ?thesis
  proof cases
    case 1
    have "m div 2 ^ (8 * (3 - sz)) < 2 ^ 256"
      using assms by (intro le_less_trans [OF div_le_dividend]) simp
    then show ?thesis using 1 by (simp add: compact_value_def)
  next
    case 2
    have "m * 2 ^ (8 * (sz - 3)) \<le> m * 2 ^ 232" using 2 by (intro mult_le_mono2 power_increasing) auto
    also have "\<dots> < 2 ^ 256" using assms by simp
    finally show ?thesis using 2 assms by (simp add: compact_value_def)
  next
    case 5
    have "m \<noteq> 0 \<Longrightarrow> 1 * 2 ^ 256 \<le> m * 2 ^ (8 * (sz - 3))" using 5 by (intro mult_le_mono power_increasing) auto
    then show ?thesis using 5 by (cases "m = 0") (simp_all add: compact_value_def)
  qed (auto simp: compact_value_def)
qed

lemma SetCompact_eq:
  fixes c
  defines "v \<equiv> compact_value (unat c div 2 ^ 24) (unat c mod 2 ^ 23)"
  obtains b where "SetCompact c = (b, v \<noteq> 0 \<and> bit c 23, 2 ^ 256 \<le> v)" "length b = 8" "bval b = v mod 2 ^ 256"
proof -
  let ?sz = "unat c div 2 ^ 24" and ?m = "unat c mod 2 ^ 23"
  define w where "w = (if ?sz \<le> 3 then drop_bit (8 * (3 - ?sz)) (c AND 0x007FFFFF) else c AND 0x007FFFFF)"
  define b where "b = (if ?sz \<le> 3 then base_uint_of_u64 8 (ucast w) else base_uint_shl (base_uint_of_u64 8 (ucast w)) (8 * (?sz - 3)))"
  have sz: "unat (drop_bit 24 c) = ?sz"
    by (simp add: unat_drop_bit)
  have w: "unat w = (if ?sz \<le> 3 then v else ?m)"
    unfolding w_def v_def compact_value_def if_distrib [of unat] unat_drop_bit unat_and_low23 by simp
  have m: "?m < 2 ^ 23" by simp
  have vs: "v \<le> ?m" if "?sz \<le> 3" using that by (simp add: v_def compact_value_def)
  have bv: "bval b = v mod 2 ^ 256"
  proof (cases "?sz \<le> 3")
    case True
    then have "v < 2 ^ 256" using vs m by simp
    then show ?thesis using True by (simp add: b_def bval_of_u64 unat_ucast_up w)
  next
    case False
    then show ?thesis by (simp add: b_def bval_of_u64 bval_shl unat_ucast_up w v_def compact_value_def)
  qed
  have v0: "w \<noteq> 0 \<longleftrightarrow> v \<noteq> 0"
    by (simp add: word_unat_eq_iff w) (simp add: v_def compact_value_def)
  have ov: "w \<noteq> 0 \<and> (?sz > 34 \<or> (w > 0xFF \<and> ?sz > 33) \<or> (w > 0xFFFF \<and> ?sz > 32)) \<longleftrightarrow> 2 ^ 256 \<le> v"
    unfolding v_def compact_value_overflow [OF m] using vs m w
    by (auto simp: word_less_nat_alt word_unat_eq_iff)
  have "SetCompact c = (b, v \<noteq> 0 \<and> bit c 23, 2 ^ 256 \<le> v)"
    unfolding SetCompact_def Let_def sz w_def [symmetric] b_def [symmetric] and_sign_bit ov using v0 by simp
  then show ?thesis by (rule that) (simp add: b_def, rule bv)
qed


subsection \<open>Byte images\<close>

definition ArithToUint256 :: "base_uint \<Rightarrow> uint256" where
  "ArithToUint256 a = word_of_nat (nat_of_le (concat (map ser_writedata32 a)))"

definition UintToArith256 :: "uint256 \<Rightarrow> base_uint" where
  "UintToArith256 a = map (\<lambda>x. word_of_nat (nat_of_le (take 4 (drop (x * 4) (ser_uint256 a))))) [0..<8]"

lemma nat_of_le_digits: "nat_of_le (concat (map ser_writedata32 a)) = bval a"
  by (induction a) (simp_all add: nat_of_le_append ser_writedata32_def nat_of_le_of_nat)

lemma bval_digits_of_bytes:
  "length bs = 4 * n \<Longrightarrow> bval (map (\<lambda>x. word_of_nat (nat_of_le (take 4 (drop (x * 4) bs)))) [0..<n]) = nat_of_le bs"
proof (induction n arbitrary: bs)
  case (Suc n)
  have "nat_of_le (take 4 bs) < 2 ^ 32" using nat_of_le_bound [of "take 4 bs"] Suc.prems by simp
  then have "unat (word_of_nat (nat_of_le (take 4 bs)) :: u32) = nat_of_le (take 4 bs)"
    by (simp add: unat_of_nat_small)
  moreover have "[0..<Suc n] = 0 # map Suc [0..<n]" by (simp only: upt_conv_Cons map_Suc_upt zero_less_Suc)
  moreover have "bval (map (\<lambda>x. word_of_nat (nat_of_le (take 4 (drop (x * 4) (drop 4 bs))))) [0..<n]) = nat_of_le (drop 4 bs)"
    using Suc.prems by (intro Suc.IH) simp
  moreover have "nat_of_le bs = nat_of_le (take 4 bs) + 2 ^ 32 * nat_of_le (drop 4 bs)"
    using nat_of_le_append [of "take 4 bs" "drop 4 bs"] Suc.prems by simp
  ultimately show ?case by (simp add: comp_def add.commute del: upt_Suc)
qed simp

lemma bval_UintToArith256: "bval (UintToArith256 h) = unat h"
proof -
  have "bval (UintToArith256 h) = nat_of_le (ser_uint256 h)"
    unfolding UintToArith256_def by (rule bval_digits_of_bytes) (simp add: ser_uint256_def)
  also have "\<dots> = unat h" using unat_lt2p [of h] by (simp add: ser_uint256_def nat_of_le_of_nat)
  finally show ?thesis .
qed

lemma length_UintToArith256 [simp]: "length (UintToArith256 h) = 8"
  by (simp add: UintToArith256_def)

lemma unat_ArithToUint256: "length a = 8 \<Longrightarrow> unat (ArithToUint256 a) = bval a"
  using bval_bound [of a] by (simp add: ArithToUint256_def nat_of_le_digits unat_of_nat_small)

subsection \<open>Properties\<close>

text \<open>C37: The digit-array operators compute on the number the digits stand for: addition, subtraction, negation,
  the two products and the left shift modulo \<open>2 ^ 256\<close>, the right shift and \<open>bits\<close> exactly, and the
  comparisons in the order of the numbers.\<close>

theorem arith_operators_correct:
  assumes "length a = 8" "length b = 8"
  shows "bval (base_uint_add a b) = (bval a + bval b) mod 2 ^ 256 \<and>
    bval (base_uint_sub a b) = (bval a + (2 ^ 256 - bval b)) mod 2 ^ 256 \<and>
    bval (base_uint_neg b) = (2 ^ 256 - bval b) mod 2 ^ 256 \<and>
    bval (base_uint_mul a b) = (bval a * bval b) mod 2 ^ 256 \<and>
    bval (base_uint_mul32 a w) = (bval a * unat w) mod 2 ^ 256 \<and>
    bval (base_uint_shl a sh) = (bval a * 2 ^ sh) mod 2 ^ 256 \<and>
    bval (base_uint_shr a sh) = bval a div 2 ^ sh \<and>
    (base_uint_bits a \<le> n \<longleftrightarrow> bval a < 2 ^ n) \<and>
    base_uint_CompareTo a b = (if bval a < bval b then - 1 else if bval b < bval a then 1 else 0) \<and>
    (base_uint_EqualTo a x \<longleftrightarrow> bval a = unat x)"
  using assms by (simp add: bval_add bval_sub bval_neg bval_mul bval_mul32 bval_shl bval_shr base_uint_bits_eq
      nat_bits_le bval_CompareTo base_uint_EqualTo_iff)

theorem arith_operators_correct_witness:
  "bval (base_uint_add [5, 0, 0, 0, 0, 0, 0, 1] [7, 0, 0, 0, 0, 0, 0, 2]) = 3 * 2 ^ 224 + 12"
  using arith_operators_correct [of "[5, 0, 0, 0, 0, 0, 0, 1]" "[7, 0, 0, 0, 0, 0, 0, 2]"] by simp

text \<open>C32: Shift-and-subtract division on digit arrays returns the floor of the quotient of the two numbers for
  every nonzero divisor, and throws exactly when the divisor is zero.\<close>

theorem arith_division_correct:
  assumes "length a = 8" "length b = 8"
  shows "(base_uint_div a b = None \<longleftrightarrow> bval b = 0) \<and>
    (bval b \<noteq> 0 \<longrightarrow> (\<exists>q. base_uint_div a b = Some q \<and> length q = 8 \<and> bval q = bval a div bval b))"
  using base_uint_div_eq [of a b] assms by (cases "base_uint_div a b") auto

theorem arith_division_correct_witness:
  "\<exists>q. base_uint_div [100, 0, 0, 0, 0, 0, 0, 0] [7, 0, 0, 0, 0, 0, 0, 0] = Some q \<and> length q = 8 \<and> bval q = 14"
  using arith_division_correct [of "[100, 0, 0, 0, 0, 0, 0, 0]" "[7, 0, 0, 0, 0, 0, 0, 0]"] by simp

text \<open>Decoding a compact target: \<open>SetCompact\<close> yields mantissa times \<open>256 ^ (exponent - 3)\<close> modulo
  \<open>2 ^ 256\<close>, reports overflow exactly when the exact value does not fit in 256 bits, and reports a
  negative number exactly when the sign bit is set on a nonzero value.\<close>

theorem set_compact_exact:
  "let v = compact_value (unat c div 2 ^ 24) (unat c mod 2 ^ 23)
   in \<exists>b. SetCompact c = (b, v \<noteq> 0 \<and> bit c 23, 2 ^ 256 \<le> v) \<and> length b = 8 \<and> bval b = v mod 2 ^ 256"
  using SetCompact_eq [of c] by (auto simp: Let_def)

lemma SetCompact_GetCompact:
  assumes "length a = 8"
  obtains c b where "GetCompact a False = Some c" "SetCompact c = (b, False, False)" "length b = 8"
    "bval b = compact_round (bval a)" "unat c = compact_size (bval a) * 2 ^ 24 + compact_mantissa (bval a)"
proof -
  obtain c where c: "GetCompact a False = Some c"
    "unat c = compact_size (bval a) * 2 ^ 24 + compact_mantissa (bval a)"
    using GetCompact_eq [OF assms, of False] by auto
  have m: "compact_mantissa (bval a) < 2 ^ 23" by (rule compact_mantissa_lt)
  have d: "unat c div 2 ^ 24 = compact_size (bval a)" using c(2) m by simp
  have e: "unat c mod 2 ^ 23 = compact_mantissa (bval a)"
    using c(2) m mod_mult_self2 [of "compact_mantissa (bval a)" "2 ^ 23" "2 * compact_size (bval a)"]
    by (simp add: add.commute mult.commute)
  have r: "compact_round (bval a) < 2 ^ 256" using compact_round_le [of "bval a"] bval_bound [of a] assms by simp
  have "bit c 23 \<longleftrightarrow> bit (unat c) 23" by (simp add: bit_unsigned_iff)
  also have "\<dots> \<longleftrightarrow> odd ((compact_mantissa (bval a) + 2 ^ 23 * (2 * compact_size (bval a))) div 2 ^ 23)"
    by (simp add: bit_iff_odd [where 'a = nat] c(2) add.commute mult.commute)
  finally have "\<not> bit c 23" using m by (subst (asm) div_mult_self2) simp_all
  then show ?thesis
    using SetCompact_eq [of c, unfolded d e compact_value_round] c r that by auto
qed

text \<open>C27: Encoding a target into the compact format never trips the assertions of \<open>GetCompact\<close>, and decoding it
  again yields a target that is not negative, does not overflow, is at most the original and within one
  part in \<open>2 ^ 15\<close> of it, and encodes to the same compact word.\<close>

theorem compact_encode_decode:
  assumes "length a = 8"
  shows "\<exists>c b. GetCompact a False = Some c \<and> SetCompact c = (b, False, False) \<and> bval b \<le> bval a \<and>
           (bval a - bval b) * 2 ^ 15 \<le> bval b \<and> GetCompact b False = Some c"
proof -
  obtain c b where c: "GetCompact a False = Some c" "SetCompact c = (b, False, False)" "length b = 8"
    "bval b = compact_round (bval a)" "unat c = compact_size (bval a) * 2 ^ 24 + compact_mantissa (bval a)"
    using SetCompact_GetCompact [OF assms] .
  obtain c' where "GetCompact b False = Some c'" "unat c' = compact_size (bval b) * 2 ^ 24 + compact_mantissa (bval b)"
    using GetCompact_eq [OF c(3), of False] by auto
  then have "GetCompact b False = Some c"
    using c(5) unfolding c(4) compact_size_round compact_mantissa_round [unfolded compact_size_round]
    by (simp add: word_unat_eq_iff)
  then show ?thesis
    using c compact_round_le [of "bval a"] compact_round_error [of "bval a"] by auto
qed

theorem compact_encode_decode_witness:
  "\<exists>c b. GetCompact [0x12345678, 0, 0, 0, 0, 0, 0, 0] False = Some c \<and> SetCompact c = (b, False, False) \<and>
         bval b \<le> 0x12345678 \<and> GetCompact b False = Some c"
  using compact_encode_decode [of "[0x12345678, 0, 0, 0, 0, 0, 0, 0]"] by auto

end
