(* ===== verification/Chain.thy ===== *)
theory Chain
  imports Block ArithUint256
begin

text \<open>
  Model of \<open>src/bitcoin/src/chain.h\<close> and \<open>chain.cpp\<close> and of \<open>BlockManager::AddToBlockIndex\<close> in
  \<open>node/blockstorage.cpp\<close>. The block index is the map from block hashes to entries that
  \<open>m_block_index\<close> is; a pointer to an entry is the hash it is stored under, and \<open>nullptr\<close> is \<open>None\<close>.
  Operations that can fail an assertion, throw or dereference a null pointer return an option.
\<close>

subsection \<open>Entries\<close>

record CBlockIndex =
  pprev :: "uint256 option"
  pskip :: "uint256 option"
  nHeight :: int
  nFile :: int
  nDataPos :: u32
  nUndoPos :: u32
  nChainWork :: base_uint
  nTx :: u32
  m_chain_tx_count :: u64
  nStatus :: u32
  bi_nVersion :: u32
  bi_hashMerkleRoot :: uint256
  bi_nTime :: u32
  bi_nBits :: u32
  bi_nNonce :: u32
  nSequenceId :: int
  nTimeMax :: u32

type_synonym block_map = "uint256 \<Rightarrow> CBlockIndex option"

definition CBlockIndex_new :: "CBlockHeader \<Rightarrow> CBlockIndex" where
  "CBlockIndex_new block =
     \<lparr>pprev = None, pskip = None, nHeight = 0, nFile = 0, nDataPos = 0, nUndoPos = 0,
      nChainWork = base_uint_of_u64 8 0, nTx = 0, m_chain_tx_count = 0, nStatus = 0,
      bi_nVersion = nVersion block, bi_hashMerkleRoot = hashMerkleRoot block, bi_nTime = nTime block,
      bi_nBits = nBits block, bi_nNonce = nNonce block, nSequenceId = 0, nTimeMax = 0\<rparr>"

definition GetBlockHeader :: "CBlockIndex \<Rightarrow> CBlockHeader" where
  "GetBlockHeader b =
     \<lparr>nVersion = bi_nVersion b, hashPrevBlock = (case pprev b of Some p \<Rightarrow> p | None \<Rightarrow> 0),
      hashMerkleRoot = bi_hashMerkleRoot b, nTime = bi_nTime b, nBits = bi_nBits b, nNonce = bi_nNonce b\<rparr>"

definition GetBlockTime :: "CBlockIndex \<Rightarrow> int" where
  "GetBlockTime b = uint (bi_nTime b)"

definition GetBlockTimeMax :: "CBlockIndex \<Rightarrow> int" where
  "GetBlockTimeMax b = uint (nTimeMax b)"

definition BLOCK_VALID_TREE :: u32 where
  "BLOCK_VALID_TREE = 2"

definition BLOCK_VALID_MASK :: u32 where
  "BLOCK_VALID_MASK = 1 OR 2 OR 3 OR 4 OR 5"

definition BLOCK_HAVE_DATA :: u32 where
  "BLOCK_HAVE_DATA = 8"

definition BLOCK_HAVE_UNDO :: u32 where
  "BLOCK_HAVE_UNDO = 16"

definition BLOCK_FAILED_MASK :: u32 where
  "BLOCK_FAILED_MASK = 32 OR 64"

definition GetBlockPos :: "CBlockIndex \<Rightarrow> (int \<times> u32) option" where
  "GetBlockPos b = (if nStatus b AND BLOCK_HAVE_DATA \<noteq> 0 then Some (nFile b, nDataPos b) else None)"

definition GetUndoPos :: "CBlockIndex \<Rightarrow> (int \<times> u32) option" where
  "GetUndoPos b = (if nStatus b AND BLOCK_HAVE_UNDO \<noteq> 0 then Some (nFile b, nUndoPos b) else None)"

text \<open>\<open>IsValid\<close> and \<open>RaiseValidity\<close>; \<open>None\<close> is the failed assertion that only validity flags are passed.\<close>

definition IsValid :: "CBlockIndex \<Rightarrow> u32 \<Rightarrow> bool option" where
  "IsValid b nUpTo =
     (if nUpTo AND NOT BLOCK_VALID_MASK \<noteq> 0 then None
      else if nStatus b AND BLOCK_FAILED_MASK \<noteq> 0 then Some False
      else Some (nStatus b AND BLOCK_VALID_MASK \<ge> nUpTo))"

definition RaiseValidity :: "CBlockIndex \<Rightarrow> u32 \<Rightarrow> (CBlockIndex \<times> bool) option" where
  "RaiseValidity b nUpTo =
     (if nUpTo AND NOT BLOCK_VALID_MASK \<noteq> 0 then None
      else if nStatus b AND BLOCK_FAILED_MASK \<noteq> 0 then Some (b, False)
      else if nStatus b AND BLOCK_VALID_MASK < nUpTo
        then Some (b\<lparr>nStatus := (nStatus b AND NOT BLOCK_VALID_MASK) OR nUpTo\<rparr>, True)
      else Some (b, False))"

subsection \<open>The skip list\<close>

definition InvertLowestOne :: "int \<Rightarrow> int" where
  "InvertLowestOne n = n AND (n - 1)"

definition GetSkipHeight :: "int \<Rightarrow> int" where
  "GetSkipHeight height =
     (if height < 2 then 0
      else if height AND 1 \<noteq> 0 then InvertLowestOne (InvertLowestOne (height - 1)) + 1
      else InvertLowestOne height)"

lemma InvertLowestOne_bounds:
  "0 \<le> n \<Longrightarrow> 0 \<le> InvertLowestOne n" "1 \<le> n \<Longrightarrow> InvertLowestOne n < n"
  using AND_upper2 [of "n - 1" n] by (auto simp: InvertLowestOne_def)

lemma GetSkipHeight_bounds: "0 \<le> GetSkipHeight h" "1 \<le> h \<Longrightarrow> GetSkipHeight h < h"
proof -
  show "0 \<le> GetSkipHeight h"
    by (auto simp: GetSkipHeight_def intro!: add_nonneg_nonneg InvertLowestOne_bounds)
  assume h: "1 \<le> h"
  show "GetSkipHeight h < h"
  proof (cases "2 \<le> h \<and> h AND 1 \<noteq> 0")
    case True
    let ?k = "InvertLowestOne (h - 1)"
    have k: "0 \<le> ?k" "?k < h - 1" using True by (auto intro: InvertLowestOne_bounds)
    have "InvertLowestOne ?k \<le> ?k"
      using InvertLowestOne_bounds(2) [of ?k] k by (cases "?k = 0") (auto simp: InvertLowestOne_def)
    then show ?thesis using True k by (simp add: GetSkipHeight_def)
  next
    case False
    then show ?thesis using h by (auto simp: GetSkipHeight_def intro: InvertLowestOne_bounds)
  qed
qed

text \<open>The loop of \<open>GetAncestor\<close>, entered with \<open>0 \<le> height\<close>; \<open>None\<close> is the failed \<open>assert(pindexWalk->pprev)\<close>.\<close>

function GetAncestor_walk :: "block_map \<Rightarrow> int \<Rightarrow> uint256 \<Rightarrow> int \<Rightarrow> uint256 option" where
  "GetAncestor_walk m height pindexWalk heightWalk =
     (if 0 \<le> height \<and> heightWalk > height then
        (case m pindexWalk of
           None \<Rightarrow> None
         | Some b \<Rightarrow>
             let heightSkip = GetSkipHeight heightWalk;
                 heightSkipPrev = GetSkipHeight (heightWalk - 1)
             in if pskip b \<noteq> None \<and>
                   (heightSkip = height \<or>
                    (heightSkip > height \<and> \<not> (heightSkipPrev < heightSkip - 2 \<and> heightSkipPrev \<ge> height)))
                then GetAncestor_walk m height (the (pskip b)) heightSkip
                else (case pprev b of
                        None \<Rightarrow> None
                      | Some p \<Rightarrow> GetAncestor_walk m height p (heightWalk - 1)))
      else Some pindexWalk)"
  by pat_completeness auto
termination
  by (relation "measure (\<lambda>(m, height, p, hw). nat hw)") (simp_all add: GetSkipHeight_bounds)

declare GetAncestor_walk.simps [simp del]

text \<open>The result is \<open>Some None\<close> for a returned \<open>nullptr\<close>.\<close>

definition GetAncestor :: "block_map \<Rightarrow> uint256 \<Rightarrow> int \<Rightarrow> uint256 option option" where
  "GetAncestor m p height =
     (case m p of
        None \<Rightarrow> None
      | Some b \<Rightarrow>
          if height > nHeight b \<or> height < 0 then Some None
          else map_option Some (GetAncestor_walk m height p (nHeight b)))"

definition BuildSkip :: "block_map \<Rightarrow> uint256 \<Rightarrow> block_map option" where
  "BuildSkip m p =
     (case m p of
        None \<Rightarrow> None
      | Some b \<Rightarrow>
          (case pprev b of
             None \<Rightarrow> Some m
           | Some q \<Rightarrow>
               (case GetAncestor m q (GetSkipHeight (nHeight b)) of
                  None \<Rightarrow> None
                | Some r \<Rightarrow> Some (m(p \<mapsto> b\<lparr>pskip := r\<rparr>)))))"

subsection \<open>Ancestors\<close>

primrec anc :: "block_map \<Rightarrow> uint256 \<Rightarrow> nat \<Rightarrow> uint256 option" where
  "anc m p 0 = Some p"
| "anc m p (Suc n) = (case m p of None \<Rightarrow> None | Some b \<Rightarrow> (case pprev b of None \<Rightarrow> None | Some q \<Rightarrow> anc m q n))"

text \<open>What every entry of a block index satisfies: its height is one more than its predecessor's (zero without
  one), and a skip pointer leads to the ancestor at the skip height.\<close>

definition entry_ok :: "block_map \<Rightarrow> uint256 \<Rightarrow> CBlockIndex \<Rightarrow> bool" where
  "entry_ok m p b \<longleftrightarrow>
     (case pprev b of None \<Rightarrow> nHeight b = 0
      | Some q \<Rightarrow> (case m q of None \<Rightarrow> False | Some bq \<Rightarrow> nHeight b = nHeight bq + 1)) \<and>
     0 \<le> nHeight b \<and>
     (case pskip b of None \<Rightarrow> True
      | Some s \<Rightarrow> anc m p (nat (nHeight b - GetSkipHeight (nHeight b))) = Some s)"

definition index_ok :: "block_map \<Rightarrow> bool" where
  "index_ok m \<longleftrightarrow> (\<forall>p b. m p = Some b \<longrightarrow> entry_ok m p b)"

lemma anc_add: "anc m p (i + j) = (case anc m p i of None \<Rightarrow> None | Some q \<Rightarrow> anc m q j)"
  by (induction i arbitrary: p) (auto split: option.splits)

lemma index_okD: "index_ok m \<Longrightarrow> m p = Some b \<Longrightarrow> entry_ok m p b"
  by (simp add: index_ok_def)

lemma nHeight_nonneg: "index_ok m \<Longrightarrow> m p = Some b \<Longrightarrow> 0 \<le> nHeight b"
  by (auto dest!: index_okD simp: entry_ok_def)

lemma index_ok_prev:
  assumes "index_ok m" "m p = Some b" "0 < nHeight b"
  obtains q bq where "pprev b = Some q" "m q = Some bq" "nHeight bq = nHeight b - 1"
  using index_okD [OF assms(1, 2)] assms(3) by (auto simp: entry_ok_def split: option.splits)

lemma index_ok_no_prev: "index_ok m \<Longrightarrow> m p = Some b \<Longrightarrow> pprev b = None \<longleftrightarrow> nHeight b = 0"
proof (cases "pprev b")
  case (Some q)
  assume m: "index_ok m" "m p = Some b"
  then obtain bq where "m q = Some bq" "nHeight b = nHeight bq + 1"
    using index_okD [OF m] Some by (auto simp: entry_ok_def split: option.splits)
  with nHeight_nonneg [OF m(1)] Some show ?thesis by fastforce
qed (use index_okD in \<open>fastforce simp: entry_ok_def\<close>)

lemma anc_exists:
  "index_ok m \<Longrightarrow> m p = Some b \<Longrightarrow> int n \<le> nHeight b \<Longrightarrow>
   \<exists>q bq. anc m p n = Some q \<and> m q = Some bq \<and> nHeight bq = nHeight b - int n"
proof (induction n arbitrary: p b)
  case (Suc n)
  obtain q bq where q: "pprev b = Some q" "m q = Some bq" "nHeight bq = nHeight b - 1"
    using index_ok_prev [OF Suc.prems(1, 2)] Suc.prems(3) by auto
  from Suc.IH [OF Suc.prems(1) q(2)] Suc.prems(2, 3) q show ?case by (auto simp: algebra_simps)
qed simp

lemma anc_None:
  "index_ok m \<Longrightarrow> m p = Some b \<Longrightarrow> nHeight b < int n \<Longrightarrow> anc m p n = None"
proof (induction n arbitrary: p b)
  case 0
  then show ?case using nHeight_nonneg by force
next
  case (Suc n)
  show ?case
  proof (cases "pprev b")
    case None
    with Suc.prems show ?thesis by simp
  next
    case (Some q)
    then obtain bq where "m q = Some bq" "nHeight bq = nHeight b - 1"
      using index_okD [OF Suc.prems(1, 2)] by (auto simp: entry_ok_def split: option.splits)
    with Suc Some show ?thesis by simp
  qed
qed

theorem GetAncestor_walk_eq:
  assumes "index_ok m" "m p = Some b" "0 \<le> height" "height \<le> nHeight b"
  shows "GetAncestor_walk m height p (nHeight b) = anc m p (nat (nHeight b - height))"
  using assms(2-)
proof (induction "nat (nHeight b)" arbitrary: p b rule: less_induct)
  case less
  note prems = less.prems
  show ?case
  proof (cases "height < nHeight b")
    case False
    then show ?thesis using prems by (simp add: GetAncestor_walk.simps)
  next
    case True
    then have h1: "1 \<le> nHeight b" using prems by simp
    let ?hs = "GetSkipHeight (nHeight b)"
    have hs: "0 \<le> ?hs" "?hs < nHeight b" using GetSkipHeight_bounds h1 by auto
    have prev: "GetAncestor_walk m height q (nHeight b - 1) = anc m p (nat (nHeight b - height))"
      if q: "pprev b = Some q" for q
    proof -
      obtain bq where bq: "m q = Some bq" "nHeight bq = nHeight b - 1"
        using index_ok_prev [OF assms(1) prems(1)] h1 q by auto
      have "GetAncestor_walk m height q (nHeight bq) = anc m q (nat (nHeight bq - height))"
        using bq True prems by (intro less.hyps) auto
      moreover have "nat (nHeight b - height) = Suc (nat (nHeight bq - height))" using bq True by simp
      ultimately show ?thesis using bq prems q by simp
    qed
    have skip: "GetAncestor_walk m height s ?hs = anc m p (nat (nHeight b - height))"
      if s: "pskip b = Some s" and "height \<le> ?hs" for s
    proof -
      have a: "anc m p (nat (nHeight b - ?hs)) = Some s"
        using index_okD [OF assms(1) prems(1)] s by (simp add: entry_ok_def)
      obtain bs where bs: "m s = Some bs" "nHeight bs = ?hs"
        using anc_exists [OF assms(1) prems(1), of "nat (nHeight b - ?hs)"] a hs by auto
      have "GetAncestor_walk m height s (nHeight bs) = anc m s (nat (nHeight bs - height))"
        using bs hs that prems by (intro less.hyps) auto
      moreover have "nat (nHeight b - height) = nat (nHeight b - ?hs) + nat (nHeight bs - height)"
        using bs hs that by simp
      ultimately show ?thesis using bs a by (simp add: anc_add)
    qed
    obtain q where "pprev b = Some q" using index_ok_prev [OF assms(1) prems(1)] h1 by auto
    let ?c = "pskip b \<noteq> None \<and> (?hs = height \<or> (?hs > height \<and>
      \<not> (GetSkipHeight (nHeight b - 1) < ?hs - 2 \<and> GetSkipHeight (nHeight b - 1) \<ge> height)))"
    have "GetAncestor_walk m height p (nHeight b) =
      (if ?c then GetAncestor_walk m height (the (pskip b)) ?hs else GetAncestor_walk m height q (nHeight b - 1))"
      by (subst GetAncestor_walk.simps) (simp only: prems True \<open>pprev b = Some q\<close> Let_def option.case if_True simp_thms)
    moreover have "GetAncestor_walk m height (the (pskip b)) ?hs = anc m p (nat (nHeight b - height))" if ?c
      using that by (intro skip) auto
    ultimately show ?thesis using prev [OF \<open>pprev b = Some q\<close>] by (cases ?c) (simp_all only: if_True if_False simp_thms)
  qed
qed


lemma GetAncestor_eq:
  assumes "index_ok m" "m p = Some b"
  shows "GetAncestor m p height =
    Some (if 0 \<le> height \<and> height \<le> nHeight b then anc m p (nat (nHeight b - height)) else None)"
proof (cases "0 \<le> height \<and> height \<le> nHeight b")
  case True
  then obtain q where "anc m p (nat (nHeight b - height)) = Some q"
    using anc_exists [OF assms, of "nat (nHeight b - height)"] by auto
  with True show ?thesis using GetAncestor_walk_eq [OF assms] assms by (simp add: GetAncestor_def)
qed (use assms in \<open>auto simp: GetAncestor_def\<close>)

lemma GetAncestor_height:
  assumes "index_ok m" "m p = Some b" "0 \<le> height" "height \<le> nHeight b"
  obtains q bq where "GetAncestor m p height = Some (Some q)" "m q = Some bq" "nHeight bq = height"
    "anc m p (nat (nHeight b - height)) = Some q"
  using anc_exists [OF assms(1, 2), of "nat (nHeight b - height)"] GetAncestor_eq [OF assms(1, 2)] assms by auto

subsection \<open>Work\<close>

text \<open>\<open>GetBlockProof\<close>; \<open>None\<close> would be a division by zero.\<close>

definition GetBlockProof :: "u32 \<Rightarrow> base_uint option" where
  "GetBlockProof bits =
     (case SetCompact bits of (bnTarget, fNegative, fOverflow) \<Rightarrow>
        if fNegative \<or> fOverflow \<or> base_uint_EqualTo bnTarget 0 then Some (base_uint_of_u64 8 0)
        else map_option (\<lambda>q. base_uint_add q (base_uint_of_u64 8 1))
               (base_uint_div (base_uint_not bnTarget) (base_uint_add bnTarget (base_uint_of_u64 8 1))))"

text \<open>The target a compact word stands for, when it stands for one.\<close>

definition compact_target :: "u32 \<Rightarrow> nat option" where
  "compact_target c =
     (let v = compact_value (unat c div 2 ^ 24) (unat c mod 2 ^ 23)
      in if v = 0 \<or> bit c 23 \<or> 2 ^ 256 \<le> v then None else Some v)"

definition block_work :: "u32 \<Rightarrow> nat" where
  "block_work c = (case compact_target c of None \<Rightarrow> 0 | Some t \<Rightarrow> 2 ^ 256 div (t + 1))"

lemma SetCompact_target:
  obtains b neg ov where "SetCompact c = (b, neg, ov)" "length b = 8"
    "compact_target c = (if neg \<or> ov \<or> bval b = 0 then None else Some (bval b))"
    "neg \<or> ov \<or> bval b = 0 \<longleftrightarrow> compact_target c = None"
proof -
  let ?v = "compact_value (unat c div 2 ^ 24) (unat c mod 2 ^ 23)"
  obtain b where b: "SetCompact c = (b, ?v \<noteq> 0 \<and> bit c 23, 2 ^ 256 \<le> ?v)" "length b = 8" "bval b = ?v mod 2 ^ 256"
    by (rule SetCompact_eq)
  show ?thesis
    by (rule that [OF b(1, 2)]) (use b(3) in \<open>auto simp: compact_target_def Let_def not_le\<close>)
qed

lemma compact_value_not_max:
  assumes "m < 2 ^ 23"
  shows "compact_value sz m \<noteq> 2 ^ 256 - 1"
proof (cases "sz \<le> 3")
  case True
  have "m div 2 ^ (8 * (3 - sz)) < 2 ^ 23" using assms by (intro le_less_trans [OF div_le_dividend])
  then show ?thesis using True by (simp add: compact_value_def)
next
  case False
  then have "(2 :: nat) dvd 2 ^ (8 * (sz - 3))" by (intro dvd_power) auto
  then have "even (compact_value sz m)" using False by (simp add: compact_value_def)
  moreover have "odd (2 ^ 256 - 1 :: nat)" by simp
  ultimately show ?thesis by metis
qed

lemma GetBlockProof_eq:
  obtains w where "GetBlockProof bits = Some w" "length w = 8"
    "bval w = block_work bits"
proof -
  obtain b neg ov where b: "SetCompact bits = (b, neg, ov)" "length b = 8"
    "compact_target bits = (if neg \<or> ov \<or> bval b = 0 then None else Some (bval b))"
    by (rule SetCompact_target)
  show ?thesis
  proof (cases "neg \<or> ov \<or> bval b = 0")
    case True
    then show ?thesis
      using b by (intro that [of "base_uint_of_u64 8 0"]) (auto simp: GetBlockProof_def base_uint_EqualTo_iff bval_of_u64 block_work_def)
  next
    case False
    let ?d = "base_uint_add b (base_uint_of_u64 8 1)"
    have t: "bval b \<noteq> 2 ^ 256 - 1" "bval b < 2 ^ 256"
      using b(3) False compact_value_not_max [of "unat bits mod 2 ^ 23" "unat bits div 2 ^ 24"] bval_bound [of b] b(2)
      by (auto simp: compact_target_def Let_def split: if_splits)
    have d: "length ?d = 8" "bval ?d = bval b + 1"
      using b(2) t by (simp_all add: bval_add bval_of_u64)
    have n: "bval (base_uint_not b) = 2 ^ 256 - 1 - bval b" "length (base_uint_not b) = 8"
      using bval_not [of b] b(2) by simp_all
    obtain q where q: "base_uint_div (base_uint_not b) ?d = Some q" "length q = 8"
      "bval q = (2 ^ 256 - 1 - bval b) div (bval b + 1)"
      using base_uint_div_eq [of "base_uint_not b" ?d] d n by (cases "base_uint_div (base_uint_not b) ?d") auto
    have s: "(2 ^ 256 - 1 - bval b) div (bval b + 1) + 1 = 2 ^ 256 div (bval b + 1)"
    proof -
      have "(2 ^ 256 :: nat) = (2 ^ 256 - 1 - bval b) + (bval b + 1)" using t by simp
      then show ?thesis by (metis div_add_self2 add_is_0 one_neq_zero)
    qed
    have "2 ^ 256 div (bval b + 1) < (2 ^ 256 :: nat)" using False by (intro div_less_dividend) auto
    then have "bval (base_uint_add q (base_uint_of_u64 8 1)) = 2 ^ 256 div (bval b + 1)"
      using q s by (simp add: bval_add bval_of_u64)
    then show ?thesis
      using False b q by (intro that [of "base_uint_add q (base_uint_of_u64 8 1)"])
        (auto simp: GetBlockProof_def base_uint_EqualTo_iff block_work_def)
  qed
qed

subsection \<open>Adding a header to the index\<close>

record BlockManager =
  m_block_index :: block_map
  m_dirty_blockindex :: "uint256 set"
  best_header :: "uint256 option"

text \<open>The fields \<open>AddToBlockIndex\<close> sets from the predecessor once the entry is in the map under \<open>hash\<close>.\<close>

definition link_entry :: "block_map \<Rightarrow> uint256 \<Rightarrow> uint256 \<Rightarrow> block_map option" where
  "link_entry m hash prev =
     (case m hash of None \<Rightarrow> None
      | Some b \<Rightarrow>
          (case m prev of
             None \<Rightarrow> Some m
           | Some bp \<Rightarrow> BuildSkip (m(hash \<mapsto> b\<lparr>pprev := Some prev, nHeight := nHeight bp + 1\<rparr>)) hash))"

definition finish_entry :: "block_map \<Rightarrow> CBlockIndex \<Rightarrow> CBlockIndex option" where
  "finish_entry m b =
     (let prev = (case pprev b of None \<Rightarrow> None | Some q \<Rightarrow> m q);
          tmax = (case prev of Some bp \<Rightarrow> max (nTimeMax bp) (bi_nTime b) | None \<Rightarrow> bi_nTime b);
          work = (case prev of Some bp \<Rightarrow> nChainWork bp | None \<Rightarrow> base_uint_of_u64 8 0)
      in case GetBlockProof (bi_nBits b) of
           None \<Rightarrow> None
         | Some proof \<Rightarrow>
             map_option fst (RaiseValidity (b\<lparr>nTimeMax := tmax, nChainWork := base_uint_add work proof\<rparr>) BLOCK_VALID_TREE))"

definition better_header :: "block_map \<Rightarrow> uint256 option \<Rightarrow> CBlockIndex \<Rightarrow> bool" where
  "better_header m best b =
     (case best of
        None \<Rightarrow> True
      | Some p \<Rightarrow> (case m p of None \<Rightarrow> False
                   | Some bb \<Rightarrow> base_uint_CompareTo (nChainWork bb) (nChainWork b) < 0))"

definition AddToBlockIndex :: "(bytes \<Rightarrow> uint256) \<Rightarrow> BlockManager \<Rightarrow> CBlockHeader \<Rightarrow> (uint256 \<times> BlockManager) option" where
  "AddToBlockIndex H s block =
     (let hash = CBlockHeader_GetHash H block
      in if m_block_index s hash \<noteq> None then Some (hash, s)
         else case link_entry ((m_block_index s)(hash \<mapsto> CBlockIndex_new block)) hash (hashPrevBlock block) of
           None \<Rightarrow> None
         | Some m1 \<Rightarrow>
             (case m1 hash of None \<Rightarrow> None
              | Some b1 \<Rightarrow>
                  (case finish_entry m1 b1 of
                     None \<Rightarrow> None
                   | Some b2 \<Rightarrow>
                       let m2 = m1(hash \<mapsto> b2)
                       in Some (hash, s\<lparr>m_block_index := m2,
                                        best_header := (if better_header m2 (best_header s) b2 then Some hash else best_header s),
                                        m_dirty_blockindex := insert hash (m_dirty_blockindex s)\<rparr>))))"

text \<open>What the derived fields of an entry hold.\<close>

definition work_ok :: "block_map \<Rightarrow> CBlockIndex \<Rightarrow> bool" where
  "work_ok m b \<longleftrightarrow> length (nChainWork b) = 8 \<and>
     (case pprev b of
        None \<Rightarrow> nTimeMax b = bi_nTime b \<and> bval (nChainWork b) = block_work (bi_nBits b)
      | Some q \<Rightarrow> (case m q of None \<Rightarrow> False
                  | Some bq \<Rightarrow> nTimeMax b = max (nTimeMax bq) (bi_nTime b) \<and>
                      bval (nChainWork b) = (bval (nChainWork bq) + block_work (bi_nBits b)) mod 2 ^ 256))"

definition manager_ok :: "BlockManager \<Rightarrow> bool" where
  "manager_ok s \<longleftrightarrow> index_ok (m_block_index s) \<and> (\<forall>p b. m_block_index s p = Some b \<longrightarrow> work_ok (m_block_index s) b) \<and>
     (case best_header s of
        None \<Rightarrow> \<forall>p. m_block_index s p = None
      | Some p \<Rightarrow> (case m_block_index s p of None \<Rightarrow> False
                   | Some bb \<Rightarrow> \<forall>q b. m_block_index s q = Some b \<longrightarrow> bval (nChainWork b) \<le> bval (nChainWork bb)))"

text \<open>An entry under a fresh key changes no ancestors.\<close>

lemma anc_fresh:
  assumes "index_ok m" "m h = None" "m p = Some b"
  shows "anc (m(h \<mapsto> x)) p n = anc m p n"
  using assms(3)
proof (induction n arbitrary: p b)
  case (Suc n)
  have "p \<noteq> h" using assms(2) Suc.prems by auto
  show ?case
  proof (cases "pprev b")
    case (Some q)
    then obtain bq where "m q = Some bq"
      using index_okD [OF assms(1) Suc.prems] by (auto simp: entry_ok_def split: option.splits)
    with Suc Some \<open>p \<noteq> h\<close> show ?thesis by simp
  qed (use Suc \<open>p \<noteq> h\<close> in simp)
qed simp

lemma index_ok_insert:
  assumes "index_ok m" "m h = None" "entry_ok (m(h \<mapsto> x)) h x"
  shows "index_ok (m(h \<mapsto> x))"
  unfolding index_ok_def
proof (intro allI impI)
  fix p b assume p: "(m(h \<mapsto> x)) p = Some b"
  show "entry_ok (m(h \<mapsto> x)) p b"
  proof (cases "p = h")
    case True
    with p assms(3) show ?thesis by simp
  next
    case False
    with p have mp: "m p = Some b" by simp
    have e: "entry_ok m p b" by (rule index_okD [OF assms(1) mp])
    have pp: "(m(h \<mapsto> x)) q = m q" if "pprev b = Some q" for q
      using e that assms(2) by (auto simp: entry_ok_def)
    from e show ?thesis
      unfolding entry_ok_def anc_fresh [OF assms(1, 2) mp] using pp by (auto split: option.splits)
  qed
qed

lemma entry_ok_insert:
  assumes "index_ok m" "m h = None" "m q = Some bq" "pprev x = Some q" "nHeight x = nHeight bq + 1"
    "pskip x = None \<or> pskip x = anc m q (nat (nHeight bq - GetSkipHeight (nHeight x)))"
  shows "entry_ok (m(h \<mapsto> x)) h x"
proof -
  have q: "q \<noteq> h" using assms(2, 3) by auto
  have nn: "0 \<le> nHeight bq" using nHeight_nonneg assms by blast
  then have "GetSkipHeight (nHeight x) < nHeight x" using assms(5) by (intro GetSkipHeight_bounds) simp
  then have "nat (nHeight x - GetSkipHeight (nHeight x)) = Suc (nat (nHeight bq - GetSkipHeight (nHeight x)))"
    using assms(5) by simp
  then have "anc (m(h \<mapsto> x)) h (nat (nHeight x - GetSkipHeight (nHeight x))) = anc m q (nat (nHeight bq - GetSkipHeight (nHeight x)))"
    using assms(4) anc_fresh [OF assms(1, 2, 3)] by simp
  then show ?thesis using assms q nn by (auto simp: entry_ok_def split: option.splits)
qed

lemma link_entry_eq:
  assumes "index_ok m" "m h = None" "prev \<noteq> h"
  obtains x where "link_entry (m(h \<mapsto> CBlockIndex_new block)) h prev = Some (m(h \<mapsto> x))"
    "pprev x = (if m prev = None then None else Some prev)"
    "\<And>x'. pprev x' = pprev x \<Longrightarrow> pskip x' = pskip x \<Longrightarrow> nHeight x' = nHeight x \<Longrightarrow> entry_ok (m(h \<mapsto> x')) h x'"
    "x = (CBlockIndex_new block)\<lparr>pprev := pprev x, pskip := pskip x, nHeight := nHeight x\<rparr>"
proof (cases "m prev")
  case None
  show ?thesis
  proof (rule that)
    show "link_entry (m(h \<mapsto> CBlockIndex_new block)) h prev = Some (m(h \<mapsto> CBlockIndex_new block))"
      using None assms by (simp add: link_entry_def)
  qed (use None in \<open>auto simp: CBlockIndex_new_def entry_ok_def\<close>)
next
  case (Some bp)
  let ?x = "(CBlockIndex_new block)\<lparr>pprev := Some prev, nHeight := nHeight bp + 1\<rparr>"
  have "entry_ok (m(h \<mapsto> ?x)) h ?x"
    by (rule entry_ok_insert [OF assms(1, 2) Some]) (simp_all add: CBlockIndex_new_def)
  then have ok: "index_ok (m(h \<mapsto> ?x))" by (rule index_ok_insert [OF assms(1, 2)])
  define r where "r = anc m prev (nat (nHeight bp - GetSkipHeight (nHeight bp + 1)))"
  have nn: "0 \<le> nHeight bp" using nHeight_nonneg assms(1) Some by blast
  then have sk: "0 \<le> GetSkipHeight (nHeight bp + 1)" "GetSkipHeight (nHeight bp + 1) \<le> nHeight bp"
    using GetSkipHeight_bounds [of "nHeight bp + 1"] by auto
  have "GetAncestor (m(h \<mapsto> ?x)) prev (GetSkipHeight (nHeight bp + 1)) = Some r"
    using GetAncestor_eq [OF ok, of prev bp] assms(3) Some sk anc_fresh [OF assms(1, 2) Some] by (simp add: r_def)
  then have l: "link_entry (m(h \<mapsto> CBlockIndex_new block)) h prev = Some (m(h \<mapsto> ?x\<lparr>pskip := r\<rparr>))"
    using Some assms(3) by (simp add: link_entry_def BuildSkip_def)
  show ?thesis
  proof (rule that [OF l])
    fix x' :: CBlockIndex
    assume "pprev x' = pprev (?x\<lparr>pskip := r\<rparr>)" "pskip x' = pskip (?x\<lparr>pskip := r\<rparr>)"
      "nHeight x' = nHeight (?x\<lparr>pskip := r\<rparr>)"
    then show "entry_ok (m(h \<mapsto> x')) h x'"
      by (intro entry_ok_insert [OF assms(1, 2) Some]) (simp_all add: r_def)
  qed (use Some in simp_all)
qed

lemma finish_entry_eq:
  assumes "nStatus b = 0" "case pprev b of None \<Rightarrow> True | Some q \<Rightarrow> (\<exists>bq. m q = Some bq \<and> length (nChainWork bq) = 8)"
  obtains b' where "finish_entry m b = Some b'" "work_ok m b'"
    "b' = b\<lparr>nTimeMax := nTimeMax b', nChainWork := nChainWork b', nStatus := BLOCK_VALID_TREE\<rparr>"
proof -
  obtain w where w: "GetBlockProof (bi_nBits b) = Some w" "length w = 8"
    "bval w = block_work (bi_nBits b)"
    by (rule GetBlockProof_eq)
  have bw: "bval w < 2 ^ 256" using bval_bound [of w] w(2) by simp
  have r: "map_option fst (RaiseValidity (b\<lparr>nTimeMax := t, nChainWork := c\<rparr>) BLOCK_VALID_TREE) =
      Some (b\<lparr>nTimeMax := t, nChainWork := c, nStatus := BLOCK_VALID_TREE\<rparr>)" for t c
    using assms(1) by (simp add: RaiseValidity_def BLOCK_VALID_TREE_def BLOCK_VALID_MASK_def)
  show ?thesis
  proof (cases "pprev b")
    case None
    show ?thesis
      by (rule that) (use None w bw in \<open>auto simp: finish_entry_def r work_ok_def bval_add bval_of_u64\<close>)
  next
    case (Some q)
    then obtain bq where bq: "m q = Some bq" "length (nChainWork bq) = 8" using assms(2) by auto
    show ?thesis
      by (rule that) (use Some w bq in \<open>auto simp: finish_entry_def r work_ok_def bval_add\<close>)
  qed
qed


lemma work_ok_insert:
  assumes "index_ok m" "m h = None" "m p = Some b"
  shows "work_ok (m(h \<mapsto> x)) b = work_ok m b"
proof -
  have "(m(h \<mapsto> x)) q = m q" if "pprev b = Some q" for q
    using index_okD [OF assms(1, 3)] that assms(2) by (auto simp: entry_ok_def)
  then show ?thesis by (auto simp: work_ok_def split: option.splits)
qed

lemma AddToBlockIndex_new:
  fixes s H block
  defines "h \<equiv> CBlockHeader_GetHash H block" and "m \<equiv> m_block_index s"
  assumes ok: "index_ok m" and w: "\<And>p b. m p = Some b \<Longrightarrow> work_ok m b" and fresh: "m h = None"
    and prev: "hashPrevBlock block \<noteq> h"
  obtains b where "AddToBlockIndex H s block = Some (h, s\<lparr>m_block_index := m(h \<mapsto> b),
      best_header := (if better_header (m(h \<mapsto> b)) (best_header s) b then Some h else best_header s),
      m_dirty_blockindex := insert h (m_dirty_blockindex s)\<rparr>)"
    "index_ok (m(h \<mapsto> b))" "\<forall>p c. (m(h \<mapsto> b)) p = Some c \<longrightarrow> work_ok (m(h \<mapsto> b)) c"
proof -
  obtain x where x: "link_entry (m(h \<mapsto> CBlockIndex_new block)) h (hashPrevBlock block) = Some (m(h \<mapsto> x))"
    "pprev x = (if m (hashPrevBlock block) = None then None else Some (hashPrevBlock block))"
    "\<And>x'. pprev x' = pprev x \<Longrightarrow> pskip x' = pskip x \<Longrightarrow> nHeight x' = nHeight x \<Longrightarrow> entry_ok (m(h \<mapsto> x')) h x'"
    "x = (CBlockIndex_new block)\<lparr>pprev := pprev x, pskip := pskip x, nHeight := nHeight x\<rparr>"
    using link_entry_eq [OF ok fresh prev] by blast
  have st: "nStatus x = 0" by (subst x(4)) (simp add: CBlockIndex_new_def)
  have pw: "case pprev x of None \<Rightarrow> True | Some q \<Rightarrow> (\<exists>bq. (m(h \<mapsto> x)) q = Some bq \<and> length (nChainWork bq) = 8)"
    using x(2) prev w by (auto simp: work_ok_def split: option.splits)
  obtain b where b: "finish_entry (m(h \<mapsto> x)) x = Some b" "work_ok (m(h \<mapsto> x)) b"
    "b = x\<lparr>nTimeMax := nTimeMax b, nChainWork := nChainWork b, nStatus := BLOCK_VALID_TREE\<rparr>"
    using finish_entry_eq [OF st pw] by blast
  have pb: "pprev b = pprev x" "pskip b = pskip x" "nHeight b = nHeight x" by (subst b(3), simp)+
  have wb: "work_ok (m(h \<mapsto> b)) b"
    using b(2) pb x(2) prev by (auto simp: work_ok_def split: option.splits)
  show ?thesis
  proof (rule that)
    show "index_ok (m(h \<mapsto> b))" by (rule index_ok_insert [OF ok fresh x(3) [OF pb]])
    have "work_ok (m(h \<mapsto> b)) c" if "(m(h \<mapsto> b)) p = Some c" for p c
      using that wb w work_ok_insert [OF ok fresh] by (cases "p = h") auto
    then show "\<forall>p c. (m(h \<mapsto> b)) p = Some c \<longrightarrow> work_ok (m(h \<mapsto> b)) c" by blast
  qed (unfold AddToBlockIndex_def Let_def h_def [symmetric] m_def [symmetric], use fresh x(1) b(1) in simp)
qed

lemma best_header_max:
  assumes "\<forall>q c. m q = Some c \<longrightarrow> bval (nChainWork c) \<le> bval (nChainWork bb)" "m p = Some bb" "m h = None"
    and "length (nChainWork bb) = 8" "length (nChainWork b) = 8"
  shows "if better_header (m(h \<mapsto> b)) (Some p) b
    then \<forall>q c. (m(h \<mapsto> b)) q = Some c \<longrightarrow> bval (nChainWork c) \<le> bval (nChainWork b)
    else \<forall>q c. (m(h \<mapsto> b)) q = Some c \<longrightarrow> bval (nChainWork c) \<le> bval (nChainWork bb)"
  using assms by (fastforce simp: better_header_def bval_CompareTo split: if_splits)

text \<open>C17: \<open>AddToBlockIndex\<close> keeps the block index well formed: on an index that satisfies the invariants (heights,
  skip pointers, accumulated work modulo \<open>2 ^ 256\<close>, running maximum of the times, and a best header of
  maximal work) adding any header whose hash is not its own predecessor field succeeds, keeps the
  invariants and every entry already there, and leaves an entry under the header's hash.\<close>

theorem add_to_block_index_invariant:
  assumes "manager_ok s" "hashPrevBlock block \<noteq> CBlockHeader_GetHash H block"
  shows "\<exists>s'. AddToBlockIndex H s block = Some (CBlockHeader_GetHash H block, s') \<and> manager_ok s' \<and>
    m_block_index s' (CBlockHeader_GetHash H block) \<noteq> None \<and>
    (\<forall>p b. m_block_index s p = Some b \<longrightarrow> m_block_index s' p = Some b)"
proof (cases "m_block_index s (CBlockHeader_GetHash H block)")
  case (Some b)
  then show ?thesis using assms by (auto simp: AddToBlockIndex_def)
next
  case None
  let ?h = "CBlockHeader_GetHash H block" and ?m = "m_block_index s"
  have ok: "index_ok ?m" and w: "\<And>p b. ?m p = Some b \<Longrightarrow> work_ok ?m b" using assms(1) by (auto simp: manager_ok_def)
  obtain b where b: "AddToBlockIndex H s block = Some (?h, s\<lparr>m_block_index := ?m(?h \<mapsto> b),
      best_header := (if better_header (?m(?h \<mapsto> b)) (best_header s) b then Some ?h else best_header s),
      m_dirty_blockindex := insert ?h (m_dirty_blockindex s)\<rparr>)" (is "_ = Some (?h, ?s)")
    "index_ok (?m(?h \<mapsto> b))" "\<forall>p c. (?m(?h \<mapsto> b)) p = Some c \<longrightarrow> work_ok (?m(?h \<mapsto> b)) c"
    using AddToBlockIndex_new [OF ok w None assms(2)] .
  have "manager_ok ?s"
  proof (cases "best_header s")
    case bn: None
    then have "?m = Map.empty" using assms(1) by (auto simp: manager_ok_def)
    with bn b(2, 3) show ?thesis by (auto simp: manager_ok_def better_header_def)
  next
    case (Some p)
    then obtain bb where bb: "?m p = Some bb" "\<forall>q b. ?m q = Some b \<longrightarrow> bval (nChainWork b) \<le> bval (nChainWork bb)"
      using assms(1) by (auto simp: manager_ok_def split: option.splits)
    then have "p \<noteq> ?h" using None by auto
    have l: "length (nChainWork bb) = 8" "length (nChainWork b) = 8"
      using w [OF bb(1)] b(3) [rule_format, of ?h b] by (auto simp: work_ok_def)
    show ?thesis
      using Some bb(1) \<open>p \<noteq> ?h\<close> b(2, 3) best_header_max [OF bb(2, 1) None l]
      by (cases "better_header (?m(?h \<mapsto> b)) (Some p) b") (simp_all add: manager_ok_def)
  qed
  moreover have "\<forall>p c. ?m p = Some c \<longrightarrow> (?m(?h \<mapsto> b)) p = Some c" using None by auto
  ultimately show ?thesis using b(1) by simp
qed

definition empty_manager :: BlockManager where
  "empty_manager = \<lparr>m_block_index = Map.empty, m_dirty_blockindex = {}, best_header = None\<rparr>"

theorem add_to_block_index_invariant_witness:
  "\<exists>s'. AddToBlockIndex (\<lambda>bs. 1) empty_manager CBlockHeader_SetNull = Some (1, s') \<and> manager_ok s'"
proof -
  have "manager_ok empty_manager" by (simp add: manager_ok_def empty_manager_def index_ok_def)
  moreover have "hashPrevBlock CBlockHeader_SetNull \<noteq> CBlockHeader_GetHash (\<lambda>bs. 1) CBlockHeader_SetNull"
    by (simp add: CBlockHeader_SetNull_def CBlockHeader_GetHash_def)
  ultimately show ?thesis
    using add_to_block_index_invariant [of empty_manager CBlockHeader_SetNull "\<lambda>bs. 1"]
    by (auto simp: CBlockHeader_GetHash_def)
qed

end
