(* ===== verification/ActiveChain.thy ===== *)
theory ActiveChain
  imports Chain
begin

text \<open>
  Model of \<open>CChain\<close> and of the walks over the block tree in \<open>src/bitcoin/src/chain.h\<close> and \<open>chain.cpp\<close>: the active chain as a
  vector of entry pointers by height, \<open>SetTip\<close>, \<open>FindFork\<close>, \<open>LastCommonAncestor\<close>, block locators and
  the median time past. Loops over predecessor pointers are partial functions, whose value \<open>None\<close> is
  a loop that does not return or a null pointer dereferenced; on a well-formed index they return.
\<close>

type_synonym CChain = "uint256 option list"

subsection \<open>Operations\<close>

definition CChain_at :: "CChain \<Rightarrow> int \<Rightarrow> uint256 option" where
  "CChain_at v height = (if height < 0 \<or> height \<ge> int (length v) then None else v ! nat height)"

definition CChain_Genesis :: "CChain \<Rightarrow> uint256 option" where
  "CChain_Genesis v = (if length v > 0 then v ! 0 else None)"

definition CChain_Tip :: "CChain \<Rightarrow> uint256 option" where
  "CChain_Tip v = (if length v > 0 then v ! (length v - 1) else None)"

definition CChain_Height :: "CChain \<Rightarrow> int" where
  "CChain_Height v = int (length v) - 1"

text \<open>\<open>Contains\<close> and \<open>Next\<close> dereference the pointer they are given.\<close>

definition CChain_Contains :: "block_map \<Rightarrow> CChain \<Rightarrow> uint256 \<Rightarrow> bool option" where
  "CChain_Contains m v p = map_option (\<lambda>b. CChain_at v (nHeight b) = Some p) (m p)"

definition CChain_Next :: "block_map \<Rightarrow> CChain \<Rightarrow> uint256 \<Rightarrow> uint256 option option" where
  "CChain_Next m v p =
     map_option (\<lambda>b. if CChain_at v (nHeight b) = Some p then CChain_at v (nHeight b + 1) else None) (m p)"

definition vec_resize :: "nat \<Rightarrow> CChain \<Rightarrow> CChain" where
  "vec_resize n v = take n v @ replicate (n - length v) None"

partial_function (option) SetTip_loop :: "block_map \<Rightarrow> CChain \<Rightarrow> uint256 option \<Rightarrow> CChain option" where
  "SetTip_loop m v pindex =
     (case pindex of
        None \<Rightarrow> Some v
      | Some p \<Rightarrow>
          (case m p of
             None \<Rightarrow> None
           | Some b \<Rightarrow>
               if v ! nat (nHeight b) \<noteq> Some p
               then SetTip_loop m (v[nat (nHeight b) := Some p]) (pprev b)
               else Some v))"

definition SetTip :: "block_map \<Rightarrow> CChain \<Rightarrow> uint256 \<Rightarrow> CChain option" where
  "SetTip m v p =
     (case m p of None \<Rightarrow> None | Some b \<Rightarrow> SetTip_loop m (vec_resize (nat (nHeight b + 1)) v) (Some p))"

partial_function (option) FindFork_loop :: "block_map \<Rightarrow> CChain \<Rightarrow> uint256 option \<Rightarrow> uint256 option option" where
  "FindFork_loop m v pindex =
     (case pindex of
        None \<Rightarrow> Some None
      | Some p \<Rightarrow>
          (case m p of
             None \<Rightarrow> None
           | Some b \<Rightarrow> if CChain_at v (nHeight b) \<noteq> Some p then FindFork_loop m v (pprev b) else Some (Some p)))"

definition FindFork :: "block_map \<Rightarrow> CChain \<Rightarrow> uint256 option \<Rightarrow> uint256 option option" where
  "FindFork m v pindex =
     (case pindex of
        None \<Rightarrow> Some None
      | Some p \<Rightarrow>
          (case m p of
             None \<Rightarrow> None
           | Some b \<Rightarrow>
               (case (if nHeight b > CChain_Height v then GetAncestor m p (CChain_Height v) else Some (Some p)) of
                  None \<Rightarrow> None
                | Some q \<Rightarrow> FindFork_loop m v q)))"

partial_function (option) LastCommonAncestor_loop ::
  "block_map \<Rightarrow> uint256 option \<Rightarrow> uint256 option \<Rightarrow> (uint256 option \<times> uint256 option) option" where
  "LastCommonAncestor_loop m pa pb =
     (if pa \<noteq> pb then
        (case (pa, pb) of
           (Some a, Some b) \<Rightarrow>
             (case m a of None \<Rightarrow> None
              | Some ba \<Rightarrow> (case m b of None \<Rightarrow> None
                           | Some bb \<Rightarrow> LastCommonAncestor_loop m (pprev ba) (pprev bb)))
         | _ \<Rightarrow> Some (pa, pb))
      else Some (pa, pb))"

definition LastCommonAncestor :: "block_map \<Rightarrow> uint256 \<Rightarrow> uint256 \<Rightarrow> uint256 option option" where
  "LastCommonAncestor m pa pb =
     (case (m pa, m pb) of
        (Some ba, Some bb) \<Rightarrow>
          (case (if nHeight ba > nHeight bb then GetAncestor m pa (nHeight bb) else Some (Some pa)) of
             None \<Rightarrow> None
           | Some qa \<Rightarrow>
               (case (if nHeight bb > nHeight ba then GetAncestor m pb (nHeight ba) else Some (Some pb)) of
                  None \<Rightarrow> None
                | Some qb \<Rightarrow>
                    (case LastCommonAncestor_loop m qa qb of
                       None \<Rightarrow> None
                     | Some (ra, rb) \<Rightarrow> if ra = rb then Some ra else None)))
      | _ \<Rightarrow> None)"

text \<open>The hashes of a locator, with the entries found so far, the entry the loop is at and the step.\<close>

partial_function (option) LocatorEntries_loop ::
  "block_map \<Rightarrow> uint256 list \<Rightarrow> uint256 option \<Rightarrow> int \<Rightarrow> uint256 list option" where
  "LocatorEntries_loop m have index step =
     (case index of
        None \<Rightarrow> Some have
      | Some p \<Rightarrow>
          (case m p of
             None \<Rightarrow> None
           | Some b \<Rightarrow>
               (let have' = have @ [p]
                in if nHeight b = 0 then Some have'
                   else (case GetAncestor m p (max (nHeight b - step) 0) of
                           None \<Rightarrow> None
                         | Some q \<Rightarrow> LocatorEntries_loop m have' q (if length have' > 10 then step * 2 else step)))))"

definition LocatorEntries :: "block_map \<Rightarrow> uint256 option \<Rightarrow> uint256 list option" where
  "LocatorEntries m index = LocatorEntries_loop m [] index 1"

definition GetLocator :: "block_map \<Rightarrow> uint256 option \<Rightarrow> CBlockLocator option" where
  "GetLocator m index = map_option (\<lambda>h. \<lparr>vHave = h\<rparr>) (LocatorEntries m index)"

definition CChain_GetLocator :: "block_map \<Rightarrow> CChain \<Rightarrow> CBlockLocator option" where
  "CChain_GetLocator m v = GetLocator m (CChain_Tip v)"

definition nMedianTimeSpan :: nat where
  "nMedianTimeSpan = 11"

fun MedianTimes :: "block_map \<Rightarrow> nat \<Rightarrow> uint256 option \<Rightarrow> int list" where
  "MedianTimes m (Suc i) (Some p) = (case m p of None \<Rightarrow> [] | Some b \<Rightarrow> GetBlockTime b # MedianTimes m i (pprev b))"
| "MedianTimes m _ _ = []"

definition GetMedianTimePast :: "block_map \<Rightarrow> uint256 \<Rightarrow> int" where
  "GetMedianTimePast m p =
     (let t = sort (MedianTimes m nMedianTimeSpan (Some p)) in t ! (length t div 2))"

text \<open>\<open>std::lower_bound\<close> by bisection: the first position at which \<open>cmp\<close> no longer holds.\<close>

function lower_bound :: "('a \<Rightarrow> bool) \<Rightarrow> 'a list \<Rightarrow> nat \<Rightarrow> nat \<Rightarrow> nat" where
  "lower_bound cmp xs first len =
     (if len > 0 then
        let half = len div 2; middle = first + half
        in if cmp (xs ! middle) then lower_bound cmp xs (middle + 1) (len - half - 1)
           else lower_bound cmp xs first half
      else first)"
  by pat_completeness auto
termination
  by (relation "measure (\<lambda>(cmp, xs, first, len). len)") auto

declare lower_bound.simps [simp del]

definition FindEarliestAtLeast :: "block_map \<Rightarrow> CChain \<Rightarrow> int \<Rightarrow> int \<Rightarrow> uint256 option" where
  "FindEarliestAtLeast m v time height =
     (let lower = lower_bound (\<lambda>e. case e of None \<Rightarrow> False
                     | Some p \<Rightarrow> (case m p of None \<Rightarrow> False
                                  | Some b \<Rightarrow> GetBlockTimeMax b < time \<or> nHeight b < height)) v 0 (length v)
      in if lower = length v then None else v ! lower)"

subsection \<open>The active chain\<close>

definition chain_ok :: "block_map \<Rightarrow> CChain \<Rightarrow> bool" where
  "chain_ok m v \<longleftrightarrow> (\<forall>k < length v. \<exists>q b. v ! k = Some q \<and> m q = Some b \<and> nHeight b = int k \<and>
     (\<forall>j \<le> k. v ! j = anc m q (k - j)))"

text \<open>The entries up to \<open>n\<close>, where there are any, are each at the top of a chain.\<close>

definition prefix_ok :: "block_map \<Rightarrow> CChain \<Rightarrow> nat \<Rightarrow> bool" where
  "prefix_ok m v n \<longleftrightarrow> (\<forall>k < n. \<forall>q. v ! k = Some q \<longrightarrow> (\<forall>j \<le> k. v ! j = anc m q (k - j)))"

lemma SetTip_loop_eq:
  "index_ok m \<Longrightarrow> m p = Some b \<Longrightarrow> nHeight b = int h \<Longrightarrow> h < length v \<Longrightarrow> prefix_ok m v (Suc h) \<Longrightarrow>
   \<exists>v'. SetTip_loop m v (Some p) = Some v' \<and> length v' = length v \<and>
        (\<forall>j \<le> h. v' ! j = anc m p (h - j)) \<and> (\<forall>j > h. v' ! j = v ! j)"
proof (induction h arbitrary: p b v)
  case 0
  then have "pprev b = None" by (simp add: index_ok_no_prev)
  with 0 show ?case
    by (auto simp: SetTip_loop.simps [of m v "Some p"] SetTip_loop.simps [of m _ None])
next
  case (Suc h)
  obtain q bq where q: "pprev b = Some q" "m q = Some bq" "nHeight bq = int h"
    using index_ok_prev [OF Suc.prems(1, 2)] Suc.prems(3) by auto
  show ?case
  proof (cases "v ! Suc h = Some p")
    case True
    then show ?thesis
      using Suc.prems by (auto simp: SetTip_loop.simps [of m v "Some p"] prefix_ok_def)
  next
    case False
    let ?v = "v[Suc h := Some p]"
    have "prefix_ok m ?v (Suc h)" using Suc.prems(5) by (auto simp: prefix_ok_def)
    then obtain v' where v': "SetTip_loop m ?v (Some q) = Some v'" "length v' = length v"
      "\<forall>j \<le> h. v' ! j = anc m q (h - j)" "\<forall>j > h. v' ! j = ?v ! j"
      using Suc.IH [OF Suc.prems(1) q(2, 3), of ?v] Suc.prems(4) by auto
    have "nat (nHeight b) = Suc h" using Suc.prems(3) by simp
    with False have "SetTip_loop m v (Some p) = Some v'"
      using Suc.prems(2) q v' by (simp add: SetTip_loop.simps [of m v "Some p"])
    moreover have "v' ! j = anc m p (Suc h - j)" if "j \<le> Suc h" for j
      using v'(3, 4) that Suc.prems(2, 4) q by (cases "j = Suc h") (auto simp: Suc_diff_le)
    ultimately show ?thesis using v' by auto
  qed
qed

lemma chain_ok_anc:
  assumes "index_ok m" "m p = Some b" "nHeight b = int h" "length v = Suc h" "\<forall>j \<le> h. v ! j = anc m p (h - j)"
  shows "chain_ok m v"
  unfolding chain_ok_def
proof (intro allI impI)
  fix k assume k: "k < length v"
  obtain q bq where q: "anc m p (h - k) = Some q" "m q = Some bq" "nHeight bq = int k"
    using anc_exists [OF assms(1, 2), of "h - k"] assms(3, 4) k by auto
  have "v ! j = anc m q (k - j)" if "j \<le> k" for j
    using assms(4, 5) q(1) that k anc_add [of m p "h - k" "k - j"] by simp
  with q assms(4, 5) k show "\<exists>q b. v ! k = Some q \<and> m q = Some b \<and> nHeight b = int k \<and> (\<forall>j \<le> k. v ! j = anc m q (k - j))"
    by auto
qed

lemma SetTip_eq:
  assumes "index_ok m" "chain_ok m v" "m p = Some b"
  obtains v' where "SetTip m v p = Some v'" "chain_ok m v'" "int (length v') = nHeight b + 1"
    "\<forall>j \<le> nat (nHeight b). v' ! j = anc m p (nat (nHeight b) - j)"
proof -
  let ?h = "nat (nHeight b)"
  have h: "nHeight b = int ?h" using nHeight_nonneg [OF assms(1, 3)] by simp
  have n: "nat (nHeight b + 1) = Suc ?h" using nHeight_nonneg [OF assms(1, 3)] by simp
  let ?v = "vec_resize (Suc ?h) v"
  have l: "length ?v = Suc ?h" by (simp add: vec_resize_def)
  have "prefix_ok m ?v (Suc ?h)"
    using assms(2) by (fastforce simp: prefix_ok_def vec_resize_def chain_ok_def nth_append)
  then obtain v' where v': "SetTip_loop m ?v (Some p) = Some v'" "length v' = length ?v"
    "\<forall>j \<le> ?h. v' ! j = anc m p (?h - j)"
    using SetTip_loop_eq [OF assms(1, 3) h, of ?v] l by auto
  have "SetTip m v p = Some v'" using v'(1) assms(3) n by (simp add: SetTip_def)
  moreover have "chain_ok m v'" using chain_ok_anc [OF assms(1, 3) h] v' l by simp
  ultimately show ?thesis using that v' l h by simp
qed

subsection \<open>Forks\<close>

definition is_anc :: "block_map \<Rightarrow> uint256 \<Rightarrow> uint256 \<Rightarrow> bool" where
  "is_anc m p g \<longleftrightarrow> (\<exists>n. anc m p n = Some g)"

definition hgt :: "block_map \<Rightarrow> uint256 \<Rightarrow> int" where
  "hgt m p = (case m p of None \<Rightarrow> - 1 | Some b \<Rightarrow> nHeight b)"

abbreviation in_chain :: "block_map \<Rightarrow> CChain \<Rightarrow> uint256 \<Rightarrow> bool" where
  "in_chain m v p \<equiv> CChain_Contains m v p = Some True"

lemma anc_hgt:
  assumes "index_ok m" "m p = Some b" "anc m p n = Some g"
  shows "m g \<noteq> None \<and> hgt m g = nHeight b - int n \<and> int n \<le> nHeight b"
proof -
  have "int n \<le> nHeight b" using anc_None [OF assms(1, 2), of n] assms(3) by force
  with anc_exists [OF assms(1, 2)] assms(3) show ?thesis by (force simp: hgt_def)
qed

lemma is_anc_at:
  assumes "index_ok m" "m p = Some b" "is_anc m p g"
  shows "anc m p (nat (nHeight b - hgt m g)) = Some g" "0 \<le> hgt m g" "hgt m g \<le> nHeight b"
proof -
  obtain n where n: "anc m p n = Some g" using assms(3) by (auto simp: is_anc_def)
  from anc_hgt [OF assms(1, 2) n] n
  show "anc m p (nat (nHeight b - hgt m g)) = Some g" "0 \<le> hgt m g" "hgt m g \<le> nHeight b" by auto
qed

lemma is_anc_trans: "is_anc m p q \<Longrightarrow> is_anc m q r \<Longrightarrow> is_anc m p r"
proof -
  assume "is_anc m p q" "is_anc m q r"
  then obtain i j where "anc m p i = Some q" "anc m q j = Some r" by (auto simp: is_anc_def)
  then have "anc m p (i + j) = Some r" by (simp add: anc_add)
  then show ?thesis by (auto simp: is_anc_def)
qed

lemma is_anc_self [simp]: "is_anc m p p"
  unfolding is_anc_def by (rule exI [of _ 0]) simp

text \<open>The first entry on the way from \<open>p\<close> to the root that satisfies \<open>P\<close>, which the walks look for.\<close>

definition first_anc :: "block_map \<Rightarrow> (uint256 \<Rightarrow> bool) \<Rightarrow> uint256 \<Rightarrow> uint256 option \<Rightarrow> bool" where
  "first_anc m P p r \<longleftrightarrow>
     (case r of None \<Rightarrow> \<forall>n q. anc m p n = Some q \<longrightarrow> \<not> P q
      | Some f \<Rightarrow> \<exists>n. anc m p n = Some f \<and> P f \<and> (\<forall>k q. k < n \<longrightarrow> anc m p k = Some q \<longrightarrow> \<not> P q))"

lemma first_anc_here: "P p \<Longrightarrow> first_anc m P p (Some p)"
  unfolding first_anc_def option.case by (rule exI [of _ 0]) simp

lemma first_anc_root: "\<not> P p \<Longrightarrow> m p = Some b \<Longrightarrow> pprev b = None \<Longrightarrow> first_anc m P p None"
proof -
  assume *: "\<not> P p" "m p = Some b" "pprev b = None"
  have "\<not> P q" if "anc m p n = Some q" for n q using that * by (cases n) auto
  then show ?thesis by (auto simp: first_anc_def)
qed

lemma first_anc_prev:
  assumes "\<not> P p" "m p = Some b" "pprev b = Some q" "first_anc m P q r"
  shows "first_anc m P p r"
proof -
  have an: "anc m p (Suc n) = anc m q n" for n using assms by simp
  show ?thesis
  proof (cases r)
    case None
    have "\<not> P x" if "anc m p n = Some x" for n x
      using that assms None an by (cases n) (auto simp: first_anc_def)
    then show ?thesis using None by (auto simp: first_anc_def)
  next
    case (Some f)
    then obtain n where n: "anc m q n = Some f" "P f" "\<forall>k x. k < n \<longrightarrow> anc m q k = Some x \<longrightarrow> \<not> P x"
      using assms(4) by (auto simp: first_anc_def)
    have "\<not> P x" if "k < Suc n" "anc m p k = Some x" for k x
      using that n(3) assms(1) an by (cases k) auto
    moreover have "anc m p (Suc n) = Some f" using an n(1) by simp
    ultimately show ?thesis unfolding Some first_anc_def option.case using n(2) by (intro exI [of _ "Suc n"]) blast
  qed
qed

text \<open>The first ancestor found is the highest one.\<close>

lemma first_anc_highest:
  assumes "index_ok m" "m p = Some b" "first_anc m P p (Some f)" "is_anc m p g" "P g"
  shows "hgt m g \<le> hgt m f"
proof -
  obtain n where n: "anc m p n = Some f" "\<forall>k q. k < n \<longrightarrow> anc m p k = Some q \<longrightarrow> \<not> P q"
    using assms(3) by (auto simp: first_anc_def)
  obtain k where k: "anc m p k = Some g" using assms(4) by (auto simp: is_anc_def)
  then have "n \<le> k" using n(2) assms(5) by (metis not_le)
  with anc_hgt [OF assms(1, 2) n(1)] anc_hgt [OF assms(1, 2) k] show ?thesis by simp
qed

lemma FindFork_loop_None: "FindFork_loop m v None = Some None"
  by (simp add: FindFork_loop.simps [of m v None])

lemma FindFork_loop_Some:
  "m p = Some b \<Longrightarrow>
   FindFork_loop m v (Some p) = (if in_chain m v p then Some (Some p) else FindFork_loop m v (pprev b))"
  by (subst FindFork_loop.simps) (simp add: CChain_Contains_def)

lemma FindFork_loop_eq:
  "index_ok m \<Longrightarrow> m p = Some b \<Longrightarrow> nHeight b = int h \<Longrightarrow>
   \<exists>r. FindFork_loop m v (Some p) = Some r \<and> first_anc m (in_chain m v) p r"
proof (induction h arbitrary: p b)
  case 0
  then have pn: "pprev b = None" by (simp add: index_ok_no_prev)
  show ?case
    using first_anc_here [of "in_chain m v" p m] first_anc_root [of "in_chain m v" p m b, OF _ 0(2) pn]
    by (simp add: FindFork_loop_Some [of m p b v, OF 0(2)] FindFork_loop_None pn)
next
  case (Suc h)
  obtain q bq where q: "pprev b = Some q" "m q = Some bq" "nHeight bq = int h"
    using index_ok_prev [OF Suc.prems(1, 2)] Suc.prems(3) by auto
  obtain r where r: "FindFork_loop m v (Some q) = Some r" "first_anc m (in_chain m v) q r"
    using Suc.IH [OF Suc.prems(1) q(2, 3)] by blast
  show ?case
  proof (cases "in_chain m v p")
    case True
    then have "FindFork_loop m v (Some p) = Some (Some p)" by (simp add: FindFork_loop_Some [of m p b v, OF Suc.prems(2)])
    with first_anc_here [of "in_chain m v" p m] True show ?thesis by blast
  next
    case False
    then have "FindFork_loop m v (Some p) = Some r" by (simp only: FindFork_loop_Some [of m p b v, OF Suc.prems(2)] if_False q(1) r(1))
    with first_anc_prev [of "in_chain m v" p m b q r, OF False Suc.prems(2) q(1) r(2)] show ?thesis by blast
  qed
qed

lemma in_chain_height: "in_chain m v p \<Longrightarrow> hgt m p \<le> CChain_Height v"
  by (auto simp: CChain_Contains_def CChain_at_def CChain_Height_def hgt_def split: if_splits)

lemma first_anc_skip:
  assumes "anc m p n = Some q" "\<forall>k x. k < n \<longrightarrow> anc m p k = Some x \<longrightarrow> \<not> P x" "first_anc m P q r"
  shows "first_anc m P p r"
  using assms
proof (induction n arbitrary: p)
  case (Suc n)
  then obtain b p' where p': "m p = Some b" "pprev b = Some p'" "anc m p' n = Some q"
    by (auto split: option.splits)
  have "\<not> P p" using Suc.prems(2) [rule_format, of 0 p] by simp
  moreover have "\<forall>k x. k < n \<longrightarrow> anc m p' k = Some x \<longrightarrow> \<not> P x"
    using Suc.prems(2) p' by (auto dest: spec [of _ "Suc _"])
  then have "first_anc m P p' r" using Suc.IH [OF p'(3)] Suc.prems(3) by blast
  ultimately show ?case using first_anc_prev p' by blast
qed simp

lemma FindFork_eq:
  assumes "index_ok m" "m p = Some b"
  shows "\<exists>r. FindFork m v (Some p) = Some r \<and> first_anc m (in_chain m v) p r"
proof (cases "nHeight b > CChain_Height v")
  case False
  have "nHeight b = int (nat (nHeight b))" using nHeight_nonneg [OF assms] by simp
  from FindFork_loop_eq [OF assms this] False assms show ?thesis by (simp add: FindFork_def)
next
  case True
  have above: "\<not> in_chain m v x" if "anc m p k = Some x" "int k < nHeight b - CChain_Height v" for k x
    using anc_hgt [OF assms that(1)] that(2) in_chain_height [of m v x] by auto
  show ?thesis
  proof (cases "CChain_Height v \<ge> 0")
    case False
    then have "GetAncestor m p (CChain_Height v) = Some None" using GetAncestor_eq [OF assms] by simp
    moreover have "\<not> in_chain m v x" if "anc m p k = Some x" for k x
      using in_chain_height [of m v x] anc_hgt [OF assms that] False by auto
    then have "first_anc m (in_chain m v) p None" by (simp add: first_anc_def)
    ultimately show ?thesis using True assms by (simp add: FindFork_def FindFork_loop_None)
  next
    case nn: True
    obtain q bq where q: "GetAncestor m p (CChain_Height v) = Some (Some q)" "m q = Some bq" "nHeight bq = CChain_Height v"
      "anc m p (nat (nHeight b - CChain_Height v)) = Some q"
      using GetAncestor_height [OF assms nn less_imp_le [OF True]] .
    have "nHeight bq = int (nat (nHeight bq))" using nn q(3) by simp
    then obtain r where r: "FindFork_loop m v (Some q) = Some r" "first_anc m (in_chain m v) q r"
      using FindFork_loop_eq [OF assms(1) q(2)] by blast
    have "first_anc m (in_chain m v) p r"
      by (rule first_anc_skip [OF q(4) _ r(2)]) (use above in auto)
    with r True q assms show ?thesis by (simp add: FindFork_def)
  qed
qed

subsection \<open>Common ancestors\<close>

lemma first_anc_cong:
  assumes "\<And>k x. anc m p k = Some x \<Longrightarrow> P x \<longleftrightarrow> Q x" "first_anc m P p r"
  shows "first_anc m Q p r"
proof (cases r)
  case None
  then show ?thesis using assms by (auto simp: first_anc_def)
next
  case (Some f)
  then obtain n where "anc m p n = Some f" "P f" "\<forall>k q. k < n \<longrightarrow> anc m p k = Some q \<longrightarrow> \<not> P q"
    using assms(2) by (auto simp: first_anc_def)
  then have "anc m p n = Some f \<and> Q f \<and> (\<forall>k q. k < n \<longrightarrow> anc m p k = Some q \<longrightarrow> \<not> Q q)"
    using assms(1) by blast
  then show ?thesis unfolding Some first_anc_def option.case by (rule exI)
qed

lemma LastCommonAncestor_loop_same: "LastCommonAncestor_loop m x x = Some (x, x)"
  by (subst LastCommonAncestor_loop.simps) simp

lemma LastCommonAncestor_loop_step:
  "p \<noteq> q \<Longrightarrow> m p = Some a \<Longrightarrow> m q = Some b \<Longrightarrow>
   LastCommonAncestor_loop m (Some p) (Some q) = LastCommonAncestor_loop m (pprev a) (pprev b)"
  by (subst LastCommonAncestor_loop.simps) simp

lemma LastCommonAncestor_loop_eq:
  "index_ok m \<Longrightarrow> m p = Some a \<Longrightarrow> m q = Some b \<Longrightarrow> nHeight a = int h \<Longrightarrow> nHeight b = int h \<Longrightarrow>
   \<exists>r. LastCommonAncestor_loop m (Some p) (Some q) = Some (r, r) \<and> first_anc m (is_anc m q) p r"
proof (induction h arbitrary: p q a b)
  case 0
  have pn: "pprev a = None" "pprev b = None" using 0 by (simp_all add: index_ok_no_prev)
  show ?case
  proof (cases "p = q")
    case True
    then show ?thesis
      using first_anc_here [of "is_anc m q" q m] by (simp add: LastCommonAncestor_loop_same)
  next
    case False
    have "\<not> is_anc m q p"
      using is_anc_at [OF 0(1, 3), of p] 0 False by (auto simp: hgt_def)
    from first_anc_root [of "is_anc m q" p m a, OF this 0(2) pn(1)] False show ?thesis
      by (simp add: LastCommonAncestor_loop_step [of p q m a b, OF _ 0(2, 3)] pn LastCommonAncestor_loop_same)
  qed
next
  case (Suc h)
  obtain p' a' where p': "pprev a = Some p'" "m p' = Some a'" "nHeight a' = int h"
    using index_ok_prev [OF Suc.prems(1, 2)] Suc.prems(4) by auto
  obtain q' b' where q': "pprev b = Some q'" "m q' = Some b'" "nHeight b' = int h"
    using index_ok_prev [OF Suc.prems(1, 3)] Suc.prems(5) by auto
  show ?case
  proof (cases "p = q")
    case True
    then show ?thesis
      using first_anc_here [of "is_anc m q" q m] by (simp add: LastCommonAncestor_loop_same)
  next
    case False
    obtain r where r: "LastCommonAncestor_loop m (Some p') (Some q') = Some (r, r)" "first_anc m (is_anc m q') p' r"
      using Suc.IH [OF Suc.prems(1) p'(2) q'(2) p'(3) q'(3)] by blast
    have st: "LastCommonAncestor_loop m (Some p) (Some q) = Some (r, r)"
      using LastCommonAncestor_loop_step [of p q m a b, OF False Suc.prems(2, 3)] p' q' r by simp
    have np: "\<not> is_anc m q p"
      using is_anc_at [OF Suc.prems(1, 3), of p] Suc.prems False by (auto simp: hgt_def)
    have eq: "is_anc m q x \<longleftrightarrow> is_anc m q' x" if "anc m p' k = Some x" for k x
    proof
      assume "is_anc m q x"
      have "hgt m x \<le> int h" using anc_hgt [OF Suc.prems(1) p'(2) that] p'(3) by simp
      then obtain n where n: "nat (nHeight b - hgt m x) = Suc n"
        using Suc.prems(5) by (cases "nat (nHeight b - hgt m x)") auto
      from is_anc_at(1) [OF Suc.prems(1, 3) \<open>is_anc m q x\<close>] have "anc m q' n = Some x"
        using n Suc.prems(3) q' by simp
      then show "is_anc m q' x" by (auto simp: is_anc_def)
    next
      assume "is_anc m q' x"
      moreover have "anc m q 1 = Some q'" using Suc.prems q' by simp
      then have "is_anc m q q'" unfolding is_anc_def by (rule exI)
      ultimately show "is_anc m q x" using is_anc_trans by blast
    qed
    have "first_anc m (is_anc m q) p' r"
      by (rule first_anc_cong [OF _ r(2)]) (use eq in blast)
    with st np show ?thesis using first_anc_prev [of "is_anc m q" p m a p' r, OF np Suc.prems(2) p'(1)] by blast
  qed
qed


lemma LastCommonAncestor_eq:
  assumes "index_ok m" "m p = Some a" "m q = Some b"
  shows "\<exists>r. LastCommonAncestor m p q = Some r \<and>
    (case r of None \<Rightarrow> \<not> (\<exists>g. is_anc m p g \<and> is_anc m q g)
     | Some f \<Rightarrow> is_anc m p f \<and> is_anc m q f \<and> (\<forall>g. is_anc m p g \<and> is_anc m q g \<longrightarrow> hgt m g \<le> hgt m f))"
proof -
  define h where "h = nat (min (nHeight a) (nHeight b))"
  have nn: "0 \<le> nHeight a" "0 \<le> nHeight b" using nHeight_nonneg assms by blast+
  have cut: "\<exists>x' c'. (if nHeight c > int h then GetAncestor m x (int h) else Some (Some x)) = Some (Some x') \<and>
      m x' = Some c' \<and> nHeight c' = int h \<and> is_anc m x x' \<and> (\<forall>g. is_anc m x g \<and> hgt m g \<le> int h \<longrightarrow> is_anc m x' g)"
    if x: "m x = Some c" "int h \<le> nHeight c" for x c
  proof -
    obtain x' c' where x': "GetAncestor m x (int h) = Some (Some x')" "m x' = Some c'" "nHeight c' = int h"
      "anc m x (nat (nHeight c - int h)) = Some x'"
      using GetAncestor_height [OF assms(1) x(1) _ x(2)] by auto
    have "is_anc m x' g" if g: "is_anc m x g" "hgt m g \<le> int h" for g
    proof -
      have "nat (nHeight c - hgt m g) = nat (nHeight c - int h) + nat (int h - hgt m g)"
        using g x(2) is_anc_at(2) [OF assms(1) x(1) g(1)] by simp
      with is_anc_at(1) [OF assms(1) x(1) g(1)] x'(4) show ?thesis by (auto simp: is_anc_def anc_add)
    qed
    moreover have "is_anc m x x'" using x'(4) by (auto simp: is_anc_def)
    moreover have "x' = x \<and> c' = c" if "\<not> nHeight c > int h" using that x x' by simp
    ultimately show ?thesis using x' by (cases "nHeight c > int h") auto
  qed
  have ha: "int h \<le> nHeight a" "int h \<le> nHeight b" using nn by (auto simp: h_def)
  obtain p' a' where p': "(if nHeight a > int h then GetAncestor m p (int h) else Some (Some p)) = Some (Some p')"
    "m p' = Some a'" "nHeight a' = int h" "is_anc m p p'" "\<forall>g. is_anc m p g \<and> hgt m g \<le> int h \<longrightarrow> is_anc m p' g"
    using cut [OF assms(2) ha(1)] by blast
  obtain q' b' where q': "(if nHeight b > int h then GetAncestor m q (int h) else Some (Some q)) = Some (Some q')"
    "m q' = Some b'" "nHeight b' = int h" "is_anc m q q'" "\<forall>g. is_anc m q g \<and> hgt m g \<le> int h \<longrightarrow> is_anc m q' g"
    using cut [OF assms(3) ha(2)] by blast
  obtain r where r: "LastCommonAncestor_loop m (Some p') (Some q') = Some (r, r)" "first_anc m (is_anc m q') p' r"
    using LastCommonAncestor_loop_eq [OF assms(1) p'(2) q'(2) p'(3) q'(3)] by blast
  have "LastCommonAncestor m p q = Some r"
    using assms nn p'(1) q'(1) r(1) by (auto simp: LastCommonAncestor_def h_def min_def split: if_splits)
  moreover have low: "hgt m g \<le> int h" if "is_anc m p g" "is_anc m q g" for g
    using is_anc_at(3) [OF assms(1, 2) that(1)] is_anc_at(3) [OF assms(1, 3) that(2)] nn by (simp add: h_def)
  have common: "is_anc m p' g \<and> is_anc m q' g" if "is_anc m p g" "is_anc m q g" for g
    using low [OF that] that p'(5) q'(5) by blast
  have "case r of None \<Rightarrow> \<not> (\<exists>g. is_anc m p g \<and> is_anc m q g)
     | Some f \<Rightarrow> is_anc m p f \<and> is_anc m q f \<and> (\<forall>g. is_anc m p g \<and> is_anc m q g \<longrightarrow> hgt m g \<le> hgt m f)"
  proof (cases r)
    case None
    have "\<not> is_anc m q' g" if "is_anc m p' g" for g
      using r(2) None that by (auto simp: first_anc_def is_anc_def)
    then show ?thesis using None common by auto
  next
    case (Some f)
    then have "is_anc m p' f" "is_anc m q' f" using r(2) by (auto simp: first_anc_def is_anc_def)
    then have "is_anc m p f" "is_anc m q f" using is_anc_trans p'(4) q'(4) by blast+
    moreover have "hgt m g \<le> hgt m f" if "is_anc m p g" "is_anc m q g" for g
      using first_anc_highest [OF assms(1) p'(2), of "is_anc m q'"] r(2) Some common [OF that] by blast
    ultimately show ?thesis using Some by auto
  qed
  ultimately show ?thesis by blast
qed

subsection \<open>Locators\<close>

lemma LocatorEntries_loop_eq:
  "index_ok m \<Longrightarrow> m p = Some b \<Longrightarrow> 1 \<le> step \<Longrightarrow>
   \<exists>l. LocatorEntries_loop m have (Some p) step = Some (have @ p # l) \<and> hgt m (last (p # l)) = 0 \<and>
     sorted_wrt (\<lambda>x y. hgt m x > hgt m y) (p # l) \<and> (\<forall>x \<in> set l. is_anc m p x)"
proof (induction "nat (nHeight b)" arbitrary: p b "have" step rule: less_induct)
  case less
  note prems = less.prems
  show ?case
  proof (cases "nHeight b = 0")
    case True
    then show ?thesis
      using prems by (subst LocatorEntries_loop.simps) (auto simp: Let_def hgt_def)
  next
    case False
    then have pos: "0 < nHeight b" using nHeight_nonneg [OF prems(1, 2)] by simp
    let ?h = "max (nHeight b - step) 0" and ?s = "if length (have @ [p]) > 10 then step * 2 else step"
    have h: "0 \<le> ?h" "?h < nHeight b" using pos prems(3) by auto
    obtain q bq where q: "GetAncestor m p ?h = Some (Some q)" "m q = Some bq" "nHeight bq = ?h"
      "anc m p (nat (nHeight b - ?h)) = Some q"
      using GetAncestor_height [OF prems(1, 2) h(1) less_imp_le [OF h(2)]] .
    have "nat (nHeight bq) < nat (nHeight b)" using q(3) h by simp
    moreover have "1 \<le> ?s" using prems(3) by simp
    ultimately obtain l where l: "LocatorEntries_loop m (have @ [p]) (Some q) ?s = Some ((have @ [p]) @ q # l)"
      "hgt m (last (q # l)) = 0" "sorted_wrt (\<lambda>x y. hgt m x > hgt m y) (q # l)" "\<forall>x \<in> set l. is_anc m q x"
      using less.hyps [of bq q ?s "have @ [p]"] prems(1) q(2) by blast
    have "LocatorEntries_loop m have (Some p) step = LocatorEntries_loop m (have @ [p]) (Some q) ?s"
      using prems(2) False q(1) by (subst LocatorEntries_loop.simps) (simp add: Let_def)
    moreover have "is_anc m p q" using q(4) by (auto simp: is_anc_def)
    moreover have "is_anc m p x" if "x \<in> set l" for x using l(4) that \<open>is_anc m p q\<close> is_anc_trans by blast
    moreover have "hgt m q < hgt m p" using prems(2) q(2, 3) h by (simp add: hgt_def)
    moreover have "hgt m x < hgt m p" if "x \<in> set l" for x
      using l(3) that \<open>hgt m q < hgt m p\<close> by fastforce
    ultimately show ?thesis
      using l by (intro exI [of _ "q # l"]) auto
  qed
qed

lemma LocatorEntries_eq:
  assumes "index_ok m" "m p = Some b"
  shows "\<exists>l. LocatorEntries m (Some p) = Some (p # l) \<and> hgt m (last (p # l)) = 0 \<and>
     sorted_wrt (\<lambda>x y. hgt m x > hgt m y) (p # l) \<and> (\<forall>x \<in> set l. is_anc m p x)"
  using LocatorEntries_loop_eq [OF assms, of 1 "[]"] by (simp add: LocatorEntries_def)

lemma LocatorEntries_loop_length:
  "index_ok m \<Longrightarrow> m p = Some b \<Longrightarrow> 1 \<le> step \<Longrightarrow> length have \<ge> 10 \<or> step = 1 \<Longrightarrow>
   nHeight b \<le> int (10 - length have) + step * (2 ^ k - 1) \<Longrightarrow>
   LocatorEntries_loop m have (Some p) step = Some r \<Longrightarrow> length r \<le> max 10 (length have) + k + 1"
proof (induction "nat (nHeight b)" arbitrary: p b "have" step k rule: less_induct)
  case less
  note prems = less.prems
  show ?case
  proof (cases "nHeight b = 0")
    case True
    then show ?thesis using prems(2, 6) by (subst (asm) LocatorEntries_loop.simps) (auto simp: Let_def)
  next
    case False
    then have pos: "0 < nHeight b" using nHeight_nonneg [OF prems(1, 2)] by simp
    let ?h = "max (nHeight b - step) 0" and ?s = "if length (have @ [p]) > 10 then step * 2 else step"
    have h: "0 \<le> ?h" "?h < nHeight b" using pos prems(3) by auto
    obtain q bq where q: "GetAncestor m p ?h = Some (Some q)" "m q = Some bq" "nHeight bq = ?h"
      using GetAncestor_height [OF prems(1, 2) h(1) less_imp_le [OF h(2)]] by blast
    have r: "LocatorEntries_loop m (have @ [p]) (Some q) ?s = Some r"
      using prems(2, 6) False q(1) by (subst (asm) LocatorEntries_loop.simps) (simp add: Let_def)
    have less: "nat (nHeight bq) < nat (nHeight b)" using q(3) h by simp
    show ?thesis
    proof (cases "length have < 10")
      case True
      then have "step = 1" using prems(4) by simp
      then have "nHeight bq \<le> int (10 - length (have @ [p])) + ?s * (2 ^ k - 1)"
        using True pos prems(5) q(3) by (auto simp: of_nat_diff)
      from less.hyps [OF less prems(1) q(2) _ _ this r] show ?thesis using True \<open>step = 1\<close> by auto
    next
      case False
      with pos prems(5) obtain j where k: "k = Suc j" by (cases k) auto
      have "step * 1 \<le> step * 2 ^ j" by (rule mult_left_mono) (use prems(3) in simp_all)
      then have "nHeight bq \<le> int (10 - length (have @ [p])) + ?s * (2 ^ j - 1)"
        using False prems(5) q(3) unfolding k by (simp add: algebra_simps max_def)
      from less.hyps [OF less prems(1) q(2) _ _ this r] show ?thesis using False prems(3) k by auto
    qed
  qed
qed

subsection \<open>Bisection\<close>

lemma lower_bound_eq:
  "\<forall>i j. i \<le> j \<longrightarrow> j < length xs \<longrightarrow> P (xs ! j) \<longrightarrow> P (xs ! i) \<Longrightarrow>
   first + len \<le> length xs \<Longrightarrow> \<forall>i < first. P (xs ! i) \<Longrightarrow> \<forall>i. first + len \<le> i \<longrightarrow> i < length xs \<longrightarrow> \<not> P (xs ! i) \<Longrightarrow>
   lower_bound P xs first len = length (takeWhile P xs)"
proof (induction P xs first len rule: lower_bound.induct)
  case (1 P xs first len)
  show ?case
  proof (cases "len > 0")
    case False
    then have "takeWhile P xs = take first xs"
      using "1.prems" by (intro takeWhile_eq_take_P_nth) auto
    then have "length (takeWhile P xs) = first" using "1.prems" by simp
    with False show ?thesis by (subst lower_bound.simps) simp
  next
    case True
    let ?m = "first + len div 2"
    have m: "?m < length xs" using True "1.prems"(2) by linarith
    show ?thesis
    proof (cases "P (xs ! ?m)")
      case p: True
      have "lower_bound P xs (?m + 1) (len - len div 2 - 1) = length (takeWhile P xs)"
        using "1.IH"(1) [OF True refl refl p] "1.prems" p True m by (auto simp: less_Suc_eq_le)
      with p True show ?thesis by (simp add: lower_bound.simps [of P xs first len] Let_def)
    next
      case p: False
      have "lower_bound P xs first (len div 2) = length (takeWhile P xs)"
        using "1.IH"(2) [OF True refl refl p] "1.prems" p True m by auto
      with p True show ?thesis by (simp add: lower_bound.simps [of P xs first len] Let_def)
    qed
  qed
qed


lemma chain_entry:
  assumes "chain_ok m v" "k < length v"
  obtains q b where "v ! k = Some q" "m q = Some b" "nHeight b = int k" "0 < k \<longrightarrow> pprev b = v ! (k - 1)"
proof -
  obtain q b where q: "v ! k = Some q" "m q = Some b" "nHeight b = int k" "\<forall>j \<le> k. v ! j = anc m q (k - j)"
    using assms by (auto simp: chain_ok_def)
  have "pprev b = v ! (k - 1)" if "0 < k"
  proof -
    have "v ! (k - 1) = anc m q 1" using q(4) that by (auto dest: spec [of _ "k - 1"])
    then show ?thesis using q(2) by (simp split: option.splits)
  qed
  with q show ?thesis using that by blast
qed

lemma nTimeMax_mono:
  assumes "chain_ok m v" "\<forall>p b. m p = Some b \<longrightarrow> work_ok m b" "j < length v" "i \<le> j"
    "v ! i = Some p" "m p = Some b" "v ! j = Some q" "m q = Some c"
  shows "nTimeMax b \<le> nTimeMax c"
  using assms(3-)
proof (induction j arbitrary: q c)
  case (Suc j)
  show ?case
  proof (cases "i = Suc j")
    case False
    obtain q' c' where q': "v ! j = Some q'" "m q' = Some c'"
      using chain_entry [OF assms(1) Suc_lessD [OF Suc.prems(1)]] by blast
    have "nTimeMax b \<le> nTimeMax c'" using Suc.IH [OF _ _ Suc.prems(3, 4) q'] Suc.prems False by simp
    moreover have "pprev c = Some q'"
      using chain_entry [OF assms(1) Suc.prems(1)] Suc.prems(5, 6) q'(1)
      by (metis diff_Suc_1 option.inject zero_less_Suc)
    then have "nTimeMax c' \<le> nTimeMax c"
      using assms(2) Suc.prems(6) q'(2) by (fastforce simp: work_ok_def)
    ultimately show ?thesis by simp
  qed (use Suc.prems in simp)
qed simp

subsection \<open>Median time past\<close>

abbreviation count_ge :: "int \<Rightarrow> int list \<Rightarrow> nat" where
  "count_ge t xs \<equiv> length (filter (\<lambda>x. t \<le> x) xs)"

lemma sorted_nth_ge_iff:
  assumes "sorted ys" "i < length ys"
  shows "t \<le> ys ! i \<longleftrightarrow> length ys - i \<le> count_ge t ys"
proof
  assume t: "t \<le> ys ! i"
  have "{i..<length ys} \<subseteq> {k. k < length ys \<and> t \<le> ys ! k}"
    using t sorted_nth_mono [OF assms(1)] by (auto intro: order_trans)
  then have "card {i..<length ys} \<le> card {k. k < length ys \<and> t \<le> ys ! k}" by (intro card_mono) auto
  then show "length ys - i \<le> count_ge t ys" by (simp add: length_filter_conv_card)
next
  assume c: "length ys - i \<le> count_ge t ys"
  show "t \<le> ys ! i"
  proof (rule ccontr)
    assume "\<not> t \<le> ys ! i"
    then have "{k. k < length ys \<and> t \<le> ys ! k} \<subseteq> {Suc i..<length ys}"
      using sorted_nth_mono [OF assms(1), of _ i] assms(2) by (fastforce simp: Suc_le_eq not_le)
    then have "card {k. k < length ys \<and> t \<le> ys ! k} \<le> card {Suc i..<length ys}" by (intro card_mono) auto
    then show False using c assms(2) by (simp add: length_filter_conv_card)
  qed
qed

lemma count_ge_sort: "count_ge t (sort xs) = count_ge t xs"
  by (simp add: filter_sort)

lemma median_ge_iff:
  "xs \<noteq> [] \<Longrightarrow> t \<le> sort xs ! (length xs div 2) \<longleftrightarrow> length xs - length xs div 2 \<le> count_ge t xs"
  using sorted_nth_ge_iff [of "sort xs" "length xs div 2" t] by (simp add: count_ge_sort)

lemma median_slide:
  fixes w :: "int list"
  assumes "w \<noteq> []" "length w \<le> Suc K" "sort w ! (length w div 2) \<le> t"
  shows "sort w ! (length w div 2) \<le> sort (t # take K w) ! (length (t # take K w) div 2)"
proof -
  let ?m = "sort w ! (length w div 2)"
  have c: "length w - length w div 2 \<le> count_ge ?m w" using median_ge_iff [OF assms(1), of ?m] by simp
  have "length (t # take K w) - length (t # take K w) div 2 \<le> count_ge ?m (t # take K w)"
  proof (cases "length w \<le> K")
    case True
    have "Suc (length w) - Suc (length w) div 2 \<le> Suc (length w - length w div 2)" by presburger
    also have "\<dots> \<le> Suc (count_ge ?m w)" using c by simp
    finally show ?thesis using True assms(3) by simp
  next
    case False
    then have n: "length w = Suc K" using assms(2) by simp
    have "count_ge ?m w = count_ge ?m (take K w) + count_ge ?m (drop K w)"
      by (metis append_take_drop_id filter_append length_append)
    moreover have "count_ge ?m (drop K w) \<le> length (drop K w)" by (rule length_filter_le)
    ultimately have "length w - length w div 2 \<le> Suc (count_ge ?m (take K w))" using c n by simp
    then show ?thesis using n assms(3) by simp
  qed
  then show ?thesis using median_ge_iff [of "t # take K w" ?m] by simp
qed

lemma MedianTimes_take: "MedianTimes m i p = take i (MedianTimes m (i + k) p)"
proof (induction i arbitrary: p)
  case (Suc i)
  then show ?case by (cases p) (auto split: option.splits)
qed simp

lemma length_MedianTimes: "length (MedianTimes m i p) \<le> i"
proof (induction i arbitrary: p)
  case (Suc i)
  then show ?case by (cases p) (auto split: option.splits)
qed simp

lemma MedianTimes_child:
  assumes "m c = Some bc" "pprev bc = Some p" 
  shows "MedianTimes m (Suc i) (Some c) = GetBlockTime bc # take i (MedianTimes m (Suc i) (Some p))"
  using assms MedianTimes_take [of m i "Some p" 1] by simp

subsection \<open>Properties\<close>

definition example_entry :: CBlockIndex where
  "example_entry = CBlockIndex_new \<lparr>nVersion = 1, hashPrevBlock = 0, hashMerkleRoot = 0, nTime = 100, nBits = 0x207FFFFF, nNonce = 0\<rparr>"

text \<open>A genesis block with two children, the first of which has a child of its own.\<close>

definition example_index :: block_map where
  "example_index = Map.empty(1 \<mapsto> example_entry,
     2 \<mapsto> example_entry\<lparr>pprev := Some 1, pskip := Some 1, nHeight := 1, bi_nTime := 200\<rparr>,
     3 \<mapsto> example_entry\<lparr>pprev := Some 1, pskip := Some 1, nHeight := 1, bi_nTime := 150\<rparr>,
     4 \<mapsto> example_entry\<lparr>pprev := Some 2, pskip := Some 1, nHeight := 2, bi_nTime := 300\<rparr>)"

lemma example_index_at:
  "example_index 1 = Some example_entry"
  "example_index 2 = Some (example_entry\<lparr>pprev := Some 1, pskip := Some 1, nHeight := 1, bi_nTime := 200\<rparr>)"
  "example_index 3 = Some (example_entry\<lparr>pprev := Some 1, pskip := Some 1, nHeight := 1, bi_nTime := 150\<rparr>)"
  "example_index 4 = Some (example_entry\<lparr>pprev := Some 2, pskip := Some 1, nHeight := 2, bi_nTime := 300\<rparr>)"
  by (simp_all add: example_index_def)

lemma example_entry_at: "pprev example_entry = None" "pskip example_entry = None" "nHeight example_entry = 0"
  "bi_nTime example_entry = 100"
  by (simp_all add: example_entry_def CBlockIndex_new_def)

lemma example_anc:
  "anc example_index 2 (nat 1) = Some 1" "anc example_index 3 (nat 1) = Some 1"
  "anc example_index 4 (nat 1) = Some 2" "anc example_index 4 (nat 2) = Some 1"
proof -
  have "nat 2 = Suc (Suc 0)" "nat 1 = Suc 0" by simp_all
  then show "anc example_index 2 (nat 1) = Some 1" "anc example_index 3 (nat 1) = Some 1"
    "anc example_index 4 (nat 1) = Some 2" "anc example_index 4 (nat 2) = Some 1"
    by (simp_all only: anc.simps example_index_at option.case) (simp_all add: example_index_at)
qed

lemma example_index_ok: "index_ok example_index"
  unfolding index_ok_def
proof (intro allI impI)
  fix p b assume b: "example_index p = Some b"
  have s: "GetSkipHeight 1 = 0" "GetSkipHeight 2 = 0"
    by (simp_all add: GetSkipHeight_def InvertLowestOne_def)
  from b have "p = 1 \<or> p = 2 \<or> p = 3 \<or> p = 4" by (auto simp: example_index_def split: if_splits)
  with b show "entry_ok example_index p b"
    by (elim disjE) (auto simp: entry_ok_def example_index_at example_entry_at s example_anc
        simp del: nat_numeral nat_1)
qed

lemma example_chain_ok: "chain_ok example_index [Some 1, Some 3]"
  by (auto simp: chain_ok_def example_index_def example_entry_def CBlockIndex_new_def less_Suc_eq le_Suc_eq)

text \<open>C24: \<open>GetAncestor\<close> over the skip list finds what following \<open>pprev\<close> one block at a time finds: on a well-formed
  index it never fails its assertion, returns null exactly for heights outside \<open>0..nHeight\<close>, and otherwise
  returns the ancestor \<open>nHeight - height\<close> steps back, which has the height asked for.\<close>

theorem get_ancestor_skip_list:
  assumes "index_ok m" "m p = Some b"
  shows "GetAncestor m p height =
      Some (if 0 \<le> height \<and> height \<le> nHeight b then anc m p (nat (nHeight b - height)) else None) \<and>
    (0 \<le> height \<and> height \<le> nHeight b \<longrightarrow>
      (\<exists>q bq. anc m p (nat (nHeight b - height)) = Some q \<and> m q = Some bq \<and> nHeight bq = height))"
  using GetAncestor_eq [OF assms] anc_exists [OF assms, of "nat (nHeight b - height)"] by auto

theorem get_ancestor_skip_list_witness:
  "GetAncestor example_index 4 0 = Some (Some 1) \<and> GetAncestor example_index 4 3 = Some None"
proof -
  show ?thesis
    using get_ancestor_skip_list [OF example_index_ok example_index_at(4), of 0]
      get_ancestor_skip_list [OF example_index_ok example_index_at(4), of 3] example_anc(4)
    by (simp del: nat_numeral)
qed

text \<open>C33: \<open>SetTip\<close> makes the vector the chain from the genesis block to the new tip: from any well-formed active
  chain it returns, whatever the fork depth, a chain whose entry at each height is the ancestor of the
  new tip at that height.\<close>

theorem set_tip_correct:
  assumes "index_ok m" "chain_ok m v" "m p = Some b"
  shows "\<exists>v'. SetTip m v p = Some v' \<and> chain_ok m v' \<and> CChain_Tip v' = Some p \<and> CChain_Height v' = nHeight b \<and>
    (\<forall>h. CChain_at v' h = (if 0 \<le> h \<and> h \<le> nHeight b then anc m p (nat (nHeight b - h)) else None))"
proof -
  obtain v' where v': "SetTip m v p = Some v'" "chain_ok m v'" "int (length v') = nHeight b + 1"
    "\<forall>j \<le> nat (nHeight b). v' ! j = anc m p (nat (nHeight b) - j)"
    by (rule SetTip_eq [OF assms])
  have l: "length v' = Suc (nat (nHeight b))" using v'(3) nHeight_nonneg [OF assms(1, 3)] by simp
  moreover have "v' ! nat (nHeight b) = Some p" using v'(4) by simp
  moreover have "CChain_at v' h = (if 0 \<le> h \<and> h \<le> nHeight b then anc m p (nat (nHeight b - h)) else None)" for h
    using v'(4) l nHeight_nonneg [OF assms(1, 3)] by (auto simp: CChain_at_def nat_diff_distrib)
  ultimately show ?thesis using v' by (auto simp: CChain_Tip_def CChain_Height_def)
qed

theorem set_tip_correct_witness:
  "\<exists>v'. SetTip example_index [Some 1, Some 3] 4 = Some v' \<and> CChain_Tip v' = Some 4 \<and> CChain_at v' 1 = Some 2"
proof -
  show ?thesis
    using set_tip_correct [OF example_index_ok example_chain_ok example_index_at(4)] example_anc(3)
    by (auto simp del: nat_numeral nat_1)
qed

text \<open>\<open>FindFork\<close> returns the highest block of the active chain on the branch of the given block, and null exactly
  when the branch and the chain share no block.\<close>

theorem find_fork_highest:
  assumes "index_ok m" "m p = Some b"
  shows "\<exists>r. FindFork m v (Some p) = Some r \<and>
    (case r of None \<Rightarrow> \<forall>g. is_anc m p g \<longrightarrow> CChain_Contains m v g \<noteq> Some True
     | Some f \<Rightarrow> is_anc m p f \<and> CChain_Contains m v f = Some True \<and>
         (\<forall>g. is_anc m p g \<and> CChain_Contains m v g = Some True \<longrightarrow> hgt m g \<le> hgt m f))"
proof -
  obtain r where r: "FindFork m v (Some p) = Some r" "first_anc m (in_chain m v) p r"
    using FindFork_eq [OF assms] by blast
  show ?thesis
  proof (cases r)
    case None
    with r show ?thesis by (auto simp: first_anc_def is_anc_def)
  next
    case (Some f)
    have "is_anc m p f" "in_chain m v f" using r(2) Some by (auto simp: first_anc_def is_anc_def)
    moreover have "hgt m g \<le> hgt m f" if "is_anc m p g" "in_chain m v g" for g
      using first_anc_highest [of m p b "in_chain m v" f g] assms r(2) Some that by blast
    ultimately show ?thesis using r(1) Some by auto
  qed
qed

theorem find_fork_highest_witness:
  "\<exists>f. FindFork example_index [Some 1, Some 3] (Some 4) = Some f \<and> f \<noteq> None"
proof -
  have "is_anc example_index 4 1" unfolding is_anc_def by (rule exI) (rule example_anc(4))
  moreover have "CChain_Contains example_index [Some 1, Some 3] 1 = Some True"
    by (simp add: CChain_Contains_def CChain_at_def example_index_at example_entry_at)
  ultimately show ?thesis
    using find_fork_highest [OF example_index_ok example_index_at(4), of "[Some 1, Some 3]"] by (auto split: option.splits)
qed

text \<open>\<open>LastCommonAncestor\<close> never fails its assertion and returns the highest block that is an ancestor of both
  blocks, or null when the two have no ancestor in common.\<close>

theorem last_common_ancestor_highest:
  assumes "index_ok m" "m p = Some a" "m q = Some b"
  shows "\<exists>r. LastCommonAncestor m p q = Some r \<and>
    (case r of None \<Rightarrow> \<not> (\<exists>g. is_anc m p g \<and> is_anc m q g)
     | Some f \<Rightarrow> is_anc m p f \<and> is_anc m q f \<and> (\<forall>g. is_anc m p g \<and> is_anc m q g \<longrightarrow> hgt m g \<le> hgt m f))"
  by (rule LastCommonAncestor_eq [OF assms])

theorem last_common_ancestor_highest_witness:
  "\<exists>r. LastCommonAncestor example_index 3 4 = Some r \<and> r \<noteq> None"
proof -
  have "is_anc example_index 4 1" "is_anc example_index 3 1"
    unfolding is_anc_def by (rule exI, rule example_anc(4), rule exI, rule example_anc(2))
  then show ?thesis
    using last_common_ancestor_highest [OF example_index_ok example_index_at(3, 4)] by (auto split: option.splits)
qed

lemma MedianTimes_numeral: "MedianTimes m (numeral n) (Some p) =
    (case m p of None \<Rightarrow> [] | Some b \<Rightarrow> GetBlockTime b # MedianTimes m (pred_numeral n) (pprev b))"
  by (simp only: numeral_eq_Suc MedianTimes.simps)

text \<open>C36: The median time past never goes back along a chain in which every block's time is later than the median
  time past of its predecessor, whatever the times themselves do.\<close>

theorem median_time_past_monotone:
  assumes "m c = Some bc" "pprev bc = Some p" "m p = Some bp" "GetMedianTimePast m p < GetBlockTime bc"
  shows "GetMedianTimePast m p \<le> GetMedianTimePast m c"
proof -
  let ?w = "MedianTimes m nMedianTimeSpan (Some p)"
  have n: "nMedianTimeSpan = Suc 10" by (simp add: nMedianTimeSpan_def)
  have "?w \<noteq> []" "length ?w \<le> Suc 10"
    using assms(3) length_MedianTimes [of m nMedianTimeSpan "Some p"]
    by (simp_all add: nMedianTimeSpan_def MedianTimes_numeral)
  moreover have "MedianTimes m nMedianTimeSpan (Some c) = GetBlockTime bc # take 10 ?w"
    using MedianTimes_child [of m c bc p 10, OF assms(1, 2)] by (simp only: n)
  ultimately show ?thesis
    using median_slide [of ?w 10 "GetBlockTime bc"] assms(4) by (simp add: GetMedianTimePast_def Let_def)
qed

theorem median_time_past_monotone_witness:
  "GetMedianTimePast example_index 2 \<le> GetMedianTimePast example_index 4"
proof -
  have "MedianTimes example_index nMedianTimeSpan (Some 2) = [200, 100]"
    by (simp add: example_index_at example_entry_at GetBlockTime_def nMedianTimeSpan_def MedianTimes_numeral)
  then have "GetMedianTimePast example_index 2 < 300" by (simp add: GetMedianTimePast_def)
  then show ?thesis
    using median_time_past_monotone [of example_index 4 _ 2, OF example_index_at(4) _ example_index_at(2)] by (simp add: GetBlockTime_def)
qed

text \<open>C40: The loop that builds a block locator ends for every block of the index: it gives a list of strictly descending heights that starts with the
  block, holds only its ancestors, ends at the genesis block, and has at most \<open>11 + k\<close> entries when the height is below \<open>10 + 2 ^ k\<close>.\<close>

theorem locator_terminates:
  assumes "index_ok m" "m p = Some b"
  shows "\<exists>l. LocatorEntries m (Some p) = Some (p # l) \<and> hgt m (last (p # l)) = 0 \<and> sorted_wrt (\<lambda>x y. hgt m x > hgt m y) (p # l) \<and>
    (\<forall>x \<in> set l. is_anc m p x) \<and> (\<forall>k. nHeight b < 10 + 2 ^ k \<longrightarrow> length (p # l) \<le> 11 + k)"
proof -
  obtain l where l: "LocatorEntries m (Some p) = Some (p # l)" "hgt m (last (p # l)) = 0" "sorted_wrt (\<lambda>x y. hgt m x > hgt m y) (p # l)"
    "\<forall>x \<in> set l. is_anc m p x" using LocatorEntries_eq [OF assms] by blast
  have "length (p # l) \<le> 11 + k" if "nHeight b < 10 + 2 ^ k" for k
    using LocatorEntries_loop_length [OF assms, of 1 "[]" k "p # l"] l(1) that by (simp add: LocatorEntries_def)
  then show ?thesis using l by blast
qed

theorem locator_terminates_witness:
  "\<exists>l. LocatorEntries example_index (Some 4) = Some (4 # l) \<and> length l \<le> 10"
  using locator_terminates [OF example_index_ok example_index_at(4)] by (auto simp: example_entry_at dest: spec [of _ 0])

text \<open>\<open>FindEarliestAtLeast\<close>, a bisection on two conditions at once, returns the lowest block of the active chain
  whose running maximum of times reaches the given time and whose height reaches the given height, and
  null exactly when there is none.\<close>

theorem find_earliest_correct:
  assumes "chain_ok m v" "\<forall>p b. m p = Some b \<longrightarrow> work_ok m b"
  shows "case FindEarliestAtLeast m v time height of
      None \<Rightarrow> \<forall>p b. Some p \<in> set v \<longrightarrow> m p = Some b \<longrightarrow> GetBlockTimeMax b < time \<or> nHeight b < height
    | Some p \<Rightarrow> \<exists>b. Some p \<in> set v \<and> m p = Some b \<and> time \<le> GetBlockTimeMax b \<and> height \<le> nHeight b \<and>
        (\<forall>q c. Some q \<in> set v \<longrightarrow> m q = Some c \<longrightarrow> time \<le> GetBlockTimeMax c \<longrightarrow> height \<le> nHeight c \<longrightarrow> nHeight b \<le> nHeight c)"
proof -
  define P where "P = (\<lambda>e. case e of None \<Rightarrow> False | Some p \<Rightarrow> (case m p of None \<Rightarrow> False
      | Some b \<Rightarrow> GetBlockTimeMax b < time \<or> nHeight b < height))"
  have mono: "P (v ! i)" if ij: "i \<le> j" "j < length v" "P (v ! j)" for i j
  proof -
    obtain q c where q: "v ! j = Some q" "m q = Some c" "nHeight c = int j" using chain_entry [OF assms(1) ij(2)] by blast
    obtain p b where p: "v ! i = Some p" "m p = Some b" "nHeight b = int i"
      using chain_entry [OF assms(1) order_le_less_trans [OF ij(1, 2)]] by blast
    have "GetBlockTimeMax b \<le> GetBlockTimeMax c"
      using nTimeMax_mono [OF assms ij(2, 1) p(1, 2) q(1, 2)] by (simp add: GetBlockTimeMax_def word_le_def)
    with ij p q show ?thesis by (auto simp: P_def)
  qed
  define n where "n = length (takeWhile P v)"
  have "lower_bound P v 0 (length v) = n"
    unfolding n_def by (rule lower_bound_eq) (use mono in auto)
  then have f: "FindEarliestAtLeast m v time height = (if n = length v then None else v ! n)"
    by (simp add: FindEarliestAtLeast_def P_def [symmetric])
  have below: "P (v ! i)" if "i < n" for i using that unfolding n_def by (metis nth_mem set_takeWhileD takeWhile_nth)
  show ?thesis
  proof (cases "n = length v")
    case True
    have "GetBlockTimeMax b < time \<or> nHeight b < height" if "Some p \<in> set v" "m p = Some b" for p b
      using that below True by (force simp: in_set_conv_nth P_def split: option.splits)
    with True f show ?thesis by auto
  next
    case False
    then have n: "n < length v" unfolding n_def using length_takeWhile_le [of P v] by simp
    then have np: "\<not> P (v ! n)" unfolding n_def using nth_length_takeWhile by blast
    obtain p b where p: "v ! n = Some p" "m p = Some b" "nHeight b = int n" using chain_entry [OF assms(1) n] by blast
    have "nHeight b \<le> nHeight c" if q: "Some q \<in> set v" "m q = Some c" "time \<le> GetBlockTimeMax c" "height \<le> nHeight c" for q c
    proof -
      obtain k where k: "k < length v" "v ! k = Some q" using q(1) by (auto simp: in_set_conv_nth)
      then have "\<not> P (v ! k)" using q by (simp add: P_def)
      then have "n \<le> k" using below by (metis not_less)
      moreover have "nHeight c = int k" using chain_entry [OF assms(1) k(1)] k(2) q(2) by (metis option.inject)
      ultimately show ?thesis using p(3) by simp
    qed
    moreover have "Some p \<in> set v" using nth_mem [OF n] p(1) by simp
    ultimately show ?thesis using np p n f False by (auto simp: P_def)
  qed
qed

theorem find_earliest_correct_witness:
  "FindEarliestAtLeast [1 \<mapsto> example_entry\<lparr>bi_nBits := 0, nTimeMax := 100\<rparr>] [Some 1] 50 0 = Some 1"
proof -
  let ?b = "example_entry\<lparr>bi_nBits := 0, nTimeMax := 100\<rparr>"
  have c: "chain_ok [1 \<mapsto> ?b] [Some 1]" by (simp add: chain_ok_def example_entry_at)
  have "work_ok [1 \<mapsto> ?b] ?b"
    by (simp add: work_ok_def example_entry_def CBlockIndex_new_def bval_of_u64 block_work_def compact_target_def compact_value_def)
  then have w: "\<forall>p b. [1 \<mapsto> ?b] p = Some b \<longrightarrow> work_ok [1 \<mapsto> ?b] b" by (simp split: if_splits)
  show ?thesis
    using find_earliest_correct [of "[1 \<mapsto> ?b]" "[Some 1]" 50 0, OF c w]
    by (cases "FindEarliestAtLeast [1 \<mapsto> ?b] [Some 1] 50 0")
      (auto simp: GetBlockTimeMax_def example_entry_at split: if_splits)
qed

end
