(* ===== verification/Pow.thy ===== *)
theory Pow
  imports ActiveChain "HOL-Library.Signed_Division"
begin

text \<open>
  Model of \<open>src/bitcoin/src/pow.cpp\<close> with the proof-of-work fields of \<open>consensus/params.h\<close>: the difficulty a block
  must have, the transitions a header sync permits, and the check of a hash against its target. Times
  are unbounded integers (they come from 32-bit fields); the factor passed to \<open>operator*=(uint32_t)\<close> and the
  64-bit divisor are truncated as the C++ conversions truncate them. \<open>None\<close> is a failed assertion.
\<close>

record Params =
  powLimit :: uint256
  fPowAllowMinDifficultyBlocks :: bool
  enforce_BIP94 :: bool
  fPowNoRetargeting :: bool
  nPowTargetSpacing :: int
  nPowTargetTimespan :: int

definition DifficultyAdjustmentInterval :: "Params \<Rightarrow> int" where
  "DifficultyAdjustmentInterval params = nPowTargetTimespan params sdiv nPowTargetSpacing params"

text \<open>\<open>SetCompact(bits); *= timespan; /= nPowTargetTimespan\<close> and the cap at \<open>powLimit\<close>, which the retargeting and the
  permitted-transition check share.\<close>

definition scaled_target :: "Params \<Rightarrow> u32 \<Rightarrow> int \<Rightarrow> base_uint option" where
  "scaled_target params bits timespan =
     (let limit = UintToArith256 (powLimit params);
          t = fst (SetCompact bits)
      in map_option (\<lambda>q. if base_uint_CompareTo q limit > 0 then limit else q)
           (base_uint_div (base_uint_mul32 t (word_of_int timespan))
              (base_uint_of_u64 8 (word_of_int (nPowTargetTimespan params)))))"

definition clamp_timespan :: "Params \<Rightarrow> int \<Rightarrow> int" where
  "clamp_timespan params t0 =
     (let t1 = (if t0 < nPowTargetTimespan params sdiv 4 then nPowTargetTimespan params sdiv 4 else t0)
      in if t1 > nPowTargetTimespan params * 4 then nPowTargetTimespan params * 4 else t1)"

definition CalculateNextWorkRequired :: "block_map \<Rightarrow> uint256 \<Rightarrow> int \<Rightarrow> Params \<Rightarrow> u32 option" where
  "CalculateNextWorkRequired m pindexLast nFirstBlockTime params =
     (case m pindexLast of
        None \<Rightarrow> None
      | Some bl \<Rightarrow>
          if fPowNoRetargeting params then Some (bi_nBits bl)
          else
            let nActualTimespan = clamp_timespan params (GetBlockTime bl - nFirstBlockTime);
                bits = (if enforce_BIP94 params then
                          (case GetAncestor m pindexLast (nHeight bl - (DifficultyAdjustmentInterval params - 1)) of
                             Some (Some p) \<Rightarrow> map_option bi_nBits (m p)
                           | _ \<Rightarrow> None)
                        else Some (bi_nBits bl))
            in case bits of
                 None \<Rightarrow> None
               | Some b \<Rightarrow>
                   (case scaled_target params b nActualTimespan of
                      None \<Rightarrow> None
                    | Some bnNew \<Rightarrow> GetCompact bnNew False))"

text \<open>The walk back over minimum-difficulty blocks.\<close>

partial_function (option) last_non_special :: "block_map \<Rightarrow> Params \<Rightarrow> u32 \<Rightarrow> uint256 \<Rightarrow> u32 option" where
  "last_non_special m params limit pindex =
     (case m pindex of
        None \<Rightarrow> None
      | Some b \<Rightarrow>
          (case pprev b of
             None \<Rightarrow> Some (bi_nBits b)
           | Some q \<Rightarrow>
               if nHeight b smod DifficultyAdjustmentInterval params \<noteq> 0 \<and> bi_nBits b = limit
               then last_non_special m params limit q
               else Some (bi_nBits b)))"

definition GetNextWorkRequired :: "block_map \<Rightarrow> uint256 \<Rightarrow> CBlockHeader \<Rightarrow> Params \<Rightarrow> u32 option" where
  "GetNextWorkRequired m pindexLast pblock params =
     (case (m pindexLast, GetCompact (UintToArith256 (powLimit params)) False) of
        (Some bl, Some nProofOfWorkLimit) \<Rightarrow>
          if (nHeight bl + 1) smod DifficultyAdjustmentInterval params \<noteq> 0 then
            if fPowAllowMinDifficultyBlocks params then
              if CBlockHeader_GetBlockTime pblock > GetBlockTime bl + nPowTargetSpacing params * 2
              then Some nProofOfWorkLimit
              else last_non_special m params nProofOfWorkLimit pindexLast
            else Some (bi_nBits bl)
          else
            let nHeightFirst = nHeight bl - (DifficultyAdjustmentInterval params - 1)
            in if nHeightFirst < 0 then None
               else (case GetAncestor m pindexLast nHeightFirst of
                       Some (Some p) \<Rightarrow>
                         (case m p of
                            None \<Rightarrow> None
                          | Some first \<Rightarrow> CalculateNextWorkRequired m pindexLast (GetBlockTime first) params)
                     | _ \<Rightarrow> None)
      | _ \<Rightarrow> None)"

definition rounded_target :: "base_uint \<Rightarrow> base_uint option" where
  "rounded_target t = map_option (\<lambda>c. fst (SetCompact c)) (GetCompact t False)"

definition PermittedDifficultyTransition :: "Params \<Rightarrow> int \<Rightarrow> u32 \<Rightarrow> u32 \<Rightarrow> bool option" where
  "PermittedDifficultyTransition params height old_nbits new_nbits =
     (if fPowAllowMinDifficultyBlocks params then Some True
      else if height smod DifficultyAdjustmentInterval params = 0 then
        let smallest_timespan = nPowTargetTimespan params sdiv 4;
            largest_timespan = nPowTargetTimespan params * 4;
            observed_new_target = fst (SetCompact new_nbits)
        in case Option.bind (scaled_target params old_nbits largest_timespan) rounded_target of
             None \<Rightarrow> None
           | Some maximum_new_target \<Rightarrow>
               if base_uint_CompareTo maximum_new_target observed_new_target < 0 then Some False
               else (case Option.bind (scaled_target params old_nbits smallest_timespan) rounded_target of
                       None \<Rightarrow> None
                     | Some minimum_new_target \<Rightarrow>
                         if base_uint_CompareTo minimum_new_target observed_new_target > 0 then Some False
                         else Some True)
      else Some (old_nbits = new_nbits))"

definition DeriveTarget :: "u32 \<Rightarrow> uint256 \<Rightarrow> base_uint option" where
  "DeriveTarget bits pow_limit =
     (case SetCompact bits of (bnTarget, fNegative, fOverflow) \<Rightarrow>
        if fNegative \<or> base_uint_EqualTo bnTarget 0 \<or> fOverflow \<or>
           base_uint_CompareTo bnTarget (UintToArith256 pow_limit) > 0
        then None else Some bnTarget)"

definition CheckProofOfWorkImpl :: "uint256 \<Rightarrow> u32 \<Rightarrow> Params \<Rightarrow> bool" where
  "CheckProofOfWorkImpl hash bits params =
     (case DeriveTarget bits (powLimit params) of
        None \<Rightarrow> False
      | Some bnTarget \<Rightarrow> if base_uint_CompareTo (UintToArith256 hash) bnTarget > 0 then False else True)"

subsection \<open>Checking a hash\<close>

lemma DeriveTarget_eq:
  "case DeriveTarget bits limit of
     None \<Rightarrow> (case compact_target bits of None \<Rightarrow> True | Some t \<Rightarrow> unat limit < t)
   | Some b \<Rightarrow> length b = 8 \<and> compact_target bits = Some (bval b) \<and> bval b \<le> unat limit"
proof -
  obtain b neg ov where b: "SetCompact bits = (b, neg, ov)" "length b = 8"
    "compact_target bits = (if neg \<or> ov \<or> bval b = 0 then None else Some (bval b))"
    by (rule SetCompact_target)
  then show ?thesis
    by (auto simp: DeriveTarget_def base_uint_EqualTo_iff bval_CompareTo bval_UintToArith256)
qed

text \<open>C35: A hash meets the proof-of-work check exactly when its compact bits stand for a target that is positive, does
  not overflow, is not negative and is at most the limit, and the hash as a number is at most that target.\<close>

theorem check_proof_of_work_iff:
  "CheckProofOfWorkImpl hash bits params \<longleftrightarrow>
     (\<exists>t. compact_target bits = Some t \<and> t \<le> unat (powLimit params) \<and> unat hash \<le> t)"
proof (cases "DeriveTarget bits (powLimit params)")
  case None
  then show ?thesis using DeriveTarget_eq [where bits = bits and limit = "powLimit params"]
    by (cases "compact_target bits") (auto simp: CheckProofOfWorkImpl_def)
next
  case (Some b)
  then show ?thesis using DeriveTarget_eq [where bits = bits and limit = "powLimit params"]
    by (auto simp: CheckProofOfWorkImpl_def bval_CompareTo bval_UintToArith256)
qed

subsection \<open>Retargeting\<close>

definition retarget :: "nat \<Rightarrow> nat \<Rightarrow> nat \<Rightarrow> nat \<Rightarrow> nat" where
  "retarget limit T t A = min limit (t * A div T)"

text \<open>Parameters under which no product overflows, as those of the main network.\<close>

definition params_ok :: "Params \<Rightarrow> bool" where
  "params_ok params \<longleftrightarrow> 0 < nPowTargetSpacing params \<and> nPowTargetSpacing params \<le> nPowTargetTimespan params \<and>
     nPowTargetTimespan params * 4 < 2 ^ 32 \<and> 
     unat (powLimit params) * nat (nPowTargetTimespan params * 4) < 2 ^ 256"

lemma unat_of_int_small: "0 \<le> i \<Longrightarrow> i < 2 ^ LENGTH('a) \<Longrightarrow> unat (word_of_int i :: 'a :: len word) = nat i"
proof -
  assume i: "0 \<le> i" "i < 2 ^ LENGTH('a)"
  then have "nat i < 2 ^ LENGTH('a)" by (simp add: nat_less_iff)
  moreover have "word_of_int i = (word_of_nat (nat i) :: 'a word)" using i(1) by (metis int_nat_eq of_int_of_nat_eq)
  ultimately show ?thesis by (simp add: unat_of_nat_small)
qed

lemma bind_case: "(case x of None \<Rightarrow> None | Some y \<Rightarrow> f y) = Option.bind x f"
  by (cases x) simp_all

lemma scaled_target_eq:
  assumes "params_ok params" "compact_target bits = Some t" "t \<le> unat (powLimit params)"
    "0 \<le> A" "A \<le> nPowTargetTimespan params * 4"
  obtains q where "scaled_target params bits A = Some q" "length q = 8"
    "bval q = retarget (unat (powLimit params)) (nat (nPowTargetTimespan params)) t (nat A)"
proof -
  let ?T = "nPowTargetTimespan params" and ?L = "unat (powLimit params)"
  obtain b neg ov where b: "SetCompact bits = (b, neg, ov)" "length b = 8"
    "compact_target bits = (if neg \<or> ov \<or> bval b = 0 then None else Some (bval b))"
    by (rule SetCompact_target)
  have bt: "bval b = t" using b(3) assms(2) by (auto split: if_splits)
  have p: "0 < ?T" "?T * 4 < 2 ^ 32" "?L * nat (?T * 4) < 2 ^ 256" using assms(1) by (auto simp: params_ok_def)
  have A: "unat (word_of_int A :: u32) = nat A"
    using assms(4, 5) p by (intro unat_of_int_small) simp_all
  have T: "unat (word_of_int ?T :: u64) = nat ?T"
    using p by (intro unat_of_int_small) simp_all
  have "t * nat A \<le> ?L * nat (?T * 4)" using assms(3-5) by (intro mult_le_mono) auto
  then have m: "bval (base_uint_mul32 b (word_of_int A)) = t * nat A"
    using b(2) bt A p(3) by (simp add: bval_mul32)
  have d: "bval (base_uint_of_u64 8 (word_of_int ?T)) = nat ?T" using T by (simp add: bval_of_u64)
  obtain q where q: "base_uint_div (base_uint_mul32 b (word_of_int A)) (base_uint_of_u64 8 (word_of_int ?T)) = Some q"
    "length q = 8" "bval q = t * nat A div nat ?T"
    using base_uint_div_eq [of "base_uint_mul32 b (word_of_int A)" "base_uint_of_u64 8 (word_of_int ?T)"] b(2) m d p(1)
    by (auto split: option.splits)
  show ?thesis
    by (rule that [of "if base_uint_CompareTo q (UintToArith256 (powLimit params)) > 0 then UintToArith256 (powLimit params) else q"])
      (use q b(1) in \<open>auto simp: scaled_target_def Let_def retarget_def bval_CompareTo bval_UintToArith256 min_def\<close>)
qed

lemma retarget_mono: "A \<le> B \<Longrightarrow> retarget limit T t A \<le> retarget limit T t B"
  unfolding retarget_def by (intro min.mono div_le_mono) simp_all

lemma rounded_target_eq:
  assumes "length t = 8"
  obtains r where "rounded_target t = Some r" "length r = 8" "bval r = compact_round (bval t)"
proof -
  obtain c b where "GetCompact t False = Some c" "SetCompact c = (b, False, False)" "length b = 8"
    "bval b = compact_round (bval t)"
    using SetCompact_GetCompact [OF assms] by metis
  then show ?thesis by (intro that [of b]) (auto simp: rounded_target_def)
qed

lemma clamp_timespan_bounds:
  assumes "params_ok params"
  shows "nPowTargetTimespan params sdiv 4 \<le> clamp_timespan params x \<and> clamp_timespan params x \<le> nPowTargetTimespan params * 4 \<and>
    0 \<le> nPowTargetTimespan params sdiv 4"
proof -
  have p: "0 < nPowTargetTimespan params" using assms by (auto simp: params_ok_def)
  then have "nPowTargetTimespan params sdiv 4 = nPowTargetTimespan params div 4" by (simp add: signed_divide_int_def)
  with p show ?thesis by (auto simp: clamp_timespan_def Let_def)
qed


lemma CompareTo_rounded:
  assumes "length a = 8" "length b = 8" "bval a \<le> bval b"
  shows "\<not> base_uint_CompareTo b a < 0" "\<not> base_uint_CompareTo a b > 0"
  using assms by (auto simp: bval_CompareTo)

text \<open>A clamped retarget is permitted.\<close>

lemma retarget_permitted:
  assumes "params_ok params" "compact_target bits = Some t" "t \<le> unat (powLimit params)"
    "nPowTargetTimespan params sdiv 4 \<le> A" "A \<le> nPowTargetTimespan params * 4"
    "height smod DifficultyAdjustmentInterval params = 0"
  shows "\<exists>c. Option.bind (scaled_target params bits A) (\<lambda>q. GetCompact q False) = Some c \<and>
    PermittedDifficultyTransition params height bits c = Some True"
proof -
  let ?T = "nPowTargetTimespan params"
  let ?r = "\<lambda>x. retarget (unat (powLimit params)) (nat ?T) t (nat x)"
  have lo: "0 \<le> ?T sdiv 4" and hi: "?T sdiv 4 \<le> ?T * 4"
    using clamp_timespan_bounds [OF assms(1), of 0] by auto
  obtain q where q: "scaled_target params bits A = Some q" "length q = 8" "bval q = ?r A"
    using scaled_target_eq [OF assms(1-3) order_trans [OF lo assms(4)] assms(5)] .
  obtain q1 where q1: "scaled_target params bits (?T * 4) = Some q1" "length q1 = 8" "bval q1 = ?r (?T * 4)"
    using scaled_target_eq [OF assms(1-3) order_trans [OF lo hi] order_refl] .
  obtain q2 where q2: "scaled_target params bits (?T sdiv 4) = Some q2" "length q2 = 8" "bval q2 = ?r (?T sdiv 4)"
    using scaled_target_eq [OF assms(1-3) lo hi] .
  obtain c b where c: "GetCompact q False = Some c" "SetCompact c = (b, False, False)" "length b = 8"
    "bval b = compact_round (bval q)"
    using SetCompact_GetCompact [OF q(2)] by metis
  obtain r1 where r1: "rounded_target q1 = Some r1" "length r1 = 8" "bval r1 = compact_round (bval q1)"
    by (rule rounded_target_eq [OF q1(2)])
  obtain r2 where r2: "rounded_target q2 = Some r2" "length r2 = 8" "bval r2 = compact_round (bval q2)"
    by (rule rounded_target_eq [OF q2(2)])
  have "bval b \<le> bval r1" unfolding c(4) r1(3) q(3) q1(3)
    using assms(5) by (intro compact_round_mono retarget_mono) simp
  moreover have "bval r2 \<le> bval b" unfolding c(4) r2(3) q(3) q2(3)
    using assms(4) by (intro compact_round_mono retarget_mono) simp
  ultimately have "PermittedDifficultyTransition params height bits c = Some True"
    using assms(6) q1(1) q2(1) r1(1) r2(1) c(2) CompareTo_rounded [OF c(3) r1(2)] CompareTo_rounded [OF r2(2) c(3)]
    by (simp add: PermittedDifficultyTransition_def Let_def)
  with q(1) c(1) show ?thesis by auto
qed

lemma last_non_special_returns:
  "index_ok m \<Longrightarrow> m p = Some b \<Longrightarrow> nHeight b = int h \<Longrightarrow> \<exists>c. last_non_special m params limit p = Some c"
proof (induction h arbitrary: p b)
  case 0
  then have "pprev b = None" by (simp add: index_ok_no_prev)
  with 0 show ?case by (subst last_non_special.simps) simp
next
  case (Suc h)
  obtain q bq where q: "pprev b = Some q" "m q = Some bq" "nHeight bq = int h"
    using index_ok_prev [OF Suc.prems(1, 2)] Suc.prems(3) by auto
  with Suc.IH [OF Suc.prems(1) q(2, 3)] Suc.prems(2) show ?case
    by (subst last_non_special.simps) simp
qed

lemma interval_pos: "params_ok params \<Longrightarrow> 1 \<le> DifficultyAdjustmentInterval params"
proof -
  assume "params_ok params"
  then have p: "0 < nPowTargetSpacing params" "nPowTargetSpacing params \<le> nPowTargetTimespan params"
    by (auto simp: params_ok_def)
  then have "DifficultyAdjustmentInterval params = nPowTargetTimespan params div nPowTargetSpacing params"
    by (simp add: DifficultyAdjustmentInterval_def signed_divide_int_def)
  moreover have "0 < nPowTargetTimespan params div nPowTargetSpacing params"
    using p by (simp add: pos_imp_zdiv_pos_iff)
  ultimately show ?thesis by simp
qed

lemma scaled_target_returns:
  assumes "params_ok params"
  obtains q where "scaled_target params bits A = Some q" "length q = 8"
proof -
  let ?T = "nPowTargetTimespan params" and ?m = "base_uint_mul32 (fst (SetCompact bits)) (word_of_int A)"
  let ?d = "base_uint_of_u64 8 (word_of_int ?T)"
  have l: "length ?m = 8" using SetCompact_eq [of bits] by (metis fst_conv length_base_uint_mul32)
  have T: "0 < ?T" "?T < 2 ^ 32" using assms by (auto simp: params_ok_def)
  then have "unat (word_of_int ?T :: u64) = nat ?T" by (intro unat_of_int_small) simp_all
  then have "bval ?d \<noteq> 0" using T by (simp add: bval_of_u64)
  then obtain q where q: "base_uint_div ?m ?d = Some q" "length q = 8"
    using base_uint_div_eq [of ?m ?d] l by (cases "base_uint_div ?m ?d") auto
  then show ?thesis
    by (cases "base_uint_CompareTo q (UintToArith256 (powLimit params)) > 0") (auto simp: scaled_target_def Let_def intro!: that)
qed

lemma GetCompact_returns: "length a = 8 \<Longrightarrow> \<exists>c. GetCompact a False = Some c"
  using SetCompact_GetCompact [of a] by metis

lemma CalculateNextWorkRequired_returns:
  assumes "params_ok params" "index_ok m" "m p = Some b"
    "0 \<le> nHeight b - (DifficultyAdjustmentInterval params - 1)"
  shows "\<exists>c. CalculateNextWorkRequired m p t0 params = Some c"
proof -
  have "nHeight b - (DifficultyAdjustmentInterval params - 1) \<le> nHeight b" using interval_pos [OF assms(1)] by simp
  then obtain q bq where q: "GetAncestor m p (nHeight b - (DifficultyAdjustmentInterval params - 1)) = Some (Some q)"
    "m q = Some bq"
    using GetAncestor_height [OF assms(2, 3, 4)] by metis
  have "\<exists>c. Option.bind (scaled_target params bits A) (\<lambda>q. GetCompact q False) = Some c" for bits A
    using scaled_target_returns [OF assms(1), of bits A] GetCompact_returns by (metis bind.bind_lunit)
  then have r: "\<exists>c. (case scaled_target params bits A of None \<Rightarrow> None | Some bnNew \<Rightarrow> GetCompact bnNew False) = Some c" for bits A
    by (simp only: bind_case)
  show ?thesis
    using assms(3) q r by (auto simp: CalculateNextWorkRequired_def Let_def)
qed

lemma smod_0_le: "1 \<le> (k :: int) \<Longrightarrow> 1 \<le> n \<Longrightarrow> n smod k = 0 \<Longrightarrow> k \<le> n"
  by (auto simp: signed_modulo_int_def intro: zdvd_imp_le)

text \<open>C1: The difficulty \<open>GetNextWorkRequired\<close> prescribes is always one that \<open>PermittedDifficultyTransition\<close> permits, so
  the header pre-sync never rejects a chain that full validation accepts: for parameters whose products do
  not overflow, on a well-formed index, the computation passes all its assertions, returns, and its result
  is a permitted successor of the last block's bits at the next height.\<close>

theorem next_work_permitted:
  assumes "index_ok m" "m p = Some b" "params_ok params"
    and "compact_target (bi_nBits b) = Some t" "t \<le> unat (powLimit params)"
    and "enforce_BIP94 params \<longrightarrow> fPowAllowMinDifficultyBlocks params"
    and "fPowNoRetargeting params \<longrightarrow> fPowAllowMinDifficultyBlocks params"
  shows "\<exists>c. GetNextWorkRequired m p pblock params = Some c \<and>
    PermittedDifficultyTransition params (nHeight b + 1) (bi_nBits b) c = Some True"
proof -
  let ?I = "DifficultyAdjustmentInterval params"
  obtain lim where lim: "GetCompact (UintToArith256 (powLimit params)) False = Some lim"
    using GetCompact_returns [of "UintToArith256 (powLimit params)"] by auto
  have nn: "0 \<le> nHeight b" by (rule nHeight_nonneg [OF assms(1, 2)])
  have I: "1 \<le> ?I" by (rule interval_pos [OF assms(3)])
  show ?thesis
  proof (cases "(nHeight b + 1) smod ?I = 0")
    case False
    have "nHeight b = int (nat (nHeight b))" using nn by simp
    then obtain c where "last_non_special m params lim p = Some c"
      using last_non_special_returns [OF assms(1, 2)] by blast
    with False assms(2) lim show ?thesis
      by (auto simp: GetNextWorkRequired_def PermittedDifficultyTransition_def)
  next
    case True
    then have h: "0 \<le> nHeight b - (?I - 1)" using smod_0_le [OF I, of "nHeight b + 1"] nn by simp
    have le: "nHeight b - (?I - 1) \<le> nHeight b" using I by simp
    obtain q bq where q: "GetAncestor m p (nHeight b - (?I - 1)) = Some (Some q)" "m q = Some bq"
      using GetAncestor_height [OF assms(1, 2) h le] by metis
    let ?c = "CalculateNextWorkRequired m p (GetBlockTime bq) params"
    have g: "GetNextWorkRequired m p pblock params = ?c"
      using True assms(2) lim q h by (simp add: GetNextWorkRequired_def Let_def)
    show ?thesis
    proof (cases "fPowAllowMinDifficultyBlocks params")
      case True
      then show ?thesis
        using g CalculateNextWorkRequired_returns [OF assms(3, 1, 2) h] by (auto simp: PermittedDifficultyTransition_def)
    next
      case False
      let ?A = "clamp_timespan params (GetBlockTime b - GetBlockTime bq)"
      have "?c = Option.bind (scaled_target params (bi_nBits b) ?A) (\<lambda>q. GetCompact q False)"
        using False assms(2, 6, 7) by (simp add: CalculateNextWorkRequired_def Let_def bind_case)
      then show ?thesis
        using g retarget_permitted [OF assms(3-5) _ _ True, of ?A] clamp_timespan_bounds [OF assms(3)] by simp
    qed
  qed
qed

definition main_params :: Params where
  "main_params = \<lparr>powLimit = word_of_nat (2 ^ 224 - 1), fPowAllowMinDifficultyBlocks = False, enforce_BIP94 = False,
     fPowNoRetargeting = False, nPowTargetSpacing = 10 * 60, nPowTargetTimespan = 14 * 24 * 60 * 60\<rparr>"

lemma main_limit: "unat (powLimit main_params) = 2 ^ 224 - 1"
proof -
  have "powLimit main_params = word_of_nat (2 ^ 224 - 1)" by (simp only: main_params_def Params.simps)
  moreover have "(2 ^ 224 - 1 :: nat) < 2 ^ LENGTH(256)" by simp
  ultimately show ?thesis by (simp only: unat_of_nat_small)
qed

lemma main_params_ok: "params_ok main_params"
  unfolding params_ok_def main_limit by (simp add: main_params_def)

theorem next_work_permitted_witness:
  "\<exists>c. GetNextWorkRequired [1 \<mapsto> example_entry\<lparr>bi_nBits := 0x1d00ffff\<rparr>] 1 CBlockHeader_SetNull main_params = Some c \<and>
     PermittedDifficultyTransition main_params 1 0x1d00ffff c = Some True"
proof -
  let ?b = "example_entry\<lparr>bi_nBits := 0x1d00ffff\<rparr>"
  have "index_ok [1 \<mapsto> ?b]" by (auto simp: index_ok_def entry_ok_def example_entry_at split: if_splits)
  moreover have "compact_target (bi_nBits ?b) = Some (0xFFFF * 2 ^ 208)"
    by (simp add: compact_target_def compact_value_def Let_def flip: and_sign_bit)
  ultimately show ?thesis
    using next_work_permitted [of "[1 \<mapsto> ?b]" 1 ?b main_params "0xFFFF * 2 ^ 208" CBlockHeader_SetNull]
      main_params_ok example_entry_at by (simp add: main_params_def)
qed

end
