(* ===== verification/Hashing.thy ===== *)
theory Hashing
  imports Serialize
begin

text \<open>
  Model of \<open>src/bitcoin/src/hash.h\<close> and \<open>hash.cpp\<close>. The compression-based hash functions are the fields of the record \<open>hash_functions\<close>;
  a \<open>HashWriter\<close> is the list of the bytes written to it. \<open>MurmurHash3\<close> is computed.
\<close>

record hash_functions =
  SHA256 :: "bytes \<Rightarrow> bytes"
  RIPEMD160 :: "bytes \<Rightarrow> bytes"
  SHA1 :: "bytes \<Rightarrow> bytes"

text \<open>The output sizes of the three functions, \<open>CSHA256::OUTPUT_SIZE\<close> and so on.\<close>

definition hash_sizes_ok :: "hash_functions \<Rightarrow> bool" where
  "hash_sizes_ok F \<longleftrightarrow> (\<forall>x. length (SHA256 F x) = 32) \<and> (\<forall>x. length (RIPEMD160 F x) = 20) \<and> (\<forall>x. length (SHA1 F x) = 20)"

definition uint256_of_bytes :: "bytes \<Rightarrow> uint256" where
  "uint256_of_bytes bs = word_of_nat (nat_of_le bs)"

definition CHash256 :: "hash_functions \<Rightarrow> bytes \<Rightarrow> bytes" where
  "CHash256 F input = SHA256 F (SHA256 F input)"

definition CHash160 :: "hash_functions \<Rightarrow> bytes \<Rightarrow> bytes" where
  "CHash160 F input = RIPEMD160 F (SHA256 F input)"

definition Hash :: "hash_functions \<Rightarrow> bytes \<Rightarrow> uint256" where
  "Hash F in1 = uint256_of_bytes (CHash256 F in1)"

definition Hash_2 :: "hash_functions \<Rightarrow> bytes \<Rightarrow> bytes \<Rightarrow> uint256" where
  "Hash_2 F in1 in2 = uint256_of_bytes (CHash256 F (in1 @ in2))"

definition HashWriter_GetHash :: "hash_functions \<Rightarrow> bytes \<Rightarrow> uint256" where
  "HashWriter_GetHash F ctx = uint256_of_bytes (SHA256 F (SHA256 F ctx))"

definition HashWriter_GetSHA256 :: "hash_functions \<Rightarrow> bytes \<Rightarrow> uint256" where
  "HashWriter_GetSHA256 F ctx = uint256_of_bytes (SHA256 F ctx)"

definition HashWriter_GetCheapHash :: "hash_functions \<Rightarrow> bytes \<Rightarrow> u64" where
  "HashWriter_GetCheapHash F ctx = word_of_nat (nat_of_le (take 8 (ser_uint256 (HashWriter_GetHash F ctx))))"

definition SHA256Uint256 :: "hash_functions \<Rightarrow> uint256 \<Rightarrow> uint256" where
  "SHA256Uint256 F input = uint256_of_bytes (SHA256 F (ser_uint256 input))"

definition TaggedHash :: "hash_functions \<Rightarrow> bytes \<Rightarrow> bytes" where
  "TaggedHash F tag = (let taghash = uint256_of_bytes (SHA256 F tag) in ser_uint256 taghash @ ser_uint256 taghash)"

definition ascii :: "string \<Rightarrow> bytes" where
  "ascii s = map (\<lambda>c. word_of_nat (of_char c)) s"

subsection \<open>MurmurHash3\<close>

definition rotl32 :: "u32 \<Rightarrow> nat \<Rightarrow> u32" where
  "rotl32 x n = push_bit n x OR drop_bit (32 - n) x"

definition murmur_mix :: "u32 \<Rightarrow> u32" where
  "murmur_mix k1 = rotl32 (k1 * 0xcc9e2d51) 15 * 0x1b873593"

fun murmur_blocks :: "u32 \<Rightarrow> bytes \<Rightarrow> u32 \<times> bytes" where
  "murmur_blocks h1 (b0 # b1 # b2 # b3 # rest) =
     murmur_blocks (rotl32 (h1 XOR murmur_mix (word_of_nat (nat_of_le [b0, b1, b2, b3]))) 13 * 5 + 0xe6546b64) rest"
| "murmur_blocks h1 tail = (h1, tail)"

definition murmur_tail :: "u32 \<Rightarrow> bytes \<Rightarrow> u32" where
  "murmur_tail h1 tail =
     (case tail of
        [] \<Rightarrow> h1
      | [t0] \<Rightarrow> h1 XOR murmur_mix (ucast t0)
      | [t0, t1] \<Rightarrow> h1 XOR murmur_mix (push_bit 8 (ucast t1) XOR ucast t0)
      | t0 # t1 # t2 # _ \<Rightarrow> h1 XOR murmur_mix (push_bit 16 (ucast t2) XOR push_bit 8 (ucast t1) XOR ucast t0))"

definition murmur_final :: "u32 \<Rightarrow> nat \<Rightarrow> u32" where
  "murmur_final h1 n =
     (let h1 = h1 XOR word_of_nat n;
          h1 = h1 XOR drop_bit 16 h1;
          h1 = h1 * 0x85ebca6b;
          h1 = h1 XOR drop_bit 13 h1;
          h1 = h1 * 0xc2b2ae35
      in h1 XOR drop_bit 16 h1)"

definition MurmurHash3 :: "u32 \<Rightarrow> bytes \<Rightarrow> u32" where
  "MurmurHash3 nHashSeed vDataToHash =
     (let (h1, tail) = murmur_blocks nHashSeed vDataToHash
      in murmur_final (murmur_tail h1 tail) (length vDataToHash))"

lemma ser_uint256_of_bytes: "length bs = 32 \<Longrightarrow> ser_uint256 (uint256_of_bytes bs) = bs"
  unfolding ser_uint256_def uint256_of_bytes_def using le_bytes_roundtrip [where 'a = 256, of 32 bs] by simp

lemma uint256_of_ser: "uint256_of_bytes (ser_uint256 w) = w"
  unfolding ser_uint256_def uint256_of_bytes_def using le_word_roundtrip [where 'a = 256, of 32 w] by simp

lemma Hash_GetHash: "Hash_2 F a b = HashWriter_GetHash F (a @ b)" "Hash F a = HashWriter_GetHash F a"
  by (simp_all add: Hash_2_def Hash_def CHash256_def HashWriter_GetHash_def)

lemma CHash256_length [simp]: "hash_sizes_ok F \<Longrightarrow> length (CHash256 F x) = 32"
  by (simp add: hash_sizes_ok_def CHash256_def)

lemma CHash160_length [simp]: "hash_sizes_ok F \<Longrightarrow> length (CHash160 F x) = 20"
  by (simp add: hash_sizes_ok_def CHash160_def)

end
