(* ===== verification/Script.thy ===== *)
theory Script
  imports Transaction
begin

text \<open>
  Model of \<open>src/bitcoin/src/script/script.h\<close> and \<open>script.cpp\<close>: opcodes, script numbers, the instruction decoder, the
  builder, and the predicates and counters on scripts. A script is its list of bytes; an iterator into it
  is the suffix that starts there; an opcode is its number.
\<close>

subsection \<open>Opcodes and limits\<close>

type_synonym opcodetype = nat

type_synonym script = bytes

abbreviation (input) OP_0 :: opcodetype where "OP_0 \<equiv> 0x00"
abbreviation (input) OP_PUSHDATA1 :: opcodetype where "OP_PUSHDATA1 \<equiv> 0x4c"
abbreviation (input) OP_PUSHDATA2 :: opcodetype where "OP_PUSHDATA2 \<equiv> 0x4d"
abbreviation (input) OP_PUSHDATA4 :: opcodetype where "OP_PUSHDATA4 \<equiv> 0x4e"
abbreviation (input) OP_1NEGATE :: opcodetype where "OP_1NEGATE \<equiv> 0x4f"
abbreviation (input) OP_RESERVED :: opcodetype where "OP_RESERVED \<equiv> 0x50"
abbreviation (input) OP_1 :: opcodetype where "OP_1 \<equiv> 0x51"
abbreviation (input) OP_16 :: opcodetype where "OP_16 \<equiv> 0x60"
abbreviation (input) OP_NOP :: opcodetype where "OP_NOP \<equiv> 0x61"
abbreviation (input) OP_IF :: opcodetype where "OP_IF \<equiv> 0x63"
abbreviation (input) OP_NOTIF :: opcodetype where "OP_NOTIF \<equiv> 0x64"
abbreviation (input) OP_VERIF :: opcodetype where "OP_VERIF \<equiv> 0x65"
abbreviation (input) OP_VERNOTIF :: opcodetype where "OP_VERNOTIF \<equiv> 0x66"
abbreviation (input) OP_ELSE :: opcodetype where "OP_ELSE \<equiv> 0x67"
abbreviation (input) OP_ENDIF :: opcodetype where "OP_ENDIF \<equiv> 0x68"
abbreviation (input) OP_VERIFY :: opcodetype where "OP_VERIFY \<equiv> 0x69"
abbreviation (input) OP_RETURN :: opcodetype where "OP_RETURN \<equiv> 0x6a"
abbreviation (input) OP_TOALTSTACK :: opcodetype where "OP_TOALTSTACK \<equiv> 0x6b"
abbreviation (input) OP_FROMALTSTACK :: opcodetype where "OP_FROMALTSTACK \<equiv> 0x6c"
abbreviation (input) OP_2DROP :: opcodetype where "OP_2DROP \<equiv> 0x6d"
abbreviation (input) OP_2DUP :: opcodetype where "OP_2DUP \<equiv> 0x6e"
abbreviation (input) OP_3DUP :: opcodetype where "OP_3DUP \<equiv> 0x6f"
abbreviation (input) OP_2OVER :: opcodetype where "OP_2OVER \<equiv> 0x70"
abbreviation (input) OP_2ROT :: opcodetype where "OP_2ROT \<equiv> 0x71"
abbreviation (input) OP_2SWAP :: opcodetype where "OP_2SWAP \<equiv> 0x72"
abbreviation (input) OP_IFDUP :: opcodetype where "OP_IFDUP \<equiv> 0x73"
abbreviation (input) OP_DEPTH :: opcodetype where "OP_DEPTH \<equiv> 0x74"
abbreviation (input) OP_DROP :: opcodetype where "OP_DROP \<equiv> 0x75"
abbreviation (input) OP_DUP :: opcodetype where "OP_DUP \<equiv> 0x76"
abbreviation (input) OP_NIP :: opcodetype where "OP_NIP \<equiv> 0x77"
abbreviation (input) OP_OVER :: opcodetype where "OP_OVER \<equiv> 0x78"
abbreviation (input) OP_PICK :: opcodetype where "OP_PICK \<equiv> 0x79"
abbreviation (input) OP_ROLL :: opcodetype where "OP_ROLL \<equiv> 0x7a"
abbreviation (input) OP_ROT :: opcodetype where "OP_ROT \<equiv> 0x7b"
abbreviation (input) OP_SWAP :: opcodetype where "OP_SWAP \<equiv> 0x7c"
abbreviation (input) OP_TUCK :: opcodetype where "OP_TUCK \<equiv> 0x7d"
abbreviation (input) OP_CAT :: opcodetype where "OP_CAT \<equiv> 0x7e"
abbreviation (input) OP_SUBSTR :: opcodetype where "OP_SUBSTR \<equiv> 0x7f"
abbreviation (input) OP_LEFT :: opcodetype where "OP_LEFT \<equiv> 0x80"
abbreviation (input) OP_RIGHT :: opcodetype where "OP_RIGHT \<equiv> 0x81"
abbreviation (input) OP_SIZE :: opcodetype where "OP_SIZE \<equiv> 0x82"
abbreviation (input) OP_INVERT :: opcodetype where "OP_INVERT \<equiv> 0x83"
abbreviation (input) OP_AND :: opcodetype where "OP_AND \<equiv> 0x84"
abbreviation (input) OP_OR :: opcodetype where "OP_OR \<equiv> 0x85"
abbreviation (input) OP_XOR :: opcodetype where "OP_XOR \<equiv> 0x86"
abbreviation (input) OP_EQUAL :: opcodetype where "OP_EQUAL \<equiv> 0x87"
abbreviation (input) OP_EQUALVERIFY :: opcodetype where "OP_EQUALVERIFY \<equiv> 0x88"
abbreviation (input) OP_1ADD :: opcodetype where "OP_1ADD \<equiv> 0x8b"
abbreviation (input) OP_1SUB :: opcodetype where "OP_1SUB \<equiv> 0x8c"
abbreviation (input) OP_2MUL :: opcodetype where "OP_2MUL \<equiv> 0x8d"
abbreviation (input) OP_2DIV :: opcodetype where "OP_2DIV \<equiv> 0x8e"
abbreviation (input) OP_NEGATE :: opcodetype where "OP_NEGATE \<equiv> 0x8f"
abbreviation (input) OP_ABS :: opcodetype where "OP_ABS \<equiv> 0x90"
abbreviation (input) OP_NOT :: opcodetype where "OP_NOT \<equiv> 0x91"
abbreviation (input) OP_0NOTEQUAL :: opcodetype where "OP_0NOTEQUAL \<equiv> 0x92"
abbreviation (input) OP_ADD :: opcodetype where "OP_ADD \<equiv> 0x93"
abbreviation (input) OP_SUB :: opcodetype where "OP_SUB \<equiv> 0x94"
abbreviation (input) OP_MUL :: opcodetype where "OP_MUL \<equiv> 0x95"
abbreviation (input) OP_DIV :: opcodetype where "OP_DIV \<equiv> 0x96"
abbreviation (input) OP_MOD :: opcodetype where "OP_MOD \<equiv> 0x97"
abbreviation (input) OP_LSHIFT :: opcodetype where "OP_LSHIFT \<equiv> 0x98"
abbreviation (input) OP_RSHIFT :: opcodetype where "OP_RSHIFT \<equiv> 0x99"
abbreviation (input) OP_BOOLAND :: opcodetype where "OP_BOOLAND \<equiv> 0x9a"
abbreviation (input) OP_BOOLOR :: opcodetype where "OP_BOOLOR \<equiv> 0x9b"
abbreviation (input) OP_NUMEQUAL :: opcodetype where "OP_NUMEQUAL \<equiv> 0x9c"
abbreviation (input) OP_NUMEQUALVERIFY :: opcodetype where "OP_NUMEQUALVERIFY \<equiv> 0x9d"
abbreviation (input) OP_NUMNOTEQUAL :: opcodetype where "OP_NUMNOTEQUAL \<equiv> 0x9e"
abbreviation (input) OP_LESSTHAN :: opcodetype where "OP_LESSTHAN \<equiv> 0x9f"
abbreviation (input) OP_GREATERTHAN :: opcodetype where "OP_GREATERTHAN \<equiv> 0xa0"
abbreviation (input) OP_LESSTHANOREQUAL :: opcodetype where "OP_LESSTHANOREQUAL \<equiv> 0xa1"
abbreviation (input) OP_GREATERTHANOREQUAL :: opcodetype where "OP_GREATERTHANOREQUAL \<equiv> 0xa2"
abbreviation (input) OP_MIN :: opcodetype where "OP_MIN \<equiv> 0xa3"
abbreviation (input) OP_MAX :: opcodetype where "OP_MAX \<equiv> 0xa4"
abbreviation (input) OP_WITHIN :: opcodetype where "OP_WITHIN \<equiv> 0xa5"
abbreviation (input) OP_RIPEMD160 :: opcodetype where "OP_RIPEMD160 \<equiv> 0xa6"
abbreviation (input) OP_SHA1 :: opcodetype where "OP_SHA1 \<equiv> 0xa7"
abbreviation (input) OP_SHA256 :: opcodetype where "OP_SHA256 \<equiv> 0xa8"
abbreviation (input) OP_HASH160 :: opcodetype where "OP_HASH160 \<equiv> 0xa9"
abbreviation (input) OP_HASH256 :: opcodetype where "OP_HASH256 \<equiv> 0xaa"
abbreviation (input) OP_CODESEPARATOR :: opcodetype where "OP_CODESEPARATOR \<equiv> 0xab"
abbreviation (input) OP_CHECKSIG :: opcodetype where "OP_CHECKSIG \<equiv> 0xac"
abbreviation (input) OP_CHECKSIGVERIFY :: opcodetype where "OP_CHECKSIGVERIFY \<equiv> 0xad"
abbreviation (input) OP_CHECKMULTISIG :: opcodetype where "OP_CHECKMULTISIG \<equiv> 0xae"
abbreviation (input) OP_CHECKMULTISIGVERIFY :: opcodetype where "OP_CHECKMULTISIGVERIFY \<equiv> 0xaf"
abbreviation (input) OP_NOP1 :: opcodetype where "OP_NOP1 \<equiv> 0xb0"
abbreviation (input) OP_CHECKLOCKTIMEVERIFY :: opcodetype where "OP_CHECKLOCKTIMEVERIFY \<equiv> 0xb1"
abbreviation (input) OP_CHECKSEQUENCEVERIFY :: opcodetype where "OP_CHECKSEQUENCEVERIFY \<equiv> 0xb2"
abbreviation (input) OP_NOP10 :: opcodetype where "OP_NOP10 \<equiv> 0xb9"
abbreviation (input) OP_CHECKSIGADD :: opcodetype where "OP_CHECKSIGADD \<equiv> 0xba"
abbreviation (input) OP_INVALIDOPCODE :: opcodetype where "OP_INVALIDOPCODE \<equiv> 0xff"

definition MAX_SCRIPT_ELEMENT_SIZE :: nat where "MAX_SCRIPT_ELEMENT_SIZE = 520"
definition MAX_OPS_PER_SCRIPT :: nat where "MAX_OPS_PER_SCRIPT = 201"
definition MAX_PUBKEYS_PER_MULTISIG :: nat where "MAX_PUBKEYS_PER_MULTISIG = 20"
definition MAX_SCRIPT_SIZE :: nat where "MAX_SCRIPT_SIZE = 10000"
definition MAX_STACK_SIZE :: nat where "MAX_STACK_SIZE = 1000"
definition LOCKTIME_THRESHOLD :: u32 where "LOCKTIME_THRESHOLD = 500000000"
definition ANNEX_TAG :: u8 where "ANNEX_TAG = 0x50"
definition VALIDATION_WEIGHT_PER_SIGOP_PASSED :: int where "VALIDATION_WEIGHT_PER_SIGOP_PASSED = 50"
definition VALIDATION_WEIGHT_OFFSET :: int where "VALIDATION_WEIGHT_OFFSET = 50"

abbreviation (input) MAX_OPCODE :: opcodetype where "MAX_OPCODE \<equiv> OP_NOP10"

subsection \<open>Script numbers\<close>

text \<open>The stored value of a \<open>CScriptNum\<close> is an integer in the range of \<open>int64_t\<close>; \<open>None\<close> is a thrown
  \<open>scriptnum_error\<close>.\<close>

function scriptnum_bytes :: "nat \<Rightarrow> bytes" where
  "scriptnum_bytes absvalue = (if absvalue = 0 then [] else word_of_nat absvalue # scriptnum_bytes (absvalue div 256))"
  by pat_completeness auto
termination
  by (relation "measure id") auto

declare scriptnum_bytes.simps [simp del]

definition CScriptNum_serialize :: "int \<Rightarrow> bytes" where
  "CScriptNum_serialize v =
     (if v = 0 then []
      else let neg = v < 0; result = scriptnum_bytes (nat \<bar>v\<bar>)
           in if last result AND 0x80 \<noteq> 0 then result @ [if neg then 0x80 else 0]
              else if neg then butlast result @ [last result OR 0x80]
              else result)"

definition CScriptNum_set_vch :: "bytes \<Rightarrow> int" where
  "CScriptNum_set_vch bs =
     (if bs = [] then 0
      else let result = int (nat_of_le bs)
           in if last bs AND 0x80 \<noteq> 0 then - (result AND NOT (push_bit (8 * (length bs - 1)) 0x80)) else result)"

definition CScriptNum :: "bytes \<Rightarrow> bool \<Rightarrow> nat \<Rightarrow> int option" where
  "CScriptNum bs fRequireMinimal nMaxNumSize =
     (if length bs > nMaxNumSize then None
      else if fRequireMinimal \<and> length bs > 0 \<and> last bs AND 0x7F = 0 \<and>
              (length bs \<le> 1 \<or> bs ! (length bs - 2) AND 0x80 = 0) then None
      else Some (CScriptNum_set_vch bs))"

definition CScriptNum_getint :: "int \<Rightarrow> int" where
  "CScriptNum_getint v = (if v > 2 ^ 31 - 1 then 2 ^ 31 - 1 else if v < - (2 ^ 31) then - (2 ^ 31) else v)"

text \<open>The compound operators check for overflow; \<open>None\<close> is a failed assertion.\<close>

definition CScriptNum_uminus :: "int \<Rightarrow> int option" where
  "CScriptNum_uminus v = (if v \<noteq> - (2 ^ 63) then Some (- v) else None)"

definition CScriptNum_add_assign :: "int \<Rightarrow> int \<Rightarrow> int option" where
  "CScriptNum_add_assign v rhs =
     (if rhs = 0 \<or> (rhs > 0 \<and> v \<le> (2 ^ 63 - 1) - rhs) \<or> (rhs < 0 \<and> v \<ge> - (2 ^ 63) - rhs) then Some (v + rhs) else None)"

definition CScriptNum_sub_assign :: "int \<Rightarrow> int \<Rightarrow> int option" where
  "CScriptNum_sub_assign v rhs =
     (if rhs = 0 \<or> (rhs > 0 \<and> v \<ge> - (2 ^ 63) + rhs) \<or> (rhs < 0 \<and> v \<le> (2 ^ 63 - 1) + rhs) then Some (v - rhs) else None)"

subsection \<open>Decoding\<close>

text \<open>\<open>GetScriptOp\<close> on the bytes from \<open>pc\<close> to the end: the opcode, its immediate data and the bytes that follow, or
  \<open>None\<close> when it returns false.\<close>

definition GetScriptOp_size :: "opcodetype \<Rightarrow> bytes \<Rightarrow> (nat \<times> bytes) option" where
  "GetScriptOp_size opcode pc =
     (if opcode < OP_PUSHDATA1 then Some (opcode, pc)
      else if opcode = OP_PUSHDATA1 then
        (if length pc < 1 then None else Some (nat_of_le (take 1 pc), drop 1 pc))
      else if opcode = OP_PUSHDATA2 then
        (if length pc < 2 then None else Some (nat_of_le (take 2 pc), drop 2 pc))
      else
        (if length pc < 4 then None else Some (nat_of_le (take 4 pc), drop 4 pc)))"

fun GetScriptOp :: "bytes \<Rightarrow> (opcodetype \<times> bytes \<times> bytes) option" where
  "GetScriptOp [] = None"
| "GetScriptOp (b # pc) =
     (let opcode = unat b
      in if opcode \<le> OP_PUSHDATA4 then
           (case GetScriptOp_size opcode pc of
              None \<Rightarrow> None
            | Some (nSize, pc') \<Rightarrow>
                if length pc' < nSize then None
                else Some (opcode, take nSize pc', drop nSize pc'))
         else Some (opcode, [], pc))"

text \<open>Where \<open>pc\<close> is left when \<open>GetScriptOp\<close> returns false: after the bytes it has read.\<close>

fun GetScriptOp_stop :: "bytes \<Rightarrow> bytes" where
  "GetScriptOp_stop [] = []"
| "GetScriptOp_stop (b # pc) = (case GetScriptOp_size (unat b) pc of None \<Rightarrow> pc | Some (nSize, pc') \<Rightarrow> pc')"

lemma GetScriptOp_size_le: "GetScriptOp_size opcode pc = Some (n, pc') \<Longrightarrow> length pc' \<le> length pc"
  by (auto simp: GetScriptOp_size_def split: if_splits)

lemma GetScriptOp_shorter: "GetScriptOp pc = Some (opcode, data, pc') \<Longrightarrow> length pc' < length pc"
  by (cases pc) (auto simp: Let_def dest: GetScriptOp_size_le split: if_splits option.splits prod.splits)

lemma script_induct [case_names step]:
  assumes "\<And>pc. (\<And>opcode d pc'. GetScriptOp pc = Some (opcode, d, pc') \<Longrightarrow> P pc') \<Longrightarrow> P pc"
  shows "P pc"
  by (induction pc rule: length_induct) (blast intro: assms dest: GetScriptOp_shorter)

definition DecodeOP_N :: "opcodetype \<Rightarrow> nat option" where
  "DecodeOP_N opcode =
     (if opcode = OP_0 then Some 0
      else if opcode \<ge> OP_1 \<and> opcode \<le> OP_16 then Some (opcode - (OP_1 - 1)) else None)"

definition EncodeOP_N :: "int \<Rightarrow> opcodetype option" where
  "EncodeOP_N n =
     (if \<not> (n \<ge> 0 \<and> n \<le> 16) then None
      else if n = 0 then Some OP_0 else Some (OP_1 + nat n - 1))"

subsection \<open>Building\<close>

definition AppendDataSize :: "nat \<Rightarrow> bytes" where
  "AppendDataSize sz =
     (if sz < OP_PUSHDATA1 then [word_of_nat sz]
      else if sz \<le> 0xFF then [word_of_nat OP_PUSHDATA1, word_of_nat sz]
      else if sz \<le> 0xFFFF then word_of_nat OP_PUSHDATA2 # le_of_nat 2 sz
      else word_of_nat OP_PUSHDATA4 # le_of_nat 4 sz)"

definition push_data :: "script \<Rightarrow> bytes \<Rightarrow> script" where
  "push_data s b = s @ AppendDataSize (length b) @ b"

definition push_int64 :: "script \<Rightarrow> int \<Rightarrow> script" where
  "push_int64 s n =
     (if n = - 1 \<or> (n \<ge> 1 \<and> n \<le> 16) then s @ [word_of_int (n + (int OP_1 - 1))]
      else if n = 0 then s @ [word_of_nat OP_0]
      else push_data s (CScriptNum_serialize n))"

subsection \<open>Counting signature operations\<close>

definition sigop_weight :: "bool \<Rightarrow> opcodetype \<Rightarrow> opcodetype \<Rightarrow> nat" where
  "sigop_weight fAccurate lastOpcode opcode =
     (if opcode = OP_CHECKSIG \<or> opcode = OP_CHECKSIGVERIFY then 1
      else if opcode = OP_CHECKMULTISIG \<or> opcode = OP_CHECKMULTISIGVERIFY then
        (if fAccurate \<and> lastOpcode \<ge> OP_1 \<and> lastOpcode \<le> OP_16
         then the (DecodeOP_N lastOpcode) else MAX_PUBKEYS_PER_MULTISIG)
      else 0)"

function GetSigOpCount_loop :: "bool \<Rightarrow> bytes \<Rightarrow> opcodetype \<Rightarrow> nat \<Rightarrow> nat" where
  "GetSigOpCount_loop fAccurate pc lastOpcode n =
     (case GetScriptOp pc of
        None \<Rightarrow> n
      | Some (opcode, _, pc') \<Rightarrow> GetSigOpCount_loop fAccurate pc' opcode (n + sigop_weight fAccurate lastOpcode opcode))"
  by pat_completeness auto
termination
  by (relation "measure (\<lambda>(a, pc, l, n). length pc)") (auto dest: GetScriptOp_shorter)

declare GetSigOpCount_loop.simps [simp del]

definition GetSigOpCount :: "script \<Rightarrow> bool \<Rightarrow> nat" where
  "GetSigOpCount s fAccurate = GetSigOpCount_loop fAccurate s OP_INVALIDOPCODE 0"

definition IsPayToAnchor :: "script \<Rightarrow> bool" where
  "IsPayToAnchor s \<longleftrightarrow> length s = 4 \<and> s ! 0 = 0x51 \<and> s ! 1 = 0x02 \<and> s ! 2 = 0x4e \<and> s ! 3 = 0x73"

definition IsPayToAnchor_program :: "nat \<Rightarrow> bytes \<Rightarrow> bool" where
  "IsPayToAnchor_program ver program \<longleftrightarrow> ver = 1 \<and> length program = 2 \<and> program ! 0 = 0x4e \<and> program ! 1 = 0x73"

definition IsPayToScriptHash :: "script \<Rightarrow> bool" where
  "IsPayToScriptHash s \<longleftrightarrow>
     length s = 23 \<and> unat (s ! 0) = OP_HASH160 \<and> s ! 1 = 0x14 \<and> unat (s ! 22) = OP_EQUAL"

definition IsPayToWitnessScriptHash :: "script \<Rightarrow> bool" where
  "IsPayToWitnessScriptHash s \<longleftrightarrow> length s = 34 \<and> unat (s ! 0) = OP_0 \<and> s ! 1 = 0x20"

definition IsWitnessProgram :: "script \<Rightarrow> (nat \<times> bytes) option" where
  "IsWitnessProgram s =
     (if length s < 4 \<or> length s > 42 then None
      else if unat (s ! 0) \<noteq> OP_0 \<and> (unat (s ! 0) < OP_1 \<or> unat (s ! 0) > OP_16) then None
      else if unat (s ! 1) + 2 = length s then
        (case DecodeOP_N (unat (s ! 0)) of None \<Rightarrow> None | Some ver \<Rightarrow> Some (ver, drop 2 s))
      else None)"

text \<open>The last item a push-only \<open>scriptSig\<close> pushes, or \<open>None\<close> where \<open>GetSigOpCount(scriptSig)\<close> returns 0.\<close>

function last_push :: "bytes \<Rightarrow> bytes \<Rightarrow> bytes option" where
  "last_push pc vData =
     (if pc = [] then Some vData
      else case GetScriptOp pc of
             None \<Rightarrow> None
           | Some (opcode, d, pc') \<Rightarrow> if opcode > OP_16 then None else last_push pc' d)"
  by pat_completeness auto
termination
  by (relation "measure (\<lambda>(pc, d). length pc)") (auto dest: GetScriptOp_shorter)

declare last_push.simps [simp del]

definition GetSigOpCount_sig :: "script \<Rightarrow> script \<Rightarrow> nat" where
  "GetSigOpCount_sig s ssig =
     (if \<not> IsPayToScriptHash s then GetSigOpCount s True
      else (case last_push ssig [] of None \<Rightarrow> 0 | Some subscript \<Rightarrow> GetSigOpCount subscript True))"

function IsPushOnly :: "script \<Rightarrow> bool" where
  "IsPushOnly pc =
     (if pc = [] then True
      else case GetScriptOp pc of
             None \<Rightarrow> False
           | Some (opcode, _, pc') \<Rightarrow> if opcode > OP_16 then False else IsPushOnly pc')"
  by pat_completeness auto
termination
  by (relation "measure length") (auto dest: GetScriptOp_shorter)

declare IsPushOnly.simps [simp del]

function HasValidOps :: "script \<Rightarrow> bool" where
  "HasValidOps it =
     (if it = [] then True
      else case GetScriptOp it of
             None \<Rightarrow> False
           | Some (opcode, item, it') \<Rightarrow>
               if opcode > MAX_OPCODE \<or> length item > MAX_SCRIPT_ELEMENT_SIZE then False else HasValidOps it')"
  by pat_completeness auto
termination
  by (relation "measure length") (auto dest: GetScriptOp_shorter)

declare HasValidOps.simps [simp del]

definition IsUnspendable :: "script \<Rightarrow> bool" where
  "IsUnspendable s \<longleftrightarrow> (length s > 0 \<and> unat (s ! 0) = OP_RETURN) \<or> length s > MAX_SCRIPT_SIZE"

definition IsOpSuccess :: "opcodetype \<Rightarrow> bool" where
  "IsOpSuccess opcode \<longleftrightarrow>
     opcode = 80 \<or> opcode = 98 \<or> (opcode \<ge> 126 \<and> opcode \<le> 129) \<or>
     (opcode \<ge> 131 \<and> opcode \<le> 134) \<or> (opcode \<ge> 137 \<and> opcode \<le> 138) \<or>
     (opcode \<ge> 141 \<and> opcode \<le> 142) \<or> (opcode \<ge> 149 \<and> opcode \<le> 153) \<or>
     (opcode \<ge> 187 \<and> opcode \<le> 254)"

text \<open>\<open>None\<close> is the failed assertion that the opcode is a data push.\<close>

definition CheckMinimalPush :: "bytes \<Rightarrow> opcodetype \<Rightarrow> bool option" where
  "CheckMinimalPush data opcode =
     (if \<not> opcode \<le> OP_PUSHDATA4 then None
      else Some (if length data = 0 then opcode = OP_0
                 else if length data = 1 \<and> data ! 0 \<ge> 1 \<and> data ! 0 \<le> 16 then False
                 else if length data = 1 \<and> data ! 0 = 0x81 then False
                 else if length data \<le> 75 then opcode = length data
                 else if length data \<le> 255 then opcode = OP_PUSHDATA1
                 else if length data \<le> 65535 then opcode = OP_PUSHDATA2
                 else True))"

subsection \<open>Script numbers are in bijection with their minimal encodings\<close>

lemma scriptnum_bytes_0 [simp]: "scriptnum_bytes 0 = []"
  by (simp add: scriptnum_bytes.simps [of 0])

lemma scriptnum_bytes_pos: "n \<noteq> 0 \<Longrightarrow> scriptnum_bytes n = word_of_nat n # scriptnum_bytes (n div 256)"
  by (simp add: scriptnum_bytes.simps [of n])

lemma scriptnum_bytes_Nil [simp]: "scriptnum_bytes n = [] \<longleftrightarrow> n = 0"
  by (cases "n = 0") (auto simp: scriptnum_bytes_pos)

lemma nat_of_le_scriptnum_bytes [simp]: "nat_of_le (scriptnum_bytes n) = n"
proof (induction n rule: scriptnum_bytes.induct)
  case (1 n)
  then show ?case by (cases "n = 0") (auto simp: scriptnum_bytes_pos unat_of_nat_u8)
qed

lemma last_scriptnum_bytes: "n \<noteq> 0 \<Longrightarrow> last (scriptnum_bytes n) \<noteq> 0"
proof (induction n rule: scriptnum_bytes.induct)
  case (1 n)
  show ?case
  proof (cases "n div 256 = 0")
    case True
    then have "unat (word_of_nat n :: u8) = n" by (simp add: unat_of_nat_u8)
    then show ?thesis using "1.prems" True by (auto simp: scriptnum_bytes_pos)
  next
    case False
    then show ?thesis using 1 by (simp add: scriptnum_bytes_pos)
  qed
qed

lemma nat_of_le_pos: "bs \<noteq> [] \<Longrightarrow> last bs \<noteq> 0 \<Longrightarrow> nat_of_le bs \<noteq> 0"
proof (induction bs)
  case (Cons b bs)
  then show ?case by (cases "bs = []") (auto simp: unat_eq_0)
qed simp

lemma scriptnum_bytes_of_le: "bs = [] \<or> last bs \<noteq> 0 \<Longrightarrow> scriptnum_bytes (nat_of_le bs) = bs"
proof (induction bs)
  case (Cons b bs)
  have nz: "nat_of_le (b # bs) \<noteq> 0"
    using Cons.prems nat_of_le_pos [of "b # bs"] by blast
  have d: "nat_of_le (b # bs) div 256 = nat_of_le bs"
    using unat_lt_256 [of b] by simp
  have m: "word_of_nat (nat_of_le (b # bs)) = b"
    by (rule word_unat_eq_iff [THEN iffD2]) (simp add: unat_of_nat_u8 del: of_nat_add of_nat_mult)
  have "bs = [] \<or> last bs \<noteq> 0" using Cons.prems by (cases "bs = []") auto
  then show ?case using Cons.IH scriptnum_bytes_pos [OF nz] d m by simp
qed simp

lemma u8_bit7: "bit (b :: u8) 7 \<longleftrightarrow> 128 \<le> unat b"
proof -
  have "bit b 7 \<longleftrightarrow> bit (unat b) 7" by (simp add: bit_unsigned_iff)
  also have "\<dots> \<longleftrightarrow> odd (unat b div 128)" by (simp add: bit_iff_odd)
  also have "\<dots> \<longleftrightarrow> 128 \<le> unat b"
  proof (cases "128 \<le> unat b")
    case True
    then have "unat b div 128 = 1" using unat_lt_256 [of b] by linarith
    then show ?thesis using True by simp
  qed simp
  finally show ?thesis .
qed

lemma u8_and_80: "(b :: u8) AND 0x80 = 0 \<longleftrightarrow> unat b < 128"
  using and_push_bit_1 [of b 7] by (auto simp: u8_bit7)

lemma u8_and_7F: "unat ((b :: u8) AND 0x7F) = unat b mod 128"
proof -
  have "b AND 0x7F = take_bit 7 b" by (simp add: take_bit_eq_mask mask_eq_exp_minus_1)
  then show ?thesis by (simp add: unsigned_take_bit_eq take_bit_eq_mod [where 'a = nat])
qed

lemma u8_or_80: "unat (b :: u8) < 128 \<Longrightarrow> unat (b OR 0x80) = unat b + 128"
  using unat_or_push_bit [of b 7 "1 :: u8"] by (simp add: push_bit_eq_mult)

lemma u8_mod_128: "128 \<le> unat (b :: u8) \<Longrightarrow> unat b mod 128 = unat b - 128"
proof -
  assume a: "128 \<le> unat b"
  have "unat b - 128 < 128" using unat_lt_256 [of b] by linarith
  then show ?thesis using a by (simp add: le_mod_geq)
qed

lemma u8_sign_split: "unat (b :: u8) = (if b AND 0x80 = 0 then 0 else 128) + unat (b AND 0x7F)"
  using u8_mod_128 [of b] by (auto simp: u8_and_80 u8_and_7F)

lemma u8_restore: "128 \<le> unat (b :: u8) \<Longrightarrow> (b AND 0x7F) OR 0x80 = b"
proof -
  assume a: "128 \<le> unat b"
  have "unat ((b AND 0x7F) OR 0x80) = unat (b AND 0x7F) + 128" by (rule u8_or_80) (simp add: u8_and_7F)
  also have "\<dots> = unat b" using a by (simp add: u8_and_7F u8_mod_128)
  finally show ?thesis by (simp add: word_unat_eq_iff)
qed

lemma u8_clear: "unat (b :: u8) < 128 \<Longrightarrow> b AND 0x7F = b"
  by (intro word_unat_eq_iff [THEN iffD2]) (simp add: u8_and_7F)

lemma u8_or_80_clear: "unat (b :: u8) < 128 \<Longrightarrow> (b OR 0x80) AND 0x7F = b"
  by (intro word_unat_eq_iff [THEN iffD2]) (simp add: u8_or_80 u8_and_7F)

lemma nat_of_le_snoc: "nat_of_le (xs @ [b]) = nat_of_le xs + 256 ^ length xs * unat b"
  by (simp add: nat_of_le_append)

lemma CScriptNum_set_vch_Nil [simp]: "CScriptNum_set_vch [] = 0"
  by (simp add: CScriptNum_set_vch_def)

lemma CScriptNum_set_vch_snoc:
  "CScriptNum_set_vch (xs @ [b]) =
     (if b AND 0x80 \<noteq> 0 then - int (nat_of_le (xs @ [b AND 0x7F])) else int (nat_of_le (xs @ [b])))"
proof (cases "b AND 0x80 = 0")
  case True
  then show ?thesis by (simp add: CScriptNum_set_vch_def)
next
  case False
  define n where "n = length xs"
  have p: "256 ^ n = (2 :: nat) ^ (8 * n)" by (simp add: power_mult)
  have u: "unat b = 128 + unat (b AND 0x7F)" "128 \<le> unat b"
    using u8_sign_split [of b] False by (auto simp: u8_and_80)
  have v: "nat_of_le (xs @ [b]) = nat_of_le (xs @ [b AND 0x7F]) + 2 ^ (8 * n + 7)"
    by (simp add: nat_of_le_snoc u(1) n_def [symmetric] p power_add algebra_simps)
  have "nat_of_le (xs @ [b AND 0x7F]) < 2 ^ (8 * n + 7)"
  proof -
    have "nat_of_le xs < 2 ^ (8 * n)" using nat_of_le_bound [of xs] by (simp only: n_def [symmetric] p)
    moreover have "unat (b AND 0x7F) \<le> 127" using u unat_lt_256 [of b] by linarith
    then have "2 ^ (8 * n) * unat (b AND 0x7F) \<le> 2 ^ (8 * n) * 127" by (rule mult_le_mono2)
    ultimately have "nat_of_le xs + 2 ^ (8 * n) * unat (b AND 0x7F) < 2 ^ (8 * n) * 128" by linarith
    then show ?thesis by (simp add: nat_of_le_snoc n_def [symmetric] p power_add)
  qed
  moreover have "a < d \<Longrightarrow> (a + d) div d = 1" for a d :: nat by (simp add: div_nat_eqI)
  ultimately have "nat_of_le (xs @ [b]) div 2 ^ (8 * n + 7) = 1" by (simp only: v)
  then have "bit (nat_of_le (xs @ [b])) (8 * n + 7)" by (simp add: bit_iff_odd)
  then have bt: "bit (int (nat_of_le (xs @ [b]))) (8 * n + 7)" by (simp only: bit_of_nat_iff) simp
  have "int (nat_of_le (xs @ [b])) AND NOT (push_bit (8 * n) 0x80) = unset_bit (8 * n + 7) (int (nat_of_le (xs @ [b])))"
    by (simp add: unset_bit_def push_bit_eq_mult power_add mult.commute)
  also have "\<dots> = int (nat_of_le (xs @ [b])) - 2 ^ (8 * n + 7)"
    using bt by (simp only: unset_bit_eq) simp
  also have "\<dots> = int (nat_of_le (xs @ [b AND 0x7F]))" by (simp add: v)
  finally show ?thesis using False by (simp add: CScriptNum_set_vch_def n_def Let_def)
qed

lemma unat_eq_0_u8: "unat (b :: u8) = 0 \<longleftrightarrow> b = 0"
  by (rule unat_eq_0)

lemma CScriptNum_minimal_iff:
  "CScriptNum (xs @ [b]) True n =
     (if length xs < n \<and> (b AND 0x7F \<noteq> 0 \<or> xs \<noteq> [] \<and> last xs AND 0x80 \<noteq> 0)
      then Some (CScriptNum_set_vch (xs @ [b])) else None)"
proof (cases xs rule: rev_cases)
  case Nil
  then show ?thesis by (auto simp: CScriptNum_def)
next
  case (snoc ys y)
  then have "(xs @ [b]) ! (length (xs @ [b]) - 2) = y" by (simp add: nth_append)
  then show ?thesis using snoc by (auto simp: CScriptNum_def)
qed

lemma CScriptNum_serialize_0 [simp]: "CScriptNum_serialize 0 = []"
  by (simp add: CScriptNum_serialize_def)

lemma CScriptNum_serialize_signed:
  assumes "xs \<noteq> []" "last xs \<noteq> 0" "last xs AND 0x80 \<noteq> 0"
  shows "CScriptNum_serialize (- int (nat_of_le xs)) = xs @ [0x80]" "CScriptNum_serialize (int (nat_of_le xs)) = xs @ [0]"
  using assms nat_of_le_pos [of xs] by (simp_all add: CScriptNum_serialize_def scriptnum_bytes_of_le Let_def)

lemma CScriptNum_serialize_plain:
  assumes "m \<noteq> 0" "m AND 0x80 = 0"
  shows "CScriptNum_serialize (- int (nat_of_le (xs @ [m]))) = xs @ [m OR 0x80]"
    "CScriptNum_serialize (int (nat_of_le (xs @ [m]))) = xs @ [m]"
  using assms nat_of_le_pos [of "xs @ [m]"] by (simp_all add: CScriptNum_serialize_def scriptnum_bytes_of_le Let_def)

lemma CScriptNum_serialize_cases:
  assumes "v \<noteq> 0"
  obtains (signed) xs where "xs \<noteq> []" "last xs AND 0x80 \<noteq> 0" "nat \<bar>v\<bar> = nat_of_le xs"
      "CScriptNum_serialize v = xs @ [if v < 0 then 0x80 else 0]"
  | (plain) xs m where "m \<noteq> 0" "m AND 0x80 = 0" "nat \<bar>v\<bar> = nat_of_le (xs @ [m])"
      "CScriptNum_serialize v = xs @ [if v < 0 then m OR 0x80 else m]"
proof -
  define r where "r = scriptnum_bytes (nat \<bar>v\<bar>)"
  have r: "r \<noteq> []" "last r \<noteq> 0" "nat_of_le r = nat \<bar>v\<bar>"
    using assms last_scriptnum_bytes [of "nat \<bar>v\<bar>"] by (simp_all add: r_def)
  show ?thesis
  proof (cases "last r AND 0x80 = 0")
    case True
    obtain xs m where x: "r = xs @ [m]" using r(1) by (cases r rule: rev_cases) auto
    show ?thesis
      by (rule plain [of m xs]) (use r x True assms in \<open>auto simp: CScriptNum_serialize_def r_def [symmetric] Let_def\<close>)
  next
    case False
    show ?thesis
      by (rule signed [of r]) (use r False assms in \<open>auto simp: CScriptNum_serialize_def r_def [symmetric] Let_def\<close>)
  qed
qed

lemma int_abs_cases: "nat \<bar>v\<bar> = n \<Longrightarrow> v = (if v < 0 then - int n else int n)"
  by auto

lemma CScriptNum_of_serialize: "CScriptNum (CScriptNum_serialize v) True n = (if length (CScriptNum_serialize v) \<le> n then Some v else None)"
proof (cases "v = 0")
  case True
  then show ?thesis by (simp add: CScriptNum_def)
next
  case False
  then show ?thesis
  proof (cases rule: CScriptNum_serialize_cases)
    case (signed xs)
    have "int (nat_of_le (xs @ [0])) = \<bar>v\<bar>" using signed(3) by (simp add: nat_of_le_snoc)
    then show ?thesis using signed
      by (auto simp: signed(4) CScriptNum_minimal_iff CScriptNum_set_vch_snoc)
  next
    case (plain xs m)
    have m: "unat m < 128" "(m OR 0x80) AND 0x7F = m" "(m OR 0x80) AND 0x80 \<noteq> 0" "m AND 0x7F = m"
      using plain(2) by (simp_all add: u8_and_80 u8_or_80 u8_or_80_clear u8_clear)
    have "int (nat_of_le (xs @ [m])) = \<bar>v\<bar>" using plain(3) by simp
    then show ?thesis using plain m
      by (auto simp: plain(4) CScriptNum_minimal_iff CScriptNum_set_vch_snoc)
  qed
qed

lemma CScriptNum_serialize_of_minimal:
  assumes "CScriptNum bs True n = Some v"
  shows "CScriptNum_serialize v = bs"
proof (cases bs rule: rev_cases)
  case Nil
  then show ?thesis using assms by (simp add: CScriptNum_def)
next
  case (snoc xs b)
  define m where "m = b AND 0x7F"
  from assms have v: "v = CScriptNum_set_vch (xs @ [b])" and c: "m \<noteq> 0 \<or> xs \<noteq> [] \<and> last xs AND 0x80 \<noteq> 0"
    unfolding snoc m_def by (auto simp: CScriptNum_minimal_iff split: if_splits)
  have ms: "m AND 0x80 = 0" by (simp add: m_def u8_and_80 u8_and_7F)
  show ?thesis
  proof (cases "m = 0")
    case True
    have x: "xs \<noteq> []" "last xs AND 0x80 \<noteq> 0" "last xs \<noteq> 0" using c True by auto
    have e: "nat_of_le (xs @ [0]) = nat_of_le xs" by (simp add: nat_of_le_snoc)
    have b: "b = (if b AND 0x80 = 0 then 0 else 0x80)"
      using u8_sign_split [of b] True by (auto simp: m_def word_unat_eq_iff)
    show ?thesis
    proof (cases "b AND 0x80 = 0")
      case True
      then have "b = 0" using b by simp
      then show ?thesis using x e v by (simp add: snoc CScriptNum_set_vch_snoc CScriptNum_serialize_signed)
    next
      case False
      then have "b = 0x80" using b by simp
      then show ?thesis using x e v by (simp add: snoc CScriptNum_set_vch_snoc CScriptNum_serialize_signed)
    qed
  next
    case False
    show ?thesis
    proof (cases "b AND 0x80 = 0")
      case True
      then have "b = m" by (simp add: m_def u8_clear u8_and_80)
      then show ?thesis using v False ms by (simp add: snoc CScriptNum_set_vch_snoc CScriptNum_serialize_plain)
    next
      case nz: False
      then have "m OR 0x80 = b" by (simp add: m_def u8_restore u8_and_80)
      then show ?thesis using v False ms nz by (simp add: snoc CScriptNum_set_vch_snoc CScriptNum_serialize_plain m_def [symmetric])
    qed
  qed
qed

lemma CScriptNum_serialize_length_le:
  assumes "0 < n"
  shows "length (CScriptNum_serialize v) \<le> n \<longleftrightarrow> \<bar>v\<bar> < 2 ^ (8 * n - 1)"
proof (cases "v = 0")
  case True
  then show ?thesis by simp
next
  case False
  have half: "(2 :: nat) ^ (8 * n - 1) = 256 ^ (n - 1) * 128"
  proof -
    have "8 * n - 1 = 8 * (n - 1) + 7" using assms by simp
    then show ?thesis by (simp add: power_add power_mult)
  qed
  have iff: "\<bar>v\<bar> < 2 ^ (8 * n - 1) \<longleftrightarrow> nat \<bar>v\<bar> < 256 ^ (n - 1) * 128"
    unfolding half [symmetric] by (simp add: nat_less_iff)
  from False show ?thesis
  proof (cases rule: CScriptNum_serialize_cases)
    case (signed xs)
    obtain ys y where x: "xs = ys @ [y]" using signed(1) by (cases xs rule: rev_cases) auto
    have y: "128 \<le> unat y" using signed(2) x by (simp add: u8_and_80)
    show ?thesis
    proof (cases "length xs < n")
      case True
      then have "length xs \<le> n - 1" by simp
      then have "(256 :: nat) ^ length xs \<le> 256 ^ (n - 1)" by (simp add: power_increasing)
      then have "nat_of_le xs < 256 ^ (n - 1) * 128" using nat_of_le_bound [of xs] by linarith
      then show ?thesis using True signed(3,4) iff by simp
    next
      case False
      then have "n - 1 \<le> length ys" using x by simp
      then have "(256 :: nat) ^ (n - 1) \<le> 256 ^ length ys" by (rule power_increasing) simp
      then have "256 ^ (n - 1) * 128 \<le> 256 ^ length ys * unat y" using y by (rule mult_le_mono)
      then have "256 ^ (n - 1) * 128 \<le> nat_of_le xs" by (simp add: x nat_of_le_snoc)
      then show ?thesis using False signed(3,4) iff by simp
    qed
  next
    case (plain xs m)
    have m: "unat m < 128" "1 \<le> unat m" using plain(1,2) by (simp_all add: u8_and_80 Suc_le_eq unat_gt_0)
    show ?thesis
    proof (cases "length xs < n")
      case True
      then have le: "length xs \<le> n - 1" by simp
      then have "(256 :: nat) ^ length xs \<le> 256 ^ (n - 1)" by (simp add: power_increasing)
      moreover have "256 ^ length xs * unat m \<le> 256 ^ length xs * 127" using m by (intro mult_le_mono2) simp
      ultimately have "nat_of_le (xs @ [m]) < 256 ^ (n - 1) * 128"
        using nat_of_le_bound [of xs] unfolding nat_of_le_snoc by linarith
      then show ?thesis using True plain(3,4) iff by simp
    next
      case False
      then have "(256 :: nat) ^ n \<le> 256 ^ length xs" by (intro power_increasing) simp_all
      then have "256 ^ n * 1 \<le> 256 ^ length xs * unat m" using m(2) by (rule mult_le_mono)
      moreover have "(256 :: nat) ^ n = 256 ^ (n - 1) * 256" using assms by (cases n) auto
      ultimately have "256 ^ (n - 1) * 128 \<le> nat_of_le (xs @ [m])" unfolding nat_of_le_snoc by linarith
      then show ?thesis using False plain(3,4) iff by simp
    qed
  qed
qed


subsection \<open>Pushes\<close>

lemma GetScriptOp_AppendDataSize:
  assumes "length b < 2 ^ 32"
  shows "GetScriptOp (AppendDataSize (length b) @ b @ rest) = Some (unat (hd (AppendDataSize (length b))), b, rest)"
proof -
  have n2: "nat_of_le (le_of_nat 2 n) = n" if "n \<le> 0xFFFF" for n
    using that by (simp add: nat_of_le_of_nat)
  have n4: "nat_of_le (le_of_nat 4 n) = n" if "n < 2 ^ 32" for n
    using that by (simp add: nat_of_le_of_nat)
  consider "length b < OP_PUSHDATA1" | "OP_PUSHDATA1 \<le> length b" "length b \<le> 0xFF" | "0xFF < length b" "length b \<le> 0xFFFF"
    | "0xFFFF < length b" by linarith
  then show ?thesis
  proof cases
    case 1
    then show ?thesis by (simp add: AppendDataSize_def GetScriptOp_size_def unat_of_nat_u8 Let_def)
  next
    case 2
    then show ?thesis by (simp add: AppendDataSize_def GetScriptOp_size_def unat_of_nat_u8 Let_def)
  next
    case 3
    then show ?thesis by (simp add: AppendDataSize_def GetScriptOp_size_def unat_of_nat_u8 Let_def n2)
  next
    case 4
    then show ?thesis using assms by (simp add: AppendDataSize_def GetScriptOp_size_def unat_of_nat_u8 Let_def n4)
  qed
qed

lemma hd_AppendDataSize:
  "unat (hd (AppendDataSize n)) = (if n < OP_PUSHDATA1 then n else if n \<le> 0xFF then OP_PUSHDATA1 else if n \<le> 0xFFFF then OP_PUSHDATA2 else OP_PUSHDATA4)"
  by (simp add: AppendDataSize_def unat_of_nat_u8)

text \<open>reading back what \<open>operator<<\<close> appended for a vector of fewer than \<open>2^32\<close> bytes gives the vector and the rest of
  the script, with an opcode that \<open>CheckMinimalPush\<close> accepts, except for the one-byte vectors 1 to 16 and 0x81, for which
  an opcode without data exists.\<close>
theorem push_roundtrip:
  assumes "length b < 2 ^ 32"
  shows "\<exists>opcode. GetScriptOp (push_data [] b @ rest) = Some (opcode, b, rest) \<and>
           CheckMinimalPush b opcode = Some (\<not> (length b = 1 \<and> (1 \<le> b ! 0 \<and> b ! 0 \<le> 16 \<or> b ! 0 = 0x81)))"
  using GetScriptOp_AppendDataSize [OF assms, of rest]
  by (auto simp: push_data_def hd_AppendDataSize CheckMinimalPush_def)

theorem push_roundtrip_witness:
  "\<exists>opcode. GetScriptOp (push_data [] [0x2a] @ [0x51]) = Some (opcode, [0x2a], [0x51]) \<and>
     CheckMinimalPush [0x2a] opcode = Some True"
  using push_roundtrip [of "[0x2a]" "[0x51]"] by simp

subsection \<open>Signature operation counts and script templates\<close>

lemma DecodeOP_N_le: "DecodeOP_N opcode = Some n \<Longrightarrow> n \<le> 16"
  by (auto simp: DecodeOP_N_def split: if_splits)

lemma DecodeOP_N_EncodeOP_N: "0 \<le> n \<Longrightarrow> n \<le> 16 \<Longrightarrow> Option.bind (EncodeOP_N n) DecodeOP_N = Some (nat n)"
  by (auto simp: EncodeOP_N_def DecodeOP_N_def)

lemma sigop_weight_le: "sigop_weight True l opcode \<le> sigop_weight False l' opcode" "sigop_weight a l opcode \<le> 20"
  by (auto simp: sigop_weight_def MAX_PUBKEYS_PER_MULTISIG_def DecodeOP_N_def)

lemma GetSigOpCount_loop_accurate: "n \<le> n' \<Longrightarrow> GetSigOpCount_loop True pc l n \<le> GetSigOpCount_loop False pc l' n'"
proof (induction pc arbitrary: l l' n n' rule: script_induct)
  case (step pc)
  show ?case
    using step.prems by (auto simp: GetSigOpCount_loop.simps [of _ pc] split: option.split
      intro!: step.IH add_mono sigop_weight_le)
qed

lemma GetSigOpCount_loop_le: "GetSigOpCount_loop a pc l n \<le> n + 20 * length pc"
proof (induction pc arbitrary: l n rule: script_induct)
  case (step pc)
  show ?case
  proof (cases "GetScriptOp pc")
    case None
    then show ?thesis by (simp add: GetSigOpCount_loop.simps [of _ pc])
  next
    case (Some t)
    obtain opcode d pc' where t: "t = (opcode, d, pc')" by (cases t)
    have "GetSigOpCount_loop a pc' opcode (n + sigop_weight a l opcode) \<le> n + sigop_weight a l opcode + 20 * length pc'"
      using step Some t by blast
    moreover have "length pc' < length pc" using Some t by (auto dest: GetScriptOp_shorter)
    ultimately show ?thesis
      using sigop_weight_le(2) [of a l opcode] by (simp add: GetSigOpCount_loop.simps [of _ pc] Some t)
  qed
qed

lemma IsPushOnly_step: "IsPushOnly pc \<Longrightarrow> GetScriptOp pc = Some (opcode, d, pc') \<Longrightarrow> opcode \<le> OP_16 \<and> IsPushOnly pc'"
  by (auto simp: IsPushOnly.simps [of pc] split: if_splits)

lemma IsPushOnly_no_sigops: "IsPushOnly pc \<Longrightarrow> GetSigOpCount_loop a pc l n = n"
proof (induction pc arbitrary: l n rule: script_induct)
  case (step pc)
  show ?case
  proof (cases "GetScriptOp pc")
    case None
    then show ?thesis by (simp add: GetSigOpCount_loop.simps [of _ pc])
  next
    case (Some t)
    obtain opcode d pc' where t: "t = (opcode, d, pc')" by (cases t)
    have "opcode \<le> OP_16" "IsPushOnly pc'" using IsPushOnly_step step.prems Some t by blast+
    then show ?thesis using step.IH [of opcode d pc'] Some t
      by (simp add: GetSigOpCount_loop.simps [of _ pc] sigop_weight_def)
  qed
qed

lemma last_push_iff: "last_push pc d \<noteq> None \<longleftrightarrow> IsPushOnly pc"
proof (induction pc arbitrary: d rule: script_induct)
  case (step pc)
  show ?case
  proof (cases "GetScriptOp pc")
    case None
    then show ?thesis by (simp add: last_push.simps [of pc] IsPushOnly.simps [of pc])
  next
    case (Some t)
    obtain opcode d' pc' where t: "t = (opcode, d', pc')" by (cases t)
    show ?thesis using step.IH [of opcode d' pc' d'] Some t by (simp add: last_push.simps [of pc] IsPushOnly.simps [of pc])
  qed
qed

text \<open>counting a \<open>CHECKMULTISIG\<close> by its preceding key count never exceeds counting it as 20, a script of \<open>n\<close> bytes has
  at most \<open>20 n\<close> signature operations, and a push-only script has none.\<close>
theorem sigop_count_bounds:
  "GetSigOpCount s True \<le> GetSigOpCount s False \<and> GetSigOpCount s False \<le> 20 * length s \<and>
   (IsPushOnly s \<longrightarrow> GetSigOpCount s False = 0)"
  using GetSigOpCount_loop_accurate [of 0 0 s] GetSigOpCount_loop_le [of False s _ 0] IsPushOnly_no_sigops [of s]
  by (simp add: GetSigOpCount_def)

theorem sigop_count_bounds_witness:
  "IsPushOnly [0x01, 0x2a] \<and> GetSigOpCount [0x01, 0x2a] False = 0"
proof -
  have "IsPushOnly [0x01, 0x2a]"
    by (simp add: IsPushOnly.simps [of "[0x01, 0x2a]"] IsPushOnly.simps [of "[]"] GetScriptOp_size_def Let_def)
  then show ?thesis using sigop_count_bounds by blast
qed

lemma length_ge_2E: "2 \<le> length s \<Longrightarrow> (\<And>a b p. s = a # b # p \<Longrightarrow> P) \<Longrightarrow> P"
  by (cases s; cases "tl s") auto

text \<open>\<open>IsWitnessProgram\<close> recognises exactly the scripts made of one small-integer opcode and one direct push of 2 to 40
  bytes, and returns the integer and the bytes pushed.\<close>
theorem witness_program_shape:
  "IsWitnessProgram s = Some (v, p) \<longleftrightarrow>
     v \<le> 16 \<and> 2 \<le> length p \<and> length p \<le> 40 \<and>
     s = word_of_nat (the (EncodeOP_N (int v))) # word_of_nat (length p) # p"
proof
  assume a: "IsWitnessProgram s = Some (v, p)"
  then have "2 \<le> length s" by (auto simp: IsWitnessProgram_def split: if_splits)
  then obtain x y q where s: "s = x # y # q" by (rule length_ge_2E)
  have l: "unat y = length p" "p = q" "2 \<le> length p" "length p \<le> 40" and d: "DecodeOP_N (unat x) = Some v"
    using a by (auto simp: IsWitnessProgram_def s split: if_splits option.splits)
  have "y = word_of_nat (length p)" using l(1,4) by (simp add: word_unat_eq_iff unat_of_nat_u8)
  moreover have "x = word_of_nat (the (EncodeOP_N (int v)))"
    using d by (auto simp: DecodeOP_N_def EncodeOP_N_def word_unat_eq_iff unat_of_nat_u8 split: if_splits)
  ultimately show "v \<le> 16 \<and> 2 \<le> length p \<and> length p \<le> 40 \<and> s = word_of_nat (the (EncodeOP_N (int v))) # word_of_nat (length p) # p"
    using l s d DecodeOP_N_le by auto
next
  assume a: "v \<le> 16 \<and> 2 \<le> length p \<and> length p \<le> 40 \<and> s = word_of_nat (the (EncodeOP_N (int v))) # word_of_nat (length p) # p"
  then show "IsWitnessProgram s = Some (v, p)"
    by (auto simp: IsWitnessProgram_def EncodeOP_N_def DecodeOP_N_def unat_of_nat_u8)
qed

lemma IsPayToWitnessScriptHash_program: "IsPayToWitnessScriptHash s \<longleftrightarrow> (\<exists>p. length p = 32 \<and> IsWitnessProgram s = Some (0, p))"
  by (auto simp: IsPayToWitnessScriptHash_def IsWitnessProgram_def DecodeOP_N_def word_unat_eq_iff split: if_splits option.splits)

end
