(* ===== verification/PubKey.thy ===== *)
theory PubKey
  imports Hashing Script
begin

text \<open>
  Model of \<open>src/bitcoin/src/pubkey.h\<close> and \<open>pubkey.cpp\<close>: the syntax of public keys, the lax DER parser and the verification entry points.
  The curve arithmetic of libsecp256k1 is the record \<open>secp256k1\<close> of parameters; its opaque structures are their bytes.
\<close>

record secp256k1 =
  secp256k1_ec_pubkey_parse :: "bytes \<Rightarrow> bytes option"
  secp256k1_ecdsa_signature_parse_compact :: "bytes \<Rightarrow> bool \<times> bytes"
  secp256k1_ecdsa_signature_normalize :: "bytes \<Rightarrow> bool \<times> bytes"
  secp256k1_ecdsa_verify :: "bytes \<Rightarrow> bytes \<Rightarrow> bytes \<Rightarrow> bool"
  secp256k1_xonly_pubkey_parse :: "bytes \<Rightarrow> bytes option"
  secp256k1_schnorrsig_verify :: "bytes \<Rightarrow> bytes \<Rightarrow> bytes \<Rightarrow> bool"
  secp256k1_xonly_pubkey_tweak_add_check :: "bytes \<Rightarrow> bool \<Rightarrow> bytes \<Rightarrow> bytes \<Rightarrow> bool"

definition CPubKey_SIZE :: nat where "CPubKey_SIZE = 65"
definition CPubKey_COMPRESSED_SIZE :: nat where "CPubKey_COMPRESSED_SIZE = 33"

definition CPubKey_GetLen :: "u8 \<Rightarrow> nat" where
  "CPubKey_GetLen chHeader =
     (if chHeader = 2 \<or> chHeader = 3 then CPubKey_COMPRESSED_SIZE
      else if chHeader = 4 \<or> chHeader = 6 \<or> chHeader = 7 then CPubKey_SIZE else 0)"

definition CPubKey_ValidSize :: "bytes \<Rightarrow> bool" where
  "CPubKey_ValidSize v \<longleftrightarrow> length v > 0 \<and> CPubKey_GetLen (v ! 0) = length v"

text \<open>A key object holds the bytes it was set from, or the single header byte 0xFF of an invalid key.\<close>

definition CPubKey_Set :: "bytes \<Rightarrow> bytes" where
  "CPubKey_Set v =
     (let len = (if v = [] then 0 else CPubKey_GetLen (v ! 0))
      in if len \<noteq> 0 \<and> len = length v then v else [0xFF])"

definition CPubKey_size :: "bytes \<Rightarrow> nat" where
  "CPubKey_size k = CPubKey_GetLen (k ! 0)"

definition CPubKey_IsValid :: "bytes \<Rightarrow> bool" where
  "CPubKey_IsValid k \<longleftrightarrow> CPubKey_size k > 0"

definition CPubKey_IsValidNonHybrid :: "bytes \<Rightarrow> bool" where
  "CPubKey_IsValidNonHybrid k \<longleftrightarrow> CPubKey_size k > 0 \<and> (k ! 0 = 0x02 \<or> k ! 0 = 0x03 \<or> k ! 0 = 0x04)"

definition CPubKey_IsCompressed :: "bytes \<Rightarrow> bool" where
  "CPubKey_IsCompressed k \<longleftrightarrow> CPubKey_size k = CPubKey_COMPRESSED_SIZE"

definition CPubKey_Serialize :: "bytes \<Rightarrow> bytes" where
  "CPubKey_Serialize k = (let len = CPubKey_size k in WriteCompactSize (word_of_nat len) @ take len k)"

definition CPubKey_GetID :: "hash_functions \<Rightarrow> bytes \<Rightarrow> bytes" where
  "CPubKey_GetID F k = CHash160 F (take (CPubKey_size k) k)"

subsection \<open>The lax DER parser\<close>

text \<open>The input from the current position on; \<open>None\<close> is the return value 0.\<close>

fun der_skip_zeros :: "nat \<Rightarrow> bytes \<Rightarrow> nat \<times> bytes" where
  "der_skip_zeros (Suc lenbyte) (b # input) = (if b = 0 then der_skip_zeros lenbyte input else (Suc lenbyte, b # input))"
| "der_skip_zeros lenbyte input = (lenbyte, input)"

definition der_sequence :: "bytes \<Rightarrow> bytes option" where
  "der_sequence input =
     (case input of
        tag # lenbyte # rest \<Rightarrow>
          if tag \<noteq> 0x30 then None
          else if lenbyte AND 0x80 \<noteq> 0 then
            (if unat lenbyte - 0x80 > length rest then None else Some (drop (unat lenbyte - 0x80) rest))
          else Some rest
      | _ \<Rightarrow> None)"

definition der_length :: "u8 \<Rightarrow> bytes \<Rightarrow> (nat \<times> bytes) option" where
  "der_length lenbyte input =
     (if lenbyte AND 0x80 \<noteq> 0 then
        (if unat lenbyte - 0x80 > length input then None
         else let (n, input) = der_skip_zeros (unat lenbyte - 0x80) input
              in if n \<ge> 4 then None else Some (nat_of_be (take n input), drop n input))
      else Some (unat lenbyte, input))"

definition der_integer :: "bytes \<Rightarrow> (bytes \<times> bytes) option" where
  "der_integer input =
     (case input of
        tag # lenbyte # rest \<Rightarrow>
          if tag \<noteq> 0x02 then None
          else (case der_length lenbyte rest of
                  None \<Rightarrow> None
                | Some (rlen, rest) \<Rightarrow> if rlen > length rest then None else Some (take rlen rest, drop rlen rest))
      | _ \<Rightarrow> None)"

text \<open>One half of \<open>tmpsig\<close>: the value without its leading zeros, or \<open>None\<close> when it overflows 32 bytes.\<close>

definition der_half :: "bytes \<Rightarrow> bytes option" where
  "der_half v = (let w = dropWhile (\<lambda>b. b = 0) v in if length w > 32 then None else Some (replicate (32 - length w) 0 @ w))"

definition der_lax_compact :: "bytes \<Rightarrow> bytes option option" where
  "der_lax_compact input =
     Option.bind (der_sequence input) (\<lambda>rest.
     Option.bind (der_integer rest) (\<lambda>(r, rest).
     Option.bind (der_integer rest) (\<lambda>(s, _).
       Some (case (der_half r, der_half s) of (Some r', Some s') \<Rightarrow> Some (r' @ s') | _ \<Rightarrow> None))))"

definition ecdsa_signature_parse_der_lax :: "secp256k1 \<Rightarrow> bytes \<Rightarrow> bytes option" where
  "ecdsa_signature_parse_der_lax E input =
     (let zero = snd (secp256k1_ecdsa_signature_parse_compact E (replicate 64 0))
      in case der_lax_compact input of
           None \<Rightarrow> None
         | Some None \<Rightarrow> Some zero
         | Some (Some tmpsig) \<Rightarrow>
             (let (ok, sig) = secp256k1_ecdsa_signature_parse_compact E tmpsig in Some (if ok then sig else zero)))"

subsection \<open>Verification\<close>

definition CPubKey_Verify :: "secp256k1 \<Rightarrow> bytes \<Rightarrow> uint256 \<Rightarrow> bytes \<Rightarrow> bool" where
  "CPubKey_Verify E k hash vchSig =
     (if \<not> CPubKey_IsValid k then False
      else case secp256k1_ec_pubkey_parse E (take (CPubKey_size k) k) of
             None \<Rightarrow> False
           | Some pubkey \<Rightarrow>
               (case ecdsa_signature_parse_der_lax E vchSig of
                  None \<Rightarrow> False
                | Some sig \<Rightarrow>
                    secp256k1_ecdsa_verify E (snd (secp256k1_ecdsa_signature_normalize E sig)) (ser_uint256 hash) pubkey))"

definition CheckLowS :: "secp256k1 \<Rightarrow> bytes \<Rightarrow> bool" where
  "CheckLowS E vchSig =
     (case ecdsa_signature_parse_der_lax E vchSig of
        None \<Rightarrow> False
      | Some sig \<Rightarrow> \<not> fst (secp256k1_ecdsa_signature_normalize E sig))"

text \<open>\<open>None\<close> is the failed assertion on the signature size.\<close>

definition VerifySchnorr :: "secp256k1 \<Rightarrow> bytes \<Rightarrow> uint256 \<Rightarrow> bytes \<Rightarrow> bool option" where
  "VerifySchnorr E keydata msg sigbytes =
     (if length sigbytes \<noteq> 64 then None
      else case secp256k1_xonly_pubkey_parse E keydata of
             None \<Rightarrow> Some False
           | Some pubkey \<Rightarrow> Some (secp256k1_schnorrsig_verify E sigbytes (ser_uint256 msg) pubkey))"

definition HASHER_TAPTWEAK :: "hash_functions \<Rightarrow> bytes" where
  "HASHER_TAPTWEAK F = TaggedHash F (ascii ''TapTweak'')"

definition ComputeTapTweakHash :: "hash_functions \<Rightarrow> bytes \<Rightarrow> uint256 option \<Rightarrow> uint256" where
  "ComputeTapTweakHash F keydata merkle_root =
     (case merkle_root of
        None \<Rightarrow> HashWriter_GetSHA256 F (HASHER_TAPTWEAK F @ keydata)
      | Some root \<Rightarrow> HashWriter_GetSHA256 F (HASHER_TAPTWEAK F @ keydata @ ser_uint256 root))"

definition CheckTapTweak :: "hash_functions \<Rightarrow> secp256k1 \<Rightarrow> bytes \<Rightarrow> bytes \<Rightarrow> uint256 \<Rightarrow> bool \<Rightarrow> bool" where
  "CheckTapTweak F E q internal merkle_root parity =
     (case secp256k1_xonly_pubkey_parse E internal of
        None \<Rightarrow> False
      | Some internal_key \<Rightarrow>
          secp256k1_xonly_pubkey_tweak_add_check E q parity internal_key
            (ser_uint256 (ComputeTapTweakHash F internal (Some merkle_root))))"

subsection \<open>Values of the parsed halves\<close>

lemma nat_of_be_Cons: "nat_of_be (b # bs) = unat b * 256 ^ length bs + nat_of_be bs"
  by (simp add: nat_of_be_def nat_of_le_append)

lemma nat_of_be_Nil [simp]: "nat_of_be [] = 0"
  by (simp add: nat_of_be_def)

lemma nat_of_be_bound: "nat_of_be bs < 256 ^ length bs"
  using nat_of_le_bound [of "rev bs"] by (simp add: nat_of_be_def)

lemma nat_of_be_dropWhile [simp]: "nat_of_be (dropWhile (\<lambda>b. b = 0) bs) = nat_of_be bs"
  by (induction bs) (auto simp: nat_of_be_Cons)

lemma nat_of_be_replicate [simp]: "nat_of_be (replicate n 0 @ bs) = nat_of_be bs"
  by (induction n) (auto simp: nat_of_be_Cons)

lemma der_half_eq: "der_half v = (if nat_of_be v < 2 ^ 256 then Some (be_of_nat 32 (nat_of_be v)) else None)"
proof -
  define w where "w = dropWhile (\<lambda>b. b = 0) v"
  have v: "nat_of_be v = nat_of_be w" by (simp add: w_def)
  have p: "(2 :: nat) ^ 256 = 256 ^ 32" by simp
  show ?thesis
  proof (cases "length w > 32")
    case True
    then obtain b bs where w: "w = b # bs" by (cases w) auto
    then have "b \<noteq> 0" using hd_dropWhile [of "\<lambda>b. b = 0" v] w_def by (metis list.distinct(1) list.sel(1))
    then have "1 \<le> unat b" by (simp add: Suc_le_eq unat_gt_0)
    moreover have "(256 :: nat) ^ 32 \<le> 256 ^ length bs" using True w by (intro power_increasing) auto
    ultimately have "1 * 256 ^ 32 \<le> unat b * 256 ^ length bs" by (rule mult_le_mono)
    then have "2 ^ 256 \<le> nat_of_be w" unfolding p w nat_of_be_Cons by linarith
    then show ?thesis using True by (simp add: der_half_def w_def [symmetric] v)
  next
    case False
    then have "(256 :: nat) ^ length w \<le> 256 ^ 32" by (intro power_increasing) auto
    then have "nat_of_be w < 2 ^ 256" unfolding p using nat_of_be_bound [of w] by linarith
    moreover have "be_of_nat 32 (nat_of_be (replicate (32 - length w) 0 @ w)) = replicate (32 - length w) 0 @ w"
      using False by (intro be_of_nat_of_be) simp
    ultimately show ?thesis using False by (simp add: der_half_def w_def [symmetric] v)
  qed
qed

text \<open>A short-form length is the length itself.\<close>

lemma der_integer_short:
  assumes "length x < 128"
  shows "der_integer (0x02 # word_of_nat (length x) # x @ rest) = Some (x, rest)"
proof -
  have "unat (word_of_nat (length x) :: u8) = length x" using assms by (simp add: unat_of_nat_u8)
  then show ?thesis using assms by (simp add: der_integer_def der_length_def u8_and_80)
qed

lemma der_sequence_short: "n < 128 \<Longrightarrow> der_sequence (0x30 # word_of_nat n # rest) = Some rest"
  by (simp add: der_sequence_def u8_and_80 unat_of_nat_u8)

lemma der_lax_compact_strict:
  assumes "length r + length s < 100"
  shows "der_lax_compact (0x30 # word_of_nat (length r + length s + 4) # (0x02 # word_of_nat (length r) # r @ (0x02 # word_of_nat (length s) # s))) =
    Some (if nat_of_be r < 2 ^ 256 \<and> nat_of_be s < 2 ^ 256 then Some (be_of_nat 32 (nat_of_be r) @ be_of_nat 32 (nat_of_be s)) else None)"
proof -
  have "der_integer (0x02 # word_of_nat (length r) # r @ (0x02 # word_of_nat (length s) # s)) = Some (r, 0x02 # word_of_nat (length s) # s)"
    using assms by (intro der_integer_short) simp
  moreover have "der_integer (0x02 # word_of_nat (length s) # s) = Some (s, [])"
    using assms der_integer_short [of s "[]"] by simp
  moreover have "der_sequence (0x30 # word_of_nat (length r + length s + 4) # rest) = Some rest" for rest
    using assms by (intro der_sequence_short) simp
  ultimately show ?thesis by (simp add: der_lax_compact_def der_half_eq del: of_nat_add)
qed

end
