(* ===== verification/Interpreter.thy ===== *)
theory Interpreter
  imports PubKey
begin

text \<open>
  Model of the script interpreter, \<open>src/bitcoin/src/script/interpreter.h\<close> and \<open>interpreter.cpp\<close> up to \<open>EvalScript\<close>: signature and key encodings,
  the condition stack, one definition per opcode group, and the evaluation loop. The stack vectors are listed from
  their end, so the top element comes first. A virtual signature checker is a record of functions.
\<close>

subsection \<open>Errors and outcomes\<close>

datatype (plugins only: code) ScriptError =
    SCRIPT_ERR_OK
  | SCRIPT_ERR_UNKNOWN_ERROR
  | SCRIPT_ERR_EVAL_FALSE
  | SCRIPT_ERR_OP_RETURN
  | SCRIPT_ERR_SCRIPT_SIZE
  | SCRIPT_ERR_PUSH_SIZE
  | SCRIPT_ERR_OP_COUNT
  | SCRIPT_ERR_STACK_SIZE
  | SCRIPT_ERR_SIG_COUNT
  | SCRIPT_ERR_PUBKEY_COUNT
  | SCRIPT_ERR_VERIFY
  | SCRIPT_ERR_EQUALVERIFY
  | SCRIPT_ERR_CHECKMULTISIGVERIFY
  | SCRIPT_ERR_CHECKSIGVERIFY
  | SCRIPT_ERR_NUMEQUALVERIFY
  | SCRIPT_ERR_BAD_OPCODE
  | SCRIPT_ERR_DISABLED_OPCODE
  | SCRIPT_ERR_INVALID_STACK_OPERATION
  | SCRIPT_ERR_INVALID_ALTSTACK_OPERATION
  | SCRIPT_ERR_UNBALANCED_CONDITIONAL
  | SCRIPT_ERR_NEGATIVE_LOCKTIME
  | SCRIPT_ERR_UNSATISFIED_LOCKTIME
  | SCRIPT_ERR_SIG_HASHTYPE
  | SCRIPT_ERR_SIG_DER
  | SCRIPT_ERR_MINIMALDATA
  | SCRIPT_ERR_SIG_PUSHONLY
  | SCRIPT_ERR_SIG_HIGH_S
  | SCRIPT_ERR_SIG_NULLDUMMY
  | SCRIPT_ERR_PUBKEYTYPE
  | SCRIPT_ERR_CLEANSTACK
  | SCRIPT_ERR_MINIMALIF
  | SCRIPT_ERR_SIG_NULLFAIL
  | SCRIPT_ERR_DISCOURAGE_UPGRADABLE_NOPS
  | SCRIPT_ERR_DISCOURAGE_UPGRADABLE_WITNESS_PROGRAM
  | SCRIPT_ERR_DISCOURAGE_UPGRADABLE_TAPROOT_VERSION
  | SCRIPT_ERR_DISCOURAGE_OP_SUCCESS
  | SCRIPT_ERR_DISCOURAGE_UPGRADABLE_PUBKEYTYPE
  | SCRIPT_ERR_WITNESS_PROGRAM_WRONG_LENGTH
  | SCRIPT_ERR_WITNESS_PROGRAM_WITNESS_EMPTY
  | SCRIPT_ERR_WITNESS_PROGRAM_MISMATCH
  | SCRIPT_ERR_WITNESS_MALLEATED
  | SCRIPT_ERR_WITNESS_MALLEATED_P2SH
  | SCRIPT_ERR_WITNESS_UNEXPECTED
  | SCRIPT_ERR_WITNESS_PUBKEYTYPE
  | SCRIPT_ERR_SCHNORR_SIG_SIZE
  | SCRIPT_ERR_SCHNORR_SIG_HASHTYPE
  | SCRIPT_ERR_SCHNORR_SIG
  | SCRIPT_ERR_TAPROOT_WRONG_CONTROL_SIZE
  | SCRIPT_ERR_TAPSCRIPT_VALIDATION_WEIGHT
  | SCRIPT_ERR_TAPSCRIPT_CHECKMULTISIG
  | SCRIPT_ERR_TAPSCRIPT_MINIMALIF
  | SCRIPT_ERR_OP_CODESEPARATOR
  | SCRIPT_ERR_SIG_FINDANDDELETE

text \<open>A call returns a value, returns false with an error code, or aborts at a failed assertion. An exception thrown
  while a script is evaluated is caught by \<open>EvalScript\<close> and is \<open>Fail SCRIPT_ERR_UNKNOWN_ERROR\<close>.\<close>

datatype 'a outcome = Ret 'a | Fail ScriptError | Abort

primrec obind :: "'a outcome \<Rightarrow> ('a \<Rightarrow> 'b outcome) \<Rightarrow> 'b outcome" where
  "obind (Ret x) f = f x"
| "obind (Fail e) f = Fail e"
| "obind Abort f = Abort"

definition assert_that :: "bool \<Rightarrow> 'a outcome \<Rightarrow> 'a outcome" where
  "assert_that b k = (if b then k else Abort)"

subsection \<open>Flags\<close>

definition SIGHASH_ALL :: u32 where "SIGHASH_ALL = 1"
definition SIGHASH_NONE :: u32 where "SIGHASH_NONE = 2"
definition SIGHASH_SINGLE :: u32 where "SIGHASH_SINGLE = 3"
definition SIGHASH_ANYONECANPAY :: u32 where "SIGHASH_ANYONECANPAY = 0x80"
definition SIGHASH_DEFAULT :: u32 where "SIGHASH_DEFAULT = 0"
definition SIGHASH_OUTPUT_MASK :: u32 where "SIGHASH_OUTPUT_MASK = 3"
definition SIGHASH_INPUT_MASK :: u32 where "SIGHASH_INPUT_MASK = 0x80"
definition SCRIPT_VERIFY_P2SH :: u32 where "SCRIPT_VERIFY_P2SH = 0x1"
definition SCRIPT_VERIFY_STRICTENC :: u32 where "SCRIPT_VERIFY_STRICTENC = 0x2"
definition SCRIPT_VERIFY_DERSIG :: u32 where "SCRIPT_VERIFY_DERSIG = 0x4"
definition SCRIPT_VERIFY_LOW_S :: u32 where "SCRIPT_VERIFY_LOW_S = 0x8"
definition SCRIPT_VERIFY_NULLDUMMY :: u32 where "SCRIPT_VERIFY_NULLDUMMY = 0x10"
definition SCRIPT_VERIFY_SIGPUSHONLY :: u32 where "SCRIPT_VERIFY_SIGPUSHONLY = 0x20"
definition SCRIPT_VERIFY_MINIMALDATA :: u32 where "SCRIPT_VERIFY_MINIMALDATA = 0x40"
definition SCRIPT_VERIFY_DISCOURAGE_UPGRADABLE_NOPS :: u32 where "SCRIPT_VERIFY_DISCOURAGE_UPGRADABLE_NOPS = 0x80"
definition SCRIPT_VERIFY_CLEANSTACK :: u32 where "SCRIPT_VERIFY_CLEANSTACK = 0x100"
definition SCRIPT_VERIFY_CHECKLOCKTIMEVERIFY :: u32 where "SCRIPT_VERIFY_CHECKLOCKTIMEVERIFY = 0x200"
definition SCRIPT_VERIFY_CHECKSEQUENCEVERIFY :: u32 where "SCRIPT_VERIFY_CHECKSEQUENCEVERIFY = 0x400"
definition SCRIPT_VERIFY_WITNESS :: u32 where "SCRIPT_VERIFY_WITNESS = 0x800"
definition SCRIPT_VERIFY_DISCOURAGE_UPGRADABLE_WITNESS_PROGRAM :: u32 where "SCRIPT_VERIFY_DISCOURAGE_UPGRADABLE_WITNESS_PROGRAM = 0x1000"
definition SCRIPT_VERIFY_MINIMALIF :: u32 where "SCRIPT_VERIFY_MINIMALIF = 0x2000"
definition SCRIPT_VERIFY_NULLFAIL :: u32 where "SCRIPT_VERIFY_NULLFAIL = 0x4000"
definition SCRIPT_VERIFY_WITNESS_PUBKEYTYPE :: u32 where "SCRIPT_VERIFY_WITNESS_PUBKEYTYPE = 0x8000"
definition SCRIPT_VERIFY_CONST_SCRIPTCODE :: u32 where "SCRIPT_VERIFY_CONST_SCRIPTCODE = 0x10000"
definition SCRIPT_VERIFY_TAPROOT :: u32 where "SCRIPT_VERIFY_TAPROOT = 0x20000"
definition SCRIPT_VERIFY_DISCOURAGE_UPGRADABLE_TAPROOT_VERSION :: u32 where "SCRIPT_VERIFY_DISCOURAGE_UPGRADABLE_TAPROOT_VERSION = 0x40000"
definition SCRIPT_VERIFY_DISCOURAGE_OP_SUCCESS :: u32 where "SCRIPT_VERIFY_DISCOURAGE_OP_SUCCESS = 0x80000"
definition SCRIPT_VERIFY_DISCOURAGE_UPGRADABLE_PUBKEYTYPE :: u32 where "SCRIPT_VERIFY_DISCOURAGE_UPGRADABLE_PUBKEYTYPE = 0x100000"

subsection \<open>Execution data and the signature checker\<close>

datatype SigVersion = BASE | WITNESS_V0 | TAPROOT | TAPSCRIPT

record ScriptExecutionData =
  m_tapleaf_hash_init :: bool
  m_tapleaf_hash :: uint256
  m_codeseparator_pos_init :: bool
  m_codeseparator_pos :: u32
  m_annex_init :: bool
  m_annex_present :: bool
  m_annex_hash :: uint256
  m_validation_weight_left_init :: bool
  m_validation_weight_left :: int
  m_output_hash :: "uint256 option"

text \<open>The default constructor; the fields the code leaves unset are 0.\<close>

definition ScriptExecutionData_new :: ScriptExecutionData where
  "ScriptExecutionData_new =
     \<lparr>m_tapleaf_hash_init = False, m_tapleaf_hash = 0, m_codeseparator_pos_init = False, m_codeseparator_pos = 0,
      m_annex_init = False, m_annex_present = False, m_annex_hash = 0,
      m_validation_weight_left_init = False, m_validation_weight_left = 0, m_output_hash = None\<rparr>"

text \<open>The virtual functions of \<open>BaseSignatureChecker\<close>. A Schnorr check gets the error code stored so far, which it leaves in
  place when it returns false without setting one; \<open>None\<close> and \<open>Abort\<close> are failed assertions.\<close>

record SignatureChecker =
  CheckECDSASignature :: "bytes \<Rightarrow> bytes \<Rightarrow> script \<Rightarrow> SigVersion \<Rightarrow> bool option"
  CheckSchnorrSignature :: "bytes \<Rightarrow> bytes \<Rightarrow> SigVersion \<Rightarrow> ScriptExecutionData \<Rightarrow> ScriptError \<Rightarrow> ScriptExecutionData outcome"
  CheckLockTime :: "int \<Rightarrow> bool"
  CheckSequence :: "int \<Rightarrow> bool"

definition BaseSignatureChecker :: SignatureChecker where
  "BaseSignatureChecker =
     \<lparr>CheckECDSASignature = (\<lambda>_ _ _ _. Some False), CheckSchnorrSignature = (\<lambda>_ _ _ _ serror. Fail serror),
      CheckLockTime = (\<lambda>_. False), CheckSequence = (\<lambda>_. False)\<rparr>"

definition DeferringSignatureChecker :: "SignatureChecker \<Rightarrow> SignatureChecker" where
  "DeferringSignatureChecker m_checker =
     \<lparr>CheckECDSASignature = CheckECDSASignature m_checker, CheckSchnorrSignature = CheckSchnorrSignature m_checker,
      CheckLockTime = CheckLockTime m_checker, CheckSequence = CheckSequence m_checker\<rparr>"

text \<open>What stays fixed while a script is evaluated.\<close>

record eval_env =
  hashes :: hash_functions
  secp :: secp256k1
  flags :: u32
  checker :: SignatureChecker
  sigversion :: SigVersion

definition flag_set :: "u32 \<Rightarrow> u32 \<Rightarrow> bool" where
  "flag_set fl f \<longleftrightarrow> fl AND f \<noteq> 0"

abbreviation has :: "eval_env \<Rightarrow> u32 \<Rightarrow> bool" where
  "has env f \<equiv> flag_set (flags env) f"

subsection \<open>Signature and key encodings\<close>

fun CastToBool :: "bytes \<Rightarrow> bool" where
  "CastToBool [] \<longleftrightarrow> False"
| "CastToBool (b # bs) \<longleftrightarrow> (if b \<noteq> 0 then \<not> (bs = [] \<and> b = 0x80) else CastToBool bs)"

definition IsCompressedOrUncompressedPubKey :: "bytes \<Rightarrow> bool" where
  "IsCompressedOrUncompressedPubKey vchPubKey =
     (if length vchPubKey < CPubKey_COMPRESSED_SIZE then False
      else if vchPubKey ! 0 = 0x04 then length vchPubKey = CPubKey_SIZE
      else if vchPubKey ! 0 = 0x02 \<or> vchPubKey ! 0 = 0x03 then length vchPubKey = CPubKey_COMPRESSED_SIZE
      else False)"

definition IsCompressedPubKey :: "bytes \<Rightarrow> bool" where
  "IsCompressedPubKey vchPubKey =
     (if length vchPubKey \<noteq> CPubKey_COMPRESSED_SIZE then False
      else if vchPubKey ! 0 \<noteq> 0x02 \<and> vchPubKey ! 0 \<noteq> 0x03 then False else True)"

definition IsValidSignatureEncoding :: "bytes \<Rightarrow> bool" where
  "IsValidSignatureEncoding sig =
     (if length sig < 9 then False
      else if length sig > 73 then False
      else if sig ! 0 \<noteq> 0x30 then False
      else if unat (sig ! 1) \<noteq> length sig - 3 then False
      else let lenR = unat (sig ! 3)
      in if 5 + lenR \<ge> length sig then False
      else let lenS = unat (sig ! (5 + lenR))
      in if lenR + lenS + 7 \<noteq> length sig then False
      else if sig ! 2 \<noteq> 0x02 then False
      else if lenR = 0 then False
      else if sig ! 4 AND 0x80 \<noteq> 0 then False
      else if lenR > 1 \<and> sig ! 4 = 0 \<and> sig ! 5 AND 0x80 = 0 then False
      else if sig ! (lenR + 4) \<noteq> 0x02 then False
      else if lenS = 0 then False
      else if sig ! (lenR + 6) AND 0x80 \<noteq> 0 then False
      else if lenS > 1 \<and> sig ! (lenR + 6) = 0 \<and> sig ! (lenR + 7) AND 0x80 = 0 then False
      else True)"

definition IsLowDERSignature :: "secp256k1 \<Rightarrow> bytes \<Rightarrow> unit outcome" where
  "IsLowDERSignature E vchSig =
     (if \<not> IsValidSignatureEncoding vchSig then Fail SCRIPT_ERR_SIG_DER
      else if \<not> CheckLowS E (take (length vchSig - 1) vchSig) then Fail SCRIPT_ERR_SIG_HIGH_S
      else Ret ())"

definition IsDefinedHashtypeSignature :: "bytes \<Rightarrow> bool" where
  "IsDefinedHashtypeSignature vchSig =
     (if length vchSig = 0 then False
      else let nHashType = last vchSig AND NOT (ucast SIGHASH_ANYONECANPAY)
           in \<not> (nHashType < ucast SIGHASH_ALL \<or> nHashType > ucast SIGHASH_SINGLE))"

definition CheckSignatureEncoding :: "secp256k1 \<Rightarrow> bytes \<Rightarrow> u32 \<Rightarrow> unit outcome" where
  "CheckSignatureEncoding E vchSig fl =
     (if length vchSig = 0 then Ret ()
      else if fl AND (SCRIPT_VERIFY_DERSIG OR SCRIPT_VERIFY_LOW_S OR SCRIPT_VERIFY_STRICTENC) \<noteq> 0 \<and> \<not> IsValidSignatureEncoding vchSig
        then Fail SCRIPT_ERR_SIG_DER
      else case (if flag_set fl SCRIPT_VERIFY_LOW_S then IsLowDERSignature E vchSig else Ret ()) of
             Ret _ \<Rightarrow> if flag_set fl SCRIPT_VERIFY_STRICTENC \<and> \<not> IsDefinedHashtypeSignature vchSig
                        then Fail SCRIPT_ERR_SIG_HASHTYPE else Ret ()
           | e \<Rightarrow> e)"

definition CheckPubKeyEncoding :: "bytes \<Rightarrow> u32 \<Rightarrow> SigVersion \<Rightarrow> unit outcome" where
  "CheckPubKeyEncoding vchPubKey fl sv =
     (if flag_set fl SCRIPT_VERIFY_STRICTENC \<and> \<not> IsCompressedOrUncompressedPubKey vchPubKey then Fail SCRIPT_ERR_PUBKEYTYPE
      else if flag_set fl SCRIPT_VERIFY_WITNESS_PUBKEYTYPE \<and> sv = WITNESS_V0 \<and> \<not> IsCompressedPubKey vchPubKey
        then Fail SCRIPT_ERR_WITNESS_PUBKEYTYPE
      else Ret ())"

subsection \<open>FindAndDelete\<close>

function fad_skip :: "bytes \<Rightarrow> bytes \<Rightarrow> bytes \<times> nat" where
  "fad_skip b pc =
     (if b \<noteq> [] \<and> length pc \<ge> length b \<and> take (length b) pc = b
      then let (pc', nFound) = fad_skip b (drop (length b) pc) in (pc', nFound + 1)
      else (pc, 0))"
  by pat_completeness auto
termination
  by (relation "measure (\<lambda>(b, pc). length pc)") (simp, clarsimp, metis diff_less length_greater_0_conv less_le_trans)

declare fad_skip.simps [simp del]

lemma fad_skip_stop: "\<not> (b \<noteq> [] \<and> length pc \<ge> length b \<and> take (length b) pc = b) \<Longrightarrow> fad_skip b pc = (pc, 0)"
  by (subst fad_skip.simps) (rule if_not_P)

lemma fad_skip_le: "fad_skip b pc = (pc', n) \<Longrightarrow> length pc' \<le> length pc"
proof (induction b pc arbitrary: pc' n rule: fad_skip.induct)
  case (1 b pc)
  show ?case
  proof (cases "b \<noteq> [] \<and> length pc \<ge> length b \<and> take (length b) pc = b")
    case True
    obtain q k where q: "fad_skip b (drop (length b) pc) = (q, k)" by fastforce
    then have "length q \<le> length pc" using "1.IH" [OF True q] by simp
    then show ?thesis using "1.prems" True q by (simp add: fad_skip.simps [of b pc])
  next
    case False
    then show ?thesis using "1.prems" fad_skip_stop [of b pc] by simp
  qed
qed

function FindAndDelete_loop :: "bytes \<Rightarrow> bytes \<Rightarrow> bytes \<times> nat" where
  "FindAndDelete_loop b pc =
     (let (pc2, nFound) = fad_skip b pc
      in case GetScriptOp pc2 of
           None \<Rightarrow> (pc2, nFound)
         | Some (_, _, pc') \<Rightarrow>
             (let (result, nFound') = FindAndDelete_loop b pc'
              in (take (length pc2 - length pc') pc2 @ result, nFound + nFound')))"
  by pat_completeness auto
termination
proof (relation "measure (\<lambda>(b, pc). length pc)")
  show "((b, pc'), b, pc) \<in> measure (\<lambda>(b, pc). length pc)"
    if "x = fad_skip b pc" "(pc2, n) = x" "GetScriptOp pc2 = Some t" "(opcode, t') = t" "(d, pc') = t'" for b pc x pc2 n t opcode t' d pc'
    using that fad_skip_le [of b pc pc2 n] GetScriptOp_shorter [of pc2 opcode d pc'] by auto
qed simp

declare FindAndDelete_loop.simps [simp del]

definition FindAndDelete :: "script \<Rightarrow> bytes \<Rightarrow> script \<times> nat" where
  "FindAndDelete s b =
     (if b = [] then (s, 0)
      else let (result, nFound) = FindAndDelete_loop b s
           in if nFound > 0 then (result, nFound) else (s, nFound))"

subsection \<open>The condition stack\<close>

record ConditionStack =
  m_stack_size :: u32
  m_first_false_pos :: u32

definition NO_FALSE :: u32 where
  "NO_FALSE = 0xFFFFFFFF"

definition ConditionStack_new :: ConditionStack where
  "ConditionStack_new = \<lparr>m_stack_size = 0, m_first_false_pos = NO_FALSE\<rparr>"

definition cs_empty :: "ConditionStack \<Rightarrow> bool" where
  "cs_empty c \<longleftrightarrow> m_stack_size c = 0"

definition cs_all_true :: "ConditionStack \<Rightarrow> bool" where
  "cs_all_true c \<longleftrightarrow> m_first_false_pos c = NO_FALSE"

definition cs_push_back :: "bool \<Rightarrow> ConditionStack \<Rightarrow> ConditionStack" where
  "cs_push_back f c =
     (let c = (if m_first_false_pos c = NO_FALSE \<and> \<not> f then c\<lparr>m_first_false_pos := m_stack_size c\<rparr> else c)
      in c\<lparr>m_stack_size := m_stack_size c + 1\<rparr>)"

definition cs_pop_back :: "ConditionStack \<Rightarrow> ConditionStack outcome" where
  "cs_pop_back c =
     assert_that (m_stack_size c > 0)
       (let c = c\<lparr>m_stack_size := m_stack_size c - 1\<rparr>
        in Ret (if m_first_false_pos c = m_stack_size c then c\<lparr>m_first_false_pos := NO_FALSE\<rparr> else c))"

definition cs_toggle_top :: "ConditionStack \<Rightarrow> ConditionStack outcome" where
  "cs_toggle_top c =
     assert_that (m_stack_size c > 0)
       (Ret (if m_first_false_pos c = NO_FALSE then c\<lparr>m_first_false_pos := m_stack_size c - 1\<rparr>
             else if m_first_false_pos c = m_stack_size c - 1 then c\<lparr>m_first_false_pos := NO_FALSE\<rparr>
             else c))"

subsection \<open>Signature checks\<close>

definition of_check :: "bool option \<Rightarrow> bool outcome" where
  "of_check r = (case r of None \<Rightarrow> Abort | Some b \<Rightarrow> Ret b)"

definition EvalChecksigPreTapscript :: "eval_env \<Rightarrow> bytes \<Rightarrow> bytes \<Rightarrow> script \<Rightarrow> bool outcome" where
  "EvalChecksigPreTapscript env vchSig vchPubKey begincode =
     assert_that (sigversion env = BASE \<or> sigversion env = WITNESS_V0)
       (let (scriptCode, found) = (if sigversion env = BASE then FindAndDelete begincode (push_data [] vchSig) else (begincode, 0))
        in if found > 0 \<and> has env SCRIPT_VERIFY_CONST_SCRIPTCODE then Fail SCRIPT_ERR_SIG_FINDANDDELETE
           else obind (CheckSignatureEncoding (secp env) vchSig (flags env)) (\<lambda>_.
                obind (CheckPubKeyEncoding vchPubKey (flags env) (sigversion env)) (\<lambda>_.
                obind (of_check (CheckECDSASignature (checker env) vchSig vchPubKey scriptCode (sigversion env))) (\<lambda>fSuccess.
                  if \<not> fSuccess \<and> has env SCRIPT_VERIFY_NULLFAIL \<and> length vchSig \<noteq> 0 then Fail SCRIPT_ERR_SIG_NULLFAIL
                  else Ret fSuccess))))"

definition tapscript_weight :: "bool \<Rightarrow> ScriptExecutionData \<Rightarrow> ScriptExecutionData outcome" where
  "tapscript_weight success ed =
     (if success then
        assert_that (m_validation_weight_left_init ed)
          (let ed = ed\<lparr>m_validation_weight_left := m_validation_weight_left ed - VALIDATION_WEIGHT_PER_SIGOP_PASSED\<rparr>
           in if m_validation_weight_left ed < 0 then Fail SCRIPT_ERR_TAPSCRIPT_VALIDATION_WEIGHT else Ret ed)
      else Ret ed)"

definition EvalChecksigTapscript :: "eval_env \<Rightarrow> bytes \<Rightarrow> bytes \<Rightarrow> ScriptExecutionData \<Rightarrow> (bool \<times> ScriptExecutionData) outcome" where
  "EvalChecksigTapscript env sig pubkey ed =
     assert_that (sigversion env = TAPSCRIPT)
       (let success = sig \<noteq> []
        in obind (tapscript_weight success ed) (\<lambda>ed.
           if length pubkey = 0 then Fail SCRIPT_ERR_PUBKEYTYPE
           else if length pubkey = 32 then
             (if success then
                obind (CheckSchnorrSignature (checker env) sig pubkey (sigversion env) ed SCRIPT_ERR_UNKNOWN_ERROR) (\<lambda>ed. Ret (success, ed))
              else Ret (success, ed))
           else if has env SCRIPT_VERIFY_DISCOURAGE_UPGRADABLE_PUBKEYTYPE then Fail SCRIPT_ERR_DISCOURAGE_UPGRADABLE_PUBKEYTYPE
           else Ret (success, ed)))"

definition EvalChecksig :: "eval_env \<Rightarrow> bytes \<Rightarrow> bytes \<Rightarrow> script \<Rightarrow> ScriptExecutionData \<Rightarrow> (bool \<times> ScriptExecutionData) outcome" where
  "EvalChecksig env sig pubkey begincode ed =
     (case sigversion env of
        BASE \<Rightarrow> obind (EvalChecksigPreTapscript env sig pubkey begincode) (\<lambda>success. Ret (success, ed))
      | WITNESS_V0 \<Rightarrow> obind (EvalChecksigPreTapscript env sig pubkey begincode) (\<lambda>success. Ret (success, ed))
      | TAPSCRIPT \<Rightarrow> EvalChecksigTapscript env sig pubkey ed
      | TAPROOT \<Rightarrow> Abort)"

subsection \<open>Opcodes that only touch the stack\<close>

type_synonym stk = "bytes list"

abbreviation (input) bad_stack :: "'a outcome" where
  "bad_stack \<equiv> Fail SCRIPT_ERR_INVALID_STACK_OPERATION"

definition vchFalse :: bytes where "vchFalse = []"
definition vchTrue :: bytes where "vchTrue = [1]"

definition of_bool_vch :: "bool \<Rightarrow> bytes" where
  "of_bool_vch b = (if b then vchTrue else vchFalse)"

definition fRequireMinimal :: "eval_env \<Rightarrow> bool" where
  "fRequireMinimal env \<longleftrightarrow> has env SCRIPT_VERIFY_MINIMALDATA"

text \<open>Reading a number of at most \<open>n\<close> bytes; a \<open>scriptnum_error\<close> ends in the handler of \<open>EvalScript\<close>.\<close>

definition num_arg :: "eval_env \<Rightarrow> bytes \<Rightarrow> nat \<Rightarrow> int outcome" where
  "num_arg env bs n = (case CScriptNum bs (fRequireMinimal env) n of None \<Rightarrow> Fail SCRIPT_ERR_UNKNOWN_ERROR | Some v \<Rightarrow> Ret v)"

definition of_assert :: "'a option \<Rightarrow> 'a outcome" where
  "of_assert r = (case r of None \<Rightarrow> Abort | Some x \<Rightarrow> Ret x)"

definition op_push_number :: "opcodetype \<Rightarrow> stk \<Rightarrow> stk outcome" where
  "op_push_number opcode st = Ret (CScriptNum_serialize (int opcode - (int OP_1 - 1)) # st)"

definition op_CHECKLOCKTIMEVERIFY :: "eval_env \<Rightarrow> stk \<Rightarrow> stk outcome" where
  "op_CHECKLOCKTIMEVERIFY env st =
     (if \<not> has env SCRIPT_VERIFY_CHECKLOCKTIMEVERIFY then Ret st
      else case st of
             [] \<Rightarrow> bad_stack
           | x # _ \<Rightarrow>
               obind (num_arg env x 5) (\<lambda>locktime.
                 if locktime < 0 then Fail SCRIPT_ERR_NEGATIVE_LOCKTIME
                 else if \<not> CheckLockTime (checker env) locktime then Fail SCRIPT_ERR_UNSATISFIED_LOCKTIME
                 else Ret st))"

definition op_CHECKSEQUENCEVERIFY :: "eval_env \<Rightarrow> stk \<Rightarrow> stk outcome" where
  "op_CHECKSEQUENCEVERIFY env st =
     (if \<not> has env SCRIPT_VERIFY_CHECKSEQUENCEVERIFY then Ret st
      else case st of
             [] \<Rightarrow> bad_stack
           | x # _ \<Rightarrow>
               obind (num_arg env x 5) (\<lambda>sequence.
                 if sequence < 0 then Fail SCRIPT_ERR_NEGATIVE_LOCKTIME
                 else if sequence AND uint SEQUENCE_LOCKTIME_DISABLE_FLAG \<noteq> 0 then Ret st
                 else if \<not> CheckSequence (checker env) sequence then Fail SCRIPT_ERR_UNSATISFIED_LOCKTIME
                 else Ret st))"

definition op_upgradable_nop :: "eval_env \<Rightarrow> stk \<Rightarrow> stk outcome" where
  "op_upgradable_nop env st =
     (if has env SCRIPT_VERIFY_DISCOURAGE_UPGRADABLE_NOPS then Fail SCRIPT_ERR_DISCOURAGE_UPGRADABLE_NOPS else Ret st)"

definition op_VERIFY :: "stk \<Rightarrow> stk outcome" where
  "op_VERIFY st =
     (case st of
        x # st' \<Rightarrow> if CastToBool x then Ret st' else Fail SCRIPT_ERR_VERIFY
      | [] \<Rightarrow> bad_stack)"

definition op_RETURN :: "stk \<Rightarrow> stk outcome" where
  "op_RETURN st = Fail SCRIPT_ERR_OP_RETURN"

definition op_2DROP :: "stk \<Rightarrow> stk outcome" where
  "op_2DROP st = (case st of x2 # x1 # st' \<Rightarrow> Ret st' | _ \<Rightarrow> bad_stack)"

definition op_2DUP :: "stk \<Rightarrow> stk outcome" where
  "op_2DUP st = (case st of x2 # x1 # _ \<Rightarrow> Ret (x2 # x1 # st) | _ \<Rightarrow> bad_stack)"

definition op_3DUP :: "stk \<Rightarrow> stk outcome" where
  "op_3DUP st = (case st of x3 # x2 # x1 # _ \<Rightarrow> Ret (x3 # x2 # x1 # st) | _ \<Rightarrow> bad_stack)"

definition op_2OVER :: "stk \<Rightarrow> stk outcome" where
  "op_2OVER st = (case st of x4 # x3 # x2 # x1 # _ \<Rightarrow> Ret (x2 # x1 # st) | _ \<Rightarrow> bad_stack)"

definition op_2ROT :: "stk \<Rightarrow> stk outcome" where
  "op_2ROT st =
     (case st of x6 # x5 # x4 # x3 # x2 # x1 # st' \<Rightarrow> Ret (x2 # x1 # x6 # x5 # x4 # x3 # st') | _ \<Rightarrow> bad_stack)"

definition op_2SWAP :: "stk \<Rightarrow> stk outcome" where
  "op_2SWAP st = (case st of x4 # x3 # x2 # x1 # st' \<Rightarrow> Ret (x2 # x1 # x4 # x3 # st') | _ \<Rightarrow> bad_stack)"

definition op_IFDUP :: "stk \<Rightarrow> stk outcome" where
  "op_IFDUP st = (case st of x # _ \<Rightarrow> Ret (if CastToBool x then x # st else st) | _ \<Rightarrow> bad_stack)"

definition op_DEPTH :: "stk \<Rightarrow> stk outcome" where
  "op_DEPTH st = Ret (CScriptNum_serialize (int (length st)) # st)"

definition op_DROP :: "stk \<Rightarrow> stk outcome" where
  "op_DROP st = (case st of x # st' \<Rightarrow> Ret st' | _ \<Rightarrow> bad_stack)"

definition op_DUP :: "stk \<Rightarrow> stk outcome" where
  "op_DUP st = (case st of x # _ \<Rightarrow> Ret (x # st) | _ \<Rightarrow> bad_stack)"

definition op_NIP :: "stk \<Rightarrow> stk outcome" where
  "op_NIP st = (case st of x2 # x1 # st' \<Rightarrow> Ret (x2 # st') | _ \<Rightarrow> bad_stack)"

definition op_OVER :: "stk \<Rightarrow> stk outcome" where
  "op_OVER st = (case st of x2 # x1 # _ \<Rightarrow> Ret (x1 # st) | _ \<Rightarrow> bad_stack)"

definition op_PICK_ROLL :: "eval_env \<Rightarrow> opcodetype \<Rightarrow> stk \<Rightarrow> stk outcome" where
  "op_PICK_ROLL env opcode st =
     (if length st < 2 then bad_stack
      else obind (num_arg env (st ! 0) 4) (\<lambda>v.
        let n = CScriptNum_getint v; st' = tl st
        in if n < 0 \<or> n \<ge> int (length st') then bad_stack
           else let x = st' ! nat n
                in Ret (x # (if opcode = OP_ROLL then take (nat n) st' @ drop (nat n + 1) st' else st'))))"

definition op_ROT :: "stk \<Rightarrow> stk outcome" where
  "op_ROT st = (case st of x3 # x2 # x1 # st' \<Rightarrow> Ret (x1 # x3 # x2 # st') | _ \<Rightarrow> bad_stack)"

definition op_SWAP :: "stk \<Rightarrow> stk outcome" where
  "op_SWAP st = (case st of x2 # x1 # st' \<Rightarrow> Ret (x1 # x2 # st') | _ \<Rightarrow> bad_stack)"

definition op_TUCK :: "stk \<Rightarrow> stk outcome" where
  "op_TUCK st = (case st of x2 # x1 # st' \<Rightarrow> Ret (x2 # x1 # x2 # st') | _ \<Rightarrow> bad_stack)"

definition op_SIZE :: "stk \<Rightarrow> stk outcome" where
  "op_SIZE st = (case st of x # _ \<Rightarrow> Ret (CScriptNum_serialize (int (length x)) # st) | _ \<Rightarrow> bad_stack)"

definition op_EQUAL :: "opcodetype \<Rightarrow> stk \<Rightarrow> stk outcome" where
  "op_EQUAL opcode st =
     (case st of
        x2 # x1 # st' \<Rightarrow>
          (let fEqual = x1 = x2
           in if opcode = OP_EQUALVERIFY then (if fEqual then Ret st' else Fail SCRIPT_ERR_EQUALVERIFY)
              else Ret (of_bool_vch fEqual # st'))
      | _ \<Rightarrow> bad_stack)"

definition unary_num :: "opcodetype \<Rightarrow> int \<Rightarrow> int option" where
  "unary_num opcode bn =
     (if opcode = OP_1ADD then CScriptNum_add_assign bn 1
      else if opcode = OP_1SUB then CScriptNum_sub_assign bn 1
      else if opcode = OP_NEGATE then CScriptNum_uminus bn
      else if opcode = OP_ABS then (if bn < 0 then CScriptNum_uminus bn else Some bn)
      else if opcode = OP_NOT then Some (of_bool (bn = 0))
      else if opcode = OP_0NOTEQUAL then Some (of_bool (bn \<noteq> 0))
      else None)"

definition op_unary :: "eval_env \<Rightarrow> opcodetype \<Rightarrow> stk \<Rightarrow> stk outcome" where
  "op_unary env opcode st =
     (case st of
        x # st' \<Rightarrow>
          obind (num_arg env x 4) (\<lambda>bn. obind (of_assert (unary_num opcode bn)) (\<lambda>bn. Ret (CScriptNum_serialize bn # st')))
      | _ \<Rightarrow> bad_stack)"

definition binary_num :: "opcodetype \<Rightarrow> int \<Rightarrow> int \<Rightarrow> int option" where
  "binary_num opcode bn1 bn2 =
     (if opcode = OP_ADD then Some (bn1 + bn2)
      else if opcode = OP_SUB then Some (bn1 - bn2)
      else if opcode = OP_BOOLAND then Some (of_bool (bn1 \<noteq> 0 \<and> bn2 \<noteq> 0))
      else if opcode = OP_BOOLOR then Some (of_bool (bn1 \<noteq> 0 \<or> bn2 \<noteq> 0))
      else if opcode = OP_NUMEQUAL then Some (of_bool (bn1 = bn2))
      else if opcode = OP_NUMEQUALVERIFY then Some (of_bool (bn1 = bn2))
      else if opcode = OP_NUMNOTEQUAL then Some (of_bool (bn1 \<noteq> bn2))
      else if opcode = OP_LESSTHAN then Some (of_bool (bn1 < bn2))
      else if opcode = OP_GREATERTHAN then Some (of_bool (bn1 > bn2))
      else if opcode = OP_LESSTHANOREQUAL then Some (of_bool (bn1 \<le> bn2))
      else if opcode = OP_GREATERTHANOREQUAL then Some (of_bool (bn1 \<ge> bn2))
      else if opcode = OP_MIN then Some (if bn1 < bn2 then bn1 else bn2)
      else if opcode = OP_MAX then Some (if bn1 > bn2 then bn1 else bn2)
      else None)"

definition op_binary :: "eval_env \<Rightarrow> opcodetype \<Rightarrow> stk \<Rightarrow> stk outcome" where
  "op_binary env opcode st =
     (case st of
        x2 # x1 # st' \<Rightarrow>
          obind (num_arg env x1 4) (\<lambda>bn1.
          obind (num_arg env x2 4) (\<lambda>bn2.
          obind (of_assert (binary_num opcode bn1 bn2)) (\<lambda>bn.
            let v = CScriptNum_serialize bn
            in if opcode = OP_NUMEQUALVERIFY then (if CastToBool v then Ret st' else Fail SCRIPT_ERR_NUMEQUALVERIFY)
               else Ret (v # st'))))
      | _ \<Rightarrow> bad_stack)"

definition op_WITHIN :: "eval_env \<Rightarrow> stk \<Rightarrow> stk outcome" where
  "op_WITHIN env st =
     (case st of
        x3 # x2 # x1 # st' \<Rightarrow>
          obind (num_arg env x1 4) (\<lambda>bn1.
          obind (num_arg env x2 4) (\<lambda>bn2.
          obind (num_arg env x3 4) (\<lambda>bn3. Ret (of_bool_vch (bn2 \<le> bn1 \<and> bn1 < bn3) # st'))))
      | _ \<Rightarrow> bad_stack)"

definition op_hash :: "eval_env \<Rightarrow> opcodetype \<Rightarrow> stk \<Rightarrow> stk outcome" where
  "op_hash env opcode st =
     (case st of
        x # st' \<Rightarrow>
          Ret ((if opcode = OP_RIPEMD160 then RIPEMD160 (hashes env) x
                else if opcode = OP_SHA1 then SHA1 (hashes env) x
                else if opcode = OP_SHA256 then SHA256 (hashes env) x
                else if opcode = OP_HASH160 then CHash160 (hashes env) x
                else CHash256 (hashes env) x) # st')
      | _ \<Rightarrow> bad_stack)"

text \<open>The cases of the \<open>switch\<close> that read and write nothing but the stack.\<close>

definition stack_op :: "eval_env \<Rightarrow> opcodetype \<Rightarrow> (stk \<Rightarrow> stk outcome) option" where
  "stack_op env opcode =
     (if opcode = OP_1NEGATE \<or> (OP_1 \<le> opcode \<and> opcode \<le> OP_16) then Some (op_push_number opcode)
      else if opcode = OP_NOP then Some Ret
      else if opcode = OP_CHECKLOCKTIMEVERIFY then Some (op_CHECKLOCKTIMEVERIFY env)
      else if opcode = OP_CHECKSEQUENCEVERIFY then Some (op_CHECKSEQUENCEVERIFY env)
      else if opcode = OP_NOP1 \<or> (0xb3 \<le> opcode \<and> opcode \<le> OP_NOP10) then Some (op_upgradable_nop env)
      else if opcode = OP_VERIFY then Some op_VERIFY
      else if opcode = OP_RETURN then Some op_RETURN
      else if opcode = OP_2DROP then Some op_2DROP
      else if opcode = OP_2DUP then Some op_2DUP
      else if opcode = OP_3DUP then Some op_3DUP
      else if opcode = OP_2OVER then Some op_2OVER
      else if opcode = OP_2ROT then Some op_2ROT
      else if opcode = OP_2SWAP then Some op_2SWAP
      else if opcode = OP_IFDUP then Some op_IFDUP
      else if opcode = OP_DEPTH then Some op_DEPTH
      else if opcode = OP_DROP then Some op_DROP
      else if opcode = OP_DUP then Some op_DUP
      else if opcode = OP_NIP then Some op_NIP
      else if opcode = OP_OVER then Some op_OVER
      else if opcode = OP_PICK \<or> opcode = OP_ROLL then Some (op_PICK_ROLL env opcode)
      else if opcode = OP_ROT then Some op_ROT
      else if opcode = OP_SWAP then Some op_SWAP
      else if opcode = OP_TUCK then Some op_TUCK
      else if opcode = OP_SIZE then Some op_SIZE
      else if opcode = OP_EQUAL \<or> opcode = OP_EQUALVERIFY then Some (op_EQUAL opcode)
      else if opcode \<in> {OP_1ADD, OP_1SUB, OP_NEGATE, OP_ABS, OP_NOT, OP_0NOTEQUAL} then Some (op_unary env opcode)
      else if opcode \<in> {OP_ADD, OP_SUB, OP_BOOLAND, OP_BOOLOR, OP_NUMEQUAL, OP_NUMEQUALVERIFY, OP_NUMNOTEQUAL, OP_LESSTHAN,
                        OP_GREATERTHAN, OP_LESSTHANOREQUAL, OP_GREATERTHANOREQUAL, OP_MIN, OP_MAX} then Some (op_binary env opcode)
      else if opcode = OP_WITHIN then Some (op_WITHIN env)
      else if opcode \<in> {OP_RIPEMD160, OP_SHA1, OP_SHA256, OP_HASH160, OP_HASH256} then Some (op_hash env opcode)
      else None)"

subsection \<open>The other opcodes\<close>

record eval_state =
  stack :: stk
  altstack :: stk
  vfExec :: ConditionStack
  nOpCount :: nat
  opcode_pos :: u32
  pbegincodehash :: script
  execdata :: ScriptExecutionData

definition eval_IF :: "eval_env \<Rightarrow> opcodetype \<Rightarrow> bool \<Rightarrow> eval_state \<Rightarrow> eval_state outcome" where
  "eval_IF env opcode fExec s =
     (if fExec then
        (case stack s of
           [] \<Rightarrow> Fail SCRIPT_ERR_UNBALANCED_CONDITIONAL
         | x # st \<Rightarrow>
             if sigversion env = TAPSCRIPT \<and> (length x > 1 \<or> (length x = 1 \<and> x ! 0 \<noteq> 1)) then Fail SCRIPT_ERR_TAPSCRIPT_MINIMALIF
             else if sigversion env = WITNESS_V0 \<and> has env SCRIPT_VERIFY_MINIMALIF \<and>
                     (length x > 1 \<or> (length x = 1 \<and> x ! 0 \<noteq> 1)) then Fail SCRIPT_ERR_MINIMALIF
             else let fValue = (if opcode = OP_NOTIF then \<not> CastToBool x else CastToBool x)
                  in Ret (s\<lparr>stack := st, vfExec := cs_push_back fValue (vfExec s)\<rparr>))
      else Ret (s\<lparr>vfExec := cs_push_back False (vfExec s)\<rparr>))"

definition eval_ELSE :: "eval_state \<Rightarrow> eval_state outcome" where
  "eval_ELSE s =
     (if cs_empty (vfExec s) then Fail SCRIPT_ERR_UNBALANCED_CONDITIONAL
      else obind (cs_toggle_top (vfExec s)) (\<lambda>c. Ret (s\<lparr>vfExec := c\<rparr>)))"

definition eval_ENDIF :: "eval_state \<Rightarrow> eval_state outcome" where
  "eval_ENDIF s =
     (if cs_empty (vfExec s) then Fail SCRIPT_ERR_UNBALANCED_CONDITIONAL
      else obind (cs_pop_back (vfExec s)) (\<lambda>c. Ret (s\<lparr>vfExec := c\<rparr>)))"

definition eval_TOALTSTACK :: "eval_state \<Rightarrow> eval_state outcome" where
  "eval_TOALTSTACK s =
     (case stack s of
        x # st \<Rightarrow> Ret (s\<lparr>altstack := x # altstack s, stack := st\<rparr>)
      | [] \<Rightarrow> bad_stack)"

definition eval_FROMALTSTACK :: "eval_state \<Rightarrow> eval_state outcome" where
  "eval_FROMALTSTACK s =
     (case altstack s of
        x # st \<Rightarrow> Ret (s\<lparr>stack := x # stack s, altstack := st\<rparr>)
      | [] \<Rightarrow> Fail SCRIPT_ERR_INVALID_ALTSTACK_OPERATION)"

definition eval_CODESEPARATOR :: "script \<Rightarrow> eval_state \<Rightarrow> eval_state outcome" where
  "eval_CODESEPARATOR pc s =
     Ret (s\<lparr>pbegincodehash := pc, execdata := (execdata s)\<lparr>m_codeseparator_pos := opcode_pos s\<rparr>\<rparr>)"

definition eval_CHECKSIG :: "eval_env \<Rightarrow> opcodetype \<Rightarrow> eval_state \<Rightarrow> eval_state outcome" where
  "eval_CHECKSIG env opcode s =
     (case stack s of
        vchPubKey # vchSig # st \<Rightarrow>
          obind (EvalChecksig env vchSig vchPubKey (pbegincodehash s) (execdata s)) (\<lambda>(fSuccess, ed).
            let s = s\<lparr>execdata := ed\<rparr>
            in if opcode = OP_CHECKSIGVERIFY then
                 (if fSuccess then Ret (s\<lparr>stack := st\<rparr>) else Fail SCRIPT_ERR_CHECKSIGVERIFY)
               else Ret (s\<lparr>stack := of_bool_vch fSuccess # st\<rparr>))
      | _ \<Rightarrow> bad_stack)"

definition eval_CHECKSIGADD :: "eval_env \<Rightarrow> eval_state \<Rightarrow> eval_state outcome" where
  "eval_CHECKSIGADD env s =
     (if sigversion env = BASE \<or> sigversion env = WITNESS_V0 then Fail SCRIPT_ERR_BAD_OPCODE
      else case stack s of
             pubkey # x # sig # st \<Rightarrow>
               obind (num_arg env x 4) (\<lambda>num.
               obind (EvalChecksig env sig pubkey (pbegincodehash s) (execdata s)) (\<lambda>(success, ed).
                 Ret (s\<lparr>execdata := ed, stack := CScriptNum_serialize (num + (if success then 1 else 0)) # st\<rparr>)))
           | _ \<Rightarrow> bad_stack)"

fun multisig_script_code :: "eval_env \<Rightarrow> bytes list \<Rightarrow> script \<Rightarrow> script outcome" where
  "multisig_script_code env [] scriptCode = Ret scriptCode"
| "multisig_script_code env (vchSig # sigs) scriptCode =
     (if sigversion env = BASE then
        (let (scriptCode, found) = FindAndDelete scriptCode (push_data [] vchSig)
         in if found > 0 \<and> has env SCRIPT_VERIFY_CONST_SCRIPTCODE then Fail SCRIPT_ERR_SIG_FINDANDDELETE
            else multisig_script_code env sigs scriptCode)
      else multisig_script_code env sigs scriptCode)"

text \<open>The remaining signatures and keys, each from the top of the stack down. There are never fewer keys than
  signatures, so the last equation is not reached.\<close>

fun multisig_check :: "eval_env \<Rightarrow> script \<Rightarrow> bytes list \<Rightarrow> bytes list \<Rightarrow> bool outcome" where
  "multisig_check env scriptCode [] keys = Ret True"
| "multisig_check env scriptCode (vchSig # sigs) (vchPubKey # keys) =
     obind (CheckSignatureEncoding (secp env) vchSig (flags env)) (\<lambda>_.
     obind (CheckPubKeyEncoding vchPubKey (flags env) (sigversion env)) (\<lambda>_.
     obind (of_check (CheckECDSASignature (checker env) vchSig vchPubKey scriptCode (sigversion env))) (\<lambda>fOk.
       let sigs' = (if fOk then sigs else vchSig # sigs)
       in if length sigs' > length keys then Ret False else multisig_check env scriptCode sigs' keys)))"
| "multisig_check env scriptCode (vchSig # sigs) [] = Abort"

fun multisig_cleanup :: "eval_env \<Rightarrow> bool \<Rightarrow> nat \<Rightarrow> nat \<Rightarrow> stk \<Rightarrow> stk outcome" where
  "multisig_cleanup env fSuccess 0 ikey2 st = Ret st"
| "multisig_cleanup env fSuccess (Suc i) ikey2 [] = Fail SCRIPT_ERR_UNKNOWN_ERROR"
| "multisig_cleanup env fSuccess (Suc i) ikey2 (x # st) =
     (if \<not> fSuccess \<and> has env SCRIPT_VERIFY_NULLFAIL \<and> ikey2 = 0 \<and> length x \<noteq> 0 then Fail SCRIPT_ERR_SIG_NULLFAIL
      else multisig_cleanup env fSuccess i (ikey2 - 1) st)"

definition multisig_result :: "eval_env \<Rightarrow> opcodetype \<Rightarrow> bool \<Rightarrow> stk \<Rightarrow> stk outcome" where
  "multisig_result env opcode fSuccess st =
     (case st of
        [] \<Rightarrow> bad_stack
      | x # st' \<Rightarrow>
          if has env SCRIPT_VERIFY_NULLDUMMY \<and> length x \<noteq> 0 then Fail SCRIPT_ERR_SIG_NULLDUMMY
          else if opcode = OP_CHECKMULTISIGVERIFY then
            (if fSuccess then Ret st' else Fail SCRIPT_ERR_CHECKMULTISIGVERIFY)
          else Ret (of_bool_vch fSuccess # st'))"

text \<open>The counts of a \<open>CHECKMULTISIG\<close>: keys, then signatures, after the checks on the stack depth and the operation count.\<close>

definition multisig_counts :: "eval_env \<Rightarrow> nat \<Rightarrow> stk \<Rightarrow> (nat \<times> nat \<times> nat) outcome" where
  "multisig_counts env ops st =
     (if length st < 1 then bad_stack
      else obind (num_arg env (st ! 0) 4) (\<lambda>k.
        let nKeysCount = CScriptNum_getint k
        in if nKeysCount < 0 \<or> nKeysCount > int MAX_PUBKEYS_PER_MULTISIG then Fail SCRIPT_ERR_PUBKEY_COUNT
           else let ops = ops + nat nKeysCount; i = nat nKeysCount + 2
           in if ops > MAX_OPS_PER_SCRIPT then Fail SCRIPT_ERR_OP_COUNT
              else if length st < i then bad_stack
              else obind (num_arg env (st ! (i - 1)) 4) (\<lambda>m.
                let nSigsCount = CScriptNum_getint m
                in if nSigsCount < 0 \<or> nSigsCount > nKeysCount then Fail SCRIPT_ERR_SIG_COUNT
                   else if length st < i + 1 + nat nSigsCount then bad_stack
                   else Ret (ops, nat nKeysCount, nat nSigsCount))))"

definition multisig_finish :: "eval_env \<Rightarrow> opcodetype \<Rightarrow> eval_state \<Rightarrow> nat \<Rightarrow> nat \<Rightarrow> nat \<Rightarrow> eval_state outcome" where
  "multisig_finish env opcode s ops nKeysCount nSigsCount =
     (let keys = take nKeysCount (drop 1 (stack s));
          sigs = take nSigsCount (drop (nKeysCount + 2) (stack s))
      in obind (multisig_script_code env sigs (pbegincodehash s)) (\<lambda>scriptCode.
         obind (multisig_check env scriptCode sigs keys) (\<lambda>fSuccess.
         obind (multisig_cleanup env fSuccess (nKeysCount + 2 + nSigsCount) (nKeysCount + 2) (stack s)) (\<lambda>st.
         obind (multisig_result env opcode fSuccess st) (\<lambda>st.
           Ret (s\<lparr>nOpCount := ops, stack := st\<rparr>))))))"

definition eval_CHECKMULTISIG :: "eval_env \<Rightarrow> opcodetype \<Rightarrow> eval_state \<Rightarrow> eval_state outcome" where
  "eval_CHECKMULTISIG env opcode s =
     (if sigversion env = TAPSCRIPT then Fail SCRIPT_ERR_TAPSCRIPT_CHECKMULTISIG
      else obind (multisig_counts env (nOpCount s) (stack s)) (\<lambda>(ops, nKeysCount, nSigsCount).
             multisig_finish env opcode s ops nKeysCount nSigsCount))"

subsection \<open>The evaluation loop\<close>

definition eval_opcode :: "eval_env \<Rightarrow> opcodetype \<Rightarrow> bool \<Rightarrow> script \<Rightarrow> eval_state \<Rightarrow> eval_state outcome" where
  "eval_opcode env opcode fExec pc s =
     (if opcode = OP_IF \<or> opcode = OP_NOTIF then eval_IF env opcode fExec s
      else if opcode = OP_ELSE then eval_ELSE s
      else if opcode = OP_ENDIF then eval_ENDIF s
      else if opcode = OP_TOALTSTACK then eval_TOALTSTACK s
      else if opcode = OP_FROMALTSTACK then eval_FROMALTSTACK s
      else if opcode = OP_CODESEPARATOR then eval_CODESEPARATOR pc s
      else if opcode = OP_CHECKSIG \<or> opcode = OP_CHECKSIGVERIFY then eval_CHECKSIG env opcode s
      else if opcode = OP_CHECKSIGADD then eval_CHECKSIGADD env s
      else if opcode = OP_CHECKMULTISIG \<or> opcode = OP_CHECKMULTISIGVERIFY then eval_CHECKMULTISIG env opcode s
      else case stack_op env opcode of
             None \<Rightarrow> Fail SCRIPT_ERR_BAD_OPCODE
           | Some f \<Rightarrow> obind (f (stack s)) (\<lambda>st. Ret (s\<lparr>stack := st\<rparr>)))"

definition disabled_opcode :: "opcodetype \<Rightarrow> bool" where
  "disabled_opcode opcode \<longleftrightarrow>
     opcode \<in> {OP_CAT, OP_SUBSTR, OP_LEFT, OP_RIGHT, OP_INVERT, OP_AND, OP_OR, OP_XOR, OP_2MUL, OP_2DIV, OP_MUL, OP_DIV,
                OP_MOD, OP_LSHIFT, OP_RSHIFT}"

text \<open>Pushing data, or the \<open>switch\<close>, or nothing in a branch that is not executed.\<close>

definition eval_action :: "eval_env \<Rightarrow> opcodetype \<Rightarrow> bytes \<Rightarrow> script \<Rightarrow> eval_state \<Rightarrow> eval_state outcome" where
  "eval_action env opcode vchPushValue pc s =
     (let fExec = cs_all_true (vfExec s)
      in if fExec \<and> opcode \<le> OP_PUSHDATA4 then
           obind (of_assert (if fRequireMinimal env then CheckMinimalPush vchPushValue opcode else Some True)) (\<lambda>minimal.
             if \<not> minimal then Fail SCRIPT_ERR_MINIMALDATA
             else Ret (s\<lparr>stack := vchPushValue # stack s\<rparr>))
         else if fExec \<or> (OP_IF \<le> opcode \<and> opcode \<le> OP_ENDIF) then eval_opcode env opcode fExec pc s
         else Ret s)"

definition eval_instruction :: "eval_env \<Rightarrow> opcodetype \<Rightarrow> bytes \<Rightarrow> script \<Rightarrow> eval_state \<Rightarrow> eval_state outcome" where
  "eval_instruction env opcode vchPushValue pc s =
     (if length vchPushValue > MAX_SCRIPT_ELEMENT_SIZE then Fail SCRIPT_ERR_PUSH_SIZE
      else let s = (if (sigversion env = BASE \<or> sigversion env = WITNESS_V0) \<and> opcode > OP_16
                    then s\<lparr>nOpCount := nOpCount s + 1\<rparr> else s)
      in if (sigversion env = BASE \<or> sigversion env = WITNESS_V0) \<and> opcode > OP_16 \<and> nOpCount s > MAX_OPS_PER_SCRIPT
           then Fail SCRIPT_ERR_OP_COUNT
         else if disabled_opcode opcode then Fail SCRIPT_ERR_DISABLED_OPCODE
         else if opcode = OP_CODESEPARATOR \<and> sigversion env = BASE \<and> has env SCRIPT_VERIFY_CONST_SCRIPTCODE
           then Fail SCRIPT_ERR_OP_CODESEPARATOR
         else obind (eval_action env opcode vchPushValue pc s) (\<lambda>s.
                if length (stack s) + length (altstack s) > MAX_STACK_SIZE then Fail SCRIPT_ERR_STACK_SIZE else Ret s))"

function EvalScript_loop :: "eval_env \<Rightarrow> script \<Rightarrow> eval_state \<Rightarrow> eval_state outcome" where
  "EvalScript_loop env pc s =
     (if pc = [] then Ret s
      else case GetScriptOp pc of
             None \<Rightarrow> Fail SCRIPT_ERR_BAD_OPCODE
           | Some (opcode, vchPushValue, pc') \<Rightarrow>
               obind (eval_instruction env opcode vchPushValue pc' s) (\<lambda>s.
                 EvalScript_loop env pc' (s\<lparr>opcode_pos := opcode_pos s + 1\<rparr>)))"
  by pat_completeness auto
termination
  by (relation "measure (\<lambda>(env, pc, s). length pc)") (auto dest: GetScriptOp_shorter)

declare EvalScript_loop.simps [simp del]

definition eval_start :: "script \<Rightarrow> stk \<Rightarrow> ScriptExecutionData \<Rightarrow> eval_state" where
  "eval_start s st ed =
     \<lparr>stack = st, altstack = [], vfExec = ConditionStack_new, nOpCount = 0, opcode_pos = 0, pbegincodehash = s,
      execdata = ed\<lparr>m_codeseparator_pos := 0xFFFFFFFF, m_codeseparator_pos_init := True\<rparr>\<rparr>"

definition EvalScript :: "eval_env \<Rightarrow> stk \<Rightarrow> script \<Rightarrow> ScriptExecutionData \<Rightarrow> (stk \<times> ScriptExecutionData) outcome" where
  "EvalScript env st s ed =
     assert_that (sigversion env = BASE \<or> sigversion env = WITNESS_V0 \<or> sigversion env = TAPSCRIPT)
       (if (sigversion env = BASE \<or> sigversion env = WITNESS_V0) \<and> length s > MAX_SCRIPT_SIZE then Fail SCRIPT_ERR_SCRIPT_SIZE
        else obind (EvalScript_loop env s (eval_start s st ed)) (\<lambda>z.
          if \<not> cs_empty (vfExec z) then Fail SCRIPT_ERR_UNBALANCED_CONDITIONAL
          else Ret (stack z, execdata z)))"

end
