(* ===== verification/SigHash.thy ===== *)
theory SigHash
  imports Interpreter
begin

text \<open>
  Model of the signature hashes and of the transaction signature checker of \<open>src/bitcoin/src/script/interpreter.cpp\<close>. A cache pointer is an option;
  an outer \<open>None\<close> of a result is a failed assertion.
\<close>

subsection \<open>Serialising for the legacy signature hash\<close>

function count_separators :: "script \<Rightarrow> nat" where
  "count_separators it =
     (case GetScriptOp it of
        None \<Rightarrow> 0
      | Some (opcode, _, it') \<Rightarrow> (if opcode = OP_CODESEPARATOR then 1 else 0) + count_separators it')"
  by pat_completeness auto
termination
  by (relation "measure length") (auto dest: GetScriptOp_shorter)

declare count_separators.simps [simp del]

function write_script_code :: "script \<Rightarrow> script \<Rightarrow> bytes" where
  "write_script_code itBegin it =
     (case GetScriptOp it of
        None \<Rightarrow> if itBegin \<noteq> [] then take (length itBegin - length (GetScriptOp_stop it)) itBegin else []
      | Some (opcode, _, it') \<Rightarrow>
          if opcode = OP_CODESEPARATOR then take (length itBegin - length it' - 1) itBegin @ write_script_code it' it'
          else write_script_code itBegin it')"
  by pat_completeness auto
termination
  by (relation "measure (\<lambda>(b, it). length it)") (auto dest: GetScriptOp_shorter)

declare write_script_code.simps [simp del]

definition SerializeScriptCode :: "script \<Rightarrow> bytes" where
  "SerializeScriptCode scriptCode =
     WriteCompactSize (word_of_nat (length scriptCode - count_separators scriptCode)) @ write_script_code scriptCode scriptCode"

definition fAnyoneCanPay :: "u32 \<Rightarrow> bool" where
  "fAnyoneCanPay nHashType \<longleftrightarrow> nHashType AND SIGHASH_ANYONECANPAY \<noteq> 0"

definition fHashSingle :: "u32 \<Rightarrow> bool" where
  "fHashSingle nHashType \<longleftrightarrow> nHashType AND 0x1f = SIGHASH_SINGLE"

definition fHashNone :: "u32 \<Rightarrow> bool" where
  "fHashNone nHashType \<longleftrightarrow> nHashType AND 0x1f = SIGHASH_NONE"

definition SerializeInput :: "CTransaction \<Rightarrow> script \<Rightarrow> nat \<Rightarrow> u32 \<Rightarrow> nat \<Rightarrow> bytes" where
  "SerializeInput txTo scriptCode nIn nHashType nInput =
     (let nInput = (if fAnyoneCanPay nHashType then nIn else nInput)
      in Ser_COutPoint (prevout (vin txTo ! nInput)) @
         (if nInput \<noteq> nIn then Serialize_bytes [] else SerializeScriptCode scriptCode) @
         (if nInput \<noteq> nIn \<and> (fHashSingle nHashType \<or> fHashNone nHashType) then ser_writedata32 0
          else ser_writedata32 (nSequence (vin txTo ! nInput))))"

definition CTxOut_new :: CTxOut where
  "CTxOut_new = \<lparr>nValue = - 1, scriptPubKey = []\<rparr>"

definition SerializeOutput :: "CTransaction \<Rightarrow> nat \<Rightarrow> u32 \<Rightarrow> nat \<Rightarrow> bytes" where
  "SerializeOutput txTo nIn nHashType nOutput =
     (if fHashSingle nHashType \<and> nOutput \<noteq> nIn then Ser_CTxOut CTxOut_new else Ser_CTxOut (vout txTo ! nOutput))"

definition SignatureSerializer :: "CTransaction \<Rightarrow> script \<Rightarrow> nat \<Rightarrow> u32 \<Rightarrow> bytes" where
  "SignatureSerializer txTo scriptCode nIn nHashType =
     (let nInputs = (if fAnyoneCanPay nHashType then 1 else length (vin txTo));
          nOutputs = (if fHashNone nHashType then 0 else if fHashSingle nHashType then nIn + 1 else length (vout txTo))
      in ser_writedata32 (version txTo) @
         WriteCompactSize (word_of_nat nInputs) @
         concat (map (SerializeInput txTo scriptCode nIn nHashType) [0..<nInputs]) @
         WriteCompactSize (word_of_nat nOutputs) @
         concat (map (SerializeOutput txTo nIn nHashType) [0..<nOutputs]) @
         ser_writedata32 (nLockTime txTo))"

subsection \<open>Precomputed data\<close>

definition GetPrevoutsSHA256 :: "hash_functions \<Rightarrow> CTransaction \<Rightarrow> uint256" where
  "GetPrevoutsSHA256 F txTo = HashWriter_GetSHA256 F (concat (map (\<lambda>txin. Ser_COutPoint (prevout txin)) (vin txTo)))"

definition GetSequencesSHA256 :: "hash_functions \<Rightarrow> CTransaction \<Rightarrow> uint256" where
  "GetSequencesSHA256 F txTo = HashWriter_GetSHA256 F (concat (map (\<lambda>txin. ser_writedata32 (nSequence txin)) (vin txTo)))"

definition GetOutputsSHA256 :: "hash_functions \<Rightarrow> CTransaction \<Rightarrow> uint256" where
  "GetOutputsSHA256 F txTo = HashWriter_GetSHA256 F (concat (map Ser_CTxOut (vout txTo)))"

definition GetSpentAmountsSHA256 :: "hash_functions \<Rightarrow> CTxOut list \<Rightarrow> uint256" where
  "GetSpentAmountsSHA256 F outputs_spent = HashWriter_GetSHA256 F (concat (map (\<lambda>txout. ser_writedata64 (nValue txout)) outputs_spent))"

definition GetSpentScriptsSHA256 :: "hash_functions \<Rightarrow> CTxOut list \<Rightarrow> uint256" where
  "GetSpentScriptsSHA256 F outputs_spent = HashWriter_GetSHA256 F (concat (map (\<lambda>txout. Serialize_bytes (scriptPubKey txout)) outputs_spent))"

record PrecomputedTransactionData =
  m_prevouts_single_hash :: uint256
  m_sequences_single_hash :: uint256
  m_outputs_single_hash :: uint256
  m_spent_amounts_single_hash :: uint256
  m_spent_scripts_single_hash :: uint256
  m_bip341_taproot_ready :: bool
  hashPrevouts :: uint256
  hashSequence :: uint256
  hashOutputs :: uint256
  m_bip143_segwit_ready :: bool
  m_spent_outputs :: "CTxOut list"
  m_spent_outputs_ready :: bool

definition PrecomputedTransactionData_new :: PrecomputedTransactionData where
  "PrecomputedTransactionData_new =
     \<lparr>m_prevouts_single_hash = 0, m_sequences_single_hash = 0, m_outputs_single_hash = 0, m_spent_amounts_single_hash = 0,
      m_spent_scripts_single_hash = 0, m_bip341_taproot_ready = False, hashPrevouts = 0, hashSequence = 0, hashOutputs = 0,
      m_bip143_segwit_ready = False, m_spent_outputs = [], m_spent_outputs_ready = False\<rparr>"

definition WITNESS_V0_SCRIPTHASH_SIZE :: nat where "WITNESS_V0_SCRIPTHASH_SIZE = 32"
definition WITNESS_V0_KEYHASH_SIZE :: nat where "WITNESS_V0_KEYHASH_SIZE = 20"
definition WITNESS_V1_TAPROOT_SIZE :: nat where "WITNESS_V1_TAPROOT_SIZE = 32"

text \<open>The scan for the features in use: BIP 143, then BIP 341.\<close>

fun Init_features :: "CTxIn list \<Rightarrow> CTxOut list \<Rightarrow> bool \<Rightarrow> nat \<Rightarrow> bool \<times> bool \<Rightarrow> bool \<times> bool" where
  "Init_features [] spent ready inpos uses = uses"
| "Init_features (txin # txins) spent ready inpos uses =
     (if fst uses \<and> snd uses then uses
      else if scriptWitness txin \<noteq> [] then
        (if ready \<and> length (scriptPubKey (spent ! inpos)) = 2 + WITNESS_V1_TAPROOT_SIZE \<and>
            unat (scriptPubKey (spent ! inpos) ! 0) = OP_1
         then Init_features txins spent ready (inpos + 1) (fst uses, True)
         else Init_features txins spent ready (inpos + 1) (True, snd uses))
      else Init_features txins spent ready (inpos + 1) uses)"

definition Init_shared :: "hash_functions \<Rightarrow> CTransaction \<Rightarrow> PrecomputedTransactionData \<Rightarrow> PrecomputedTransactionData" where
  "Init_shared F txTo d =
     d\<lparr>m_prevouts_single_hash := GetPrevoutsSHA256 F txTo, m_sequences_single_hash := GetSequencesSHA256 F txTo,
       m_outputs_single_hash := GetOutputsSHA256 F txTo\<rparr>"

definition Init_bip143 :: "hash_functions \<Rightarrow> PrecomputedTransactionData \<Rightarrow> PrecomputedTransactionData" where
  "Init_bip143 F d =
     d\<lparr>hashPrevouts := SHA256Uint256 F (m_prevouts_single_hash d), hashSequence := SHA256Uint256 F (m_sequences_single_hash d),
       hashOutputs := SHA256Uint256 F (m_outputs_single_hash d), m_bip143_segwit_ready := True\<rparr>"

definition Init_bip341 :: "hash_functions \<Rightarrow> PrecomputedTransactionData \<Rightarrow> PrecomputedTransactionData" where
  "Init_bip341 F d =
     d\<lparr>m_spent_amounts_single_hash := GetSpentAmountsSHA256 F (m_spent_outputs d),
       m_spent_scripts_single_hash := GetSpentScriptsSHA256 F (m_spent_outputs d), m_bip341_taproot_ready := True\<rparr>"

definition PrecomputedTransactionData_Init ::
  "hash_functions \<Rightarrow> CTransaction \<Rightarrow> CTxOut list \<Rightarrow> bool \<Rightarrow> PrecomputedTransactionData \<Rightarrow> PrecomputedTransactionData option" where
  "PrecomputedTransactionData_Init F txTo spent_outputs force d =
     (if m_spent_outputs_ready d \<or> (spent_outputs \<noteq> [] \<and> length spent_outputs \<noteq> length (vin txTo)) then None
      else let d = d\<lparr>m_spent_outputs := spent_outputs, m_spent_outputs_ready := spent_outputs \<noteq> []\<rparr>;
               (uses_bip143_segwit, uses_bip341_taproot) =
                 Init_features (vin txTo) spent_outputs (m_spent_outputs_ready d) 0 (force, force);
               d = (if uses_bip143_segwit \<or> uses_bip341_taproot then Init_shared F txTo d else d);
               d = (if uses_bip143_segwit then Init_bip143 F d else d)
           in Some (if uses_bip341_taproot \<and> m_spent_outputs_ready d then Init_bip341 F d else d))"

subsection \<open>Signature hashes\<close>

datatype MissingDataBehavior = ASSERT_FAIL | FAIL

definition HandleMissingData :: "MissingDataBehavior \<Rightarrow> bool option" where
  "HandleMissingData mdb = (case mdb of ASSERT_FAIL \<Rightarrow> None | FAIL \<Rightarrow> Some False)"

definition HASHER_TAPSIGHASH :: "hash_functions \<Rightarrow> bytes" where
  "HASHER_TAPSIGHASH F = TaggedHash F (ascii ''TapSighash'')"

text \<open>The spend-type byte and the data on the input, in the order they are written.\<close>

definition schnorr_common :: "CTransaction \<Rightarrow> u8 \<Rightarrow> PrecomputedTransactionData \<Rightarrow> bytes" where
  "schnorr_common tx_to hash_type cache =
     (let output_type = (if hash_type = ucast SIGHASH_DEFAULT then ucast SIGHASH_ALL else hash_type AND ucast SIGHASH_OUTPUT_MASK);
          input_type = hash_type AND ucast SIGHASH_INPUT_MASK
      in [hash_type] @ ser_writedata32 (version tx_to) @ ser_writedata32 (nLockTime tx_to) @
         (if input_type \<noteq> ucast SIGHASH_ANYONECANPAY then
            ser_uint256 (m_prevouts_single_hash cache) @ ser_uint256 (m_spent_amounts_single_hash cache) @
            ser_uint256 (m_spent_scripts_single_hash cache) @ ser_uint256 (m_sequences_single_hash cache) else []) @
         (if output_type = ucast SIGHASH_ALL then ser_uint256 (m_outputs_single_hash cache) else []))"

definition schnorr_input :: "CTransaction \<Rightarrow> nat \<Rightarrow> u8 \<Rightarrow> u8 \<Rightarrow> PrecomputedTransactionData \<Rightarrow> ScriptExecutionData \<Rightarrow> bytes" where
  "schnorr_input tx_to in_pos hash_type ext_flag cache ed =
     (let have_annex = m_annex_present ed;
          spend_type = push_bit 1 ext_flag + (if have_annex then 1 else 0)
      in [spend_type] @
         (if hash_type AND ucast SIGHASH_INPUT_MASK = ucast SIGHASH_ANYONECANPAY then
            Ser_COutPoint (prevout (vin tx_to ! in_pos)) @ Ser_CTxOut (m_spent_outputs cache ! in_pos) @
            ser_writedata32 (nSequence (vin tx_to ! in_pos))
          else ser_writedata32 (word_of_nat in_pos)) @
         (if have_annex then ser_uint256 (m_annex_hash ed) else []))"

definition schnorr_output_hash :: "hash_functions \<Rightarrow> CTransaction \<Rightarrow> nat \<Rightarrow> ScriptExecutionData \<Rightarrow> uint256" where
  "schnorr_output_hash F tx_to in_pos ed =
     (case m_output_hash ed of Some h \<Rightarrow> h | None \<Rightarrow> HashWriter_GetSHA256 F (Ser_CTxOut (vout tx_to ! in_pos)))"

text \<open>The result is the updated execution data with the hash, or with \<open>None\<close> when the function returns false.\<close>

definition SignatureHashSchnorr ::
  "hash_functions \<Rightarrow> ScriptExecutionData \<Rightarrow> CTransaction \<Rightarrow> nat \<Rightarrow> u8 \<Rightarrow> SigVersion \<Rightarrow> PrecomputedTransactionData \<Rightarrow>
     MissingDataBehavior \<Rightarrow> (ScriptExecutionData \<times> uint256 option) option" where
  "SignatureHashSchnorr F ed tx_to in_pos hash_type sv cache mdb =
     (if sv \<noteq> TAPROOT \<and> sv \<noteq> TAPSCRIPT then None
      else let ext_flag = (if sv = TAPROOT then 0 else 1);
               output_type = (if hash_type = ucast SIGHASH_DEFAULT then ucast SIGHASH_ALL else hash_type AND ucast SIGHASH_OUTPUT_MASK)
      in if \<not> in_pos < length (vin tx_to) then None
      else if \<not> (m_bip341_taproot_ready cache \<and> m_spent_outputs_ready cache) then
        map_option (\<lambda>_. (ed, None)) (HandleMissingData mdb)
      else if \<not> (hash_type \<le> 0x03 \<or> (hash_type \<ge> 0x81 \<and> hash_type \<le> 0x83)) then Some (ed, None)
      else if \<not> m_annex_init ed then None
      else if output_type = ucast SIGHASH_SINGLE \<and> in_pos \<ge> length (vout tx_to) then Some (ed, None)
      else if sv = TAPSCRIPT \<and> \<not> (m_tapleaf_hash_init ed \<and> m_codeseparator_pos_init ed) then None
      else let ed' = (if output_type = ucast SIGHASH_SINGLE
                      then ed\<lparr>m_output_hash := Some (schnorr_output_hash F tx_to in_pos ed)\<rparr> else ed);
               ss = HASHER_TAPSIGHASH F @ [0] @ schnorr_common tx_to hash_type cache @
                    schnorr_input tx_to in_pos hash_type ext_flag cache ed @
                    (if output_type = ucast SIGHASH_SINGLE then ser_uint256 (schnorr_output_hash F tx_to in_pos ed) else []) @
                    (if sv = TAPSCRIPT then ser_uint256 (m_tapleaf_hash ed) @ [0] @ ser_writedata32 (m_codeseparator_pos ed) else [])
           in Some (ed', Some (HashWriter_GetSHA256 F ss)))"

definition sighash_prevouts :: "hash_functions \<Rightarrow> CTransaction \<Rightarrow> u32 \<Rightarrow> PrecomputedTransactionData option \<Rightarrow> uint256" where
  "sighash_prevouts F txTo nHashType cache =
     (if fAnyoneCanPay nHashType then 0
      else case cache of
             Some c \<Rightarrow> if m_bip143_segwit_ready c then hashPrevouts c else SHA256Uint256 F (GetPrevoutsSHA256 F txTo)
           | None \<Rightarrow> SHA256Uint256 F (GetPrevoutsSHA256 F txTo))"

definition sighash_sequence :: "hash_functions \<Rightarrow> CTransaction \<Rightarrow> u32 \<Rightarrow> PrecomputedTransactionData option \<Rightarrow> uint256" where
  "sighash_sequence F txTo nHashType cache =
     (if \<not> (\<not> fAnyoneCanPay nHashType \<and> \<not> fHashSingle nHashType \<and> \<not> fHashNone nHashType) then 0
      else case cache of
             Some c \<Rightarrow> if m_bip143_segwit_ready c then hashSequence c else SHA256Uint256 F (GetSequencesSHA256 F txTo)
           | None \<Rightarrow> SHA256Uint256 F (GetSequencesSHA256 F txTo))"

definition sighash_outputs :: "hash_functions \<Rightarrow> CTransaction \<Rightarrow> nat \<Rightarrow> u32 \<Rightarrow> PrecomputedTransactionData option \<Rightarrow> uint256" where
  "sighash_outputs F txTo nIn nHashType cache =
     (if \<not> fHashSingle nHashType \<and> \<not> fHashNone nHashType then
        (case cache of
           Some c \<Rightarrow> if m_bip143_segwit_ready c then hashOutputs c else SHA256Uint256 F (GetOutputsSHA256 F txTo)
         | None \<Rightarrow> SHA256Uint256 F (GetOutputsSHA256 F txTo))
      else if fHashSingle nHashType \<and> nIn < length (vout txTo) then HashWriter_GetHash F (Ser_CTxOut (vout txTo ! nIn))
      else 0)"

definition SignatureHash ::
  "hash_functions \<Rightarrow> script \<Rightarrow> CTransaction \<Rightarrow> nat \<Rightarrow> u32 \<Rightarrow> u64 \<Rightarrow> SigVersion \<Rightarrow> PrecomputedTransactionData option \<Rightarrow> uint256 option" where
  "SignatureHash F scriptCode txTo nIn nHashType amt sv cache =
     (if \<not> nIn < length (vin txTo) then None
      else if sv = WITNESS_V0 then
        Some (HashWriter_GetHash F
          (ser_writedata32 (version txTo) @
           ser_uint256 (sighash_prevouts F txTo nHashType cache) @
           ser_uint256 (sighash_sequence F txTo nHashType cache) @
           Ser_COutPoint (prevout (vin txTo ! nIn)) @
           Serialize_bytes scriptCode @
           ser_writedata64 amt @
           ser_writedata32 (nSequence (vin txTo ! nIn)) @
           ser_uint256 (sighash_outputs F txTo nIn nHashType cache) @
           ser_writedata32 (nLockTime txTo) @
           ser_writedata32 nHashType))
      else if fHashSingle nHashType \<and> nIn \<ge> length (vout txTo) then Some 1
      else Some (HashWriter_GetHash F (SignatureSerializer txTo scriptCode nIn nHashType @ ser_writedata32 nHashType)))"

subsection \<open>The transaction signature checker\<close>

record tx_checker =
  txTo :: CTransaction
  m_mdb :: MissingDataBehavior
  nIn :: nat
  amount :: u64
  txdata :: "PrecomputedTransactionData option"

definition tx_CheckECDSASignature :: "hash_functions \<Rightarrow> secp256k1 \<Rightarrow> tx_checker \<Rightarrow> bytes \<Rightarrow> bytes \<Rightarrow> script \<Rightarrow> SigVersion \<Rightarrow> bool option" where
  "tx_CheckECDSASignature F E c vchSigIn vchPubKey scriptCode sv =
     (let pubkey = CPubKey_Set vchPubKey
      in if \<not> CPubKey_IsValid pubkey then Some False
         else if vchSigIn = [] then Some False
         else let nHashType = ucast (last vchSigIn); vchSig = butlast vchSigIn
              in if sv = WITNESS_V0 \<and> sint (amount c) < 0 then HandleMissingData (m_mdb c)
                 else (case SignatureHash F scriptCode (txTo c) (nIn c) nHashType (amount c) sv (txdata c) of
                         None \<Rightarrow> None
                       | Some sighash \<Rightarrow> Some (CPubKey_Verify E pubkey sighash vchSig)))"

definition tx_CheckSchnorrSignature ::
  "hash_functions \<Rightarrow> secp256k1 \<Rightarrow> tx_checker \<Rightarrow> bytes \<Rightarrow> bytes \<Rightarrow> SigVersion \<Rightarrow> ScriptExecutionData \<Rightarrow> ScriptError \<Rightarrow> ScriptExecutionData outcome" where
  "tx_CheckSchnorrSignature F E c sig pubkey_in sv ed serror =
     assert_that ((sv = TAPROOT \<or> sv = TAPSCRIPT) \<and> length pubkey_in = 32)
       (if length sig \<noteq> 64 \<and> length sig \<noteq> 65 then Fail SCRIPT_ERR_SCHNORR_SIG_SIZE
        else let hashtype = (if length sig = 65 then last sig else ucast SIGHASH_DEFAULT);
                 sig64 = (if length sig = 65 then butlast sig else sig)
        in if length sig = 65 \<and> hashtype = ucast SIGHASH_DEFAULT then Fail SCRIPT_ERR_SCHNORR_SIG_HASHTYPE
           else case txdata c of
                  None \<Rightarrow> (case HandleMissingData (m_mdb c) of None \<Rightarrow> Abort | Some _ \<Rightarrow> Fail serror)
                | Some d \<Rightarrow>
                    (case SignatureHashSchnorr F ed (txTo c) (nIn c) hashtype sv d (m_mdb c) of
                       None \<Rightarrow> Abort
                     | Some (ed, None) \<Rightarrow> Fail SCRIPT_ERR_SCHNORR_SIG_HASHTYPE
                     | Some (ed, Some sighash) \<Rightarrow>
                         (case VerifySchnorr E pubkey_in sighash sig64 of
                            None \<Rightarrow> Abort
                          | Some ok \<Rightarrow> if \<not> ok then Fail SCRIPT_ERR_SCHNORR_SIG else Ret ed)))"

definition tx_CheckLockTime :: "tx_checker \<Rightarrow> int \<Rightarrow> bool" where
  "tx_CheckLockTime c locktime =
     (let txLockTime = uint (nLockTime (txTo c))
      in if \<not> ((txLockTime < uint LOCKTIME_THRESHOLD \<and> locktime < uint LOCKTIME_THRESHOLD) \<or>
               (txLockTime \<ge> uint LOCKTIME_THRESHOLD \<and> locktime \<ge> uint LOCKTIME_THRESHOLD)) then False
         else if locktime > txLockTime then False
         else if SEQUENCE_FINAL = nSequence (vin (txTo c) ! nIn c) then False
         else True)"

definition tx_CheckSequence :: "tx_checker \<Rightarrow> int \<Rightarrow> bool" where
  "tx_CheckSequence c sequence =
     (let txToSequence = uint (nSequence (vin (txTo c) ! nIn c))
      in if version (txTo c) < 2 then False
         else if txToSequence AND uint SEQUENCE_LOCKTIME_DISABLE_FLAG \<noteq> 0 then False
         else let nLockTimeMask = uint (SEQUENCE_LOCKTIME_TYPE_FLAG OR SEQUENCE_LOCKTIME_MASK);
                  txToSequenceMasked = txToSequence AND nLockTimeMask;
                  nSequenceMasked = sequence AND nLockTimeMask
         in if \<not> ((txToSequenceMasked < uint SEQUENCE_LOCKTIME_TYPE_FLAG \<and> nSequenceMasked < uint SEQUENCE_LOCKTIME_TYPE_FLAG) \<or>
                  (txToSequenceMasked \<ge> uint SEQUENCE_LOCKTIME_TYPE_FLAG \<and> nSequenceMasked \<ge> uint SEQUENCE_LOCKTIME_TYPE_FLAG)) then False
            else if nSequenceMasked > txToSequenceMasked then False
            else True)"

definition TransactionSignatureChecker :: "hash_functions \<Rightarrow> secp256k1 \<Rightarrow> tx_checker \<Rightarrow> SignatureChecker" where
  "TransactionSignatureChecker F E c =
     \<lparr>CheckECDSASignature = tx_CheckECDSASignature F E c, CheckSchnorrSignature = tx_CheckSchnorrSignature F E c,
      CheckLockTime = tx_CheckLockTime c, CheckSequence = tx_CheckSequence c\<rparr>"

end
