(* ===== verification/InterpreterParts.thy ===== *)
theory InterpreterParts
  imports Interpreter
begin

text \<open>
  Correctness of the interpreter's building blocks: strict signature encodings, \<open>FindAndDelete\<close> and the condition stack.
\<close>

subsection \<open>Strict signature encodings\<close>

definition der_int_ok :: "bytes \<Rightarrow> bool" where
  "der_int_ok x \<longleftrightarrow> x \<noteq> [] \<and> x ! 0 AND 0x80 = 0 \<and> (length x > 1 \<and> x ! 0 = 0 \<longrightarrow> x ! 1 AND 0x80 \<noteq> 0)"

definition der_signature :: "bytes \<Rightarrow> bytes \<Rightarrow> bytes" where
  "der_signature r s =
     0x30 # word_of_nat (length r + length s + 4) # (0x02 # word_of_nat (length r) # r @ (0x02 # word_of_nat (length s) # s))"

lemma u8_of_unat: "unat (b :: u8) = n \<Longrightarrow> b = word_of_nat n"
  by auto

lemma IsValidSignatureEncoding_der:
  assumes "der_int_ok r" "der_int_ok s" "length r + length s + 7 \<le> 73"
  shows "IsValidSignatureEncoding (der_signature r s @ [ht])"
proof -
  obtain r0 r' where r: "r = r0 # r'" using assms(1) by (cases r) (auto simp: der_int_ok_def)
  obtain s0 s' where s: "s = s0 # s'" using assms(2) by (cases s) (auto simp: der_int_ok_def)
  have l: "unat (word_of_nat (length r + length s + 4) :: u8) = length r + length s + 4"
    "unat (word_of_nat (length r) :: u8) = length r" "unat (word_of_nat (length s) :: u8) = length s"
    using assms(3) by (simp_all add: unat_of_nat_u8 del: of_nat_add)
  define g where "g = der_signature r s @ [ht]"
  have g: "length g = length r + length s + 7" "g ! 0 = 0x30" "g ! 1 = word_of_nat (length r + length s + 4)" "g ! 2 = 0x02"
    "g ! 3 = word_of_nat (length r)" "g ! 4 = r ! 0" "g ! (length r + 4) = 0x02" "g ! (5 + length r) = word_of_nat (length s)"
    "g ! (length r + 6) = s ! 0"
    by (simp_all add: g_def der_signature_def r s nth_append nth_Cons' del: of_nat_add of_nat_Suc)
  have g': "length r > 1 \<Longrightarrow> g ! 5 = r ! 1" "length s > 1 \<Longrightarrow> g ! (length r + 7) = s ! 1"
    by (auto simp: g_def der_signature_def r s nth_append nth_Cons' simp del: of_nat_add of_nat_Suc)
  have p: "length r \<noteq> 0" "length s \<noteq> 0" by (simp_all add: r s)
  have n: "\<not> (length r > 1 \<and> r ! 0 = 0 \<and> g ! 5 AND 0x80 = 0)" "\<not> (length s > 1 \<and> s ! 0 = 0 \<and> g ! (length r + 7) AND 0x80 = 0)"
    using assms(1,2) g' by (auto simp: der_int_ok_def)
  have z: "r ! 0 AND 0x80 = 0" "s ! 0 AND 0x80 = 0" using assms(1,2) by (simp_all add: der_int_ok_def)
  have b: "\<not> length r + length s + 7 < 9" "\<not> 73 < length r + length s + 7" "\<not> length r + length s + 7 \<le> 5 + length r"
    "length r + length s + 4 = length r + length s + 7 - 3"
    using assms(3) p by linarith+
  show ?thesis
    unfolding g_def [symmetric] IsValidSignatureEncoding_def Let_def g l using n z p b by simp
qed

lemma IsValidSignatureEncoding_shape:
  assumes "IsValidSignatureEncoding g"
  obtains r s ht where "g = der_signature r s @ [ht]" "der_int_ok r" "der_int_ok s" "length r + length s + 7 \<le> 73"
proof -
  define lr ls where "lr = unat (g ! 3)" and "ls = unat (g ! (5 + lr))"
  have v: "9 \<le> length g" "length g \<le> 73" "g ! 0 = 0x30" "unat (g ! 1) = length g - 3" "5 + lr < length g" "lr + ls + 7 = length g"
    "g ! 2 = 0x02" "lr \<noteq> 0" "g ! 4 AND 0x80 = 0" "\<not> (lr > 1 \<and> g ! 4 = 0 \<and> g ! 5 AND 0x80 = 0)" "g ! (lr + 4) = 0x02" "ls \<noteq> 0"
    "g ! (lr + 6) AND 0x80 = 0" "\<not> (ls > 1 \<and> g ! (lr + 6) = 0 \<and> g ! (lr + 7) AND 0x80 = 0)"
    using assms unfolding IsValidSignatureEncoding_def Let_def lr_def [symmetric] ls_def [symmetric] by (simp_all split: if_splits)
  define r s where "r = take lr (drop 4 g)" and "s = take ls (drop (lr + 6) g)"
  have len: "length r = lr" "length s = ls" using v by (simp_all add: r_def s_def)
  have rn: "i < lr \<Longrightarrow> r ! i = g ! (4 + i)" and sn: "i < ls \<Longrightarrow> s ! i = g ! (lr + 6 + i)" for i
    using v by (simp_all add: r_def s_def)
  have eq: "g = der_signature r s @ [last g]"
  proof (rule nth_equalityI)
    show "length g = length (der_signature r s @ [last g])" using v(6) len by (simp add: der_signature_def)
    fix i
    assume i: "i < length g"
    have h: "g ! 1 = word_of_nat (lr + ls + 4)"
      by (rule u8_of_unat) (use v(4,6) in simp)
    have h': "g ! 3 = word_of_nat lr" "g ! (5 + lr) = word_of_nat ls"
      by (simp_all add: lr_def ls_def)
    have la: "last g = g ! (lr + ls + 6)"
    proof -
      have "g \<noteq> []" using v(1) by auto
      moreover have "length g - 1 = lr + ls + 6" using v(6) by simp
      ultimately show ?thesis by (simp add: last_conv_nth)
    qed
    consider "i = 0" | "i = 1" | "i = 2" | "i = 3" | j where "i = 4 + j" "j < lr" | "i = lr + 4" | "i = 5 + lr"
      | j where "i = lr + 6 + j" "j < ls" | "i = lr + ls + 6"
    proof -
      have "i < 4 \<or> (4 \<le> i \<and> i < 4 + lr) \<or> i = lr + 4 \<or> i = 5 + lr \<or> (lr + 6 \<le> i \<and> i < lr + 6 + ls) \<or> i = lr + ls + 6"
        using i v(6) by linarith
      moreover have "i < 4 \<Longrightarrow> i = 0 \<or> i = 1 \<or> i = 2 \<or> i = 3" by linarith
      moreover have "4 \<le> i \<Longrightarrow> i < 4 + lr \<Longrightarrow> i = 4 + (i - 4) \<and> i - 4 < lr" by linarith
      moreover have "lr + 6 \<le> i \<Longrightarrow> i < lr + 6 + ls \<Longrightarrow> i = lr + 6 + (i - (lr + 6)) \<and> i - (lr + 6) < ls" by linarith
      ultimately show ?thesis using that by blast
    qed
    then show "g ! i = (der_signature r s @ [last g]) ! i"
      by cases (use v(3,7,11) h h' la len rn sn in \<open>simp_all add: der_signature_def nth_append nth_Cons' del: of_nat_add\<close>)
  qed
  have ri: "der_int_ok r"
    using v(8,9,10) rn [of 0] rn [of 1] len by (auto simp: der_int_ok_def)
  have si: "der_int_ok s"
    using v(12,13,14) sn [of 0] sn [of 1] len by (auto simp: der_int_ok_def add.commute)
  show ?thesis by (rule that [OF eq ri si]) (use v len in simp)
qed

text \<open>C26: \<open>IsValidSignatureEncoding\<close> accepts exactly the strict DER signatures of at most 73 bytes with a hash type byte: two minimally
  encoded non-negative integers. On every one of them the lax parser behind \<open>CPubKey::Verify\<close> recovers the
  same two numbers, or reports overflow when one of them does not fit 256 bits.\<close>
theorem strict_signature_encoding:
  "(IsValidSignatureEncoding g \<longleftrightarrow>
     (\<exists>r s ht. g = der_signature r s @ [ht] \<and> der_int_ok r \<and> der_int_ok s \<and> length r + length s + 7 \<le> 73)) \<and>
   (\<forall>r s. length r + length s + 7 \<le> 73 \<longrightarrow>
     der_lax_compact (der_signature r s) =
       Some (if nat_of_be r < 2 ^ 256 \<and> nat_of_be s < 2 ^ 256 then Some (be_of_nat 32 (nat_of_be r) @ be_of_nat 32 (nat_of_be s)) else None))"
proof
  show "IsValidSignatureEncoding g \<longleftrightarrow>
     (\<exists>r s ht. g = der_signature r s @ [ht] \<and> der_int_ok r \<and> der_int_ok s \<and> length r + length s + 7 \<le> 73)"
    by (rule iffI) (erule IsValidSignatureEncoding_shape, blast, blast intro: IsValidSignatureEncoding_der)
  show "\<forall>r s. length r + length s + 7 \<le> 73 \<longrightarrow>
     der_lax_compact (der_signature r s) =
       Some (if nat_of_be r < 2 ^ 256 \<and> nat_of_be s < 2 ^ 256 then Some (be_of_nat 32 (nat_of_be r) @ be_of_nat 32 (nat_of_be s)) else None)"
    unfolding der_signature_def by (intro allI impI der_lax_compact_strict) simp
qed

theorem strict_signature_encoding_witness:
  "der_lax_compact (der_signature [1] [2]) = Some (Some (be_of_nat 32 1 @ be_of_nat 32 2))"
  using strict_signature_encoding [THEN conjunct2, rule_format, of "[1]" "[2]"] by (simp add: nat_of_be_Cons)

subsection \<open>FindAndDelete\<close>

lemma GetScriptOp_size_drop: "GetScriptOp_size opcode pc = Some (n, pc') \<Longrightarrow> \<exists>k. pc' = drop k pc"
proof -
  assume "GetScriptOp_size opcode pc = Some (n, pc')"
  then have "pc' = drop 0 pc \<or> pc' = drop 1 pc \<or> pc' = drop 2 pc \<or> pc' = drop 4 pc"
    by (auto simp: GetScriptOp_size_def split: if_splits)
  then show ?thesis by blast
qed

lemma GetScriptOp_drop:
  assumes "GetScriptOp pc = Some (opcode, d, pc')"
  shows "\<exists>k. pc' = drop k pc"
proof -
  obtain b q where pc: "pc = b # q" using assms by (cases pc) auto
  show ?thesis
  proof (cases "unat b \<le> OP_PUSHDATA4")
    case True
    then obtain n q' where q': "GetScriptOp_size (unat b) q = Some (n, q')" "pc' = drop n q'"
      using assms pc by (auto simp: Let_def split: option.splits if_splits)
    then obtain k where "q' = drop k q" using GetScriptOp_size_drop by blast
    then have "pc' = drop (Suc (n + k)) pc" using q' pc by simp
    then show ?thesis by blast
  next
    case False
    then have "pc' = drop 1 pc" using assms pc by simp
    then show ?thesis by blast
  qed
qed

lemma GetScriptOp_suffix:
  assumes "GetScriptOp pc = Some (opcode, d, pc')"
  shows "take (length pc - length pc') pc @ pc' = pc"
proof -
  obtain k where k: "pc' = drop k pc" using GetScriptOp_drop [OF assms] by blast
  then show ?thesis by (cases "k \<le> length pc") simp_all
qed

lemma fad_skip_spec: "fad_skip b pc = (pc', n) \<Longrightarrow> pc = concat (replicate n b) @ pc'"
proof (induction b pc arbitrary: pc' n rule: fad_skip.induct)
  case (1 b pc)
  show ?case
  proof (cases "b \<noteq> [] \<and> length pc \<ge> length b \<and> take (length b) pc = b")
    case True
    obtain q k where q: "fad_skip b (drop (length b) pc) = (q, k)" by fastforce
    then have "pc' = q" "n = Suc k" using "1.prems" True by (simp_all add: fad_skip.simps [of b pc])
    moreover have "pc = b @ drop (length b) pc" using True by (metis append_take_drop_id)
    ultimately show ?thesis using "1.IH" [OF True q] by simp
  next
    case False
    then show ?thesis using "1.prems" fad_skip_stop [of b pc] by simp
  qed
qed

lemma FindAndDelete_loop_spec:
  "FindAndDelete_loop b pc = (result, n) \<Longrightarrow> length pc = length result + n * length b \<and> (n = 0 \<longrightarrow> result = pc)"
proof (induction "length pc" arbitrary: pc result n rule: less_induct)
  case less
  obtain pc2 k where f: "fad_skip b pc = (pc2, k)" by fastforce
  have pc: "pc = concat (replicate k b) @ pc2" using fad_skip_spec [OF f] .
  then have l: "length pc = k * length b + length pc2" by (simp add: length_concat sum_list_replicate)
  show ?case
  proof (cases "GetScriptOp pc2")
    case None
    then have "result = pc2" "n = k" using less.prems by (simp_all add: FindAndDelete_loop.simps [of b pc] f)
    then show ?thesis using pc l by auto
  next
    case (Some t)
    obtain opcode d pc' where t: "t = (opcode, d, pc')" by (cases t)
    obtain r m where r: "FindAndDelete_loop b pc' = (r, m)" by fastforce
    have g: "GetScriptOp pc2 = Some (opcode, d, pc')" using Some t by simp
    have ih: "length pc' = length r + m * length b \<and> (m = 0 \<longrightarrow> r = pc')"
      by (rule less.hyps) (use l GetScriptOp_shorter [OF g] r in auto)
    have res: "result = take (length pc2 - length pc') pc2 @ r" "n = k + m"
      using less.prems by (simp_all add: FindAndDelete_loop.simps [of b pc] f g r)
    have "length (take (length pc2 - length pc') pc2) + length pc' = length pc2"
      using GetScriptOp_suffix [OF g] by (metis length_append)
    then have "length pc = length result + n * length b" using ih l res by (simp add: algebra_simps)
    moreover have "result = pc" if "n = 0"
    proof -
      have "k = 0" "m = 0" using res(2) that by simp_all
      then have "pc = pc2" "r = pc'" using pc ih by simp_all
      then show ?thesis using res(1) GetScriptOp_suffix [OF g] by simp
    qed
    ultimately show ?thesis by blast
  qed
qed

text \<open>\<open>FindAndDelete\<close> removes whole copies of the pattern only: the length drops by the reported count times the length of the
  pattern, and a script with no copy found is returned unchanged.\<close>
theorem find_and_delete_count:
  "length s = length (fst (FindAndDelete s b)) + snd (FindAndDelete s b) * length b \<and>
   (snd (FindAndDelete s b) = 0 \<longrightarrow> fst (FindAndDelete s b) = s)"
  using FindAndDelete_loop_spec [of b s "fst (FindAndDelete_loop b s)" "snd (FindAndDelete_loop b s)"]
  by (auto simp: FindAndDelete_def split: prod.splits)

theorem find_and_delete_count_witness:
  "snd (FindAndDelete [0x51, 0x52] [0x53]) = 0 \<and> fst (FindAndDelete [0x51, 0x52] [0x53]) = [0x51, 0x52]"
proof -
  have "FindAndDelete_loop [0x53] [] = ([], 0)"
    by (simp add: FindAndDelete_loop.simps [of _ "[]"] fad_skip.simps [of _ "[]"])
  then have "FindAndDelete_loop [0x53] [0x52] = ([0x52], 0)"
    by (simp add: FindAndDelete_loop.simps [of _ "[0x52]"] fad_skip.simps [of _ "[0x52]"])
  then have "FindAndDelete_loop [0x53] [0x51, 0x52] = ([0x51, 0x52], 0)"
    by (simp add: FindAndDelete_loop.simps [of _ "[0x51, 0x52]"] fad_skip.simps [of _ "[0x51, 0x52]"])
  then have "snd (FindAndDelete [0x51, 0x52] [0x53]) = 0" by (simp add: FindAndDelete_def)
  then show ?thesis using find_and_delete_count by blast
qed

subsection \<open>The condition stack as a list of booleans\<close>

text \<open>What the interpreter relies on: a stack of booleans, top first, of which only emptiness and the absence of \<open>False\<close> can be
  seen.\<close>

datatype cond_op = Push bool | Toggle | Pop

fun list_run :: "cond_op list \<Rightarrow> bool list \<Rightarrow> bool list option" where
  "list_run [] bl = Some bl"
| "list_run (Push f # ops) bl = list_run ops (f # bl)"
| "list_run (Toggle # ops) bl = (case bl of [] \<Rightarrow> None | b # bl' \<Rightarrow> list_run ops ((\<not> b) # bl'))"
| "list_run (Pop # ops) bl = (case bl of [] \<Rightarrow> None | b # bl' \<Rightarrow> list_run ops bl')"

locale condition_stack =
  fixes rep :: "'c \<Rightarrow> bool list \<Rightarrow> bool"
    and new :: 'c
    and emp :: "'c \<Rightarrow> bool"
    and all_true :: "'c \<Rightarrow> bool"
    and push :: "bool \<Rightarrow> 'c \<Rightarrow> 'c"
    and pop :: "'c \<Rightarrow> 'c outcome"
    and toggle :: "'c \<Rightarrow> 'c outcome"
    and cap :: nat
  assumes rep_new: "rep new []"
    and emp_iff: "rep c bl \<Longrightarrow> emp c \<longleftrightarrow> bl = []"
    and all_true_iff: "rep c bl \<Longrightarrow> all_true c \<longleftrightarrow> (\<forall>b \<in> set bl. b)"
    and rep_push: "rep c bl \<Longrightarrow> length bl < cap \<Longrightarrow> rep (push f c) (f # bl)"
    and rep_pop: "rep c (b # bl) \<Longrightarrow> \<exists>c'. pop c = Ret c' \<and> rep c' bl"
    and rep_toggle: "rep c (b # bl) \<Longrightarrow> \<exists>c'. toggle c = Ret c' \<and> rep c' ((\<not> b) # bl)"
    and pop_empty: "rep c [] \<Longrightarrow> pop c = Abort"
    and toggle_empty: "rep c [] \<Longrightarrow> toggle c = Abort"
begin

primrec apply_op :: "cond_op \<Rightarrow> 'c \<Rightarrow> 'c outcome" where
  "apply_op (Push f) c = Ret (push f c)"
| "apply_op Toggle c = toggle c"
| "apply_op Pop c = pop c"

primrec run :: "cond_op list \<Rightarrow> 'c \<Rightarrow> 'c outcome" where
  "run [] c = Ret c"
| "run (a # ops) c = obind (apply_op a c) (run ops)"

lemma run_refines:
  assumes "rep c bl" "length bl + length ops \<le> cap"
  shows "(list_run ops bl = None \<longrightarrow> run ops c = Abort) \<and>
    (\<forall>bl'. list_run ops bl = Some bl' \<longrightarrow> (\<exists>c'. run ops c = Ret c' \<and> rep c' bl'))"
  using assms
proof (induction ops arbitrary: c bl)
  case Nil
  then show ?case by simp
next
  case (Cons a ops)
  show ?case
  proof (cases a)
    case (Push f)
    have "rep (push f c) (f # bl)" using Cons.prems rep_push by simp
    then show ?thesis using Cons.IH [of "push f c" "f # bl"] Cons.prems(2) unfolding Push by simp
  next
    case Toggle
    show ?thesis
    proof (cases "bl = []")
      case True
      then show ?thesis using toggle_empty Cons.prems(1) unfolding Toggle by simp
    next
      case False
      then obtain b bl' where bl: "bl = b # bl'" by (cases bl) auto
      then obtain c' where c': "toggle c = Ret c'" "rep c' ((\<not> b) # bl')" using rep_toggle Cons.prems(1) by blast
      show ?thesis using Cons.IH [OF c'(2)] Cons.prems(2) unfolding Toggle by (simp add: bl c'(1))
    qed
  next
    case Pop
    show ?thesis
    proof (cases "bl = []")
      case True
      then show ?thesis using pop_empty Cons.prems(1) unfolding Pop by simp
    next
      case False
      then obtain b bl' where bl: "bl = b # bl'" by (cases bl) auto
      then obtain c' where c': "pop c = Ret c'" "rep c' bl'" using rep_pop Cons.prems(1) by blast
      show ?thesis using Cons.IH [OF c'(2)] Cons.prems(2) unfolding Pop by (simp add: bl c'(1))
    qed
  qed
qed

end

primrec first_false :: "bool list \<Rightarrow> nat option" where
  "first_false [] = None"
| "first_false (b # bl) = (case first_false bl of Some i \<Rightarrow> Some i | None \<Rightarrow> if b then None else Some (length bl))"

definition ff_pos :: "bool list \<Rightarrow> nat" where
  "ff_pos bl = (case first_false bl of None \<Rightarrow> 4294967295 | Some i \<Rightarrow> i)"

definition cs_rep :: "ConditionStack \<Rightarrow> bool list \<Rightarrow> bool" where
  "cs_rep c bl \<longleftrightarrow> unat (m_stack_size c) = length bl \<and> unat (m_first_false_pos c) = ff_pos bl"

lemma first_false_less: "first_false bl = Some i \<Longrightarrow> i < length bl"
proof (induction bl arbitrary: i)
  case (Cons b bl)
  then show ?case by (cases "first_false bl") (auto split: if_splits dest: less_SucI)
qed simp

lemma first_false_None: "first_false bl = None \<longleftrightarrow> (\<forall>b \<in> set bl. b)"
  by (induction bl) (auto split: option.splits)

lemma unat_u32_succ: "unat (w :: u32) < 2 ^ 32 - 1 \<Longrightarrow> unat (w + 1) = unat w + 1"
  by (simp add: unat_word_ariths)

lemma unat_u32_pred: "0 < unat (w :: u32) \<Longrightarrow> unat (w - 1) = unat w - 1"
  by (simp add: unat_sub word_le_nat_alt Suc_le_eq unat_gt_0)

lemma u32_eq_iff: "(v :: u32) = w \<longleftrightarrow> unat v = unat w"
  by (rule word_unat_eq_iff)

lemma unat_NO_FALSE: "unat NO_FALSE = 2 ^ 32 - 1"
  by (simp add: NO_FALSE_def)

lemma cs_rep_less: "cs_rep c bl \<Longrightarrow> length bl < 2 ^ 32"
  using unat_lt2p [of "m_stack_size c"] by (simp add: cs_rep_def)

lemma ff_pos_all: "length bl < 2 ^ 32 \<Longrightarrow> ff_pos bl = 4294967295 \<longleftrightarrow> first_false bl = None"
  using first_false_less [of bl] by (auto simp: ff_pos_def split: option.splits)

lemma ff_pos_Cons:
  "ff_pos (b # bl) = (if first_false bl = None then (if b then 4294967295 else length bl) else ff_pos bl)"
  by (auto simp: ff_pos_def split: option.splits)

lemma ff_pos_less: "first_false bl \<noteq> None \<Longrightarrow> ff_pos bl < length bl"
  using first_false_less [of bl] by (auto simp: ff_pos_def)

lemma ff_pos_None: "first_false bl = None \<Longrightarrow> ff_pos bl = 4294967295"
  by (simp add: ff_pos_def)

lemma eq_NO_FALSE: "w = NO_FALSE \<longleftrightarrow> unat w = 4294967295"
  by (simp add: u32_eq_iff unat_NO_FALSE)

lemma cs_rep_push:
  assumes "cs_rep c bl" "length bl < 2 ^ 32 - 1"
  shows "cs_rep (cs_push_back f c) (f # bl)"
proof -
  have s: "unat (m_stack_size c) = length bl" "unat (m_first_false_pos c) = ff_pos bl" "unat (m_stack_size c + 1) = length bl + 1"
    using assms by (simp_all add: cs_rep_def unat_u32_succ)
  have "m_first_false_pos c = NO_FALSE \<longleftrightarrow> first_false bl = None"
    using assms(2) ff_pos_all [of bl] by (simp add: eq_NO_FALSE s)
  then show ?thesis
    by (auto simp: cs_push_back_def cs_rep_def s ff_pos_Cons ff_pos_None unat_NO_FALSE)
qed

lemma cs_rep_top:
  assumes "cs_rep c (b # bl)"
  shows "unat (m_stack_size c - 1) = length bl" "0 < m_stack_size c" "m_first_false_pos c = NO_FALSE \<longleftrightarrow> first_false bl = None \<and> b"
    "m_first_false_pos c = m_stack_size c - 1 \<longleftrightarrow> first_false bl = None \<and> \<not> b" "unat (m_first_false_pos c) = ff_pos (b # bl)"
proof -
  have s: "unat (m_stack_size c) = length bl + 1" "unat (m_first_false_pos c) = ff_pos (b # bl)" and l: "length bl < 4294967295"
    using assms cs_rep_less [OF assms] by (simp_all add: cs_rep_def)
  show 1: "unat (m_stack_size c - 1) = length bl" by (simp add: unat_u32_pred s)
  show "0 < m_stack_size c" by (simp add: word_less_nat_alt s)
  show "unat (m_first_false_pos c) = ff_pos (b # bl)" by (rule s)
  show "m_first_false_pos c = NO_FALSE \<longleftrightarrow> first_false bl = None \<and> b"
    unfolding eq_NO_FALSE s ff_pos_Cons using l ff_pos_less [of bl] by auto
  show "m_first_false_pos c = m_stack_size c - 1 \<longleftrightarrow> first_false bl = None \<and> \<not> b"
    unfolding u32_eq_iff s 1 ff_pos_Cons using l ff_pos_less [of bl] by auto
qed

lemma cs_rep_pop:
  assumes "cs_rep c (b # bl)"
  shows "\<exists>c'. cs_pop_back c = Ret c' \<and> cs_rep c' bl"
proof (cases "first_false bl = None \<and> \<not> b")
  case True
  then show ?thesis using cs_rep_top [OF assms]
    by (simp add: cs_pop_back_def assert_that_def Let_def cs_rep_def ff_pos_None unat_NO_FALSE)
next
  case False
  then have "ff_pos (b # bl) = ff_pos bl" by (auto simp: ff_pos_Cons ff_pos_None)
  then show ?thesis using cs_rep_top [OF assms] False
    by (simp add: cs_pop_back_def assert_that_def Let_def cs_rep_def)
qed

lemma cs_rep_toggle:
  assumes "cs_rep c (b # bl)"
  shows "\<exists>c'. cs_toggle_top c = Ret c' \<and> cs_rep c' ((\<not> b) # bl)"
proof (cases "first_false bl = None")
  case True
  have "unat (m_stack_size c) = length bl + 1" using assms by (simp add: cs_rep_def)
  then show ?thesis using cs_rep_top [OF assms] True
    by (cases b) (simp_all add: cs_toggle_top_def assert_that_def cs_rep_def ff_pos_Cons unat_NO_FALSE)
next
  case False
  then have "ff_pos ((\<not> b) # bl) = ff_pos (b # bl)" by (simp only: ff_pos_Cons if_False)
  then have "cs_rep c ((\<not> b) # bl)" using assms by (simp add: cs_rep_def)
  moreover have "cs_toggle_top c = Ret c"
    using cs_rep_top(2,3,4) [OF assms] False by (simp add: cs_toggle_top_def assert_that_def)
  ultimately show ?thesis by blast
qed

interpretation cs: condition_stack cs_rep ConditionStack_new cs_empty cs_all_true cs_push_back cs_pop_back cs_toggle_top "2 ^ 32 - 1"
proof unfold_locales
  show "cs_rep ConditionStack_new []"
    by (simp add: ConditionStack_new_def cs_rep_def ff_pos_None unat_NO_FALSE)
next
  fix c bl
  assume r: "cs_rep c bl"
  then show "cs_empty c \<longleftrightarrow> bl = []" by (simp add: cs_empty_def cs_rep_def u32_eq_iff)
  show "cs_all_true c \<longleftrightarrow> (\<forall>b \<in> set bl. b)"
    using r ff_pos_all [OF cs_rep_less [OF r]] by (simp add: cs_all_true_def cs_rep_def eq_NO_FALSE first_false_None)
next
  fix c
  assume "cs_rep c []"
  then have "\<not> 0 < m_stack_size c" by (simp add: cs_rep_def word_less_nat_alt)
  then show "cs_pop_back c = Abort" "cs_toggle_top c = Abort"
    by (simp_all add: cs_pop_back_def cs_toggle_top_def assert_that_def)
qed (simp_all add: cs_rep_push cs_rep_pop cs_rep_toggle)

text \<open>C28: the interpreter's condition stack, which stores a size and the position of the first \<open>false\<close>, behaves as a stack of
  booleans under every sequence of at most \<open>2^32 - 1\<close> operations: an operation on an empty stack fails an assertion, and
  otherwise \<open>empty\<close> and \<open>all_true\<close> answer as on the list.\<close>
theorem condition_stack_observations:
  assumes "length ops \<le> 2 ^ 32 - 1"
  shows "(list_run ops [] = None \<longleftrightarrow> cs.run ops ConditionStack_new = Abort) \<and>
    (\<forall>bl. list_run ops [] = Some bl \<longrightarrow>
      (\<exists>c. cs.run ops ConditionStack_new = Ret c \<and> cs_empty c = (bl = []) \<and> cs_all_true c = (\<forall>b \<in> set bl. b)))"
proof -
  have r: "(list_run ops [] = None \<longrightarrow> cs.run ops ConditionStack_new = Abort) \<and>
      (\<forall>bl'. list_run ops [] = Some bl' \<longrightarrow> (\<exists>c'. cs.run ops ConditionStack_new = Ret c' \<and> cs_rep c' bl'))"
    using assms by (intro cs.run_refines cs.rep_new) simp
  then have "list_run ops [] = None \<longleftrightarrow> cs.run ops ConditionStack_new = Abort" by (cases "list_run ops []") auto
  moreover have "\<exists>c. cs.run ops ConditionStack_new = Ret c \<and> cs_empty c = (bl = []) \<and> cs_all_true c = (\<forall>b \<in> set bl. b)"
    if bl: "list_run ops [] = Some bl" for bl
  proof -
    obtain c where c: "cs.run ops ConditionStack_new = Ret c" "cs_rep c bl" using r bl by blast
    then show ?thesis using cs.emp_iff [OF c(2)] cs.all_true_iff [OF c(2)] by simp
  qed
  ultimately show ?thesis by blast
qed

theorem condition_stack_observations_witness:
  "\<exists>c. cs.run [Push True, Push False, Toggle] ConditionStack_new = Ret c \<and> \<not> cs_empty c \<and> cs_all_true c"
  using condition_stack_observations [of "[Push True, Push False, Toggle]"] by simp

end
