(* ===== verification/EvalSafety.thy ===== *)
theory EvalSafety
  imports InterpreterParts
begin

text \<open>
  Safety of \<open>EvalScript\<close>: it fails no assertion, and the limits on the stacks hold whenever it returns. The proofs go through a weakest
  precondition on outcomes, one fact per opcode.
\<close>

subsection \<open>Outcomes that do not abort\<close>

named_theorems safe_rules \<open>safety facts of the operations\<close>

definition safe :: "('a \<Rightarrow> bool) \<Rightarrow> 'a outcome \<Rightarrow> bool" where
  "safe P r \<longleftrightarrow> (case r of Ret x \<Rightarrow> P x | Fail _ \<Rightarrow> True | Abort \<Rightarrow> False)"

lemma safe_simps [simp]: "safe P (Ret x) \<longleftrightarrow> P x" "safe P (Fail e)" "\<not> safe P Abort" "safe P (assert_that b m) \<longleftrightarrow> b \<and> safe P m"
  by (auto simp: safe_def assert_that_def)

lemma safe_obind [simp]: "safe P (obind m f) \<longleftrightarrow> safe (\<lambda>x. safe P (f x)) m"
  by (cases m) simp_all

lemma safe_mono: "safe P r \<Longrightarrow> (\<And>x. P x \<Longrightarrow> Q x) \<Longrightarrow> safe Q r"
  by (auto simp: safe_def split: outcome.splits)

lemma safe_if: "(b \<Longrightarrow> safe P x) \<Longrightarrow> (\<not> b \<Longrightarrow> safe P y) \<Longrightarrow> safe P (if b then x else y)"
  by simp

subsection \<open>Numbers on the stack\<close>

lemma CScriptNum_set_vch_bound:
  assumes "length bs \<le> n" "0 < n"
  shows "\<bar>CScriptNum_set_vch bs\<bar> < 2 ^ (8 * n - 1)"
proof (cases bs rule: rev_cases)
  case Nil
  then show ?thesis by simp
next
  case (snoc xs b)
  define m where "m = b AND 0x7F"
  have m: "unat m < 128" by (simp add: m_def u8_and_7F)
  have v: "\<bar>CScriptNum_set_vch bs\<bar> = int (nat_of_le (xs @ [m]))"
    unfolding snoc CScriptNum_set_vch_snoc m_def by (simp add: u8_clear u8_and_80)
  have "256 ^ length xs * unat m \<le> 256 ^ length xs * 127" using m by (intro mult_le_mono2) simp
  then have "nat_of_le (xs @ [m]) < 256 ^ length xs * 128"
    unfolding nat_of_le_snoc using nat_of_le_bound [of xs] by linarith
  also have "\<dots> = 2 ^ (8 * length xs + 7)" by (simp add: power_add power_mult)
  also have "\<dots> \<le> 2 ^ (8 * n - 1)" using assms snoc by (intro power_increasing) simp_all
  finally have "int (nat_of_le (xs @ [m])) < int (2 ^ (8 * n - 1))" by (rule of_nat_less_iff [THEN iffD2])
  then show ?thesis unfolding v by simp
qed

lemma CScriptNum_bound: "CScriptNum bs f n = Some v \<Longrightarrow> 0 < n \<Longrightarrow> \<bar>v\<bar> < 2 ^ (8 * n - 1)"
  using CScriptNum_set_vch_bound [of bs n] by (auto simp: CScriptNum_def split: if_splits)

lemma safe_num_arg: "0 < n \<Longrightarrow> (\<And>v. \<bar>v\<bar> < 2 ^ (8 * n - 1) \<Longrightarrow> P v) \<Longrightarrow> safe P (num_arg env bs n)"
  by (auto simp: num_arg_def split: option.splits dest: CScriptNum_bound)

lemma safe_num4: "(\<And>v. \<bar>v\<bar> < 2147483648 \<Longrightarrow> P v) \<Longrightarrow> safe P (num_arg env bs 4)"
  by (rule safe_num_arg) auto

definition elem_ok :: "bytes \<Rightarrow> bool" where
  "elem_ok x \<longleftrightarrow> length x \<le> MAX_SCRIPT_ELEMENT_SIZE"

definition elems_ok :: "stk \<Rightarrow> bool" where
  "elems_ok st \<longleftrightarrow> (\<forall>x \<in> set st. elem_ok x)"

lemma elems_ok_simps [simp]:
  "elems_ok []" "elems_ok (x # st) \<longleftrightarrow> elem_ok x \<and> elems_ok st" "elems_ok (st @ st') \<longleftrightarrow> elems_ok st \<and> elems_ok st'"
  by (auto simp: elems_ok_def)

lemma elems_ok_take_drop [simp]: "elems_ok st \<Longrightarrow> elems_ok (take n st)" "elems_ok st \<Longrightarrow> elems_ok (drop n st)" "elems_ok st \<Longrightarrow> elems_ok (tl st)"
  by (auto simp: elems_ok_def dest: in_set_takeD in_set_dropD list.set_sel(2))
     (metis list.set_sel(2) list.sel(2))

lemma elems_ok_nth: "elems_ok st \<Longrightarrow> i < length st \<Longrightarrow> elem_ok (st ! i)"
  by (simp add: elems_ok_def)

lemma elem_ok_number [intro]: "\<bar>v\<bar> < 549755813888 \<Longrightarrow> elem_ok (CScriptNum_serialize v)"
  using CScriptNum_serialize_length_le [of 5 v] by (simp add: elem_ok_def MAX_SCRIPT_ELEMENT_SIZE_def)

lemma elem_ok_bool [simp]: "elem_ok (of_bool_vch b)"
  by (simp add: of_bool_vch_def vchTrue_def vchFalse_def elem_ok_def MAX_SCRIPT_ELEMENT_SIZE_def)

definition stack_ok :: "stk \<Rightarrow> bool" where
  "stack_ok st \<longleftrightarrow> elems_ok st \<and> length st < 2 ^ 31"


lemma stack_ok_D: "stack_ok st \<Longrightarrow> elems_ok st" "stack_ok st \<Longrightarrow> int (length st) < 2147483648"
  by (auto simp: stack_ok_def)

lemma elem_ok_length: "elem_ok x \<Longrightarrow> length x < 549755813888"
  by (simp add: elem_ok_def MAX_SCRIPT_ELEMENT_SIZE_def)

subsection \<open>Every stack operation is safe\<close>

lemma safe_shuffles:
  assumes "stack_ok st"
  shows "safe elems_ok (op_2DROP st)" "safe elems_ok (op_2DUP st)" "safe elems_ok (op_3DUP st)" "safe elems_ok (op_2OVER st)"
    "safe elems_ok (op_2ROT st)" "safe elems_ok (op_2SWAP st)" "safe elems_ok (op_IFDUP st)" "safe elems_ok (op_DROP st)"
    "safe elems_ok (op_DUP st)" "safe elems_ok (op_NIP st)" "safe elems_ok (op_OVER st)" "safe elems_ok (op_ROT st)"
    "safe elems_ok (op_SWAP st)" "safe elems_ok (op_TUCK st)" "safe elems_ok (op_VERIFY st)" "safe elems_ok (op_RETURN st)"
    "safe elems_ok (op_EQUAL opcode st)" "safe elems_ok (op_upgradable_nop env st)" "safe elems_ok (Ret st)"
  using stack_ok_D(1) [OF assms]
  unfolding op_2DROP_def op_2DUP_def op_3DUP_def op_2OVER_def op_2ROT_def op_2SWAP_def op_IFDUP_def op_DROP_def op_DUP_def op_NIP_def
    op_OVER_def op_ROT_def op_SWAP_def op_TUCK_def op_VERIFY_def op_RETURN_def op_EQUAL_def op_upgradable_nop_def Let_def
  by (auto split: list.split)

lemma safe_counts:
  assumes "stack_ok st"
  shows "opcode \<le> OP_16 \<Longrightarrow> safe elems_ok (op_push_number opcode st)" "safe elems_ok (op_DEPTH st)" "safe elems_ok (op_SIZE st)"
  using stack_ok_D [OF assms]
  by (auto simp: op_push_number_def op_DEPTH_def op_SIZE_def intro!: elem_ok_number dest: elem_ok_length split: list.split)

lemma safe_locks:
  assumes "stack_ok st"
  shows "safe elems_ok (op_CHECKLOCKTIMEVERIFY env st)" "safe elems_ok (op_CHECKSEQUENCEVERIFY env st)"
  using stack_ok_D(1) [OF assms]
  by (auto simp: op_CHECKLOCKTIMEVERIFY_def op_CHECKSEQUENCEVERIFY_def intro!: safe_num_arg split: list.split)

lemma safe_PICK_ROLL:
  assumes "stack_ok st"
  shows "safe elems_ok (op_PICK_ROLL env opcode st)"
  using stack_ok_D(1) [OF assms]
  by (auto simp: op_PICK_ROLL_def Let_def intro!: safe_num4 elems_ok_nth)

lemma unary_num_bound:
  assumes "opcode \<in> {OP_1ADD, OP_1SUB, OP_NEGATE, OP_ABS, OP_NOT, OP_0NOTEQUAL}" "\<bar>v\<bar> < 2147483648"
  shows "\<exists>w. unary_num opcode v = Some w \<and> \<bar>w\<bar> < 549755813888"
  using assms by (auto simp: unary_num_def CScriptNum_add_assign_def CScriptNum_sub_assign_def CScriptNum_uminus_def)

lemma binary_num_bound:
  assumes "opcode \<in> {OP_ADD, OP_SUB, OP_BOOLAND, OP_BOOLOR, OP_NUMEQUAL, OP_NUMEQUALVERIFY, OP_NUMNOTEQUAL, OP_LESSTHAN,
      OP_GREATERTHAN, OP_LESSTHANOREQUAL, OP_GREATERTHANOREQUAL, OP_MIN, OP_MAX}" "\<bar>v\<bar> < 2147483648" "\<bar>w\<bar> < 2147483648"
  shows "\<exists>x. binary_num opcode v w = Some x \<and> \<bar>x\<bar> < 549755813888"
  using assms by (auto simp: binary_num_def)

lemma safe_unary:
  assumes "stack_ok st" "opcode \<in> {OP_1ADD, OP_1SUB, OP_NEGATE, OP_ABS, OP_NOT, OP_0NOTEQUAL}"
  shows "safe elems_ok (op_unary env opcode st)"
  using stack_ok_D(1) [OF assms(1)] unary_num_bound [OF assms(2)]
  by (fastforce simp: op_unary_def of_assert_def intro!: safe_num4 split: list.split)

lemma safe_binary:
  assumes "stack_ok st" "opcode \<in> {OP_ADD, OP_SUB, OP_BOOLAND, OP_BOOLOR, OP_NUMEQUAL, OP_NUMEQUALVERIFY, OP_NUMNOTEQUAL, OP_LESSTHAN,
      OP_GREATERTHAN, OP_LESSTHANOREQUAL, OP_GREATERTHANOREQUAL, OP_MIN, OP_MAX}"
  shows "safe elems_ok (op_binary env opcode st)"
proof (cases "length st < 2")
  case True
  then show ?thesis by (auto simp: op_binary_def split: list.split)
next
  case False
  then obtain x2 x1 st' where st: "st = x2 # x1 # st'" by (cases st; cases "tl st") auto
  have "safe elems_ok (obind (of_assert (binary_num opcode bn1 bn2)) (\<lambda>bn.
            let v = CScriptNum_serialize bn
            in if opcode = OP_NUMEQUALVERIFY then (if CastToBool v then Ret st' else Fail SCRIPT_ERR_NUMEQUALVERIFY)
               else Ret (v # st')))" if "\<bar>bn1\<bar> < 2147483648" "\<bar>bn2\<bar> < 2147483648" for bn1 bn2
    using binary_num_bound [OF assms(2) that] stack_ok_D(1) [OF assms(1)] by (auto simp: of_assert_def Let_def st)
  then show ?thesis unfolding op_binary_def st list.case safe_obind by (intro safe_num4) simp
qed

lemma safe_WITHIN:
  assumes "stack_ok st"
  shows "safe elems_ok (op_WITHIN env st)"
  using stack_ok_D(1) [OF assms] by (auto simp: op_WITHIN_def intro!: safe_num4 split: list.split)

lemma safe_hash:
  assumes "stack_ok st" "hash_sizes_ok (hashes env)"
  shows "safe elems_ok (op_hash env opcode st)"
proof -
  have "elem_ok (RIPEMD160 (hashes env) x)" "elem_ok (SHA1 (hashes env) x)" "elem_ok (SHA256 (hashes env) x)"
    "elem_ok (CHash160 (hashes env) x)" "elem_ok (CHash256 (hashes env) x)" for x
    using assms(2) by (simp_all add: elem_ok_def MAX_SCRIPT_ELEMENT_SIZE_def) (simp_all add: hash_sizes_ok_def)
  then show ?thesis using stack_ok_D(1) [OF assms(1)] by (auto simp: op_hash_def split: list.split)
qed

lemma safe_stack_op:
  assumes "stack_op env opcode = Some f" "stack_ok st" "hash_sizes_ok (hashes env)"
  shows "safe elems_ok (f st)"
  using assms(1) unfolding stack_op_def
  by (simp only: split: if_splits; (elim disjE conjE)?; clarsimp)
     (insert safe_shuffles [OF assms(2)] safe_counts [OF assms(2)] safe_locks [OF assms(2)] safe_PICK_ROLL [OF assms(2)]
       safe_unary [OF assms(2)] safe_binary [OF assms(2)] safe_WITHIN [OF assms(2)] safe_hash [OF assms(2,3)], auto)


subsection \<open>Signature checks\<close>

text \<open>What a checker must guarantee: no assertion fails when the execution data is initialised as the interpreter does, and only
  the cached output hash changes.\<close>

definition ed_ok :: "SigVersion \<Rightarrow> ScriptExecutionData \<Rightarrow> bool" where
  "ed_ok sv ed \<longleftrightarrow> m_annex_init ed \<and> (sv = TAPSCRIPT \<longrightarrow> m_tapleaf_hash_init ed \<and> m_codeseparator_pos_init ed)"

definition checker_ok :: "SignatureChecker \<Rightarrow> bool" where
  "checker_ok ch \<longleftrightarrow>
     (\<forall>sig pk code sv. (sv = BASE \<or> sv = WITNESS_V0) \<longrightarrow> CheckECDSASignature ch sig pk code sv \<noteq> None) \<and>
     (\<forall>sig pk sv ed e. (sv = TAPROOT \<or> sv = TAPSCRIPT) \<and> length pk = 32 \<and> ed_ok sv ed \<longrightarrow>
        safe (\<lambda>ed'. ed' = ed\<lparr>m_output_hash := m_output_hash ed'\<rparr>) (CheckSchnorrSignature ch sig pk sv ed e))"

lemma BaseSignatureChecker_ok: "checker_ok BaseSignatureChecker"
  by (simp add: checker_ok_def BaseSignatureChecker_def)

lemma DeferringSignatureChecker_ok: "checker_ok (DeferringSignatureChecker ch) = checker_ok ch"
  by (simp add: checker_ok_def DeferringSignatureChecker_def)

definition env_ok :: "eval_env \<Rightarrow> bool" where
  "env_ok env \<longleftrightarrow> sigversion env \<noteq> TAPROOT \<and> hash_sizes_ok (hashes env) \<and> checker_ok (checker env)"

text \<open>The part of the execution data that a script run under tapscript rules needs.\<close>

definition tap_ok :: "eval_env \<Rightarrow> ScriptExecutionData \<Rightarrow> bool" where
  "tap_ok env ed \<longleftrightarrow> (sigversion env = TAPSCRIPT \<longrightarrow>
     m_annex_init ed \<and> m_tapleaf_hash_init ed \<and> m_validation_weight_left_init ed \<and> 0 \<le> m_validation_weight_left ed)"

definition data_ok :: "eval_env \<Rightarrow> ScriptExecutionData \<Rightarrow> bool" where
  "data_ok env ed \<longleftrightarrow> tap_ok env ed \<and> m_codeseparator_pos_init ed"

lemma safe_encodings: "safe (\<lambda>_. True) (CheckSignatureEncoding E sig fl)" "safe (\<lambda>_. True) (CheckPubKeyEncoding pk fl sv)"
  by (simp_all add: CheckSignatureEncoding_def CheckPubKeyEncoding_def IsLowDERSignature_def split: outcome.split)

lemma safe_of_check: "env_ok env \<Longrightarrow> sigversion env = BASE \<or> sigversion env = WITNESS_V0 \<Longrightarrow> (\<And>b. P b) \<Longrightarrow>
    safe P (of_check (CheckECDSASignature (checker env) sig pk code (sigversion env)))"
  by (auto simp: env_ok_def checker_ok_def of_check_def split: option.split)

lemma safe_pre_tapscript:
  assumes "env_ok env" "sigversion env = BASE \<or> sigversion env = WITNESS_V0"
  shows "safe (\<lambda>_. True) (EvalChecksigPreTapscript env sig pk code)"
  using assms safe_encodings safe_of_check [OF assms]
  by (auto simp: EvalChecksigPreTapscript_def Let_def split: prod.split intro!: safe_mono [OF safe_encodings(1)] safe_mono [OF safe_encodings(2)])

lemma safe_tapscript:
  assumes "env_ok env" "sigversion env = TAPSCRIPT" "data_ok env ed"
  shows "safe (\<lambda>(b, ed'). data_ok env ed') (EvalChecksigTapscript env sig pk ed)"
proof -
  have w: "safe (data_ok env) (tapscript_weight b ed)" for b
    using assms by (auto simp: tapscript_weight_def data_ok_def tap_ok_def Let_def)
  have c: "safe (\<lambda>ed'. data_ok env ed') (CheckSchnorrSignature (checker env) sig pk TAPSCRIPT ed1 e)"
    if "data_ok env ed1" "length pk = 32" for ed1 e
  proof (rule safe_mono)
    show "safe (\<lambda>ed'. ed' = ed1\<lparr>m_output_hash := m_output_hash ed'\<rparr>) (CheckSchnorrSignature (checker env) sig pk TAPSCRIPT ed1 e)"
      using assms that by (simp add: env_ok_def checker_ok_def ed_ok_def data_ok_def tap_ok_def)
    fix ed'
    assume "ed' = ed1\<lparr>m_output_hash := m_output_hash ed'\<rparr>"
    then show "data_ok env ed'" using that(1)
      by (metis (no_types, lifting) ScriptExecutionData.ext_inject ScriptExecutionData.surjective ScriptExecutionData.update_convs(10) data_ok_def tap_ok_def)
  qed
  show ?thesis
    using assms by (auto simp: EvalChecksigTapscript_def Let_def intro!: safe_mono [OF w] c)
qed

lemma safe_EvalChecksig:
  assumes "env_ok env" "data_ok env ed"
  shows "safe (\<lambda>(b, ed'). data_ok env ed') (EvalChecksig env sig pk code ed)"
  using assms safe_pre_tapscript [OF assms(1), of sig pk code] safe_tapscript [OF assms(1) _ assms(2)]
  by (cases "sigversion env") (auto simp: EvalChecksig_def env_ok_def elim!: safe_mono)


lemma safe_multisig_counts:
  "safe (\<lambda>(ops', k, m). m \<le> k \<and> ops' \<le> MAX_OPS_PER_SCRIPT \<and> k + m + 3 \<le> length st) (multisig_counts env ops st)"
  unfolding multisig_counts_def Let_def by (auto intro!: safe_num4)

lemma safe_multisig_script_code: "safe (\<lambda>_. True) (multisig_script_code env sigs code)"
  by (induction env sigs code rule: multisig_script_code.induct) (auto simp: Let_def split: prod.split)

lemma safe_multisig_check:
  assumes "env_ok env" "sigversion env = BASE \<or> sigversion env = WITNESS_V0"
  shows "length sigs \<le> length keys \<Longrightarrow> safe (\<lambda>_. True) (multisig_check env code sigs keys)"
  using assms
proof (induction env code sigs keys rule: multisig_check.induct)
  case (2 env code sig sigs pk keys)
  have "safe (\<lambda>_. True) (if length sigs' > length keys then Ret False else multisig_check env code sigs' keys)"
    if "sigs' = (if b then sigs else sig # sigs)" for b sigs'
    using 2 that by (cases "length sigs' > length keys") (auto split: if_splits)
  then show ?case
    using safe_of_check [OF "2.prems"(2,3)]
    by (auto simp: Let_def intro!: safe_mono [OF safe_encodings(1)] safe_mono [OF safe_encodings(2)])
qed simp_all

lemma safe_multisig_cleanup: "elems_ok st \<Longrightarrow> safe elems_ok (multisig_cleanup env b i k st)"
  by (induction env b i k st rule: multisig_cleanup.induct) auto

lemma safe_multisig_result: "elems_ok st \<Longrightarrow> safe elems_ok (multisig_result env opcode b st)"
  by (auto simp: multisig_result_def split: list.split)

subsection \<open>Every instruction is safe\<close>

definition eval_inv :: "eval_env \<Rightarrow> eval_state \<Rightarrow> bool list \<Rightarrow> bool" where
  "eval_inv env s bl \<longleftrightarrow>
     elems_ok (stack s) \<and> elems_ok (altstack s) \<and> cs_rep (vfExec s) bl \<and> data_ok env (execdata s)"

definition sizes_ok :: "eval_state \<Rightarrow> bool" where
  "sizes_ok s \<longleftrightarrow> length (stack s) + length (altstack s) < 2 ^ 31"

text \<open>After an operation the invariant holds again, with at most one more open conditional.\<close>

definition eval_post :: "eval_env \<Rightarrow> bool list \<Rightarrow> eval_state \<Rightarrow> bool" where
  "eval_post env bl s \<longleftrightarrow> (\<exists>bl'. eval_inv env s bl' \<and> length bl' \<le> length bl + 1)"

lemma eval_postI: "eval_inv env s bl' \<Longrightarrow> length bl' \<le> length bl + 1 \<Longrightarrow> eval_post env bl s"
  by (auto simp: eval_post_def)

lemma safe_conditionals:
  assumes "eval_inv env s bl" "length bl < 2 ^ 32 - 1"
  shows "safe (eval_post env bl) (eval_IF env opcode fExec s)" "safe (eval_post env bl) (eval_ELSE s)" "safe (eval_post env bl) (eval_ENDIF s)"
proof -
  have cs: "cs_rep (vfExec s) bl" using assms by (simp add: eval_inv_def)
  have p: "cs_rep (cs_push_back f (vfExec s)) (f # bl)" for f using cs.rep_push [OF cs] assms(2) by simp
  have q: "eval_post env bl (s\<lparr>stack := st, vfExec := cs_push_back f (vfExec s)\<rparr>)" if "elems_ok st" for st f
    by (rule eval_postI [of _ _ "f # bl"]) (use assms(1) that p in \<open>simp_all add: eval_inv_def\<close>)
  have r: "eval_post env bl (s\<lparr>vfExec := cs_push_back f (vfExec s)\<rparr>)" for f
    by (rule eval_postI [of _ _ "f # bl"]) (use assms(1) p in \<open>simp_all add: eval_inv_def\<close>)
  have e: "elems_ok (stack s)" using assms(1) by (simp add: eval_inv_def)
  show "safe (eval_post env bl) (eval_IF env opcode fExec s)"
  proof (cases "stack s")
    case Nil
    then show ?thesis by (simp add: eval_IF_def r)
  next
    case (Cons x st)
    then show ?thesis using e by (simp add: eval_IF_def r q Let_def)
  qed
  show "safe (eval_post env bl) (eval_ELSE s)"
  proof (cases bl)
    case Nil
    then show ?thesis using cs.emp_iff [OF cs] by (simp add: eval_ELSE_def)
  next
    case (Cons b bl')
    then obtain c where "cs_toggle_top (vfExec s) = Ret c" "cs_rep c ((\<not> b) # bl')" using cs.rep_toggle cs by blast
    then show ?thesis using assms(1) Cons by (auto simp: eval_ELSE_def eval_inv_def intro!: eval_postI [of _ _ "(\<not> b) # bl'"])
  qed
  show "safe (eval_post env bl) (eval_ENDIF s)"
  proof (cases bl)
    case Nil
    then show ?thesis using cs.emp_iff [OF cs] by (simp add: eval_ENDIF_def)
  next
    case (Cons b bl')
    then obtain c where "cs_pop_back (vfExec s) = Ret c" "cs_rep c bl'" using cs.rep_pop cs by blast
    then show ?thesis using assms(1) Cons by (auto simp: eval_ENDIF_def eval_inv_def intro!: eval_postI [of _ _ bl'])
  qed
qed

lemma safe_alt_and_separator:
  assumes "eval_inv env s bl"
  shows "safe (eval_post env bl) (eval_TOALTSTACK s)" "safe (eval_post env bl) (eval_FROMALTSTACK s)" "safe (eval_post env bl) (eval_CODESEPARATOR pc s)"
  using assms by (auto simp: eval_TOALTSTACK_def eval_FROMALTSTACK_def eval_CODESEPARATOR_def eval_inv_def data_ok_def tap_ok_def
    intro!: eval_postI [of _ _ bl] split: list.split)

lemma safe_CHECKSIG:
  assumes "env_ok env" "eval_inv env s bl"
  shows "safe (eval_post env bl) (eval_CHECKSIG env opcode s)"
proof -
  have d: "data_ok env (execdata s)" using assms(2) by (simp add: eval_inv_def)
  show ?thesis
    using assms(2) by (auto simp: eval_CHECKSIG_def Let_def eval_inv_def split: list.split prod.split
      intro!: safe_mono [OF safe_EvalChecksig [OF assms(1) d]] eval_postI [of _ _ bl])
qed

lemma safe_CHECKSIGADD:
  assumes "env_ok env" "eval_inv env s bl"
  shows "safe (eval_post env bl) (eval_CHECKSIGADD env s)"
proof -
  have d: "data_ok env (execdata s)" using assms(2) by (simp add: eval_inv_def)
  show ?thesis
    using assms(2) by (auto simp: eval_CHECKSIGADD_def eval_inv_def split: list.split prod.split
      intro!: safe_num4 safe_mono [OF safe_EvalChecksig [OF assms(1) d]] eval_postI [of _ _ bl] elem_ok_number)
qed

lemma safe_CHECKMULTISIG:
  assumes "env_ok env" "eval_inv env s bl"
  shows "safe (eval_post env bl) (eval_CHECKMULTISIG env opcode s)"
proof (cases "sigversion env = TAPSCRIPT")
  case True
  then show ?thesis by (simp add: eval_CHECKMULTISIG_def)
next
  case False
  then have sv: "sigversion env = BASE \<or> sigversion env = WITNESS_V0"
    using assms(1) by (cases "sigversion env") (auto simp: env_ok_def)
  have e: "elems_ok (stack s)" using assms(2) by (simp add: eval_inv_def)
  have rest: "safe (eval_post env bl) (multisig_finish env opcode s ops k m)"
    if "m \<le> k" "k + m + 3 \<le> length (stack s)" for ops k m
    unfolding multisig_finish_def Let_def safe_obind
    by (rule safe_mono [OF safe_multisig_script_code], rule safe_mono [OF safe_multisig_check [OF assms(1) sv]], use that in simp,
        rule safe_mono [OF safe_multisig_cleanup [OF e]], erule safe_mono [OF safe_multisig_result],
        use assms(2) in \<open>auto simp: eval_inv_def intro!: eval_postI [of _ _ bl]\<close>)
  show ?thesis
    unfolding eval_CHECKMULTISIG_def using False by (auto intro!: safe_mono [OF safe_multisig_counts] rest)
qed


lemma safe_eval_opcode:
  assumes "env_ok env" "eval_inv env s bl" "sizes_ok s" "length bl < 2 ^ 32 - 1"
  shows "safe (eval_post env bl) (eval_opcode env opcode fExec pc s)"
proof -
  have h: "hash_sizes_ok (hashes env)" and st: "stack_ok (stack s)"
    using assms(1,2,3) by (simp_all add: env_ok_def eval_inv_def stack_ok_def sizes_ok_def)
  have "safe (eval_post env bl) (obind (f (stack s)) (\<lambda>st. Ret (s\<lparr>stack := st\<rparr>)))" if "stack_op env opcode = Some f" for f
    using safe_stack_op [OF that st h] assms(2)
    by (auto elim!: safe_mono simp: eval_inv_def intro!: eval_postI [of _ _ bl])
  then show ?thesis
    using safe_conditionals [OF assms(2,4)] safe_alt_and_separator [OF assms(2)] safe_CHECKSIG [OF assms(1,2)]
      safe_CHECKSIGADD [OF assms(1,2)] safe_CHECKMULTISIG [OF assms(1,2)]
    unfolding eval_opcode_def by (auto split: option.split)
qed

lemma safe_eval_action:
  assumes "env_ok env" "eval_inv env s bl" "sizes_ok s" "length bl < 2 ^ 32 - 1" "elem_ok d"
  shows "safe (eval_post env bl) (eval_action env opcode d pc s)"
proof -
  have "eval_post env bl s" "eval_post env bl (s\<lparr>stack := d # stack s\<rparr>)"
    using assms(2,5) by (auto simp: eval_inv_def intro!: eval_postI [of _ _ bl])
  then show ?thesis
    using safe_eval_opcode [OF assms(1,2,3,4)]
    by (auto simp: eval_action_def Let_def of_assert_def CheckMinimalPush_def)
qed

text \<open>One pass of the loop leaves at most \<open>MAX_STACK_SIZE\<close> elements on the two stacks together, and at most
  \<open>MAX_OPS_PER_SCRIPT\<close> counted operations outside tapscript.\<close>

lemma safe_eval_instruction:
  assumes "env_ok env" "eval_inv env s bl" "sizes_ok s" "length bl < 2 ^ 32 - 1"
  shows "safe (\<lambda>s'. eval_post env bl s' \<and> length (stack s') + length (altstack s') \<le> MAX_STACK_SIZE) (eval_instruction env opcode d pc s)"
proof -
  define s1 where "s1 = (if (sigversion env = BASE \<or> sigversion env = WITNESS_V0) \<and> opcode > OP_16 then s\<lparr>nOpCount := nOpCount s + 1\<rparr> else s)"
  have s1: "eval_inv env s1 bl" "sizes_ok s1" using assms(2,3) by (auto simp: s1_def eval_inv_def sizes_ok_def)
  show ?thesis
  proof (cases "elem_ok d")
    case True
    have "safe (\<lambda>s'. safe (\<lambda>s'. eval_post env bl s' \<and> length (stack s') + length (altstack s') \<le> MAX_STACK_SIZE)
        (if length (stack s') + length (altstack s') > MAX_STACK_SIZE then Fail SCRIPT_ERR_STACK_SIZE else Ret s')) (eval_action env opcode d pc s1)"
      by (rule safe_mono [OF safe_eval_action [OF assms(1) s1 assms(4) True]]) simp
    then show ?thesis unfolding eval_instruction_def s1_def [symmetric] Let_def safe_obind by (simp add: safe_obind)
  next
    case False
    then show ?thesis by (simp add: eval_instruction_def elem_ok_def)
  qed
qed

lemma safe_EvalScript_loop:
  assumes "env_ok env" "eval_inv env s bl" "length (stack s) + length (altstack s) \<le> n" "n < 2 ^ 31" "length bl + length pc < 2 ^ 32"
  shows "safe (\<lambda>s'. (\<exists>bl'. eval_inv env s' bl') \<and> length (stack s') + length (altstack s') \<le> max n MAX_STACK_SIZE) (EvalScript_loop env pc s)"
  using assms
proof (induction pc arbitrary: s bl n rule: script_induct)
  case (step pc)
  show ?case
  proof (cases "pc = [] \<or> GetScriptOp pc = None")
    case True
    then show ?thesis using step.prems by (auto simp: EvalScript_loop.simps [of env pc])
  next
    case False
    then obtain opcode d pc' where g: "GetScriptOp pc = Some (opcode, d, pc')" by (cases "GetScriptOp pc") auto
    have l: "length pc' < length pc" using GetScriptOp_shorter [OF g] .
    have i: "safe (\<lambda>s'. eval_post env bl s' \<and> length (stack s') + length (altstack s') \<le> MAX_STACK_SIZE) (eval_instruction env opcode d pc' s)"
      by (rule safe_eval_instruction) (use step.prems l in \<open>auto simp: sizes_ok_def\<close>)
    have "safe (\<lambda>z. (\<exists>bl'. eval_inv env z bl') \<and> length (stack z) + length (altstack z) \<le> max n MAX_STACK_SIZE)
        (EvalScript_loop env pc' (s'\<lparr>opcode_pos := opcode_pos s' + 1\<rparr>))"
      if s': "eval_post env bl s'" "length (stack s') + length (altstack s') \<le> MAX_STACK_SIZE" for s'
    proof -
      obtain bl' where b: "eval_inv env s' bl'" "length bl' \<le> length bl + 1" using s'(1) by (auto simp: eval_post_def)
      have "safe (\<lambda>z. (\<exists>bl'. eval_inv env z bl') \<and> length (stack z) + length (altstack z) \<le> max MAX_STACK_SIZE MAX_STACK_SIZE)
        (EvalScript_loop env pc' (s'\<lparr>opcode_pos := opcode_pos s' + 1\<rparr>))"
        by (rule step.IH [OF g, of _ bl']) (use step.prems(1,5) b s'(2) l in \<open>auto simp: eval_inv_def MAX_STACK_SIZE_def\<close>)
      then show ?thesis by (rule safe_mono) auto
    qed
    then show ?thesis using False g i by (simp add: EvalScript_loop.simps [of env pc]) (rule safe_mono [OF i], simp)
  qed
qed

lemma safe_EvalScript:
  assumes "env_ok env" "tap_ok env ed" "elems_ok st" "length st < 2 ^ 31" "length s < 2 ^ 32"
  shows "safe (\<lambda>(st', ed'). elems_ok st' \<and> length st' \<le> max (length st) MAX_STACK_SIZE \<and> tap_ok env ed') (EvalScript env st s ed)"
proof -
  have "eval_inv env (eval_start s st ed) []"
    using assms(2,3) cs.rep_new by (simp add: eval_inv_def eval_start_def data_ok_def tap_ok_def)
  then have l: "safe (\<lambda>z. (\<exists>bl'. eval_inv env z bl') \<and> length (stack z) + length (altstack z) \<le> max (length st) MAX_STACK_SIZE)
      (EvalScript_loop env s (eval_start s st ed))"
    by (rule safe_EvalScript_loop [OF assms(1)]) (use assms(4,5) in \<open>simp_all add: eval_start_def\<close>)
  show ?thesis
    unfolding EvalScript_def using assms(1)
    by (cases "sigversion env") (auto simp: env_ok_def eval_inv_def data_ok_def intro!: safe_mono [OF l])
qed

text \<open>C8: evaluating a script aborts on no assertion, whatever the script: the condition stack is never popped when empty, script
  number arithmetic never overflows, the signature checkers are called as they require. When evaluation succeeds
  every stack element has at most 520 bytes, the stack has at most 1000 elements (or is no larger than the one it
  started from), and the validation weight of tapscript has not been overdrawn.\<close>
theorem eval_script_safe:
  assumes "env_ok env" "tap_ok env ed" "elems_ok st" "length st < 2 ^ 31" "length s < 2 ^ 32"
  shows "EvalScript env st s ed \<noteq> Abort \<and>
    (\<forall>st' ed'. EvalScript env st s ed = Ret (st', ed') \<longrightarrow>
       elems_ok st' \<and> length st' \<le> max (length st) MAX_STACK_SIZE \<and> tap_ok env ed')"
  using safe_EvalScript [OF assms] by (auto simp: safe_def)

definition example_hashes :: hash_functions where
  "example_hashes = \<lparr>SHA256 = (\<lambda>_. replicate 32 0), RIPEMD160 = (\<lambda>_. replicate 20 0), SHA1 = (\<lambda>_. replicate 20 0)\<rparr>"

definition example_secp :: secp256k1 where
  "example_secp =
     \<lparr>secp256k1_ec_pubkey_parse = (\<lambda>b. Some b), secp256k1_ecdsa_signature_parse_compact = (\<lambda>b. (True, b)),
      secp256k1_ecdsa_signature_normalize = (\<lambda>b. (False, b)), secp256k1_ecdsa_verify = (\<lambda>_ _ _. True),
      secp256k1_xonly_pubkey_parse = (\<lambda>b. Some b), secp256k1_schnorrsig_verify = (\<lambda>_ _ _. True),
      secp256k1_xonly_pubkey_tweak_add_check = (\<lambda>_ _ _ _. True)\<rparr>"

definition example_env :: eval_env where
  "example_env = \<lparr>hashes = example_hashes, secp = example_secp, flags = 0, checker = BaseSignatureChecker, sigversion = BASE\<rparr>"

lemma example_env_ok: "env_ok example_env"
  by (simp add: env_ok_def example_env_def example_hashes_def hash_sizes_ok_def BaseSignatureChecker_ok)

theorem eval_script_safe_witness:
  "EvalScript example_env [] [0x51] ScriptExecutionData_new \<noteq> Abort \<and>
   (\<exists>ed'. EvalScript example_env [] [0x51] ScriptExecutionData_new = Ret ([[1]], ed') \<and> elems_ok [[1]] \<and> tap_ok example_env ed')"
proof -
  have h: "env_ok example_env" "tap_ok example_env ScriptExecutionData_new" "elems_ok []" "length ([] :: stk) < 2 ^ 31" "length [0x51 :: u8] < 2 ^ 32"
    by (simp_all add: example_env_ok) (simp add: tap_ok_def example_env_def)
  have n: "CScriptNum_serialize 1 = [1]"
    by (simp add: CScriptNum_serialize_def scriptnum_bytes.simps [of "Suc 0"] Let_def)
  obtain ed' where e: "EvalScript example_env [] [0x51] ScriptExecutionData_new = Ret ([[1]], ed')"
    by (simp add: EvalScript_def EvalScript_loop.simps [of _ "[0x51]"] EvalScript_loop.simps [of _ "[]"] eval_instruction_def eval_action_def
        eval_opcode_def stack_op_def op_push_number_def n Let_def eval_start_def cs_all_true_def cs_empty_def ConditionStack_new_def
        disabled_opcode_def MAX_SCRIPT_ELEMENT_SIZE_def MAX_STACK_SIZE_def MAX_SCRIPT_SIZE_def assert_that_def example_env_def)
  show ?thesis using eval_script_safe [OF h] e by blast
qed

end
