(* ===== verification/SigHashProps.thy ===== *)
theory SigHashProps
  imports SigHash EvalSafety
begin

text \<open>
  Properties of the signature hashes: the cached and the uncached hash agree, what each hash type leaves open, what the legacy
  serialiser does with code separators, and that the transaction checker meets the interpreter's contract.
\<close>

subsection \<open>Code separators\<close>

function script_parses :: "script \<Rightarrow> bool" where
  "script_parses it = (if it = [] then True else case GetScriptOp it of None \<Rightarrow> False | Some (_, _, it') \<Rightarrow> script_parses it')"
  by pat_completeness auto
termination
  by (relation "measure length") (auto dest: GetScriptOp_shorter)

function without_separators :: "script \<Rightarrow> bytes" where
  "without_separators it =
     (case GetScriptOp it of
        None \<Rightarrow> []
      | Some (opcode, _, it') \<Rightarrow> (if opcode = OP_CODESEPARATOR then [] else take (length it - length it') it) @ without_separators it')"
  by pat_completeness auto
termination
  by (relation "measure length") (auto dest: GetScriptOp_shorter)

declare script_parses.simps [simp del] without_separators.simps [simp del]

lemma script_parses_cases:
  assumes "script_parses it" "it \<noteq> []"
  obtains opcode d it' where "GetScriptOp it = Some (opcode, d, it')" "script_parses it'"
  using assms by (auto simp: script_parses.simps [of it] split: option.splits)

lemma GetScriptOp_separator:
  assumes "GetScriptOp it = Some (OP_CODESEPARATOR, d, it')"
  shows "length it = Suc (length it')"
  using assms by (cases it) (auto simp: Let_def split: if_splits option.splits)

lemma count_separators_length: "script_parses it \<Longrightarrow> length it = length (without_separators it) + count_separators it"
proof (induction it rule: script_induct)
  case (step it)
  show ?case
  proof (cases "it = []")
    case True
    then show ?thesis by (simp add: without_separators.simps [of "[]"] count_separators.simps [of "[]"])
  next
    case False
    then obtain opcode d it' where g: "GetScriptOp it = Some (opcode, d, it')" "script_parses it'"
      using step.prems by (auto elim: script_parses_cases)
    then show ?thesis
      using step.IH [OF g(1)] GetScriptOp_separator [of it d it'] GetScriptOp_shorter [OF g(1)]
      by (auto simp: without_separators.simps [of it] count_separators.simps [of it])
  qed
qed

lemma write_script_code_eq: "script_parses it \<Longrightarrow> write_script_code (pre @ it) it = pre @ without_separators it"
proof (induction it arbitrary: pre rule: script_induct)
  case (step it)
  show ?case
  proof (cases "it = []")
    case True
    then show ?thesis by (simp add: without_separators.simps [of "[]"] write_script_code.simps [of _ "[]"])
  next
    case False
    then obtain opcode d it' where g: "GetScriptOp it = Some (opcode, d, it')" "script_parses it'"
      using step.prems by (auto elim: script_parses_cases)
    have sp: "it = take (length it - length it') it @ it'" using GetScriptOp_suffix [OF g(1)] by simp
    show ?thesis
    proof (cases "opcode = OP_CODESEPARATOR")
      case True
      then have l: "length it = Suc (length it')" using g(1) GetScriptOp_separator by simp
      have "write_script_code it' it' = without_separators it'" using step.IH [OF g(1) g(2), of "[]"] by simp
      then show ?thesis using True g l
        by (simp add: write_script_code.simps [of _ it] without_separators.simps [of it])
    next
      case nsep: False
      define chunk where "chunk = take (length it - length it') it"
      have it: "it = chunk @ it'" using sp by (simp add: chunk_def)
      have "write_script_code (pre @ it) it = write_script_code (pre @ it) it'"
        using nsep g by (simp add: write_script_code.simps [of _ it])
      also have "\<dots> = write_script_code ((pre @ chunk) @ it') it'" using it by simp
      also have "\<dots> = (pre @ chunk) @ without_separators it'" by (rule step.IH [OF g(1) g(2)])
      also have "\<dots> = pre @ without_separators it"
        using nsep g by (simp add: without_separators.simps [of it] chunk_def)
      finally show ?thesis .
    qed
  qed
qed

text \<open>for a script whose instructions all decode, the legacy signature hash serialises the script with every \<open>OP_CODESEPARATOR\<close>
  removed, under the matching length prefix.\<close>
theorem separators_removed:
  assumes "script_parses code"
  shows "SerializeScriptCode code = Serialize_bytes (without_separators code)"
  using count_separators_length [OF assms] write_script_code_eq [OF assms, of "[]"]
  by (simp add: SerializeScriptCode_def Serialize_bytes_def)

theorem separators_removed_witness:
  "script_parses [0x51, 0xab] \<and> SerializeScriptCode [0x51, 0xab] = Serialize_bytes (without_separators [0x51, 0xab])"
proof -
  have "script_parses [0x51, 0xab]"
    by (simp add: script_parses.simps [of "[0x51, 0xab]"] script_parses.simps [of "[0xab]"] script_parses.simps [of "[]"])
  then show ?thesis using separators_removed by blast
qed

subsection \<open>The cached hash is the hash\<close>

definition cache_agrees :: "hash_functions \<Rightarrow> CTransaction \<Rightarrow> PrecomputedTransactionData \<Rightarrow> bool" where
  "cache_agrees F tx d \<longleftrightarrow> (m_bip143_segwit_ready d \<longrightarrow>
     hashPrevouts d = SHA256Uint256 F (GetPrevoutsSHA256 F tx) \<and> hashSequence d = SHA256Uint256 F (GetSequencesSHA256 F tx) \<and>
     hashOutputs d = SHA256Uint256 F (GetOutputsSHA256 F tx))"

lemma Init_agrees:
  assumes "PrecomputedTransactionData_Init F tx spent force PrecomputedTransactionData_new = Some d"
  shows "cache_agrees F tx d"
  using assms
  by (auto simp: PrecomputedTransactionData_Init_def PrecomputedTransactionData_new_def cache_agrees_def Init_shared_def Init_bip143_def
    Init_bip341_def Let_def split: if_splits prod.splits)

text \<open>C23: the BIP 143 hash computed from the precomputed data of the same transaction equals the one computed from scratch, for every
  hash type, input, script and amount, whatever spent outputs were given and whether or not the data was forced.\<close>
theorem cached_sighash_agrees:
  assumes "PrecomputedTransactionData_Init F tx spent force PrecomputedTransactionData_new = Some d"
  shows "SignatureHash F code tx n t amt sv (Some d) = SignatureHash F code tx n t amt sv None"
  using Init_agrees [OF assms]
  by (simp add: SignatureHash_def sighash_prevouts_def sighash_sequence_def sighash_outputs_def cache_agrees_def)

theorem cached_sighash_agrees_witness:
  "\<exists>d. PrecomputedTransactionData_Init example_hashes example_tx [] True PrecomputedTransactionData_new = Some d \<and>
     m_bip143_segwit_ready d \<and>
     SignatureHash example_hashes [0x51] example_tx 0 1 0 WITNESS_V0 (Some d) = SignatureHash example_hashes [0x51] example_tx 0 1 0 WITNESS_V0 None"
proof -
  have f: "Init_features xs ys r i (True, True) = (True, True)" for xs ys r i by (induction xs) auto
  obtain d where d: "PrecomputedTransactionData_Init example_hashes example_tx [] True PrecomputedTransactionData_new = Some d" "m_bip143_segwit_ready d"
    by (simp add: PrecomputedTransactionData_Init_def PrecomputedTransactionData_new_def Let_def f Init_bip143_def Init_shared_def Init_bip341_def)
  then show ?thesis using cached_sighash_agrees [OF d(1)] by blast
qed

subsection \<open>What the hash types leave open\<close>

text \<open>a signature with \<open>SIGHASH_ANYONECANPAY\<close> stays valid when the other inputs of the transaction change, and one with \<open>SIGHASH_NONE\<close>
  when its outputs change: the signature hash is the same, for legacy and version 0 witness scripts.\<close>
theorem sighash_freedom:
  "(fAnyoneCanPay t \<and> n < length (vin tx) \<and> n < length ins \<and> ins ! n = vin tx ! n \<longrightarrow>
     SignatureHash F code (tx\<lparr>vin := ins\<rparr>) n t amt sv None = SignatureHash F code tx n t amt sv None) \<and>
   (fHashNone t \<longrightarrow> SignatureHash F code (tx\<lparr>vout := outs\<rparr>) n t amt sv None = SignatureHash F code tx n t amt sv None)"
proof (intro conjI impI; (elim conjE)?)
  assume a: "fAnyoneCanPay t" "n < length (vin tx)" "n < length ins" "ins ! n = vin tx ! n"
  have "SerializeInput (tx\<lparr>vin := ins\<rparr>) code n t = SerializeInput tx code n t"
    using a by (intro ext) (simp add: SerializeInput_def Let_def)
  moreover have "SerializeOutput (tx\<lparr>vin := ins\<rparr>) n t = SerializeOutput tx n t" by (intro ext) (simp add: SerializeOutput_def)
  ultimately have "SignatureSerializer (tx\<lparr>vin := ins\<rparr>) code n t = SignatureSerializer tx code n t"
    using a(1) by (simp add: SignatureSerializer_def Let_def)
  moreover have "sighash_prevouts F (tx\<lparr>vin := ins\<rparr>) t None = sighash_prevouts F tx t None"
    "sighash_sequence F (tx\<lparr>vin := ins\<rparr>) t None = sighash_sequence F tx t None"
    "sighash_outputs F (tx\<lparr>vin := ins\<rparr>) n t None = sighash_outputs F tx n t None"
    using a(1) by (simp_all add: sighash_prevouts_def sighash_sequence_def sighash_outputs_def GetOutputsSHA256_def)
  ultimately show "SignatureHash F code (tx\<lparr>vin := ins\<rparr>) n t amt sv None = SignatureHash F code tx n t amt sv None"
    using a(2,3,4) by (simp add: SignatureHash_def)
next
  assume a: "fHashNone t"
  then have n: "\<not> fHashSingle t" by (simp add: fHashNone_def fHashSingle_def SIGHASH_NONE_def SIGHASH_SINGLE_def)
  have "SerializeInput (tx\<lparr>vout := outs\<rparr>) code n t = SerializeInput tx code n t" by (intro ext) (simp add: SerializeInput_def)
  then have "SignatureSerializer (tx\<lparr>vout := outs\<rparr>) code n t = SignatureSerializer tx code n t"
    using a by (simp add: SignatureSerializer_def Let_def)
  moreover have "sighash_prevouts F (tx\<lparr>vout := outs\<rparr>) t None = sighash_prevouts F tx t None"
    "sighash_sequence F (tx\<lparr>vout := outs\<rparr>) t None = sighash_sequence F tx t None"
    "sighash_outputs F (tx\<lparr>vout := outs\<rparr>) n t None = sighash_outputs F tx n t None"
    using a n by (simp_all add: sighash_prevouts_def sighash_sequence_def sighash_outputs_def GetPrevoutsSHA256_def GetSequencesSHA256_def)
  ultimately show "SignatureHash F code (tx\<lparr>vout := outs\<rparr>) n t amt sv None = SignatureHash F code tx n t amt sv None"
    using n by (simp add: SignatureHash_def)
qed

theorem sighash_freedom_witness:
  "SignatureHash example_hashes [0x51] (example_tx\<lparr>vin := [vin example_tx ! 0, vin example_tx ! 0]\<rparr>) 0 0x81 0 BASE None =
     SignatureHash example_hashes [0x51] example_tx 0 0x81 0 BASE None \<and>
   SignatureHash example_hashes [0x51] (example_tx\<lparr>vout := []\<rparr>) 0 2 0 BASE None = SignatureHash example_hashes [0x51] example_tx 0 2 0 BASE None"
  using sighash_freedom [where t = "0x81" and n = 0 and tx = example_tx and ins = "[vin example_tx ! 0, vin example_tx ! 0]" and F = example_hashes
      and code = "[0x51]" and amt = 0 and sv = BASE]
    sighash_freedom [where t = 2 and F = example_hashes and code = "[0x51]" and tx = example_tx and outs = "[]" and n = 0 and amt = 0 and sv = BASE]
  by (simp add: fAnyoneCanPay_def fHashNone_def SIGHASH_ANYONECANPAY_def SIGHASH_NONE_def example_tx_def)

subsection \<open>The transaction checker meets the contract\<close>

lemma SignatureHashSchnorr_safe:
  assumes "sv = TAPROOT \<or> sv = TAPSCRIPT" "i < length (vin tx)" "ed_ok sv ed"
    "mdb = FAIL \<or> (m_bip341_taproot_ready d \<and> m_spent_outputs_ready d)"
  shows "\<exists>ed' h. SignatureHashSchnorr F ed tx i t sv d mdb = Some (ed', h) \<and> ed' = ed\<lparr>m_output_hash := m_output_hash ed'\<rparr>"
  unfolding SignatureHashSchnorr_def Let_def using assms by (auto simp: ed_ok_def HandleMissingData_def)

text \<open>with an input index in range, and all data present when missing data is an assertion failure, the transaction signature
  checker never aborts on initialised execution data and changes nothing there but the cached output hash.\<close>
theorem tx_checker_ok:
  assumes "nIn c < length (vin (txTo c))"
    and "m_mdb c = FAIL \<or> (0 \<le> sint (amount c) \<and> (\<exists>d. txdata c = Some d \<and> m_bip341_taproot_ready d \<and> m_spent_outputs_ready d))"
  shows "checker_ok (TransactionSignatureChecker F E c)"
proof -
  have e: "tx_CheckECDSASignature F E c sig pk code sv \<noteq> None" for sig pk code sv
    using assms by (auto simp: tx_CheckECDSASignature_def Let_def SignatureHash_def HandleMissingData_def)
  have s: "safe (\<lambda>ed'. ed' = ed\<lparr>m_output_hash := m_output_hash ed'\<rparr>) (tx_CheckSchnorrSignature F E c sig pk sv ed err)"
    if g: "sv = TAPROOT \<or> sv = TAPSCRIPT" "length pk = 32" "ed_ok sv ed" for sig pk sv ed err
  proof (cases "txdata c")
    case None
    then show ?thesis using assms(2) g by (auto simp: tx_CheckSchnorrSignature_def Let_def HandleMissingData_def)
  next
    case (Some d)
    define t where "t = (if length sig = 65 then last sig else ucast SIGHASH_DEFAULT)"
    obtain ed' h where h: "SignatureHashSchnorr F ed (txTo c) (nIn c) t sv d (m_mdb c) = Some (ed', h)" "ed' = ed\<lparr>m_output_hash := m_output_hash ed'\<rparr>"
      using SignatureHashSchnorr_safe [OF g(1) assms(1) g(3), of "m_mdb c" d F t] assms(2) Some by auto
    show ?thesis
      using g Some h by (cases h) (auto simp: tx_CheckSchnorrSignature_def Let_def t_def [symmetric] VerifySchnorr_def split: option.split)
  qed
  show ?thesis using e s by (simp add: checker_ok_def TransactionSignatureChecker_def)
qed

theorem tx_checker_ok_witness:
  "checker_ok (TransactionSignatureChecker example_hashes example_secp \<lparr>txTo = example_tx, m_mdb = FAIL, nIn = 0, amount = 0, txdata = None\<rparr>)"
  by (rule tx_checker_ok) (simp_all add: example_tx_def)

end
