(* ===== verification/ScriptVerify.thy ===== *)
theory ScriptVerify
  imports SigHashProps
begin

text \<open>
  Model of \<open>VerifyScript\<close>, the witness program rules and the witness signature operation count, \<open>src/bitcoin/src/script/interpreter.cpp\<close> from
  \<open>ExecuteWitnessScript\<close> on. A witness is its list of elements, the last one on top of the stack; stacks are listed from the top.
\<close>

definition TAPROOT_LEAF_MASK :: u8 where "TAPROOT_LEAF_MASK = 0xfe"
definition TAPROOT_LEAF_TAPSCRIPT :: u8 where "TAPROOT_LEAF_TAPSCRIPT = 0xc0"
definition TAPROOT_CONTROL_BASE_SIZE :: nat where "TAPROOT_CONTROL_BASE_SIZE = 33"
definition TAPROOT_CONTROL_NODE_SIZE :: nat where "TAPROOT_CONTROL_NODE_SIZE = 32"
definition TAPROOT_CONTROL_MAX_NODE_COUNT :: nat where "TAPROOT_CONTROL_MAX_NODE_COUNT = 128"
definition TAPROOT_CONTROL_MAX_SIZE :: nat where
  "TAPROOT_CONTROL_MAX_SIZE = TAPROOT_CONTROL_BASE_SIZE + TAPROOT_CONTROL_NODE_SIZE * TAPROOT_CONTROL_MAX_NODE_COUNT"

definition with_sigversion :: "eval_env \<Rightarrow> SigVersion \<Rightarrow> eval_env" where
  "with_sigversion env sv = env\<lparr>sigversion := sv\<rparr>"

subsection \<open>Witness scripts\<close>

text \<open>The scan for \<open>OP_SUCCESSx\<close>: true when one is found.\<close>

function find_op_success :: "eval_env \<Rightarrow> script \<Rightarrow> bool outcome" where
  "find_op_success env pc =
     (if pc = [] then Ret False
      else case GetScriptOp pc of
             None \<Rightarrow> Fail SCRIPT_ERR_BAD_OPCODE
           | Some (opcode, _, pc') \<Rightarrow>
               if IsOpSuccess opcode then
                 (if has env SCRIPT_VERIFY_DISCOURAGE_OP_SUCCESS then Fail SCRIPT_ERR_DISCOURAGE_OP_SUCCESS else Ret True)
               else find_op_success env pc')"
  by pat_completeness auto
termination
  by (relation "measure (\<lambda>(env, pc). length pc)") (auto dest: GetScriptOp_shorter)

declare find_op_success.simps [simp del]

definition ExecuteWitnessScript_run :: "eval_env \<Rightarrow> stk \<Rightarrow> script \<Rightarrow> ScriptExecutionData \<Rightarrow> unit outcome" where
  "ExecuteWitnessScript_run env st exec_script ed =
     (if \<exists>x \<in> set st. length x > MAX_SCRIPT_ELEMENT_SIZE then Fail SCRIPT_ERR_PUSH_SIZE
      else obind (EvalScript env st exec_script ed) (\<lambda>(st, _).
        case st of
          [x] \<Rightarrow> if \<not> CastToBool x then Fail SCRIPT_ERR_EVAL_FALSE else Ret ()
        | _ \<Rightarrow> Fail SCRIPT_ERR_CLEANSTACK))"

definition ExecuteWitnessScript :: "eval_env \<Rightarrow> stk \<Rightarrow> script \<Rightarrow> ScriptExecutionData \<Rightarrow> unit outcome" where
  "ExecuteWitnessScript env st exec_script ed =
     (if sigversion env = TAPSCRIPT then
        obind (find_op_success env exec_script) (\<lambda>success.
          if success then Ret ()
          else if length st > MAX_STACK_SIZE then Fail SCRIPT_ERR_STACK_SIZE
          else ExecuteWitnessScript_run env st exec_script ed)
      else ExecuteWitnessScript_run env st exec_script ed)"

subsection \<open>Taproot commitments\<close>

definition HASHER_TAPLEAF :: "hash_functions \<Rightarrow> bytes" where
  "HASHER_TAPLEAF F = TaggedHash F (ascii ''TapLeaf'')"

definition HASHER_TAPBRANCH :: "hash_functions \<Rightarrow> bytes" where
  "HASHER_TAPBRANCH F = TaggedHash F (ascii ''TapBranch'')"

definition ComputeTapleafHash :: "hash_functions \<Rightarrow> u8 \<Rightarrow> bytes \<Rightarrow> uint256" where
  "ComputeTapleafHash F leaf_version s =
     HashWriter_GetSHA256 F (HASHER_TAPLEAF F @ [leaf_version] @ WriteCompactSize (word_of_nat (length s)) @ s)"

fun lexicographical_compare :: "bytes \<Rightarrow> bytes \<Rightarrow> bool" where
  "lexicographical_compare (a # as) (b # bs) = (if a < b then True else if b < a then False else lexicographical_compare as bs)"
| "lexicographical_compare [] (b # bs) = True"
| "lexicographical_compare as [] = False"

definition ComputeTapbranchHash :: "hash_functions \<Rightarrow> bytes \<Rightarrow> bytes \<Rightarrow> uint256" where
  "ComputeTapbranchHash F a b =
     HashWriter_GetSHA256 F (HASHER_TAPBRANCH F @ (if lexicographical_compare a b then a @ b else b @ a))"

definition control_size_ok :: "bytes \<Rightarrow> bool" where
  "control_size_ok control \<longleftrightarrow>
     length control \<ge> TAPROOT_CONTROL_BASE_SIZE \<and> length control \<le> TAPROOT_CONTROL_MAX_SIZE \<and>
     (length control - TAPROOT_CONTROL_BASE_SIZE) mod TAPROOT_CONTROL_NODE_SIZE = 0"

primrec taproot_path :: "hash_functions \<Rightarrow> nat \<Rightarrow> bytes \<Rightarrow> uint256 \<Rightarrow> uint256" where
  "taproot_path F 0 nodes k = k"
| "taproot_path F (Suc n) nodes k =
     taproot_path F n (drop TAPROOT_CONTROL_NODE_SIZE nodes) (ComputeTapbranchHash F (ser_uint256 k) (take TAPROOT_CONTROL_NODE_SIZE nodes))"

definition ComputeTaprootMerkleRoot :: "hash_functions \<Rightarrow> bytes \<Rightarrow> uint256 \<Rightarrow> uint256 outcome" where
  "ComputeTaprootMerkleRoot F control tapleaf_hash =
     assert_that (control_size_ok control)
       (let path_len = (length control - TAPROOT_CONTROL_BASE_SIZE) div TAPROOT_CONTROL_NODE_SIZE
        in Ret (taproot_path F path_len (drop TAPROOT_CONTROL_BASE_SIZE control) tapleaf_hash))"

definition VerifyTaprootCommitment :: "hash_functions \<Rightarrow> secp256k1 \<Rightarrow> bytes \<Rightarrow> bytes \<Rightarrow> uint256 \<Rightarrow> bool outcome" where
  "VerifyTaprootCommitment F E control program tapleaf_hash =
     assert_that (length control \<ge> TAPROOT_CONTROL_BASE_SIZE \<and> length program \<ge> 32)
       (let p = take (TAPROOT_CONTROL_BASE_SIZE - 1) (drop 1 control); q = program
        in obind (ComputeTaprootMerkleRoot F control tapleaf_hash) (\<lambda>merkle_root.
             Ret (CheckTapTweak F E q p merkle_root (control ! 0 AND 1 \<noteq> 0))))"

subsection \<open>Witness programs\<close>

definition p2wpkh_script :: "bytes \<Rightarrow> script" where
  "p2wpkh_script program =
     push_data [word_of_nat OP_DUP, word_of_nat OP_HASH160] program @ [word_of_nat OP_EQUALVERIFY, word_of_nat OP_CHECKSIG]"

definition VerifyWitnessProgram_v0 :: "eval_env \<Rightarrow> stk \<Rightarrow> bytes \<Rightarrow> unit outcome" where
  "VerifyWitnessProgram_v0 env st program =
     (if length program = WITNESS_V0_SCRIPTHASH_SIZE then
        (case st of
           [] \<Rightarrow> Fail SCRIPT_ERR_WITNESS_PROGRAM_WITNESS_EMPTY
         | script_bytes # st' \<Rightarrow>
             if SHA256 (hashes env) script_bytes \<noteq> program then Fail SCRIPT_ERR_WITNESS_PROGRAM_MISMATCH
             else ExecuteWitnessScript (with_sigversion env WITNESS_V0) st' script_bytes ScriptExecutionData_new)
      else if length program = WITNESS_V0_KEYHASH_SIZE then
        (if length st \<noteq> 2 then Fail SCRIPT_ERR_WITNESS_PROGRAM_MISMATCH
         else ExecuteWitnessScript (with_sigversion env WITNESS_V0) st (p2wpkh_script program) ScriptExecutionData_new)
      else Fail SCRIPT_ERR_WITNESS_PROGRAM_WRONG_LENGTH)"

text \<open>The optional annex: the stack without it and the execution data that records it.\<close>

definition taproot_annex :: "eval_env \<Rightarrow> stk \<Rightarrow> stk \<times> ScriptExecutionData" where
  "taproot_annex env st =
     (if length st \<ge> 2 \<and> hd st \<noteq> [] \<and> hd st ! 0 = ANNEX_TAG then
        (tl st, ScriptExecutionData_new\<lparr>m_annex_hash := HashWriter_GetSHA256 (hashes env) (Serialize_bytes (hd st)),
                                       m_annex_present := True, m_annex_init := True\<rparr>)
      else (st, ScriptExecutionData_new\<lparr>m_annex_present := False, m_annex_init := True\<rparr>))"

definition taproot_script_path :: "eval_env \<Rightarrow> bytes list \<Rightarrow> stk \<Rightarrow> bytes \<Rightarrow> ScriptExecutionData \<Rightarrow> unit outcome" where
  "taproot_script_path env witness st program ed =
     (case st of
        control # s # st' \<Rightarrow>
          if \<not> control_size_ok control then Fail SCRIPT_ERR_TAPROOT_WRONG_CONTROL_SIZE
          else let leaf = ComputeTapleafHash (hashes env) (control ! 0 AND TAPROOT_LEAF_MASK) s; ed = ed\<lparr>m_tapleaf_hash := leaf\<rparr>
          in obind (VerifyTaprootCommitment (hashes env) (secp env) control program leaf) (\<lambda>ok.
             if \<not> ok then Fail SCRIPT_ERR_WITNESS_PROGRAM_MISMATCH
             else let ed = ed\<lparr>m_tapleaf_hash_init := True\<rparr>
             in if control ! 0 AND TAPROOT_LEAF_MASK = TAPROOT_LEAF_TAPSCRIPT then
                  ExecuteWitnessScript (with_sigversion env TAPSCRIPT) st' s
                    (ed\<lparr>m_validation_weight_left := int (length (Ser_witness witness)) + VALIDATION_WEIGHT_OFFSET,
                        m_validation_weight_left_init := True\<rparr>)
                else if has env SCRIPT_VERIFY_DISCOURAGE_UPGRADABLE_TAPROOT_VERSION
                  then Fail SCRIPT_ERR_DISCOURAGE_UPGRADABLE_TAPROOT_VERSION
                else Ret ())
      | _ \<Rightarrow> Abort)"

definition VerifyWitnessProgram_v1 :: "eval_env \<Rightarrow> bytes list \<Rightarrow> bytes \<Rightarrow> unit outcome" where
  "VerifyWitnessProgram_v1 env witness program =
     (if \<not> has env SCRIPT_VERIFY_TAPROOT then Ret ()
      else if length witness = 0 then Fail SCRIPT_ERR_WITNESS_PROGRAM_WITNESS_EMPTY
      else let (st, ed) = taproot_annex env (rev witness)
      in if length st = 1 then
           obind (CheckSchnorrSignature (checker env) (hd st) program TAPROOT ed SCRIPT_ERR_OK) (\<lambda>_. Ret ())
         else taproot_script_path env witness st program ed)"

definition VerifyWitnessProgram :: "eval_env \<Rightarrow> bytes list \<Rightarrow> nat \<Rightarrow> bytes \<Rightarrow> bool \<Rightarrow> unit outcome" where
  "VerifyWitnessProgram env witness witversion program is_p2sh =
     (if witversion = 0 then VerifyWitnessProgram_v0 env (rev witness) program
      else if witversion = 1 \<and> length program = WITNESS_V1_TAPROOT_SIZE \<and> \<not> is_p2sh then VerifyWitnessProgram_v1 env witness program
      else if \<not> is_p2sh \<and> IsPayToAnchor_program witversion program then Ret ()
      else if has env SCRIPT_VERIFY_DISCOURAGE_UPGRADABLE_WITNESS_PROGRAM then Fail SCRIPT_ERR_DISCOURAGE_UPGRADABLE_WITNESS_PROGRAM
      else Ret ())"

subsection \<open>VerifyScript\<close>

definition eval_base :: "eval_env \<Rightarrow> stk \<Rightarrow> script \<Rightarrow> stk outcome" where
  "eval_base env st s = obind (EvalScript (with_sigversion env BASE) st s ScriptExecutionData_new) (\<lambda>(st, _). Ret st)"

definition top_true :: "stk \<Rightarrow> unit outcome" where
  "top_true st = (if st = [] then Fail SCRIPT_ERR_EVAL_FALSE else if \<not> CastToBool (hd st) then Fail SCRIPT_ERR_EVAL_FALSE else Ret ())"

text \<open>The stack and whether a witness program was found, after the check of a bare witness program.\<close>

definition verify_bare_witness :: "eval_env \<Rightarrow> script \<Rightarrow> script \<Rightarrow> bytes list \<Rightarrow> stk \<Rightarrow> (stk \<times> bool) outcome" where
  "verify_bare_witness env ssig spk witness st =
     (if has env SCRIPT_VERIFY_WITNESS then
        (case IsWitnessProgram spk of
           Some (witnessversion, witnessprogram) \<Rightarrow>
             if length ssig \<noteq> 0 then Fail SCRIPT_ERR_WITNESS_MALLEATED
             else obind (VerifyWitnessProgram env witness witnessversion witnessprogram False) (\<lambda>_. Ret ([last st], True))
         | None \<Rightarrow> Ret (st, False))
      else Ret (st, False))"

definition verify_p2sh_witness :: "eval_env \<Rightarrow> script \<Rightarrow> script \<Rightarrow> bytes list \<Rightarrow> stk \<times> bool \<Rightarrow> (stk \<times> bool) outcome" where
  "verify_p2sh_witness env ssig pubKey2 witness r =
     (if has env SCRIPT_VERIFY_WITNESS then
        (case IsWitnessProgram pubKey2 of
           Some (witnessversion, witnessprogram) \<Rightarrow>
             if ssig \<noteq> push_data [] pubKey2 then Fail SCRIPT_ERR_WITNESS_MALLEATED_P2SH
             else obind (VerifyWitnessProgram env witness witnessversion witnessprogram True) (\<lambda>_. Ret ([last (fst r)], True))
         | None \<Rightarrow> Ret r)
      else Ret r)"

definition verify_p2sh :: "eval_env \<Rightarrow> script \<Rightarrow> script \<Rightarrow> bytes list \<Rightarrow> stk \<Rightarrow> stk \<times> bool \<Rightarrow> (stk \<times> bool) outcome" where
  "verify_p2sh env ssig spk witness stackCopy r =
     (if has env SCRIPT_VERIFY_P2SH \<and> IsPayToScriptHash spk then
        (if \<not> IsPushOnly ssig then Fail SCRIPT_ERR_SIG_PUSHONLY
         else case stackCopy of
                [] \<Rightarrow> Abort
              | pubKey2 # st \<Rightarrow>
                  obind (eval_base env st pubKey2) (\<lambda>st.
                  obind (top_true st) (\<lambda>_. verify_p2sh_witness env ssig pubKey2 witness (st, snd r))))
      else Ret r)"

definition verify_final :: "eval_env \<Rightarrow> bytes list \<Rightarrow> stk \<times> bool \<Rightarrow> unit outcome" where
  "verify_final env witness r =
     obind (if has env SCRIPT_VERIFY_CLEANSTACK then
              assert_that (has env SCRIPT_VERIFY_P2SH \<and> has env SCRIPT_VERIFY_WITNESS)
                (if length (fst r) \<noteq> 1 then Fail SCRIPT_ERR_CLEANSTACK else Ret ())
            else Ret ()) (\<lambda>_.
     if has env SCRIPT_VERIFY_WITNESS then
       assert_that (has env SCRIPT_VERIFY_P2SH)
         (if \<not> snd r \<and> witness \<noteq> [] then Fail SCRIPT_ERR_WITNESS_UNEXPECTED else Ret ())
     else Ret ())"

definition VerifyScript :: "eval_env \<Rightarrow> script \<Rightarrow> script \<Rightarrow> bytes list \<Rightarrow> unit outcome" where
  "VerifyScript env ssig spk witness =
     (if has env SCRIPT_VERIFY_SIGPUSHONLY \<and> \<not> IsPushOnly ssig then Fail SCRIPT_ERR_SIG_PUSHONLY
      else obind (eval_base env [] ssig) (\<lambda>st1.
           obind (eval_base env st1 spk) (\<lambda>st2.
           obind (top_true st2) (\<lambda>_.
           obind (verify_bare_witness env ssig spk witness st2) (\<lambda>r.
           obind (verify_p2sh env ssig spk witness st1 r) (\<lambda>r.
             verify_final env witness r))))))"

subsection \<open>Witness signature operations\<close>

definition WitnessSigOps :: "nat \<Rightarrow> bytes \<Rightarrow> bytes list \<Rightarrow> nat" where
  "WitnessSigOps witversion witprogram witness =
     (if witversion = 0 then
        (if length witprogram = WITNESS_V0_KEYHASH_SIZE then 1
         else if length witprogram = WITNESS_V0_SCRIPTHASH_SIZE \<and> length witness > 0 then GetSigOpCount (last witness) True
         else 0)
      else 0)"

definition CountWitnessSigOps :: "script \<Rightarrow> script \<Rightarrow> bytes list \<Rightarrow> u32 \<Rightarrow> nat option" where
  "CountWitnessSigOps ssig spk witness fl =
     (if \<not> flag_set fl SCRIPT_VERIFY_WITNESS then Some 0
      else if \<not> flag_set fl SCRIPT_VERIFY_P2SH then None
      else case IsWitnessProgram spk of
             Some (witnessversion, witnessprogram) \<Rightarrow> Some (WitnessSigOps witnessversion witnessprogram witness)
           | None \<Rightarrow>
               if IsPayToScriptHash spk \<and> IsPushOnly ssig then
                 (case last_push ssig [] of
                    None \<Rightarrow> Some 0
                  | Some subscript \<Rightarrow>
                      (case IsWitnessProgram subscript of
                         Some (witnessversion, witnessprogram) \<Rightarrow> Some (WitnessSigOps witnessversion witnessprogram witness)
                       | None \<Rightarrow> Some 0))
               else Some 0)"

end
