(* ===== verification/ScriptVerifyProps.thy ===== *)
theory ScriptVerifyProps
  imports ScriptVerify
begin

text \<open>
  Properties of \<open>VerifyScript\<close>: it aborts on no assertion, and what it takes to spend a version 0 key hash output.
\<close>

subsection \<open>Running a fixed script\<close>

lemma EvalScript_loop_Nil [simp]: "EvalScript_loop env [] s = Ret s"
  by (simp add: EvalScript_loop.simps [of env "[]"])

lemma EvalScript_loop_step:
  "GetScriptOp pc = Some (opcode, d, pc') \<Longrightarrow>
     EvalScript_loop env pc s =
       obind (eval_instruction env opcode d pc' s) (\<lambda>s. EvalScript_loop env pc' (s\<lparr>opcode_pos := opcode_pos s + 1\<rparr>))"
  by (cases pc) (simp_all add: EvalScript_loop.simps [of env "_ # _"])

lemma all_true_new [simp]: "cs_all_true ConditionStack_new" "cs_empty ConditionStack_new"
  by (simp_all add: cs_all_true_def cs_empty_def ConditionStack_new_def)

lemmas eval_defs = eval_instruction_def eval_action_def eval_opcode_def stack_op_def disabled_opcode_def Let_def
  MAX_SCRIPT_ELEMENT_SIZE_def MAX_STACK_SIZE_def MAX_SCRIPT_SIZE_def MAX_OPS_PER_SCRIPT_def

lemma with_sigversion_simps [simp]:
  "sigversion (with_sigversion env sv) = sv" "flags (with_sigversion env sv) = flags env" "hashes (with_sigversion env sv) = hashes env"
  "checker (with_sigversion env sv) = checker env" "secp (with_sigversion env sv) = secp env"
  by (simp_all add: with_sigversion_def)

text \<open>The states passed through by the key hash script.\<close>

definition p2wpkh_state :: "script \<Rightarrow> stk \<Rightarrow> nat \<Rightarrow> u32 \<Rightarrow> eval_state" where
  "p2wpkh_state code st ops pos = (eval_start code st ScriptExecutionData_new)\<lparr>nOpCount := ops, opcode_pos := pos\<rparr>"

definition start_data :: ScriptExecutionData where
  "start_data = ScriptExecutionData_new\<lparr>m_codeseparator_pos := 0xFFFFFFFF, m_codeseparator_pos_init := True\<rparr>"

lemma p2wpkh_state_simps [simp]:
  "stack (p2wpkh_state code st ops pos) = st" "altstack (p2wpkh_state code st ops pos) = []" "nOpCount (p2wpkh_state code st ops pos) = ops"
  "vfExec (p2wpkh_state code st ops pos) = ConditionStack_new" "opcode_pos (p2wpkh_state code st ops pos) = pos"
  "(p2wpkh_state code st ops pos)\<lparr>stack := st'\<rparr> = p2wpkh_state code st' ops pos"
  "(p2wpkh_state code st ops pos)\<lparr>nOpCount := ops'\<rparr> = p2wpkh_state code st ops' pos"
  "(p2wpkh_state code st ops pos)\<lparr>opcode_pos := pos'\<rparr> = p2wpkh_state code st ops pos'"
  "pbegincodehash (p2wpkh_state code st ops pos) = code" "execdata (p2wpkh_state code st ops pos) = start_data"
  "(p2wpkh_state code st ops pos)\<lparr>execdata := ed, opcode_pos := pos'\<rparr> = (p2wpkh_state code st ops pos')\<lparr>execdata := ed\<rparr>"
  "(p2wpkh_state code st ops pos)\<lparr>execdata := ed, stack := st'\<rparr> = (p2wpkh_state code st' ops pos)\<lparr>execdata := ed\<rparr>"
  by (simp_all add: p2wpkh_state_def eval_start_def start_data_def)

lemma eval_start_p2wpkh: "eval_start code st ScriptExecutionData_new = p2wpkh_state code st 0 0"
  by (simp add: p2wpkh_state_def eval_start_def)

lemma run_DUP_HASH160:
  assumes "sigversion env = WITNESS_V0"
  shows "EvalScript_loop env (0x76 # 0xa9 # pc) (p2wpkh_state code [pk, sig] 0 0) =
    EvalScript_loop env pc (p2wpkh_state code [CHash160 (hashes env) pk, pk, sig] 2 2)"
proof -
  have g: "GetScriptOp (0x76 # 0xa9 # pc) = Some (OP_DUP, [], 0xa9 # pc)" "GetScriptOp (0xa9 # pc) = Some (OP_HASH160, [], pc)" by simp_all
  have d: "eval_instruction env OP_DUP [] (0xa9 # pc) (p2wpkh_state code [pk, sig] 0 0) = Ret (p2wpkh_state code [pk, pk, sig] 1 0)"
    using assms by (simp add: eval_defs op_DUP_def)
  have h: "eval_instruction env OP_HASH160 [] pc (p2wpkh_state code [pk, pk, sig] 1 1) = Ret (p2wpkh_state code [CHash160 (hashes env) pk, pk, sig] 2 1)"
    using assms by (simp add: eval_defs op_hash_def numeral_2_eq_2)
  show ?thesis using d h by (simp add: EvalScript_loop_step [OF g(1)] EvalScript_loop_step [OF g(2)])
qed


lemma GetScriptOp_push20: "length h = 20 \<Longrightarrow> GetScriptOp (0x14 # h @ pc) = Some (20, h, pc)"
  by (simp add: GetScriptOp_size_def Let_def)

lemma eval_push20:
  assumes "length h = 20" "length st + 1 \<le> 1000" "sigversion env \<noteq> TAPROOT"
  shows "eval_instruction env 20 h pc (p2wpkh_state code st ops pos) = Ret (p2wpkh_state code (h # st) ops pos)"
  using assms by (simp add: eval_defs of_assert_def CheckMinimalPush_def)

lemma run_p2wpkh_tail:
  assumes "sigversion env = WITNESS_V0" "length h = 20"
  shows "EvalScript_loop env (0x14 # h @ [0x88, 0xac]) (p2wpkh_state code [h', pk, sig] 2 2) =
    (if h' = h then obind (EvalChecksig env sig pk code start_data)
       (\<lambda>(ok, ed). Ret ((p2wpkh_state code [of_bool_vch ok] 4 5)\<lparr>execdata := ed\<rparr>))
     else Fail SCRIPT_ERR_EQUALVERIFY)"
proof -
  have g: "GetScriptOp (0x14 # h @ [0x88, 0xac]) = Some (20, h, [0x88, 0xac])" "GetScriptOp [0x88, 0xac] = Some (OP_EQUALVERIFY, [], [0xac])"
    "GetScriptOp [0xac] = Some (OP_CHECKSIG, [], [])"
    using GetScriptOp_push20 [OF assms(2)] by simp_all
  have e: "eval_instruction env OP_EQUALVERIFY [] [0xac] (p2wpkh_state code [h, h', pk, sig] 2 3) =
      (if h' = h then Ret (p2wpkh_state code [pk, sig] 3 3) else Fail SCRIPT_ERR_EQUALVERIFY)"
    using assms by (simp add: eval_defs op_EQUAL_def)
  have c: "eval_instruction env OP_CHECKSIG [] [] (p2wpkh_state code [pk, sig] 3 4) =
      obind (EvalChecksig env sig pk code start_data) (\<lambda>(ok, ed). Ret ((p2wpkh_state code [of_bool_vch ok] 4 4)\<lparr>execdata := ed\<rparr>))"
    using assms by (cases "EvalChecksig env sig pk code start_data")
      (simp_all add: eval_defs eval_CHECKSIG_def split: prod.split)
  have p: "eval_instruction env 20 h [0x88, 0xac] (p2wpkh_state code [h', pk, sig] 2 2) = Ret (p2wpkh_state code [h, h', pk, sig] 2 2)"
    using assms by (intro eval_push20) simp_all
  show ?thesis
  proof (cases "h' = h")
    case True
    then show ?thesis
      using e c p by (cases "EvalChecksig env sig pk code start_data")
        (simp_all add: EvalScript_loop_step [OF g(1)] EvalScript_loop_step [OF g(2)] EvalScript_loop_step [OF g(3)] split: prod.split)
  next
    case False
    then show ?thesis using e p by (simp add: EvalScript_loop_step [OF g(1)] EvalScript_loop_step [OF g(2)])
  qed
qed


lemma p2wpkh_script_eq: "length h = 20 \<Longrightarrow> p2wpkh_script h = 0x76 # 0xa9 # 0x14 # h @ [0x88, 0xac]"
  by (simp add: p2wpkh_script_def push_data_def AppendDataSize_def)

lemma EvalScript_p2wpkh:
  assumes "sigversion env = WITNESS_V0" "length h = 20"
  shows "EvalScript env [pk, sig] (p2wpkh_script h) ScriptExecutionData_new =
    (if CHash160 (hashes env) pk = h
     then obind (EvalChecksigPreTapscript env sig pk (p2wpkh_script h)) (\<lambda>ok. Ret ([of_bool_vch ok], start_data))
     else Fail SCRIPT_ERR_EQUALVERIFY)"
proof -
  have e: "EvalChecksig env sig pk code ed = obind (EvalChecksigPreTapscript env sig pk code) (\<lambda>ok. Ret (ok, ed))" for code ed
    using assms(1) by (simp add: EvalChecksig_def)
  have l: "EvalScript_loop env (p2wpkh_script h) (eval_start (p2wpkh_script h) [pk, sig] ScriptExecutionData_new) =
    (if CHash160 (hashes env) pk = h then obind (EvalChecksig env sig pk (p2wpkh_script h) start_data)
       (\<lambda>(ok, ed). Ret ((p2wpkh_state (p2wpkh_script h) [of_bool_vch ok] 4 5)\<lparr>execdata := ed\<rparr>))
     else Fail SCRIPT_ERR_EQUALVERIFY)"
    unfolding eval_start_p2wpkh by (subst (1) p2wpkh_script_eq [OF assms(2)]) (simp add: run_DUP_HASH160 [OF assms(1)] run_p2wpkh_tail [OF assms])
  have n: "length (p2wpkh_script h) = 25" using assms(2) by (simp add: p2wpkh_script_eq)
  show ?thesis
    using assms by (cases "EvalChecksigPreTapscript env sig pk (p2wpkh_script h)")
      (simp_all add: EvalScript_def l e assert_that_def n MAX_SCRIPT_SIZE_def)
qed

lemma obind_eq_Ret: "obind m f = Ret y \<longleftrightarrow> (\<exists>x. m = Ret x \<and> f x = Ret y)"
  by (cases m) simp_all

lemma CastToBool_bool [simp]: "CastToBool (of_bool_vch b) = b"
  by (simp add: of_bool_vch_def vchTrue_def vchFalse_def)

lemma EvalChecksigPreTapscript_witness:
  assumes "sigversion env = WITNESS_V0"
  shows "EvalChecksigPreTapscript env sig pk code = Ret True \<longleftrightarrow>
    CheckSignatureEncoding (secp env) sig (flags env) = Ret () \<and> CheckPubKeyEncoding pk (flags env) WITNESS_V0 = Ret () \<and>
    CheckECDSASignature (checker env) sig pk code WITNESS_V0 = Some True"
  using assms by (auto simp: EvalChecksigPreTapscript_def assert_that_def obind_eq_Ret of_check_def split: option.splits)

lemma witness_v0_key_hash:
  assumes "length h = 20" "length sig \<le> 520" "length pk \<le> 520"
  shows "VerifyWitnessProgram env [sig, pk] 0 h False = Ret () \<longleftrightarrow>
    CHash160 (hashes env) pk = h \<and> EvalChecksigPreTapscript (with_sigversion env WITNESS_V0) sig pk (p2wpkh_script h) = Ret True"
proof -
  have "VerifyWitnessProgram env [sig, pk] 0 h False =
      obind (EvalScript (with_sigversion env WITNESS_V0) [pk, sig] (p2wpkh_script h) ScriptExecutionData_new) (\<lambda>(st, _).
        case st of [x] \<Rightarrow> if \<not> CastToBool x then Fail SCRIPT_ERR_EVAL_FALSE else Ret () | _ \<Rightarrow> Fail SCRIPT_ERR_CLEANSTACK)"
    using assms by (simp add: VerifyWitnessProgram_def VerifyWitnessProgram_v0_def ExecuteWitnessScript_def ExecuteWitnessScript_run_def
      WITNESS_V0_SCRIPTHASH_SIZE_def WITNESS_V0_KEYHASH_SIZE_def MAX_SCRIPT_ELEMENT_SIZE_def)
  then show ?thesis
    using assms by (auto simp: EvalScript_p2wpkh obind_eq_Ret split: if_splits)
qed

lemma eval_base_Nil: "eval_base env st [] = Ret st"
  by (simp add: eval_base_def EvalScript_def assert_that_def eval_start_def)

lemma eval_base_p2wpkh_output:
  assumes "length h = 20"
  shows "eval_base env [] (0x00 # 0x14 # h) = Ret [h, []]"
proof -
  let ?c = "0x00 # 0x14 # h" and ?env = "with_sigversion env BASE"
  have g: "GetScriptOp ?c = Some (0, [], 0x14 # h)" "GetScriptOp (0x14 # h) = Some (20, h, [])"
    using GetScriptOp_push20 [OF assms, of "[]"] by (simp_all add: GetScriptOp_size_def)
  have "eval_instruction ?env 0 [] (0x14 # h) (p2wpkh_state ?c [] 0 0) = Ret (p2wpkh_state ?c [[]] 0 0)"
    by (simp add: eval_defs of_assert_def CheckMinimalPush_def)
  moreover have "eval_instruction ?env 20 h [] (p2wpkh_state ?c [[]] 0 1) = Ret (p2wpkh_state ?c [h, []] 0 1)"
    using assms by (intro eval_push20) simp_all
  ultimately have "EvalScript_loop ?env ?c (p2wpkh_state ?c [] 0 0) = Ret (p2wpkh_state ?c [h, []] 0 2)"
    by (simp add: EvalScript_loop_step [OF g(1)] EvalScript_loop_step [OF g(2)])
  then show ?thesis using assms
    by (simp add: eval_base_def EvalScript_def assert_that_def eval_start_p2wpkh MAX_SCRIPT_SIZE_def)
qed

lemma witness_v0_key_hash_size:
  assumes "length h = 20" "length w \<noteq> 2"
  shows "VerifyWitnessProgram env w 0 h False = Fail SCRIPT_ERR_WITNESS_PROGRAM_MISMATCH"
  using assms by (simp add: VerifyWitnessProgram_def VerifyWitnessProgram_v0_def WITNESS_V0_SCRIPTHASH_SIZE_def WITNESS_V0_KEYHASH_SIZE_def)

lemma witness_v0_key_hash_element:
  assumes "length h = 20" "\<not> (length sig \<le> 520 \<and> length pk \<le> 520)"
  shows "VerifyWitnessProgram env [sig, pk] 0 h False = Fail SCRIPT_ERR_PUSH_SIZE"
  using assms by (auto simp: VerifyWitnessProgram_def VerifyWitnessProgram_v0_def ExecuteWitnessScript_def ExecuteWitnessScript_run_def
    WITNESS_V0_SCRIPTHASH_SIZE_def WITNESS_V0_KEYHASH_SIZE_def MAX_SCRIPT_ELEMENT_SIZE_def)

lemma VerifyScript_p2wpkh_output:
  assumes "has env SCRIPT_VERIFY_WITNESS" "has env SCRIPT_VERIFY_P2SH" "length h = 20"
  shows "VerifyScript env [] (0x00 # 0x14 # h) w = (if CastToBool h then VerifyWitnessProgram env w 0 h False else Fail SCRIPT_ERR_EVAL_FALSE)"
proof -
  have w: "IsWitnessProgram (0x00 # 0x14 # h) = Some (0, h)" "\<not> IsPayToScriptHash (0x00 # 0x14 # h)"
    using assms(3) by (simp_all add: IsWitnessProgram_def DecodeOP_N_def IsPayToScriptHash_def)
  have p: "IsPushOnly []" by (simp add: IsPushOnly.simps [of "[]"])
  show ?thesis
    using assms(1,2)
    by (cases "CastToBool h"; cases "VerifyWitnessProgram env w 0 h False")
       (simp_all add: VerifyScript_def p eval_base_Nil eval_base_p2wpkh_output [OF assms(3)] top_true_def verify_bare_witness_def w verify_p2sh_def
         verify_final_def assert_that_def)
qed

text \<open>C25: with segregated witness enforced, a version 0 key hash output is spent by an empty script and a witness \<open>w\<close> exactly when
  \<open>w\<close> is a signature and a key of at most 520 bytes each, the hash of the key is the program, both are encoded as the flags require,
  and the checker accepts the signature for the implied pay-to-pubkey-hash script. A witness that does not have two elements fails as a
  program mismatch, and a program that reads as the number zero can not be spent.\<close>
theorem p2wpkh_spend:
  assumes "has env SCRIPT_VERIFY_WITNESS" "has env SCRIPT_VERIFY_P2SH" "length h = 20"
  shows "(VerifyScript env [] (0x00 # 0x14 # h) w = Ret () \<longleftrightarrow>
      CastToBool h \<and> (\<exists>sig pk. w = [sig, pk] \<and> length sig \<le> 520 \<and> length pk \<le> 520 \<and> CHash160 (hashes env) pk = h \<and>
        CheckSignatureEncoding (secp env) sig (flags env) = Ret () \<and> CheckPubKeyEncoding pk (flags env) WITNESS_V0 = Ret () \<and>
        CheckECDSASignature (checker env) sig pk (p2wpkh_script h) WITNESS_V0 = Some True)) \<and>
    (CastToBool h \<and> length w \<noteq> 2 \<longrightarrow> VerifyScript env [] (0x00 # 0x14 # h) w = Fail SCRIPT_ERR_WITNESS_PROGRAM_MISMATCH)"
proof (cases "length w = 2")
  case False
  then show ?thesis
    by (auto simp: VerifyScript_p2wpkh_output [OF assms] witness_v0_key_hash_size [OF assms(3)])
next
  case True
  then obtain sig pk where w: "w = [sig, pk]" by (auto simp: length_Suc_conv numeral_2_eq_2)
  show ?thesis
  proof (cases "length sig \<le> 520 \<and> length pk \<le> 520")
    case sizes: True
    then show ?thesis unfolding w VerifyScript_p2wpkh_output [OF assms]
      by (simp add: witness_v0_key_hash [OF assms(3)] EvalChecksigPreTapscript_witness)
  next
    case False
    then show ?thesis unfolding w VerifyScript_p2wpkh_output [OF assms]
      by (auto simp: witness_v0_key_hash_element [OF assms(3) False])
  qed
qed

definition spend_env :: eval_env where
  "spend_env =
     \<lparr>hashes = example_hashes\<lparr>RIPEMD160 := (\<lambda>_. replicate 20 1)\<rparr>, secp = example_secp, flags = 0x801,
      checker = BaseSignatureChecker\<lparr>CheckECDSASignature := (\<lambda>_ _ _ _. Some True)\<rparr>, sigversion = BASE\<rparr>"

theorem p2wpkh_spend_witness:
  "VerifyScript spend_env [] (0x00 # 0x14 # replicate 20 1) [[], [2]] = Ret () \<and>
   VerifyScript spend_env [] (0x00 # 0x14 # replicate 20 1) [[], [], [2]] = Fail SCRIPT_ERR_WITNESS_PROGRAM_MISMATCH"
proof -
  have "CastToBool (replicate 20 1)" by (simp add: numeral_eq_Suc)
  then show ?thesis
    using p2wpkh_spend [of spend_env "replicate 20 1" "[[], [2]]"] p2wpkh_spend [of spend_env "replicate 20 1" "[[], [], [2]]"]
    by (simp add: spend_env_def flag_set_def SCRIPT_VERIFY_WITNESS_def SCRIPT_VERIFY_P2SH_def CHash160_def CheckSignatureEncoding_def
      CheckPubKeyEncoding_def SCRIPT_VERIFY_STRICTENC_def SCRIPT_VERIFY_WITNESS_PUBKEYTYPE_def)
qed

subsection \<open>No assertion fails\<close>

definition flags_ok :: "u32 \<Rightarrow> bool" where
  "flags_ok fl \<longleftrightarrow> (flag_set fl SCRIPT_VERIFY_CLEANSTACK \<longrightarrow> flag_set fl SCRIPT_VERIFY_P2SH \<and> flag_set fl SCRIPT_VERIFY_WITNESS) \<and>
     (flag_set fl SCRIPT_VERIFY_WITNESS \<longrightarrow> flag_set fl SCRIPT_VERIFY_P2SH)"

definition base_ok :: "eval_env \<Rightarrow> bool" where
  "base_ok env \<longleftrightarrow> hash_sizes_ok (hashes env) \<and> checker_ok (checker env)"

lemma env_ok_with: "base_ok env \<Longrightarrow> sv \<noteq> TAPROOT \<Longrightarrow> env_ok (with_sigversion env sv)"
  by (simp add: base_ok_def env_ok_def)

lemma safe_eval_base:
  assumes "base_ok env" "elems_ok st" "length st \<le> MAX_STACK_SIZE" "length s < 2 ^ 32"
  shows "safe (\<lambda>st'. elems_ok st' \<and> length st' \<le> MAX_STACK_SIZE) (eval_base env st s)"
proof -
  have "safe (\<lambda>(st', ed'). elems_ok st' \<and> length st' \<le> max (length st) MAX_STACK_SIZE \<and> tap_ok (with_sigversion env BASE) ed')
      (EvalScript (with_sigversion env BASE) st s ScriptExecutionData_new)"
    by (rule safe_EvalScript) (use assms in \<open>simp_all add: env_ok_with tap_ok_def MAX_STACK_SIZE_def\<close>)
  then show ?thesis unfolding eval_base_def safe_obind by (rule safe_mono) (use assms in auto)
qed

lemma safe_find_op_success: "safe (\<lambda>_. True) (find_op_success env pc)"
proof (induction pc rule: script_induct)
  case (step pc)
  then show ?case by (auto simp: find_op_success.simps [of env pc] split: option.split)
qed

lemma safe_ExecuteWitnessScript:
  assumes "base_ok env" "sv \<noteq> TAPROOT" "tap_ok (with_sigversion env sv) ed" "length st < 2 ^ 31" "length s < 2 ^ 32"
  shows "safe (\<lambda>_. True) (ExecuteWitnessScript (with_sigversion env sv) st s ed)"
proof -
  have "safe (\<lambda>_. True) (ExecuteWitnessScript_run (with_sigversion env sv) st s ed)"
  proof (cases "\<exists>x \<in> set st. length x > MAX_SCRIPT_ELEMENT_SIZE")
    case False
    then have "elems_ok st" by (auto simp: elems_ok_def elem_ok_def)
    from safe_EvalScript [OF env_ok_with [OF assms(1,2)] assms(3) this assms(4,5)] False show ?thesis
      unfolding ExecuteWitnessScript_run_def by (auto elim!: safe_mono split: list.split)
  qed (simp add: ExecuteWitnessScript_run_def)
  then show ?thesis
    by (auto simp: ExecuteWitnessScript_def intro!: safe_mono [OF safe_find_op_success])
qed

lemma safe_VerifyTaprootCommitment:
  "control_size_ok control \<Longrightarrow> length program \<ge> 32 \<Longrightarrow> safe (\<lambda>_. True) (VerifyTaprootCommitment F E control program leaf)"
  by (simp add: VerifyTaprootCommitment_def ComputeTaprootMerkleRoot_def control_size_ok_def Let_def)

definition witness_sizes_ok :: "bytes list \<Rightarrow> bool" where
  "witness_sizes_ok w \<longleftrightarrow> length w < 2 ^ 31 \<and> (\<forall>x \<in> set w. length x < 2 ^ 32)"

lemma safe_witness_v0:
  assumes "base_ok env" "witness_sizes_ok st"
  shows "safe (\<lambda>_. True) (VerifyWitnessProgram_v0 env st program)"
proof -
  have "safe (\<lambda>_. True) (ExecuteWitnessScript (with_sigversion env WITNESS_V0) st' s ScriptExecutionData_new)"
    if "length st' < 2 ^ 31" "length s < 2 ^ 32" for st' s
    by (rule safe_ExecuteWitnessScript) (use assms(1) that in \<open>simp_all add: tap_ok_def\<close>)
  moreover have "length program = 20 \<Longrightarrow> length (p2wpkh_script program) < 2 ^ 32" by (simp add: p2wpkh_script_eq)
  ultimately show ?thesis
    using assms(2) by (auto simp: VerifyWitnessProgram_v0_def witness_sizes_ok_def WITNESS_V0_KEYHASH_SIZE_def split: list.split)
qed

lemma taproot_annex_ok:
  assumes "taproot_annex env st = (st', ed)"
  shows "m_annex_init ed" "length st' \<le> length st" "set st' \<subseteq> set st" "st \<noteq> [] \<Longrightarrow> st' \<noteq> []"
  using assms by (auto simp: taproot_annex_def split: if_splits dest: list.set_sel(2)) (cases st; auto)+

lemma safe_taproot_script_path:
  assumes "base_ok env" "witness_sizes_ok st" "m_annex_init ed" "length st \<ge> 2" "length program = 32"
  shows "safe (\<lambda>_. True) (taproot_script_path env witness st program ed)"
proof -
  obtain control s st' where st: "st = control # s # st'" using assms(4) by (cases st; cases "tl st") auto
  have "safe (\<lambda>_. True) (ExecuteWitnessScript (with_sigversion env TAPSCRIPT) st' s
      (ed\<lparr>m_tapleaf_hash := h, m_tapleaf_hash_init := True, m_validation_weight_left := int n + VALIDATION_WEIGHT_OFFSET, m_validation_weight_left_init := True\<rparr>))" for h n
    by (rule safe_ExecuteWitnessScript) (use assms st in \<open>auto simp: tap_ok_def witness_sizes_ok_def VALIDATION_WEIGHT_OFFSET_def\<close>)
  then show ?thesis
    unfolding taproot_script_path_def st Let_def
    using safe_mono [OF safe_VerifyTaprootCommitment] assms(5) by simp
qed

lemma safe_witness_v1:
  assumes "base_ok env" "witness_sizes_ok witness" "length program = 32"
  shows "safe (\<lambda>_. True) (VerifyWitnessProgram_v1 env witness program)"
proof (cases "witness = []")
  case False
  obtain st ed where a: "taproot_annex env (rev witness) = (st, ed)" by fastforce
  note ok = taproot_annex_ok [OF a]
  have c: "safe (\<lambda>_. True) (CheckSchnorrSignature (checker env) (hd st) program TAPROOT ed SCRIPT_ERR_OK)"
  proof (rule safe_mono)
    show "safe (\<lambda>ed'. ed' = ed\<lparr>m_output_hash := m_output_hash ed'\<rparr>) (CheckSchnorrSignature (checker env) (hd st) program TAPROOT ed SCRIPT_ERR_OK)"
      using assms(1,3) ok(1) by (simp add: base_ok_def checker_ok_def ed_ok_def)
  qed simp
  have "safe (\<lambda>_. True) (taproot_script_path env witness st program ed)" if "length st \<noteq> 1"
  proof (rule safe_taproot_script_path [OF assms(1) _ ok(1) _ assms(3)])
    show "witness_sizes_ok st" using ok(2,3) assms(2) by (auto simp: witness_sizes_ok_def)
    show "2 \<le> length st" using ok(4) False that by (cases st; cases "tl st") auto
  qed
  then show ?thesis using False c by (simp add: VerifyWitnessProgram_v1_def a Let_def)
qed (simp add: VerifyWitnessProgram_v1_def)

lemma safe_VerifyWitnessProgram:
  assumes "base_ok env" "witness_sizes_ok witness"
  shows "safe (\<lambda>_. True) (VerifyWitnessProgram env witness v program is_p2sh)"
proof -
  have "witness_sizes_ok (rev witness)" using assms(2) by (simp add: witness_sizes_ok_def)
  then show ?thesis
    using safe_witness_v0 [OF assms(1)] safe_witness_v1 [OF assms]
    by (simp add: VerifyWitnessProgram_def WITNESS_V1_TAPROOT_SIZE_def)
qed


lemma p2sh_needs_argument:
  assumes "IsPayToScriptHash spk"
  shows "safe (\<lambda>_. False) (eval_base env [] spk)"
proof -
  obtain b rest where s: "spk = b # rest" "unat b = OP_HASH160"
    using assms by (cases spk) (auto simp: IsPayToScriptHash_def)
  have g: "GetScriptOp spk = Some (OP_HASH160, [], rest)" using s by (simp add: Let_def)
  have "eval_instruction (with_sigversion env BASE) OP_HASH160 [] rest (p2wpkh_state spk [] 0 0) = bad_stack"
    by (simp add: eval_defs op_hash_def)
  then show ?thesis
    by (simp add: eval_base_def EvalScript_def eval_start_p2wpkh EvalScript_loop_step [OF g])
qed

lemma safe_verify_bare_witness:
  assumes "base_ok env" "witness_sizes_ok witness" "elems_ok st" "length st \<le> MAX_STACK_SIZE"
  shows "safe (\<lambda>_. True) (verify_bare_witness env ssig spk witness st)"
  using safe_VerifyWitnessProgram [OF assms(1,2)]
  by (auto simp: verify_bare_witness_def intro: safe_mono split: option.split)

lemma safe_verify_p2sh:
  assumes "base_ok env" "witness_sizes_ok witness" "elems_ok st" "length st \<le> MAX_STACK_SIZE" "IsPayToScriptHash spk \<Longrightarrow> st \<noteq> []"
  shows "safe (\<lambda>_. True) (verify_p2sh env ssig spk witness st r)"
proof (cases st)
  case Nil
  then show ?thesis using assms(5) by (auto simp: verify_p2sh_def)
next
  case (Cons pubKey2 st')
  have "safe (\<lambda>_. True) (verify_p2sh_witness env ssig pubKey2 witness q)" for q
    using safe_VerifyWitnessProgram [OF assms(1,2)]
    by (auto simp: verify_p2sh_witness_def intro: safe_mono split: option.split)
  moreover have "safe (\<lambda>st'. elems_ok st' \<and> length st' \<le> MAX_STACK_SIZE) (eval_base env st' pubKey2)"
    by (rule safe_eval_base [OF assms(1)]) (use assms(3,4) Cons in \<open>simp_all add: elem_ok_def MAX_SCRIPT_ELEMENT_SIZE_def\<close>)
  ultimately show ?thesis
    unfolding verify_p2sh_def Cons by (auto simp: top_true_def elim!: safe_mono)
qed

lemma safe_verify_final: "flags_ok (flags env) \<Longrightarrow> safe (\<lambda>_. True) (verify_final env witness r)"
  by (auto simp: verify_final_def flags_ok_def)

text \<open>C13: \<open>VerifyScript\<close> aborts on no assertion, for every pair of scripts and every witness of representable size, when the flags are consistent
  (clean stack implies P2SH and witness, witness implies P2SH) and the checker keeps its contract. In particular the
  stack kept for a pay-to-script-hash spend is never empty.\<close>
theorem verify_script_no_abort:
  assumes "hash_sizes_ok (hashes env)" "checker_ok (checker env)" "flags_ok (flags env)" "witness_sizes_ok witness"
    "length ssig < 2 ^ 32" "length spk < 2 ^ 32"
  shows "VerifyScript env ssig spk witness \<noteq> Abort"
proof -
  have b: "base_ok env" using assms(1,2) by (simp add: base_ok_def)
  have "safe (\<lambda>_. True) (VerifyScript env ssig spk witness)"
  proof (cases "has env SCRIPT_VERIFY_SIGPUSHONLY \<and> \<not> IsPushOnly ssig")
    case False
    have tail: "safe (\<lambda>st2. safe (\<lambda>_. True) (obind (top_true st2) (\<lambda>_. obind (verify_bare_witness env ssig spk witness st2) (\<lambda>r.
        obind (verify_p2sh env ssig spk witness st1 r) (\<lambda>r. verify_final env witness r))))) (eval_base env st1 spk)"
      if st1: "elems_ok st1" "length st1 \<le> MAX_STACK_SIZE" for st1
    proof (cases "st1 = [] \<and> IsPayToScriptHash spk")
      case True
      then show ?thesis using p2sh_needs_argument [of spk env] by (auto elim: safe_mono)
    next
      case False
      show ?thesis
      proof (rule safe_mono [OF safe_eval_base [OF b st1 assms(6)]])
        fix st2
        assume "elems_ok st2 \<and> length st2 \<le> MAX_STACK_SIZE"
        then have "safe (\<lambda>_. True) (verify_bare_witness env ssig spk witness st2)"
          using safe_verify_bare_witness [OF b assms(4)] by blast
        moreover have "safe (\<lambda>r. safe (\<lambda>_. True) (verify_final env witness r)) (verify_p2sh env ssig spk witness st1 r)" for r
          by (rule safe_mono [OF safe_verify_p2sh [OF b assms(4) st1]]) (use False safe_verify_final [OF assms(3)] in auto)
        ultimately show "safe (\<lambda>_. True) (obind (top_true st2) (\<lambda>_. obind (verify_bare_witness env ssig spk witness st2) (\<lambda>r.
          obind (verify_p2sh env ssig spk witness st1 r) (\<lambda>r. verify_final env witness r))))"
          by (auto simp: top_true_def elim: safe_mono)
      qed
    qed
    have "safe (\<lambda>st1. elems_ok st1 \<and> length st1 \<le> MAX_STACK_SIZE) (eval_base env [] ssig)"
      by (rule safe_eval_base [OF b _ _ assms(5)]) simp_all
    then show ?thesis
      unfolding VerifyScript_def using False tail by (simp only: if_False safe_obind [of _ "eval_base env x y" for x y]) (auto elim!: safe_mono)
  qed (simp add: VerifyScript_def)
  then show ?thesis by (auto simp: safe_def)
qed

theorem verify_script_no_abort_witness:
  "VerifyScript spend_env [0x51] [0x87] [[1]] \<noteq> Abort"
proof (rule verify_script_no_abort)
  show "hash_sizes_ok (hashes spend_env)" by (simp add: spend_env_def hash_sizes_ok_def example_hashes_def)
  show "checker_ok (checker spend_env)" using BaseSignatureChecker_ok by (simp add: spend_env_def checker_ok_def)
  show "flags_ok (flags spend_env)"
    by (simp add: flags_ok_def spend_env_def flag_set_def SCRIPT_VERIFY_CLEANSTACK_def SCRIPT_VERIFY_P2SH_def SCRIPT_VERIFY_WITNESS_def)
qed (simp_all add: witness_sizes_ok_def)



end
