(* ===== verification/Merkle.thy ===== *)
theory Merkle
  imports Hashing Block
begin

text \<open>
  Model of \<open>src/bitcoin/src/consensus/merkle.cpp\<close>: the level-by-level Merkle root with its mutation flag, and the constant-space computation of roots
  and paths. \<open>H\<close> is the hash of two concatenated hashes.
\<close>

subsection \<open>Level by level\<close>

definition merkle_hash :: "hash_functions \<Rightarrow> uint256 \<Rightarrow> uint256 \<Rightarrow> uint256" where
  "merkle_hash F a b = Hash_2 F (ser_uint256 a) (ser_uint256 b)"

fun merkle_pairs :: "(uint256 \<Rightarrow> uint256 \<Rightarrow> uint256) \<Rightarrow> uint256 list \<Rightarrow> uint256 list" where
  "merkle_pairs H (a # b # hs) = H a b # merkle_pairs H hs"
| "merkle_pairs H _ = []"

fun adjacent_equal :: "uint256 list \<Rightarrow> bool" where
  "adjacent_equal (a # b # hs) \<longleftrightarrow> a = b \<or> adjacent_equal hs"
| "adjacent_equal _ \<longleftrightarrow> False"

definition merkle_pad :: "uint256 list \<Rightarrow> uint256 list" where
  "merkle_pad hs = (if odd (length hs) then hs @ [last hs] else hs)"

lemma length_merkle_pairs: "length (merkle_pairs H hs) = length hs div 2"
  by (induction H hs rule: merkle_pairs.induct) auto

lemma length_merkle_pad: "length (merkle_pad hs) = 2 * ((length hs + 1) div 2)"
  by (auto simp: merkle_pad_def elim!: oddE evenE)

function ComputeMerkleRoot_loop :: "(uint256 \<Rightarrow> uint256 \<Rightarrow> uint256) \<Rightarrow> uint256 list \<Rightarrow> bool \<Rightarrow> uint256 list \<times> bool" where
  "ComputeMerkleRoot_loop H hs mutation =
     (if length hs > 1 then ComputeMerkleRoot_loop H (merkle_pairs H (merkle_pad hs)) (mutation \<or> adjacent_equal hs)
      else (hs, mutation))"
  by pat_completeness auto
termination
  by (relation "measure (\<lambda>(H, hs, m). length hs)") (auto simp: length_merkle_pairs length_merkle_pad)

declare ComputeMerkleRoot_loop.simps [simp del]

definition ComputeMerkleRoot :: "(uint256 \<Rightarrow> uint256 \<Rightarrow> uint256) \<Rightarrow> uint256 list \<Rightarrow> uint256 \<times> bool" where
  "ComputeMerkleRoot H hs =
     (let (hs, mutation) = ComputeMerkleRoot_loop H hs False in (if length hs = 0 then 0 else hs ! 0, mutation))"

definition ComputeHash :: "hash_functions \<Rightarrow> CTransaction \<Rightarrow> uint256" where
  "ComputeHash F tx = HashWriter_GetHash F (SerializeTransaction False tx)"

definition ComputeWitnessHash :: "hash_functions \<Rightarrow> CTransaction \<Rightarrow> uint256" where
  "ComputeWitnessHash F tx = (if \<not> HasWitness tx then ComputeHash F tx else HashWriter_GetHash F (SerializeTransaction True tx))"

definition BlockMerkleRoot :: "hash_functions \<Rightarrow> CBlock \<Rightarrow> uint256 \<times> bool" where
  "BlockMerkleRoot F block = ComputeMerkleRoot (merkle_hash F) (map (ComputeHash F) (vtx block))"

text \<open>\<open>None\<close> is the access to the first leaf of an empty block.\<close>

definition BlockWitnessMerkleRoot :: "hash_functions \<Rightarrow> CBlock \<Rightarrow> (uint256 \<times> bool) option" where
  "BlockWitnessMerkleRoot F block =
     (case vtx block of [] \<Rightarrow> None | _ # txs \<Rightarrow> Some (ComputeMerkleRoot (merkle_hash F) (0 # map (ComputeWitnessHash F) txs)))"

subsection \<open>In constant space\<close>

text \<open>
  The state of \<open>MerkleComputation\<close>: the leaf count as a 32-bit number, the array \<open>inner\<close>, the level that holds the matching leaf, the path and
  the mutation flag. \<open>None\<close> stands for a shift by 32 or more, which is undefined.
\<close>

record merkle_state =
  mk_count :: nat
  mk_inner :: "nat \<Rightarrow> uint256"
  mk_matchlevel :: int
  mk_path :: "uint256 list"
  mk_mutated :: bool

text \<open>The step of both inner loops at one level: extend the path, then combine.\<close>

definition path_step :: "merkle_state \<Rightarrow> nat \<Rightarrow> uint256 \<Rightarrow> bool \<Rightarrow> merkle_state \<times> bool" where
  "path_step s level h matchh =
     (if matchh then (s\<lparr>mk_path := mk_path s @ [mk_inner s level]\<rparr>, matchh)
      else if mk_matchlevel s = int level then (s\<lparr>mk_path := mk_path s @ [h]\<rparr>, True)
      else (s, matchh))"

function leaf_loop :: "(uint256 \<Rightarrow> uint256 \<Rightarrow> uint256) \<Rightarrow> merkle_state \<Rightarrow> nat \<Rightarrow> uint256 \<Rightarrow> bool \<Rightarrow> (merkle_state \<times> nat \<times> uint256 \<times> bool) option" where
  "leaf_loop H s level h matchh =
     (if level \<ge> 32 then None
      else if bit (mk_count s) level then Some (s, level, h, matchh)
      else let (s, matchh) = path_step s level h matchh;
               s = s\<lparr>mk_mutated := mk_mutated s \<or> mk_inner s level = h\<rparr>
           in leaf_loop H s (level + 1) (H (mk_inner s level) h) matchh)"
  by pat_completeness auto
termination
  by (relation "measure (\<lambda>(H, s, level, h, m). 32 - level)") auto

definition process_leaf :: "(uint256 \<Rightarrow> uint256 \<Rightarrow> uint256) \<Rightarrow> nat \<Rightarrow> uint256 \<Rightarrow> merkle_state \<Rightarrow> merkle_state option" where
  "process_leaf H leaf_pos leaf s =
     (let matchh = mk_count s = leaf_pos; s = s\<lparr>mk_count := (mk_count s + 1) mod 2 ^ 32\<rparr>
      in case leaf_loop H s 0 leaf matchh of
           None \<Rightarrow> None
         | Some (s, level, h, matchh) \<Rightarrow>
             Some (s\<lparr>mk_inner := (mk_inner s)(level := h), mk_matchlevel := if matchh then int level else mk_matchlevel s\<rparr>))"

fun process_leaves :: "(uint256 \<Rightarrow> uint256 \<Rightarrow> uint256) \<Rightarrow> nat \<Rightarrow> uint256 list \<Rightarrow> merkle_state \<Rightarrow> merkle_state option" where
  "process_leaves H leaf_pos [] s = Some s"
| "process_leaves H leaf_pos (leaf # leaves) s = Option.bind (process_leaf H leaf_pos leaf s) (process_leaves H leaf_pos leaves)"

function skip_zero_bits :: "nat \<Rightarrow> nat \<Rightarrow> nat option" where
  "skip_zero_bits count level =
     (if level \<ge> 32 then None else if bit count level then Some level else skip_zero_bits count (level + 1))"
  by pat_completeness auto
termination
  by (relation "measure (\<lambda>(count, level). 32 - level)") auto

function sweep_up :: "(uint256 \<Rightarrow> uint256 \<Rightarrow> uint256) \<Rightarrow> merkle_state \<Rightarrow> nat \<Rightarrow> uint256 \<Rightarrow> bool \<Rightarrow> (merkle_state \<times> nat \<times> uint256 \<times> bool) option" where
  "sweep_up H s level h matchh =
     (if level \<ge> 32 then None
      else if bit (mk_count s) level then Some (s, level, h, matchh)
      else let (s, matchh) = path_step s level h matchh
           in sweep_up H s (level + 1) (H (mk_inner s level) h) matchh)"
  by pat_completeness auto
termination
  by (relation "measure (\<lambda>(H, s, level, h, m). 32 - level)") auto

declare leaf_loop.simps [simp del] skip_zero_bits.simps [simp del] sweep_up.simps [simp del]

lemma sweep_up_level: "sweep_up H s level h m = Some (s', level', h', m') \<Longrightarrow> level \<le> level' \<and> level' < 32"
proof (induction H s level h m rule: sweep_up.induct)
  case (1 H s level h m)
  then show ?case
    by (subst (asm) sweep_up.simps) (fastforce simp: Let_def split: if_splits prod.splits)
qed

function sweep :: "(uint256 \<Rightarrow> uint256 \<Rightarrow> uint256) \<Rightarrow> merkle_state \<Rightarrow> nat \<Rightarrow> uint256 \<Rightarrow> bool \<Rightarrow> (merkle_state \<times> uint256) option" where
  "sweep H s level h matchh =
     (if level \<ge> 32 then None
      else if mk_count s = 2 ^ level then Some (s, h)
      else let s = (if matchh then s\<lparr>mk_path := mk_path s @ [h]\<rparr> else s);
               s = s\<lparr>mk_count := (mk_count s + 2 ^ level) mod 2 ^ 32\<rparr>
           in case sweep_up H s (level + 1) (H h h) matchh of
                None \<Rightarrow> None
              | Some (s, level', h, matchh) \<Rightarrow> sweep H s level' h matchh)"
  by pat_completeness auto
termination
  by (relation "measure (\<lambda>(H, s, level, h, m). 32 - level)") (auto dest!: sweep_up_level)

declare sweep.simps [simp del]

definition merkle_start :: merkle_state where
  "merkle_start = \<lparr>mk_count = 0, mk_inner = (\<lambda>_. 0), mk_matchlevel = - 1, mk_path = [], mk_mutated = False\<rparr>"

text \<open>The root, the mutation flag and the path.\<close>

definition MerkleComputation :: "(uint256 \<Rightarrow> uint256 \<Rightarrow> uint256) \<Rightarrow> uint256 list \<Rightarrow> nat \<Rightarrow> (uint256 \<times> bool \<times> uint256 list) option" where
  "MerkleComputation H leaves leaf_pos =
     (if length leaves = 0 then Some (0, False, [])
      else Option.bind (process_leaves H leaf_pos leaves merkle_start) (\<lambda>s.
           Option.bind (skip_zero_bits (mk_count s) 0) (\<lambda>level.
           Option.bind (sweep H s level (mk_inner s level) (mk_matchlevel s = int level)) (\<lambda>(s, h).
             Some (h, mk_mutated s, mk_path s)))))"

definition ComputeMerklePath :: "(uint256 \<Rightarrow> uint256 \<Rightarrow> uint256) \<Rightarrow> uint256 list \<Rightarrow> nat \<Rightarrow> uint256 list option" where
  "ComputeMerklePath H leaves position = map_option (\<lambda>(_, _, path). path) (MerkleComputation H leaves position)"

definition TransactionMerklePath :: "hash_functions \<Rightarrow> CBlock \<Rightarrow> nat \<Rightarrow> uint256 list option" where
  "TransactionMerklePath F block position = ComputeMerklePath (merkle_hash F) (map (ComputeHash F) (vtx block)) position"


section \<open>The tree\<close>

text \<open>Node \<open>i\<close> at level \<open>k\<close> of the tree over the leaves \<open>xs\<close>; a node without a right sibling is combined with itself.\<close>

definition tree_width :: "nat \<Rightarrow> nat \<Rightarrow> nat" where
  "tree_width n k = (n + 2 ^ k - 1) div 2 ^ k"

fun tree_node :: "(uint256 \<Rightarrow> uint256 \<Rightarrow> uint256) \<Rightarrow> uint256 list \<Rightarrow> nat \<Rightarrow> nat \<Rightarrow> uint256" where
  "tree_node H xs 0 i = xs ! i"
| "tree_node H xs (Suc k) i =
     H (tree_node H xs k (2 * i))
       (if 2 * i + 1 < tree_width (length xs) k then tree_node H xs k (2 * i + 1) else tree_node H xs k (2 * i))"

lemma tree_width_0 [simp]: "tree_width n 0 = n"
  by (simp add: tree_width_def)

lemma less_tree_width: "i < tree_width n k \<longleftrightarrow> i * 2 ^ k < n"
proof -
  have "i < tree_width n k \<longleftrightarrow> (i + 1) * 2 ^ k \<le> n + 2 ^ k - 1"
    unfolding tree_width_def by (simp add: less_eq_div_iff_mult_less_eq Suc_le_eq [symmetric])
  also have "\<dots> \<longleftrightarrow> i * 2 ^ k < n"
  proof -
    have "p + a \<le> n + p - 1 \<longleftrightarrow> a < n" if "0 < p" for p a :: nat
      using that by arith
    from this [of "2 ^ k" "i * 2 ^ k"] show ?thesis by simp
  qed
  finally show ?thesis .
qed

lemma tree_width_Suc: "tree_width n (Suc k) = (tree_width n k + 1) div 2"
proof -
  have "i < tree_width n (Suc k) \<longleftrightarrow> i < (tree_width n k + 1) div 2" for i
  proof -
    have "i < tree_width n (Suc k) \<longleftrightarrow> 2 * i < tree_width n k"
      by (simp add: less_tree_width mult.assoc mult.left_commute)
    then show ?thesis by linarith
  qed
  then show ?thesis using linorder_neq_iff by blast
qed

lemma tree_width_pos: "0 < n \<Longrightarrow> 0 < tree_width n k"
  by (simp add: less_tree_width)

lemma div_less_tree_width: "c < n \<Longrightarrow> c div 2 ^ k < tree_width n k"
  by (simp add: less_tree_width) (meson div_times_less_eq_dividend le_less_trans)

definition tree_level :: "(uint256 \<Rightarrow> uint256 \<Rightarrow> uint256) \<Rightarrow> uint256 list \<Rightarrow> nat \<Rightarrow> uint256 list" where
  "tree_level H xs k = map (tree_node H xs k) [0..<tree_width (length xs) k]"

lemma tree_level_0: "tree_level H xs 0 = xs"
  by (intro nth_equalityI) (simp_all add: tree_level_def)

lemma nth_merkle_pairs: "i < length hs div 2 \<Longrightarrow> merkle_pairs H hs ! i = H (hs ! (2 * i)) (hs ! (2 * i + 1))"
proof (induction H hs arbitrary: i rule: merkle_pairs.induct)
  case (1 H a b hs)
  then show ?case by (cases i) auto
qed auto

lemma tree_level_Suc: "merkle_pairs H (merkle_pad (tree_level H xs k)) = tree_level H xs (Suc k)"
proof (rule nth_equalityI)
  let ?w = "tree_width (length xs) k"
  show len: "length (merkle_pairs H (merkle_pad (tree_level H xs k))) = length (tree_level H xs (Suc k))"
    by (simp add: length_merkle_pairs length_merkle_pad tree_level_def tree_width_Suc)
  fix i assume "i < length (merkle_pairs H (merkle_pad (tree_level H xs k)))"
  then have i: "i < (?w + 1) div 2"
    by (simp add: length_merkle_pairs length_merkle_pad tree_level_def)
  then have lo: "2 * i < ?w" by linarith
  have pad: "merkle_pad (tree_level H xs k) ! j = tree_node H xs k (if j < ?w then j else j - 1)" if "j \<le> ?w" "j < ?w \<or> odd ?w" for j
    using that by (auto simp: merkle_pad_def tree_level_def nth_append last_conv_nth odd_pos)
  have hi: "2 * i + 1 < ?w \<or> (2 * i + 1 = ?w)" using lo by linarith
  have "merkle_pairs H (merkle_pad (tree_level H xs k)) ! i
      = H (merkle_pad (tree_level H xs k) ! (2 * i)) (merkle_pad (tree_level H xs k) ! (2 * i + 1))"
    using i by (intro nth_merkle_pairs) (simp add: length_merkle_pad tree_level_def)
  also have "\<dots> = tree_node H xs (Suc k) i"
  proof (rule disjE [OF hi])
    assume "2 * i + 1 = ?w"
    moreover from this have "odd ?w" "?w - 1 = 2 * i" by presburger+
    ultimately show ?thesis using lo pad [of "2 * i"] pad [of "2 * i + 1"] by simp
  qed (use lo in \<open>simp add: pad\<close>)
  finally show "merkle_pairs H (merkle_pad (tree_level H xs k)) ! i = tree_level H xs (Suc k) ! i"
    using i by (simp add: tree_level_def tree_width_Suc)
qed

function tree_height :: "nat \<Rightarrow> nat \<Rightarrow> nat" where
  "tree_height n k = (if tree_width n k > 1 then tree_height n (k + 1) else k)"
  by pat_completeness auto
termination
  by (relation "measure (\<lambda>(n, k). tree_width n k)") (auto simp: tree_width_Suc)

declare tree_height.simps [simp del]

lemma ComputeMerkleRoot_loop_level:
  "fst (ComputeMerkleRoot_loop H (tree_level H xs k) m) = tree_level H xs (tree_height (length xs) k)"
proof (induction "length xs" k arbitrary: m rule: tree_height.induct)
  case (1 k)
  show ?case
  proof (cases "tree_width (length xs) k > 1")
    case True
    then show ?thesis
      using 1 [OF True] by (subst ComputeMerkleRoot_loop.simps, subst tree_height.simps) (simp add: tree_level_Suc, simp add: tree_level_def)
  next
    case False
    then show ?thesis
      by (subst ComputeMerkleRoot_loop.simps, subst tree_height.simps) (simp add: tree_level_def)
  qed
qed

lemma tree_height_width: "tree_width n (tree_height n k) \<le> 1"
proof (induction n k rule: tree_height.induct)
  case (1 n k)
  then show ?case by (subst tree_height.simps) (simp split: if_splits)
qed

lemma ComputeMerkleRoot_node:
  assumes "xs \<noteq> []"
  shows "fst (ComputeMerkleRoot H xs) = tree_node H xs (tree_height (length xs) 0) 0"
proof -
  let ?h = "tree_height (length xs) 0"
  have "tree_width (length xs) ?h = 1"
    using tree_height_width [of "length xs" 0] tree_width_pos [of "length xs" ?h] assms by simp
  then have "fst (ComputeMerkleRoot_loop H xs False) = [tree_node H xs ?h 0]"
    using ComputeMerkleRoot_loop_level [of H xs 0 False] by (simp add: tree_level_0) (simp add: tree_level_def)
  then show ?thesis
    by (cases "ComputeMerkleRoot_loop H xs False") (simp add: ComputeMerkleRoot_def)
qed


section \<open>The constant-space computation\<close>

definition tree_sibling :: "(uint256 \<Rightarrow> uint256 \<Rightarrow> uint256) \<Rightarrow> uint256 list \<Rightarrow> nat \<Rightarrow> nat \<Rightarrow> uint256" where
  "tree_sibling H xs p k =
     (let i = p div 2 ^ k
      in if odd i then tree_node H xs k (i - 1) else tree_node H xs k (if i + 1 < tree_width (length xs) k then i + 1 else i))"

definition peaks :: "(uint256 \<Rightarrow> uint256 \<Rightarrow> uint256) \<Rightarrow> uint256 list \<Rightarrow> nat \<Rightarrow> nat \<Rightarrow> merkle_state \<Rightarrow> bool" where
  "peaks H xs c l s \<longleftrightarrow> (\<forall>j \<ge> l. odd (c div 2 ^ j) \<longrightarrow> mk_inner s j = tree_node H xs j (c div 2 ^ j - 1))"

definition matched :: "(uint256 \<Rightarrow> uint256 \<Rightarrow> uint256) \<Rightarrow> uint256 list \<Rightarrow> nat \<Rightarrow> nat \<Rightarrow> nat \<Rightarrow> merkle_state \<Rightarrow> bool" where
  "matched H xs p c l s \<longleftrightarrow>
     (if p < c then \<exists>j \<ge> l. mk_matchlevel s = int j \<and> odd (c div 2 ^ j) \<and> p div 2 ^ j = c div 2 ^ j - 1 \<and>
                          mk_path s = map (tree_sibling H xs p) [0..<j]
      else mk_matchlevel s = - 1 \<and> mk_path s = [])"

definition tracks :: "(uint256 \<Rightarrow> uint256 \<Rightarrow> uint256) \<Rightarrow> uint256 list \<Rightarrow> nat \<Rightarrow> nat \<Rightarrow> nat \<Rightarrow> nat \<Rightarrow> merkle_state \<Rightarrow> bool \<Rightarrow> bool" where
  "tracks H xs p c i l s matchh \<longleftrightarrow>
     (if matchh then p div 2 ^ l = i \<and> mk_path s = map (tree_sibling H xs p) [0..<l]
      else p \<noteq> c \<and> matched H xs p c l s)"

lemma bit_nat_odd: "bit (n::nat) l \<longleftrightarrow> odd (n div 2 ^ l)"
  by (simp add: bit_iff_odd)

lemma div_power_Suc: "(q::nat) div 2 ^ Suc l = q div 2 ^ l div 2"
  by (simp only: power_Suc2 div_mult2_eq)

lemma half_pred: "a + 1 = b \<Longrightarrow> odd b \<Longrightarrow> a div 2 = (b::nat) div 2"
  by presburger

lemma div_pred:
  assumes "(c + 1) mod 2 ^ l = (0::nat)"
  shows "(c + 1) div 2 ^ l = c div 2 ^ l + 1"
  using assms by (simp add: div_Suc)

lemma mod_power_Suc_even:
  assumes "(c::nat) mod 2 ^ l = 0" "even (c div 2 ^ l)"
  shows "c mod 2 ^ Suc l = 0"
proof -
  obtain q where q: "c = 2 ^ l * q" using assms(1) by (metis dvdE mod_0_imp_dvd)
  with assms(2) have "even q" by simp
  with q show ?thesis by (auto elim!: evenE)
qed

lemma path_step_inner [simp]:
  "mk_inner (fst (path_step s l h m)) = mk_inner s" "mk_count (fst (path_step s l h m)) = mk_count s"
  "mk_matchlevel (fst (path_step s l h m)) = mk_matchlevel s"
  by (auto simp: path_step_def)

text \<open>One step upwards keeps track of the matching leaf.\<close>

lemma path_step_tracks:
  assumes odd: "odd (c div 2 ^ l)" and t: "tracks H xs p c (c div 2 ^ l) l s m" and w: "c div 2 ^ l < tree_width (length xs) l"
    and inner: "mk_inner s l = tree_node H xs l (c div 2 ^ l - 1)" and h: "h = tree_node H xs l (c div 2 ^ l)"
  shows "tracks H xs p c (c div 2 ^ Suc l) (Suc l) (fst (path_step s l h m)) (snd (path_step s l h m))"
proof -
  note dd = div_power_Suc
  consider "m" | j where "\<not> m" "p < c" "l \<le> j" "mk_matchlevel s = int j" "odd (c div 2 ^ j)" "p div 2 ^ j = c div 2 ^ j - 1"
      "mk_path s = map (tree_sibling H xs p) [0..<j]"
    | "\<not> m" "c < p" "mk_matchlevel s = - 1" "mk_path s = []"
    using t by (auto simp: tracks_def matched_def split: if_splits)
  then show ?thesis
  proof cases
    case 1
    with t have "p div 2 ^ l = c div 2 ^ l" "mk_path s = map (tree_sibling H xs p) [0..<l]" by (simp_all add: tracks_def)
    moreover from this odd have "tree_sibling H xs p l = mk_inner s l" by (simp add: tree_sibling_def inner)
    ultimately show ?thesis using 1 by (simp add: path_step_def tracks_def dd del: power_Suc)
  next
    case 2
    show ?thesis
    proof (cases "j = l")
      case True
      have e: "p div 2 ^ l = c div 2 ^ l - 1" using 2 True by simp
      then have "even (p div 2 ^ l)" "p div 2 ^ l + 1 = c div 2 ^ l" using odd by (simp_all add: odd_pos)
      then have "tree_sibling H xs p l = h" using w by (simp add: tree_sibling_def h Let_def)
      moreover have "p div 2 ^ l div 2 = c div 2 ^ l div 2" by (rule half_pred) (use \<open>p div 2 ^ l + 1 = c div 2 ^ l\<close> odd in simp_all)
      ultimately show ?thesis using 2 True by (simp add: path_step_def tracks_def dd del: power_Suc)
    next
      case False
      then have "Suc l \<le> j" using 2 by simp
      then show ?thesis using 2 False by (auto simp: path_step_def tracks_def matched_def)
    qed
  next
    case 3
    then show ?thesis by (simp add: path_step_def tracks_def matched_def)
  qed
qed

lemma tree_node_pair:
  assumes "odd i" "i < tree_width (length xs) l"
  shows "H (tree_node H xs l (i - 1)) (tree_node H xs l i) = tree_node H xs (Suc l) (i div 2)"
  using assms by (auto elim!: oddE)

lemma tracks_cong:
  "mk_path s' = mk_path s \<Longrightarrow> mk_matchlevel s' = mk_matchlevel s \<Longrightarrow> tracks H xs p c i l s' m = tracks H xs p c i l s m"
  by (simp add: tracks_def matched_def)

lemma leaf_loop_spec:
  assumes "mk_count s = c + 1" "c < length xs" "length xs \<le> 2 ^ 31" "(c + 1) mod 2 ^ l = 0"
    "h = tree_node H xs l (c div 2 ^ l)" "peaks H xs c l s" "tracks H xs p c (c div 2 ^ l) l s m"
  shows "\<exists>s' l' m'. leaf_loop H s l h m = Some (s', l', tree_node H xs l' (c div 2 ^ l'), m') \<and> (c + 1) mod 2 ^ l' = 0 \<and>
           odd ((c + 1) div 2 ^ l') \<and> mk_inner s' = mk_inner s \<and> mk_count s' = c + 1 \<and> tracks H xs p c (c div 2 ^ l') l' s' m' \<and>
           mk_matchlevel s' = mk_matchlevel s"
  using assms
proof (induction H s l h m rule: leaf_loop.induct)
  case (1 H s l h m)
  let ?q = "(c + 1) div 2 ^ l"
  have "2 ^ l \<le> c + 1" using 1(5) by (simp add: dvd_imp_le mod_eq_0_iff_dvd)
  then have "(2::nat) ^ l \<le> 2 ^ 31" using 1(3,4) by linarith
  then have l: "\<not> 32 \<le> l" using power_le_imp_le_exp [of "2::nat" l 31] by simp
  have q: "?q = c div 2 ^ l + 1" by (rule div_pred) (rule 1(5))
  show ?case
  proof (cases "odd ?q")
    case True
    then show ?thesis using 1(2,5-) l by (subst leaf_loop.simps) (simp add: bit_nat_odd)
  next
    case False
    then have odd: "odd (c div 2 ^ l)" using q by simp
    have inner: "mk_inner s l = tree_node H xs l (c div 2 ^ l - 1)" using 1(7) odd by (simp add: peaks_def)
    have w: "c div 2 ^ l < tree_width (length xs) l" by (rule div_less_tree_width) (rule 1(3))
    obtain s1 m1 where ps: "path_step s l h m = (s1, m1)" by fastforce
    let ?s = "s1\<lparr>mk_mutated := mk_mutated s1 \<or> mk_inner s1 l = h\<rparr>"
    have s1: "mk_inner s1 = mk_inner s" "mk_count s1 = mk_count s" "mk_matchlevel s1 = mk_matchlevel s"
      using path_step_inner [of s l h m] by (simp_all add: ps)
    have t: "tracks H xs p c (c div 2 ^ Suc l) (Suc l) ?s m1"
      using path_step_tracks [OF odd 1(8) w inner 1(6)] by (simp add: ps tracks_cong [of ?s s1])
    have h: "H (mk_inner ?s l) h = tree_node H xs (Suc l) (c div 2 ^ Suc l)"
    proof -
      have "mk_inner ?s l = tree_node H xs l (c div 2 ^ l - 1)" by (simp add: s1 inner)
      then show ?thesis unfolding div_power_Suc by (simp only: 1(6) tree_node_pair [OF odd w])
    qed
    have "leaf_loop H s l h m = leaf_loop H ?s (l + 1) (H (mk_inner ?s l) h) m1"
      using l False 1(2) by (subst leaf_loop.simps) (simp add: bit_nat_odd ps)
    moreover have "\<exists>s' l' m'. leaf_loop H ?s (l + 1) (H (mk_inner ?s l) h) m1 = Some (s', l', tree_node H xs l' (c div 2 ^ l'), m') \<and>
       (c + 1) mod 2 ^ l' = 0 \<and> odd ((c + 1) div 2 ^ l') \<and> mk_inner s' = mk_inner ?s \<and> mk_count s' = c + 1 \<and>
       tracks H xs p c (c div 2 ^ l') l' s' m' \<and> mk_matchlevel s' = mk_matchlevel ?s"
    proof (rule 1(1) [OF l _ ps [symmetric] refl refl])
      show "\<not> bit (mk_count s) l" using False 1(2) by (simp add: bit_nat_odd)
      show "(c + 1) mod 2 ^ (l + 1) = 0" using mod_power_Suc_even [OF 1(5)] False by simp
      show "peaks H xs c (l + 1) ?s" using 1(7) by (auto simp: peaks_def s1)
    qed (use 1(2-4) s1 t h in simp_all)
    ultimately show ?thesis by (simp add: s1)
  qed
qed


definition leaves_inv :: "(uint256 \<Rightarrow> uint256 \<Rightarrow> uint256) \<Rightarrow> uint256 list \<Rightarrow> nat \<Rightarrow> nat \<Rightarrow> merkle_state \<Rightarrow> bool" where
  "leaves_inv H xs p c s \<longleftrightarrow> mk_count s = c \<and> peaks H xs c 0 s \<and> matched H xs p c 0 s"

lemma div_higher:
  assumes "(c + 1) mod 2 ^ l = (0::nat)" "l < j" "odd ((c + 1) div 2 ^ l)"
  shows "(c + 1) div 2 ^ j = c div 2 ^ j"
proof -
  obtain d where j: "j = l + Suc d" using assms(2) by (metis add_Suc_right less_iff_Suc_add)
  have e: "q div 2 ^ j = q div 2 ^ l div 2 ^ Suc d" for q :: nat by (simp only: j power_add div_mult2_eq)
  have "(b + 1) div 2 ^ Suc d = b div 2 ^ Suc d" if "even b" for b :: nat
    using that by (auto elim!: evenE simp: div_mult2_eq)
  moreover have "even (c div 2 ^ l)" using assms div_pred by simp
  ultimately show ?thesis using e div_pred [OF assms(1)] by simp
qed

lemma process_leaf_inv:
  assumes "leaves_inv H xs p c s" "c < length xs" "length xs \<le> 2 ^ 31"
  shows "\<exists>s'. process_leaf H p (xs ! c) s = Some s' \<and> leaves_inv H xs p (c + 1) s'"
proof -
  let ?s = "s\<lparr>mk_count := c + 1\<rparr>"
  have cnt: "mk_count s = c" "(c + 1) mod 2 ^ 32 = c + 1" using assms by (simp_all add: leaves_inv_def)
  have t: "tracks H xs p c (c div 2 ^ 0) 0 ?s (c = p)"
    using assms(1) by (auto simp: tracks_def leaves_inv_def matched_def)
  have "\<exists>s' l' m'. leaf_loop H ?s 0 (xs ! c) (c = p) = Some (s', l', tree_node H xs l' (c div 2 ^ l'), m') \<and> (c + 1) mod 2 ^ l' = 0 \<and>
           odd ((c + 1) div 2 ^ l') \<and> mk_inner s' = mk_inner ?s \<and> mk_count s' = c + 1 \<and> tracks H xs p c (c div 2 ^ l') l' s' m' \<and>
           mk_matchlevel s' = mk_matchlevel ?s"
    using assms by (intro leaf_loop_spec [OF _ assms(2,3) _ _ _ t]) (auto simp: peaks_def leaves_inv_def)
  then obtain s1 l m where l: "leaf_loop H ?s 0 (xs ! c) (c = p) = Some (s1, l, tree_node H xs l (c div 2 ^ l), m)"
    and z: "(c + 1) mod 2 ^ l = 0" and o: "odd ((c + 1) div 2 ^ l)" and i: "mk_inner s1 = mk_inner s" and k: "mk_count s1 = c + 1"
    and t1: "tracks H xs p c (c div 2 ^ l) l s1 m" by auto
  let ?s' = "s1\<lparr>mk_inner := (mk_inner s1)(l := tree_node H xs l (c div 2 ^ l)), mk_matchlevel := if m then int l else mk_matchlevel s1\<rparr>"
  have pr: "(c + 1) div 2 ^ l - 1 = c div 2 ^ l" using div_pred [OF z] by simp
  have "peaks H xs (c + 1) 0 ?s'"
    unfolding peaks_def
  proof (intro allI impI)
    fix j assume oj: "odd ((c + 1) div 2 ^ j)"
    consider "j = l" | "l < j" | "j < l" by linarith
    then show "mk_inner ?s' j = tree_node H xs j ((c + 1) div 2 ^ j - 1)"
    proof cases
      case 2
      then show ?thesis using oj assms(1) div_higher [OF z 2 o] by (simp add: i leaves_inv_def peaks_def)
    next
      case 3
      then obtain d where d: "l = j + Suc d" by (metis add_Suc_right less_iff_Suc_add)
      obtain q where "c + 1 = 2 ^ l * q" using z by (metis dvdE mod_0_imp_dvd)
      then have "c + 1 = 2 ^ j * (2 * (2 ^ d * q))" by (simp add: d power_add)
      then have "(c + 1) div 2 ^ j = 2 * (2 ^ d * q)" by simp
      then show ?thesis using oj by simp
    qed (use pr in simp)
  qed
  moreover have "matched H xs p (c + 1) 0 ?s'"
  proof (cases m)
    case True
    then have m: "p div 2 ^ l = c div 2 ^ l" "mk_path s1 = map (tree_sibling H xs p) [0..<l]" using t1 by (simp_all add: tracks_def)
    have "p < c + 1"
    proof -
      have "p div 2 ^ l < (c + 1) div 2 ^ l" using m(1) div_pred [OF z] by simp
      then show ?thesis by (metis div_le_mono leD le_less_linear)
    qed
    then show ?thesis using True m o pr by (auto simp: matched_def)
  next
    case False
    then have ne: "p \<noteq> c" and mt: "matched H xs p c l s1" using t1 by (simp_all add: tracks_def)
    show ?thesis
    proof (cases "p < c")
      case True
      with mt obtain j where j: "l \<le> j" "mk_matchlevel s1 = int j" "odd (c div 2 ^ j)" "p div 2 ^ j = c div 2 ^ j - 1"
        "mk_path s1 = map (tree_sibling H xs p) [0..<j]" by (auto simp: matched_def)
      have "l \<noteq> j" using j(3) o div_pred [OF z] by auto
      then have "(c + 1) div 2 ^ j = c div 2 ^ j" using div_higher [OF z _ o] j(1) by simp
      then show ?thesis using j True False by (auto simp: matched_def)
    qed (use ne mt False in \<open>auto simp: matched_def\<close>)
  qed
  ultimately show ?thesis
    using l cnt k by (simp add: process_leaf_def leaves_inv_def)
qed

lemma process_leaves_inv:
  assumes "leaves_inv H xs p c s" "xs = ys @ zs" "length ys = c" "length xs \<le> 2 ^ 31"
  shows "\<exists>s'. process_leaves H p zs s = Some s' \<and> leaves_inv H xs p (length xs) s'"
  using assms
proof (induction zs arbitrary: ys c s)
  case (Cons z zs)
  have "c < length xs" "xs ! c = z" using Cons.prems by auto
  then obtain s1 where s1: "process_leaf H p z s = Some s1" "leaves_inv H xs p (c + 1) s1"
    using process_leaf_inv Cons.prems by blast
  show ?case using Cons.IH [OF s1(2), of "ys @ [z]"] Cons.prems s1 by simp
qed auto


lemma level_bound:
  assumes "2 ^ l dvd (c::nat)" "0 < c" "c \<le> 2 ^ 31"
  shows "\<not> 32 \<le> l"
proof -
  have "(2::nat) ^ l \<le> 2 ^ 31" using dvd_imp_le [OF assms(1,2)] assms(3) by linarith
  then show ?thesis using power_le_imp_le_exp [of "2::nat" l 31] by simp
qed

lemma tree_width_exact:
  assumes "n mod 2 ^ l = 0"
  shows "tree_width n l = n div 2 ^ l"
proof -
  obtain k where k: "n = k * 2 ^ l" using assms by (metis mod_0_imp_dvd dvdE mult.commute)
  then have "i < tree_width n l \<longleftrightarrow> i < k" for i by (simp add: less_tree_width)
  then have "tree_width n l = k" using linorder_neq_iff by blast
  then show ?thesis by (simp add: k)
qed

lemma tree_width_inexact:
  assumes "n mod 2 ^ l \<noteq> 0"
  shows "tree_width n l = n div 2 ^ l + 1"
proof (rule antisym)
  have "n < (n div 2 ^ l + 1) * 2 ^ l" by (simp add: dividend_less_div_times)
  then show "tree_width n l \<le> n div 2 ^ l + 1" by (simp add: not_less [symmetric] less_tree_width del: mult_Suc)
  have "n div 2 ^ l * 2 ^ l < n" using assms by (metis div_mult_mod_eq less_add_same_cancel1 neq0_conv)
  then have "n div 2 ^ l < tree_width n l" by (simp add: less_tree_width)
  then show "n div 2 ^ l + 1 \<le> tree_width n l" by simp
qed

lemma mod_power_Suc_nonzero:
  assumes "(n::nat) mod 2 ^ l \<noteq> 0" shows "n mod 2 ^ Suc l \<noteq> 0"
  using assms by (metis dvd_imp_mod_0 dvd_trans le_imp_power_dvd lessI less_imp_le mod_0_imp_dvd)

lemma tree_height_step: "tree_width n l > 1 \<Longrightarrow> tree_height n l = tree_height n (Suc l)"
  by (subst tree_height.simps) simp

lemma skip_zero_bits_spec:
  assumes "0 < n" "n \<le> 2 ^ 31" "n mod 2 ^ l = 0" "tree_height n 0 = tree_height n l"
  shows "\<exists>l'. skip_zero_bits n l = Some l' \<and> n mod 2 ^ l' = 0 \<and> odd (n div 2 ^ l') \<and> tree_height n 0 = tree_height n l'"
  using assms
proof (induction n l rule: skip_zero_bits.induct)
  case (1 n l)
  have l: "\<not> 32 \<le> l" using level_bound 1 by (meson mod_0_imp_dvd)
  show ?case
  proof (cases "odd (n div 2 ^ l)")
    case True
    then show ?thesis using l 1 by (subst skip_zero_bits.simps) (simp add: bit_nat_odd)
  next
    case False
    have z: "n mod 2 ^ (l + 1) = 0" using mod_power_Suc_even [OF 1(4)] False by simp
    have "n div 2 ^ l \<noteq> 0" using 1(2,4) by (metis add_0 div_mult_mod_eq mult_0 neq0_conv)
    then have "tree_width n l > 1" using False by (cases "n div 2 ^ l = 1") (auto simp: tree_width_exact [OF 1(4)])
    then have h: "tree_height n 0 = tree_height n (l + 1)" using tree_height_step 1(5) by simp
    show ?thesis
      using 1(1) [OF l _ 1(2,3) z h] False l by (subst skip_zero_bits.simps) (simp add: bit_nat_odd)
  qed
qed

lemma odd_div_le:
  assumes "odd (n div 2 ^ l)" shows "n div 2 ^ l + 1 = 2 * (n div 2 ^ Suc l + (1::nat))"
proof -
  have "q + 1 = 2 * (q div 2 + 1)" if "odd q" for q :: nat using that by presburger
  from this [OF assms] show ?thesis by (simp only: div_power_Suc)
qed

lemma sweep_up_spec:
  assumes "n = length xs" "n mod 2 ^ l \<noteq> 0" "mk_count s = (n div 2 ^ l + 1) * 2 ^ l" "mk_count s \<le> 2 ^ 31" "p < n"
    "h = tree_node H xs l (n div 2 ^ l)" "peaks H xs n l s" "tracks H xs p n (n div 2 ^ l) l s m" "tree_height n 0 = tree_height n l"
  shows "\<exists>s' l' m'. sweep_up H s l h m = Some (s', l', tree_node H xs l' (n div 2 ^ l'), m') \<and> n mod 2 ^ l' \<noteq> 0 \<and>
           even (n div 2 ^ l') \<and> mk_count s' = (n div 2 ^ l' + 1) * 2 ^ l' \<and> mk_count s' \<le> 2 ^ 31 \<and> peaks H xs n l' s' \<and>
           tracks H xs p n (n div 2 ^ l') l' s' m' \<and> tree_height n 0 = tree_height n l'"
  using assms
proof (induction H s l h m rule: sweep_up.induct)
  case (1 H s l h m)
  have l: "\<not> 32 \<le> l" by (rule level_bound [of _ "mk_count s"]) (use 1(4,5) in simp_all)
  have b: "bit (mk_count s) l \<longleftrightarrow> even (n div 2 ^ l)" by (simp add: bit_nat_odd 1(4))
  have w: "tree_width n l = n div 2 ^ l + 1" by (rule tree_width_inexact) (rule 1(3))
  show ?case
  proof (cases "even (n div 2 ^ l)")
    case True
    then show ?thesis using 1(3-) l b by (subst sweep_up.simps) simp
  next
    case False
    then have odd: "odd (n div 2 ^ l)" by simp
    have w': "n div 2 ^ l < tree_width (length xs) l" using w 1(2) by simp
    have inner: "mk_inner s l = tree_node H xs l (n div 2 ^ l - 1)" using 1(8) odd by (simp add: peaks_def)
    obtain s1 m1 where ps: "path_step s l h m = (s1, m1)" by fastforce
    have s1: "mk_inner s1 = mk_inner s" "mk_count s1 = mk_count s"
      using path_step_inner [of s l h m] by (simp_all add: ps)
    have t: "tracks H xs p n (n div 2 ^ Suc l) (Suc l) s1 m1"
      using path_step_tracks [OF odd 1(9) w' inner 1(7)] by (simp add: ps)
    have h: "H (mk_inner s1 l) h = tree_node H xs (Suc l) (n div 2 ^ Suc l)"
      unfolding div_power_Suc by (simp only: s1 inner 1(7) tree_node_pair [OF odd w'])
    have "0 < n div 2 ^ l" using odd by (rule odd_pos)
    then have hh: "tree_height n 0 = tree_height n (Suc l)" using tree_height_step [of n l] w 1(10) by simp
    have "sweep_up H s l h m = sweep_up H s1 (l + 1) (H (mk_inner s1 l) h) m1"
      using l b odd by (subst sweep_up.simps) (simp add: ps)
    moreover have "\<exists>s' l' m'. sweep_up H s1 (l + 1) (H (mk_inner s1 l) h) m1 = Some (s', l', tree_node H xs l' (n div 2 ^ l'), m') \<and>
       n mod 2 ^ l' \<noteq> 0 \<and> even (n div 2 ^ l') \<and> mk_count s' = (n div 2 ^ l' + 1) * 2 ^ l' \<and> mk_count s' \<le> 2 ^ 31 \<and> peaks H xs n l' s' \<and>
       tracks H xs p n (n div 2 ^ l') l' s' m' \<and> tree_height n 0 = tree_height n l'"
    proof (rule 1(1) [OF l _ ps [symmetric] refl])
      show "\<not> bit (mk_count s) l" using odd b by simp
      show "n mod 2 ^ (l + 1) \<noteq> 0" using mod_power_Suc_nonzero [OF 1(3)] by simp
      show "mk_count s1 = (n div 2 ^ (l + 1) + 1) * 2 ^ (l + 1)" using odd_div_le [OF odd] 1(4) s1 by simp
      show "peaks H xs n (l + 1) s1" using 1(8) by (auto simp: peaks_def s1)
    qed (use 1(2,5,6) s1 t h hh in simp_all)
    ultimately show ?thesis by simp
  qed
qed


definition sweeps :: "(uint256 \<Rightarrow> uint256 \<Rightarrow> uint256) \<Rightarrow> uint256 list \<Rightarrow> nat \<Rightarrow> nat \<Rightarrow> merkle_state \<Rightarrow> uint256 \<Rightarrow> bool \<Rightarrow> bool" where
  "sweeps H xs p l s h m \<longleftrightarrow>
     (let n = length xs; w = tree_width n l in
      odd w \<and> mk_count s = w * 2 ^ l \<and> mk_count s \<le> 2 ^ 31 \<and> h = tree_node H xs l (w - 1) \<and> peaks H xs n (Suc l) s \<and>
      (if m then p div 2 ^ l = w - 1 \<and> mk_path s = map (tree_sibling H xs p) [0..<l] else matched H xs p n (Suc l) s) \<and>
      tree_height n 0 = tree_height n l)"

lemma sweeps_level:
  assumes "sweeps H xs p l s h m" shows "\<not> 32 \<le> l"
  using assms by (intro level_bound [of _ "mk_count s"]) (auto simp: sweeps_def Let_def odd_pos)

text \<open>At the top the path holds one sibling per level.\<close>

lemma sweeps_top:
  assumes "sweeps H xs p l s h m" "p < length xs" "mk_count s = 2 ^ l"
  shows "l = tree_height (length xs) 0 \<and> h = tree_node H xs l 0 \<and> mk_path s = map (tree_sibling H xs p) [0..<l]"
proof -
  let ?n = "length xs"
  have w: "tree_width ?n l = 1" using assms(1,3) by (simp add: sweeps_def Let_def)
  have "\<not> (1 < tree_width ?n l)" using w by simp
  then have le: "?n \<le> 2 ^ l" by (simp add: less_tree_width)
  have "m"
  proof (rule ccontr)
    assume "\<not> m"
    then obtain j where j: "Suc l \<le> j" "odd (?n div 2 ^ j)" using assms(1,2) by (auto simp: sweeps_def Let_def matched_def)
    have "(2::nat) ^ l < 2 ^ j" using j(1) by (simp add: Suc_le_eq)
    then have "?n div 2 ^ j = 0" using le by (intro div_less) linarith
    then show False using j(2) by simp
  qed
  moreover have "tree_height ?n l = l" using w by (subst tree_height.simps) simp
  ultimately show ?thesis using assms(1) w by (simp add: sweeps_def Let_def)
qed

text \<open>A node without a sibling is combined with itself, and the climb over even levels leads to the next odd one.\<close>

lemma sweeps_step:
  assumes sw: "sweeps H xs p l s h m" and p: "p < length xs" and n31: "length xs \<le> 2 ^ 31" and c: "mk_count s \<noteq> 2 ^ l"
  defines "s1 \<equiv> (if m then s\<lparr>mk_path := mk_path s @ [h]\<rparr> else s)"
  defines "s2 \<equiv> s1\<lparr>mk_count := (mk_count s1 + 2 ^ l) mod 2 ^ 32\<rparr>"
  shows "\<exists>s' l' h' m'. sweep_up H s2 (Suc l) (H h h) m = Some (s', l', h', m') \<and> sweeps H xs p l' s' h' m'"
proof -
  let ?n = "length xs" and ?k = "Suc l"
  let ?w = "tree_width ?n l"
  have w: "odd ?w" "mk_count s = ?w * 2 ^ l" and h: "h = tree_node H xs l (?w - 1)" and pk: "peaks H xs ?n ?k s"
    and ht: "tree_height ?n 0 = tree_height ?n l" using sw by (simp_all add: sweeps_def Let_def)
  have w1: "1 < ?w" using w c odd_pos [OF w(1)] by (cases "?w = 1") auto
  have nz: "?n mod 2 ^ ?k \<noteq> 0"
  proof (cases "?n mod 2 ^ l = 0")
    case True
    then have "odd (?n div 2 ^ l)" using w(1) tree_width_exact by simp
    then show ?thesis by (metis dvd_div_iff_mult dvd_eq_mod_eq_0 power_Suc power_eq_0_iff zero_neq_numeral True)
  qed (rule mod_power_Suc_nonzero)
  have wk: "tree_width ?n ?k = ?n div 2 ^ ?k + 1" by (rule tree_width_inexact) (rule nz)
  have wk': "tree_width ?n ?k = (?w + 1) div 2" by (rule tree_width_Suc)
  have half: "?w + 1 = 2 * tree_width ?n ?k" "(?w - 1) div 2 = ?n div 2 ^ ?k" "?w - 1 = 2 * (?n div 2 ^ ?k)"
  proof -
    have "v + 1 = 2 * u \<and> (v - 1) div 2 = q \<and> v - 1 = 2 * q" if "odd v" "1 < v" "u = q + 1" "u = (v + 1) div 2" for u v q :: nat
      using that by presburger
    from this [OF w(1) w1 wk wk'] show "?w + 1 = 2 * tree_width ?n ?k" "(?w - 1) div 2 = ?n div 2 ^ ?k" "?w - 1 = 2 * (?n div 2 ^ ?k)"
      by blast+
  qed
  have cnt: "mk_count s + 2 ^ l = (?n div 2 ^ ?k + 1) * 2 ^ ?k"
    using half(1) w(2) by (simp add: wk algebra_simps)
  have "2 ^ l < ?n" using w1 by (simp add: less_tree_width)
  then have "l < 31" using n31 by (metis le_less_trans nat_neq_iff not_less power_less_imp_less_exp one_less_numeral_iff less_le_trans semiring_norm(76))
  then obtain d where d: "31 = ?k + d" by (metis Suc_leI le_iff_add)
  have "?n div 2 ^ ?k < 2 ^ d"
  proof -
    have "?n div 2 ^ ?k \<le> 2 ^ 31 div 2 ^ ?k" by (rule div_le_mono) (rule n31)
    also have "\<dots> = 2 ^ d" by (simp only: d power_add) simp
    finally have le: "?n div 2 ^ ?k \<le> 2 ^ d" .
    have "?n div 2 ^ ?k \<noteq> 2 ^ d"
    proof
      assume e: "?n div 2 ^ ?k = 2 ^ d"
      then have "2 ^ 31 \<le> ?n - ?n mod 2 ^ ?k" by (metis d minus_mod_eq_mult_div order_refl power_add)
      then show False using n31 nz mod_less_eq_dividend [of ?n "2 ^ ?k"] by linarith
    qed
    then show ?thesis using le by simp
  qed
  then have "(?n div 2 ^ ?k + 1) * 2 ^ ?k \<le> 2 ^ d * 2 ^ ?k" by (intro mult_le_mono1) simp
  also have "\<dots> = 2 ^ 31" by (simp only: d power_add mult.commute)
  finally have c31: "mk_count s + 2 ^ l \<le> 2 ^ 31" using cnt by simp
  have sc: "mk_count s2 = (?n div 2 ^ ?k + 1) * 2 ^ ?k" using c31 cnt by (simp add: s2_def s1_def)
  have hh: "H h h = tree_node H xs ?k (?n div 2 ^ ?k)"
    using w1 unfolding tree_node.simps half(3) [symmetric] h by simp
  have t: "tracks H xs p ?n (?n div 2 ^ ?k) ?k s2 m"
  proof (cases m)
    case True
    then have m: "p div 2 ^ l = ?w - 1" "mk_path s = map (tree_sibling H xs p) [0..<l]" using sw by (simp_all add: sweeps_def Let_def)
    moreover have "even (?w - 1)" using w(1) by simp
    ultimately have "tree_sibling H xs p l = h" using w1 by (simp add: tree_sibling_def h Let_def)
    then show ?thesis using True m half by (simp add: tracks_def s2_def s1_def div_power_Suc del: power_Suc)
  next
    case False
    then show ?thesis using sw p by (simp add: sweeps_def Let_def tracks_def s2_def s1_def matched_def)
  qed
  have ht': "tree_height ?n 0 = tree_height ?n ?k" using tree_height_step [OF w1] ht by simp
  have pk2: "peaks H xs ?n ?k s2" using pk by (simp add: peaks_def s2_def s1_def)
  obtain s' l' m' where r: "sweep_up H s2 ?k (H h h) m = Some (s', l', tree_node H xs l' (?n div 2 ^ l'), m')"
    and z: "?n mod 2 ^ l' \<noteq> 0" "even (?n div 2 ^ l')" and c': "mk_count s' = (?n div 2 ^ l' + 1) * 2 ^ l'" "mk_count s' \<le> 2 ^ 31"
    and pk': "peaks H xs ?n l' s'" and t': "tracks H xs p ?n (?n div 2 ^ l') l' s' m'" and ht'': "tree_height ?n 0 = tree_height ?n l'"
    using sweep_up_spec [OF refl nz sc _ p hh pk2 t ht'] c31 cnt sc by auto
  have "matched H xs p ?n (Suc l') s'" if "\<not> m'"
  proof -
    have "matched H xs p ?n l' s'" using t' that by (simp add: tracks_def)
    then show ?thesis using p z(2) by (auto simp: matched_def) (metis Suc_leI le_neq_implies_less)
  qed
  then have "sweeps H xs p l' s' (tree_node H xs l' (?n div 2 ^ l')) m'"
    using z c' pk' t' ht'' by (auto simp: sweeps_def Let_def tree_width_inexact tracks_def peaks_def)
  then show ?thesis using r by blast
qed

lemma sweep_spec:
  assumes "sweeps H xs p l s h m" "p < length xs" "length xs \<le> 2 ^ 31"
  shows "\<exists>s'. sweep H s l h m = Some (s', tree_node H xs (tree_height (length xs) 0) 0) \<and>
              mk_path s' = map (tree_sibling H xs p) [0..<tree_height (length xs) 0]"
  using assms
proof (induction H s l h m rule: sweep.induct)
  case (1 H s l h m)
  have l: "\<not> 32 \<le> l" by (rule sweeps_level) (rule 1(2))
  show ?case
  proof (cases "mk_count s = 2 ^ l")
    case True
    then show ?thesis using sweeps_top [OF 1(2,3) True] l by (subst sweep.simps) simp
  next
    case False
    obtain s' l' h' m' where r: "sweep_up H ((if m then s\<lparr>mk_path := mk_path s @ [h]\<rparr> else s)\<lparr>mk_count :=
        (mk_count (if m then s\<lparr>mk_path := mk_path s @ [h]\<rparr> else s) + 2 ^ l) mod 2 ^ 32\<rparr>) (Suc l) (H h h) m = Some (s', l', h', m')"
      and sw: "sweeps H xs p l' s' h' m'" using sweeps_step [OF 1(2-4) False] by blast
    have "sweep H s l h m = sweep H s' l' h' m'"
      using l False r by (subst sweep.simps) (simp add: Let_def del: mod_less)
    then show ?thesis using 1(1) [OF l False refl refl _ refl refl refl sw 1(3,4)] r by simp
  qed
qed

theorem MerkleComputation_spec:
  assumes "p < length xs" "length xs \<le> 2 ^ 31"
  shows "\<exists>m. MerkleComputation H xs p = Some (fst (ComputeMerkleRoot H xs), m, map (tree_sibling H xs p) [0..<tree_height (length xs) 0])"
proof -
  let ?n = "length xs"
  have ne: "xs \<noteq> []" using assms(1) by auto
  have "leaves_inv H xs p 0 merkle_start"
    by (simp add: leaves_inv_def peaks_def matched_def merkle_start_def)
  then obtain s where s: "process_leaves H p xs merkle_start = Some s" "leaves_inv H xs p ?n s"
    using process_leaves_inv [of H xs p 0 merkle_start "[]" xs] assms(2) by auto
  obtain l where l: "skip_zero_bits ?n 0 = Some l" "?n mod 2 ^ l = 0" "odd (?n div 2 ^ l)" "tree_height ?n 0 = tree_height ?n l"
    using skip_zero_bits_spec [of ?n 0] assms ne by auto
  have w: "tree_width ?n l = ?n div 2 ^ l" by (rule tree_width_exact) (rule l)
  obtain j where j: "mk_matchlevel s = int j" "odd (?n div 2 ^ j)" "p div 2 ^ j = ?n div 2 ^ j - 1"
    "mk_path s = map (tree_sibling H xs p) [0..<j]" using s(2) assms(1) by (auto simp: leaves_inv_def matched_def)
  have "l \<le> j"
  proof (rule ccontr)
    assume "\<not> l \<le> j"
    then have "2 ^ Suc j dvd ?n" using l(2) by (metis dvd_trans le_imp_power_dvd mod_0_imp_dvd not_less_eq_eq)
    then show False using j(2) by (auto elim!: dvdE)
  qed
  then have "sweeps H xs p l s (mk_inner s l) (mk_matchlevel s = int l)"
    using s(2) l j assms by (auto simp: sweeps_def Let_def w leaves_inv_def peaks_def matched_def)
  then show ?thesis
    using sweep_spec [OF _ assms] s l ne
    by (fastforce simp: MerkleComputation_def leaves_inv_def ComputeMerkleRoot_node)
qed


section \<open>Paths\<close>

fun ComputeMerkleRootFromBranch :: "(uint256 \<Rightarrow> uint256 \<Rightarrow> uint256) \<Rightarrow> uint256 \<Rightarrow> uint256 list \<Rightarrow> nat \<Rightarrow> uint256" where
  "ComputeMerkleRootFromBranch H leaf [] nIndex = leaf"
| "ComputeMerkleRootFromBranch H leaf (b # bs) nIndex =
     ComputeMerkleRootFromBranch H (if odd nIndex then H b leaf else H leaf b) bs (nIndex div 2)"

lemma tree_node_sibling:
  assumes "p < length xs"
  shows "(if odd (p div 2 ^ k) then H (tree_sibling H xs p k) (tree_node H xs k (p div 2 ^ k))
          else H (tree_node H xs k (p div 2 ^ k)) (tree_sibling H xs p k)) = tree_node H xs (Suc k) (p div 2 ^ Suc k)"
proof (cases "odd (p div 2 ^ k)")
  case True
  then show ?thesis
    using tree_node_pair [OF True div_less_tree_width [OF assms], of H] by (simp add: tree_sibling_def div_power_Suc Let_def del: power_Suc tree_node.simps)
next
  case False
  then have "2 * (p div 2 ^ k div 2) = p div 2 ^ k" by simp
  then show ?thesis using False by (simp add: tree_sibling_def div_power_Suc Let_def del: power_Suc)
qed

lemma branch_from_level:
  assumes "p < length xs"
  shows "k \<le> h \<Longrightarrow> ComputeMerkleRootFromBranch H (tree_node H xs k (p div 2 ^ k)) (map (tree_sibling H xs p) [k..<h]) (p div 2 ^ k)
           = tree_node H xs h (p div 2 ^ h)"
proof (induction "h - k" arbitrary: k)
  case (Suc d)
  then have "[k..<h] = k # [Suc k..<h]" by (simp add: upt_conv_Cons)
  moreover have "ComputeMerkleRootFromBranch H (tree_node H xs (Suc k) (p div 2 ^ Suc k)) (map (tree_sibling H xs p) [Suc k..<h])
      (p div 2 ^ Suc k) = tree_node H xs h (p div 2 ^ h)" using Suc by (intro Suc(1)) linarith+
  ultimately show ?case using tree_node_sibling [OF assms, of k H] by (simp only: list.map ComputeMerkleRootFromBranch.simps div_power_Suc)
qed simp

lemma merkle_path_root:
  assumes "p < length xs"
  shows "ComputeMerkleRootFromBranch H (xs ! p) (map (tree_sibling H xs p) [0..<tree_height (length xs) 0]) p = fst (ComputeMerkleRoot H xs)"
proof -
  let ?h = "tree_height (length xs) 0"
  have "\<not> 1 < tree_width (length xs) ?h" using tree_height_width [of "length xs" 0] by simp
  then have "p div 2 ^ ?h = 0" using assms by (simp add: less_tree_width)
  moreover have "xs \<noteq> []" using assms by auto
  ultimately show ?thesis using branch_from_level [OF assms, of 0 ?h H] by (simp add: ComputeMerkleRoot_node)
qed

section \<open>Binding\<close>

text \<open>The pairs that are hashed on the way to the root.\<close>

fun level_pairs :: "uint256 list \<Rightarrow> (uint256 \<times> uint256) list" where
  "level_pairs (a # b # hs) = (a, b) # level_pairs hs"
| "level_pairs _ = []"

function merkle_inputs :: "(uint256 \<Rightarrow> uint256 \<Rightarrow> uint256) \<Rightarrow> uint256 list \<Rightarrow> (uint256 \<times> uint256) list" where
  "merkle_inputs H hs = (if length hs > 1 then level_pairs (merkle_pad hs) @ merkle_inputs H (merkle_pairs H (merkle_pad hs)) else [])"
  by pat_completeness auto
termination
  by (relation "measure (\<lambda>(H, hs). length hs)") (auto simp: length_merkle_pairs length_merkle_pad)

declare merkle_inputs.simps [simp del]

definition collide :: "(uint256 \<Rightarrow> uint256 \<Rightarrow> uint256) \<Rightarrow> (uint256 \<times> uint256) list \<Rightarrow> (uint256 \<times> uint256) list \<Rightarrow> bool" where
  "collide H P Q \<longleftrightarrow> (\<exists>p \<in> set P. \<exists>q \<in> set Q. p \<noteq> q \<and> H (fst p) (snd p) = H (fst q) (snd q))"

lemma collide_append: "collide H P Q \<or> collide H P' Q' \<Longrightarrow> collide H (P @ P') (Q @ Q')"
  unfolding collide_def set_append by blast

lemma merkle_pairs_map: "merkle_pairs H hs = map (\<lambda>p. H (fst p) (snd p)) (level_pairs hs)"
  by (induction H hs rule: merkle_pairs.induct) auto

lemma map_eq_collide:
  assumes "map (\<lambda>p. H (fst p) (snd p)) P = map (\<lambda>p. H (fst p) (snd p)) Q"
  shows "P = Q \<or> collide H P Q"
  using assms
proof (induction P arbitrary: Q)
  case (Cons p P)
  then obtain q Q' where "Q = q # Q'" by (cases Q) auto
  then show ?case using Cons by (fastforce simp: collide_def)
qed simp

lemma level_pairs_inj: "even (length xs) \<Longrightarrow> even (length ys) \<Longrightarrow> level_pairs xs = level_pairs ys \<Longrightarrow> xs = ys"
proof (induction xs arbitrary: ys rule: level_pairs.induct)
  case (1 a b hs)
  then obtain c d ks where "ys = c # d # ks" by (cases ys rule: level_pairs.cases) auto
  then show ?case using 1 by auto
next
  case "2_1"
  then show ?case by (cases ys rule: level_pairs.cases) auto
qed auto

lemma adjacent_equal_pad: "odd (length xs) \<Longrightarrow> adjacent_equal (xs @ [last xs])"
  by (induction xs rule: adjacent_equal.induct) auto

lemma merkle_pad_inj:
  assumes "merkle_pad xs = merkle_pad ys" "\<not> adjacent_equal xs" "\<not> adjacent_equal ys"
  shows "xs = ys"
  using assms adjacent_equal_pad [of xs] adjacent_equal_pad [of ys] by (auto simp: merkle_pad_def split: if_splits)

lemma mutated_flag: "snd (ComputeMerkleRoot_loop H hs m) \<longleftrightarrow> m \<or> snd (ComputeMerkleRoot_loop H hs False)"
proof (induction "length hs" arbitrary: hs m rule: less_induct)
  case less
  show ?case
  proof (cases "length hs > 1")
    case True
    let ?hs = "merkle_pairs H (merkle_pad hs)"
    have "length ?hs < length hs" using True by (simp add: length_merkle_pairs length_merkle_pad)
    from less [OF this] have "snd (ComputeMerkleRoot_loop H ?hs m) \<longleftrightarrow> m \<or> snd (ComputeMerkleRoot_loop H ?hs False)" for m .
    note IH = this [of "m \<or> adjacent_equal hs"] this [of "adjacent_equal hs"]
    show ?thesis
      by (subst (1 2) ComputeMerkleRoot_loop.simps) (use True IH in auto)
  next
    case False
    then show ?thesis by (subst (1 2) ComputeMerkleRoot_loop.simps) simp
  qed
qed

lemma tree_height_Suc: "tree_height n (Suc k) = Suc (tree_height ((n + 1) div 2) k)"
proof -
  have w: "tree_width ((n + 1) div 2) k = tree_width n (Suc k)" for n k
    by (induction k) (simp_all add: tree_width_Suc)
  have "tree_height m j = Suc (tree_height ((n + 1) div 2) k)" if "m = n" "j = Suc k" for m j k
    using that
  proof (induction m j arbitrary: k rule: tree_height.induct)
    case (1 m j)
    show ?case
    proof (cases "1 < tree_width m j")
      case True
      then show ?thesis
        using 1(1) [OF True 1(2), of j] 1(2,3) w [of n k] by (subst (1 2) tree_height.simps) simp
    next
      case False
      then show ?thesis using 1(2,3) w [of n k] by (subst (1 2) tree_height.simps) simp
    qed
  qed
  then show ?thesis by blast
qed

lemma merkle_binding_loop:
  assumes "fst (ComputeMerkleRoot_loop H xs False) = fst (ComputeMerkleRoot_loop H ys False)"
    "\<not> snd (ComputeMerkleRoot_loop H xs False)" "\<not> snd (ComputeMerkleRoot_loop H ys False)"
    "tree_height (length xs) 0 = tree_height (length ys) 0" "xs \<noteq> []" "ys \<noteq> []"
  shows "xs = ys \<or> collide H (merkle_inputs H xs) (merkle_inputs H ys)"
  using assms
proof (induction "length xs" arbitrary: xs ys rule: less_induct)
  case less
  have hd: "tree_height n 0 = (if n > 1 then Suc (tree_height ((n + 1) div 2) 0) else 0)" for n
    by (subst tree_height.simps) (simp add: tree_height_Suc)
  show ?case
  proof (cases "length xs > 1")
    case True
    then have ly: "length ys > 1" using less(5) hd [of "length xs"] hd [of "length ys"] by (auto split: if_splits)
    let ?x = "merkle_pairs H (merkle_pad xs)" and ?y = "merkle_pairs H (merkle_pad ys)"
    have step: "ComputeMerkleRoot_loop H zs False = ComputeMerkleRoot_loop H (merkle_pairs H (merkle_pad zs)) (adjacent_equal zs)"
      if "length zs > 1" for zs using that by (subst ComputeMerkleRoot_loop.simps) simp
    have fstm: "fst (ComputeMerkleRoot_loop H zs m) = fst (ComputeMerkleRoot_loop H zs False)" for zs m
      using ComputeMerkleRoot_loop_level [of H zs 0] by (simp add: tree_level_0)
    have nx: "\<not> adjacent_equal xs" "\<not> snd (ComputeMerkleRoot_loop H ?x False)" and ny: "\<not> adjacent_equal ys" "\<not> snd (ComputeMerkleRoot_loop H ?y False)"
      using less(3,4) step [OF True] step [OF ly] mutated_flag by metis+
    have "?x = ?y \<or> collide H (merkle_inputs H ?x) (merkle_inputs H ?y)"
    proof (rule less(1))
      show "length ?x < length xs" using True by (simp add: length_merkle_pairs length_merkle_pad)
      show "fst (ComputeMerkleRoot_loop H ?x False) = fst (ComputeMerkleRoot_loop H ?y False)"
        using less(2) step [OF True] step [OF ly] fstm by metis
      show "tree_height (length ?x) 0 = tree_height (length ?y) 0"
        using less(5) hd [of "length xs"] hd [of "length ys"] True ly by (simp add: length_merkle_pairs length_merkle_pad)
      show "?x \<noteq> []" "?y \<noteq> []" using True ly by (simp_all add: length_0_conv [symmetric] length_merkle_pairs length_merkle_pad del: length_0_conv)
    qed (use nx ny in simp_all)
    moreover have "xs = ys \<or> collide H (level_pairs (merkle_pad xs)) (level_pairs (merkle_pad ys))" if "?x = ?y"
      using map_eq_collide [OF that [unfolded merkle_pairs_map]] level_pairs_inj [of "merkle_pad xs" "merkle_pad ys"]
        merkle_pad_inj [OF _ nx(1) ny(1)] by (auto simp: length_merkle_pad)
    ultimately show ?thesis
      using True ly collide_append [of H "level_pairs (merkle_pad xs)" "level_pairs (merkle_pad ys)"]
      by (subst (1 2) merkle_inputs.simps) auto
  next
    case False
    then have "length ys \<le> 1" using less(5) hd [of "length xs"] hd [of "length ys"] by (auto split: if_splits)
    then show ?thesis using False less(2) by (subst (asm) (1 2) ComputeMerkleRoot_loop.simps) simp
  qed
qed

lemma merkle_binding_lemma:
  assumes "ComputeMerkleRoot H xs = (r, False)" "ComputeMerkleRoot H ys = (r, False)"
    "tree_height (length xs) 0 = tree_height (length ys) 0" "xs \<noteq> []" "ys \<noteq> []"
  shows "xs = ys \<or> collide H (merkle_inputs H xs) (merkle_inputs H ys)"
proof (rule merkle_binding_loop [OF _ _ _ assms(3-5)])
  have one: "fst (ComputeMerkleRoot_loop H zs False) = [fst (ComputeMerkleRoot H zs)]" if "zs \<noteq> []" for zs
  proof -
    let ?h = "tree_height (length zs) 0"
    have "tree_width (length zs) ?h = 1"
      using tree_height_width [of "length zs" 0] tree_width_pos [of "length zs" ?h] that by simp
    then show ?thesis
      using ComputeMerkleRoot_loop_level [of H zs 0 False] ComputeMerkleRoot_node [OF that, of H] by (simp add: tree_level_0) (simp add: tree_level_def)
  qed
  show "fst (ComputeMerkleRoot_loop H xs False) = fst (ComputeMerkleRoot_loop H ys False)" using one assms by simp
  show "\<not> snd (ComputeMerkleRoot_loop H xs False)" "\<not> snd (ComputeMerkleRoot_loop H ys False)"
    using assms(1,2) by (auto simp: ComputeMerkleRoot_def Let_def split: prod.splits)
qed


section \<open>Properties\<close>

text \<open>
  C20: For every block of up to \<open>2 ^ 31\<close> leaves the constant-space computation ends without an undefined shift, its root is the root of the
  level-by-level computation, and the path it returns for a leaf leads from that leaf to the root, with one hash per level of the tree.
\<close>

theorem merkle_path_verifies:
  assumes "p < length xs" "length xs \<le> 2 ^ 31"
  shows "\<exists>mutated path. MerkleComputation H xs p = Some (fst (ComputeMerkleRoot H xs), mutated, path) \<and>
           length path = tree_height (length xs) 0 \<and> ComputeMerkleRootFromBranch H (xs ! p) path p = fst (ComputeMerkleRoot H xs)"
  using MerkleComputation_spec [OF assms, of H] merkle_path_root [OF assms(1), of H] by force

theorem merkle_path_verifies_witness:
  "\<exists>mutated path. MerkleComputation (\<lambda>a b. 3 * a + b) [1, 2, 3] 2 = Some (fst (ComputeMerkleRoot (\<lambda>a b. 3 * a + b) [1, 2, 3]), mutated, path) \<and>
     length path = tree_height 3 0 \<and>
     ComputeMerkleRootFromBranch (\<lambda>a b. 3 * a + b) 3 path 2 = fst (ComputeMerkleRoot (\<lambda>a b. 3 * a + b) [1, 2, 3])"
  using merkle_path_verifies [of 2 "[1, 2, 3]" "\<lambda>a b. 3 * a + b"] by (simp add: numeral_3_eq_3)



end
