(* ===== verification/MerkleBlock.thy ===== *)
theory MerkleBlock
  imports Merkle
begin

text \<open>
  Model of \<open>src/bitcoin/src/merkleblock.h\<close> and \<open>merkleblock.cpp\<close>: partial Merkle trees, which prove that some transactions belong to a block, with
  their construction, extraction and serialization. Positions stay below the number of transactions, which is a 32-bit number.
\<close>

subsection \<open>Packed bits\<close>

definition BitsToBytes :: "bool list \<Rightarrow> bytes" where
  "BitsToBytes bits =
     fold (\<lambda>p ret. ret[p div 8 := ret ! (p div 8) OR push_bit (p mod 8) (of_bool (bits ! p))])
       [0..<length bits] (replicate ((length bits + 7) div 8) 0)"

definition BytesToBits :: "bytes \<Rightarrow> bool list" where
  "BytesToBits bs = map (\<lambda>p. bs ! (p div 8) AND push_bit (p mod 8) 1 \<noteq> 0) [0..<length bs * 8]"

subsection \<open>The partial tree\<close>

record CPartialMerkleTree =
  nTransactions :: nat
  vBits :: "bool list"
  vHash :: "uint256 list"
  fBad :: bool

definition CPartialMerkleTree_default :: CPartialMerkleTree where
  "CPartialMerkleTree_default = \<lparr>nTransactions = 0, vBits = [], vHash = [], fBad = True\<rparr>"

definition CalcTreeWidth :: "nat \<Rightarrow> nat \<Rightarrow> nat" where
  "CalcTreeWidth n height = (n + 2 ^ height - 1) mod 2 ^ 32 div 2 ^ height"

fun CalcHash :: "(uint256 \<Rightarrow> uint256 \<Rightarrow> uint256) \<Rightarrow> nat \<Rightarrow> nat \<Rightarrow> nat \<Rightarrow> uint256 list \<Rightarrow> uint256" where
  "CalcHash H n 0 pos vTxid = vTxid ! pos"
| "CalcHash H n (Suc height) pos vTxid =
     (let left = CalcHash H n height (pos * 2) vTxid;
          right = (if pos * 2 + 1 < CalcTreeWidth n height then CalcHash H n height (pos * 2 + 1) vTxid else left)
      in H left right)"

definition parent_of_match :: "nat \<Rightarrow> nat \<Rightarrow> nat \<Rightarrow> bool list \<Rightarrow> bool" where
  "parent_of_match n height pos vMatch = list_ex (\<lambda>p. vMatch ! p) [pos * 2 ^ height..<min ((pos + 1) * 2 ^ height) n]"

fun TraverseAndBuild :: "(uint256 \<Rightarrow> uint256 \<Rightarrow> uint256) \<Rightarrow> nat \<Rightarrow> nat \<Rightarrow> uint256 list \<Rightarrow> bool list \<Rightarrow> CPartialMerkleTree \<Rightarrow> CPartialMerkleTree" where
  "TraverseAndBuild H 0 pos vTxid vMatch t =
     t\<lparr>vBits := vBits t @ [parent_of_match (nTransactions t) 0 pos vMatch], vHash := vHash t @ [CalcHash H (nTransactions t) 0 pos vTxid]\<rparr>"
| "TraverseAndBuild H (Suc height) pos vTxid vMatch t =
     (let fParentOfMatch = parent_of_match (nTransactions t) (Suc height) pos vMatch;
          t = t\<lparr>vBits := vBits t @ [fParentOfMatch]\<rparr>
      in if \<not> fParentOfMatch then t\<lparr>vHash := vHash t @ [CalcHash H (nTransactions t) (Suc height) pos vTxid]\<rparr>
         else let t = TraverseAndBuild H height (pos * 2) vTxid vMatch t
              in if pos * 2 + 1 < CalcTreeWidth (nTransactions t) height then TraverseAndBuild H height (pos * 2 + 1) vTxid vMatch t else t)"

function CalcTreeHeight :: "nat \<Rightarrow> nat \<Rightarrow> nat" where
  "CalcTreeHeight n nHeight = (if CalcTreeWidth n nHeight > 1 then CalcTreeHeight n (nHeight + 1) else nHeight)"
  by pat_completeness auto
termination
proof (relation "measure (\<lambda>(n, h). 32 - h)")
  fix n h :: nat
  assume w: "1 < CalcTreeWidth n h"
  have "h < 32"
  proof (rule ccontr)
    assume "\<not> h < 32"
    then have "(2::nat) ^ 32 \<le> 2 ^ h" by (intro power_increasing) auto
    moreover have "(n + 2 ^ h - 1) mod 2 ^ 32 < 2 ^ 32" by simp
    ultimately have "(n + 2 ^ h - 1) mod 2 ^ 32 div 2 ^ h = 0" by (intro div_less) linarith
    then show False using w by (simp add: CalcTreeWidth_def)
  qed
  then show "((n, h + 1), n, h) \<in> measure (\<lambda>(n, h). 32 - h)" by simp
qed simp

declare CalcTreeHeight.simps [simp del]

text \<open>\<open>None\<close> is the failed assertion of \<open>CalcHash\<close> on an empty list of transactions.\<close>

definition CPartialMerkleTree_new :: "(uint256 \<Rightarrow> uint256 \<Rightarrow> uint256) \<Rightarrow> uint256 list \<Rightarrow> bool list \<Rightarrow> CPartialMerkleTree option" where
  "CPartialMerkleTree_new H vTxid vMatch =
     (if length vTxid = 0 then None
      else let n = length vTxid mod 2 ^ 32; t = \<lparr>nTransactions = n, vBits = [], vHash = [], fBad = False\<rparr>
           in Some (TraverseAndBuild H (CalcTreeHeight n 0) 0 vTxid vMatch t))"

subsection \<open>Extraction\<close>

record extraction =
  ex_tree :: CPartialMerkleTree
  nBitsUsed :: nat
  nHashUsed :: nat
  ex_vMatch :: "uint256 list"
  ex_vnIndex :: "nat list"

definition set_bad :: "extraction \<Rightarrow> extraction" where
  "set_bad e = e\<lparr>ex_tree := (ex_tree e)\<lparr>fBad := True\<rparr>\<rparr>"

text \<open>Use a stored hash; at the leaves a set bit marks a matched transaction.\<close>

definition use_hash :: "nat \<Rightarrow> nat \<Rightarrow> bool \<Rightarrow> extraction \<Rightarrow> uint256 \<times> extraction" where
  "use_hash height pos fParentOfMatch e =
     (if nHashUsed e \<ge> length (vHash (ex_tree e)) then (0, set_bad e)
      else let hash = vHash (ex_tree e) ! nHashUsed e; e = e\<lparr>nHashUsed := nHashUsed e + 1\<rparr>
           in (hash, if height = 0 \<and> fParentOfMatch then e\<lparr>ex_vMatch := ex_vMatch e @ [hash], ex_vnIndex := ex_vnIndex e @ [pos]\<rparr> else e))"

fun TraverseAndExtract :: "(uint256 \<Rightarrow> uint256 \<Rightarrow> uint256) \<Rightarrow> nat \<Rightarrow> nat \<Rightarrow> extraction \<Rightarrow> uint256 \<times> extraction" where
  "TraverseAndExtract H 0 pos e =
     (if nBitsUsed e \<ge> length (vBits (ex_tree e)) then (0, set_bad e)
      else use_hash 0 pos (vBits (ex_tree e) ! nBitsUsed e) (e\<lparr>nBitsUsed := nBitsUsed e + 1\<rparr>))"
| "TraverseAndExtract H (Suc height) pos e =
     (if nBitsUsed e \<ge> length (vBits (ex_tree e)) then (0, set_bad e)
      else let fParentOfMatch = vBits (ex_tree e) ! nBitsUsed e; e = e\<lparr>nBitsUsed := nBitsUsed e + 1\<rparr>
           in if \<not> fParentOfMatch then use_hash (Suc height) pos fParentOfMatch e
              else let (left, e) = TraverseAndExtract H height (pos * 2) e
                   in if pos * 2 + 1 < CalcTreeWidth (nTransactions (ex_tree e)) height
                      then let (right, e) = TraverseAndExtract H height (pos * 2 + 1) e
                           in (H left right, if right = left then set_bad e else e)
                      else (H left left, e))"

definition MAX_BLOCK_WEIGHT :: nat where
  "MAX_BLOCK_WEIGHT = 4000000"

definition MIN_TRANSACTION_WEIGHT :: nat where
  "MIN_TRANSACTION_WEIGHT = 4 * 60"

definition extraction_start :: "CPartialMerkleTree \<Rightarrow> nat list \<Rightarrow> extraction" where
  "extraction_start t vnIndex = \<lparr>ex_tree = t, nBitsUsed = 0, nHashUsed = 0, ex_vMatch = [], ex_vnIndex = vnIndex\<rparr>"

text \<open>
  The root, the matched hashes and their positions. The positions are appended to the list the caller passes. Every failure returns the null hash.
\<close>

definition ExtractMatches :: "(uint256 \<Rightarrow> uint256 \<Rightarrow> uint256) \<Rightarrow> CPartialMerkleTree \<Rightarrow> nat list \<Rightarrow> uint256 \<times> uint256 list \<times> nat list" where
  "ExtractMatches H t vnIndex =
     (if nTransactions t = 0 then (0, [], vnIndex)
      else if nTransactions t > MAX_BLOCK_WEIGHT div MIN_TRANSACTION_WEIGHT then (0, [], vnIndex)
      else if length (vHash t) > nTransactions t then (0, [], vnIndex)
      else if length (vBits t) < length (vHash t) then (0, [], vnIndex)
      else let (hashMerkleRoot, e) = TraverseAndExtract H (CalcTreeHeight (nTransactions t) 0) 0 (extraction_start t vnIndex)
           in (if fBad (ex_tree e) then 0
               else if (nBitsUsed e + 7) div 8 \<noteq> (length (vBits t) + 7) div 8 then 0
               else if nHashUsed e \<noteq> length (vHash t) then 0
               else hashMerkleRoot, ex_vMatch e, ex_vnIndex e))"

subsection \<open>Serialization\<close>

definition Ser_CPartialMerkleTree :: "CPartialMerkleTree \<Rightarrow> bytes" where
  "Ser_CPartialMerkleTree t =
     ser_writedata32 (word_of_nat (nTransactions t)) @ VectorFormatter_Ser ser_uint256 (vHash t) @ Serialize_bytes (BitsToBytes (vBits t))"

definition Unser_CPartialMerkleTree :: "CPartialMerkleTree reader" where
  "Unser_CPartialMerkleTree =
     rbind ser_readdata32 (\<lambda>n. rbind (VectorFormatter_Unser 32 unser_uint256) (\<lambda>hs. rbind Unserialize_bytes (\<lambda>bs.
     rreturn \<lparr>nTransactions = unat n, vBits = BytesToBits bs, vHash = hs, fBad = False\<rparr>)))"

record CMerkleBlock =
  mb_header :: CBlockHeader
  mb_txn :: CPartialMerkleTree
  vMatchedTxn :: "(nat \<times> uint256) list"

text \<open>
  The constructor from a set of transaction ids or from a Bloom filter; a filter is its state and its function \<open>IsRelevantAndUpdate\<close>.
\<close>

fun match_txs :: "hash_functions \<Rightarrow> ('f \<Rightarrow> CTransaction \<Rightarrow> bool \<times> 'f) option \<Rightarrow> uint256 set option \<Rightarrow> nat \<Rightarrow> CTransaction list \<Rightarrow> 'f
    \<Rightarrow> bool list \<times> (nat \<times> uint256) list \<times> 'f" where
  "match_txs F update txids i [] f = ([], [], f)"
| "match_txs F update txids i (tx # txs) f =
     (let hash = ComputeHash F tx in
      if (case txids of None \<Rightarrow> False | Some ids \<Rightarrow> hash \<in> ids)
      then let (ms, matched, f) = match_txs F update txids (i + 1) txs f in (True # ms, matched, f)
      else case update of
             None \<Rightarrow> let (ms, matched, f) = match_txs F update txids (i + 1) txs f in (False # ms, matched, f)
           | Some u \<Rightarrow>
               let (relevant, f) = u f tx; (ms, matched, f) = match_txs F update txids (i + 1) txs f
               in if relevant then (True # ms, (i, hash) # matched, f) else (False # ms, matched, f))"

definition CMerkleBlock_new :: "hash_functions \<Rightarrow> ('f \<Rightarrow> CTransaction \<Rightarrow> bool \<times> 'f) option \<Rightarrow> uint256 set option \<Rightarrow> CBlock \<Rightarrow> 'f
    \<Rightarrow> (CMerkleBlock \<times> 'f) option" where
  "CMerkleBlock_new F update txids block f =
     (let (ms, matched, f) = match_txs F update txids 0 (vtx block) f
      in map_option (\<lambda>t. (\<lparr>mb_header = header block, mb_txn = t, vMatchedTxn = matched\<rparr>, f))
           (CPartialMerkleTree_new (merkle_hash F) (map (ComputeHash F) (vtx block)) ms))"


section \<open>The tree without wrap-around\<close>

lemma CalcTreeWidth_eq:
  assumes "n \<le> 2 ^ 31" "h \<le> 31"
  shows "CalcTreeWidth n h = tree_width n h"
proof -
  have "(2::nat) ^ h \<le> 2 ^ 31" using assms(2) by (intro power_increasing) auto
  then have "n + 2 ^ h - 1 < 2 ^ 32" using assms(1) zero_less_power [of "2::nat" h] by simp
  then show ?thesis by (simp add: CalcTreeWidth_def tree_width_def)
qed

lemma CalcTreeHeight_eq:
  assumes "n \<le> 2 ^ 31" "h \<le> 31"
  shows "CalcTreeHeight n h = tree_height n h \<and> tree_height n h \<le> 31"
  using assms
proof (induction n h rule: CalcTreeHeight.induct)
  case (1 n h)
  have w: "CalcTreeWidth n h = tree_width n h" using 1(2,3) by (rule CalcTreeWidth_eq)
  show ?case
  proof (cases "1 < tree_width n h")
    case True
    then have "2 ^ h < n" by (simp add: less_tree_width)
    then have "(2::nat) ^ h < 2 ^ 31" using 1(2) by linarith
    then have "h + 1 \<le> 31" using power_less_imp_less_exp [of "2::nat" h 31] by simp
    then show ?thesis using 1(1,2) True w by (subst CalcTreeHeight.simps, subst (1 2) tree_height.simps) simp
  next
    case False
    then show ?thesis using 1(3) w by (subst CalcTreeHeight.simps, subst (1 2) tree_height.simps) simp
  qed
qed

lemma CalcHash_eq:
  assumes "length xs \<le> 2 ^ 31"
  shows "k \<le> 32 \<Longrightarrow> CalcHash H (length xs) k pos xs = tree_node H xs k pos"
proof (induction k arbitrary: pos)
  case (Suc k)
  then show ?case using CalcTreeWidth_eq [OF assms, of k] by (simp add: Let_def mult.commute)
qed simp

section \<open>Round trip\<close>

text \<open>The positions of the matched leaves below a node, and the bits and hashes stored for it.\<close>

definition leaves_below :: "nat \<Rightarrow> nat \<Rightarrow> nat \<Rightarrow> nat list" where
  "leaves_below n k pos = [pos * 2 ^ k..<min ((pos + 1) * 2 ^ k) n]"

fun built :: "(uint256 \<Rightarrow> uint256 \<Rightarrow> uint256) \<Rightarrow> uint256 list \<Rightarrow> bool list \<Rightarrow> nat \<Rightarrow> nat \<Rightarrow> bool list \<times> uint256 list" where
  "built H xs ms 0 pos = ([list_ex (\<lambda>p. ms ! p) (leaves_below (length xs) 0 pos)], [tree_node H xs 0 pos])"
| "built H xs ms (Suc k) pos =
     (if list_ex (\<lambda>p. ms ! p) (leaves_below (length xs) (Suc k) pos)
      then let (bl, hl) = built H xs ms k (2 * pos);
               (br, hr) = (if 2 * pos + 1 < tree_width (length xs) k then built H xs ms k (2 * pos + 1) else ([], []))
           in (True # bl @ br, hl @ hr)
      else ([False], [tree_node H xs (Suc k) pos]))"

lemma TraverseAndBuild_eq:
  assumes "length xs \<le> 2 ^ 31"
  shows "k \<le> 32 \<Longrightarrow> nTransactions t = length xs \<Longrightarrow>
    TraverseAndBuild H k pos xs ms t = t\<lparr>vBits := vBits t @ fst (built H xs ms k pos), vHash := vHash t @ snd (built H xs ms k pos)\<rparr>"
proof (induction k arbitrary: pos t)
  case 0
  then show ?case by (simp add: parent_of_match_def leaves_below_def)
next
  case (Suc k)
  have p: "parent_of_match (length xs) (Suc k) pos ms = list_ex (\<lambda>p. ms ! p) (leaves_below (length xs) (Suc k) pos)"
    using Suc.prems by (simp add: parent_of_match_def leaves_below_def)
  have w: "CalcTreeWidth (length xs) k = tree_width (length xs) k" using CalcTreeWidth_eq [OF assms] Suc.prems by simp
  show ?case
    using Suc.prems by (simp add: p Suc.IH w CalcHash_eq [OF assms] mult.commute [of _ 2] Let_def split: prod.splits del: CalcHash.simps tree_node.simps)
qed

lemma leaves_below_split:
  assumes "pos < tree_width n (Suc k)"
  shows "leaves_below n (Suc k) pos =
     leaves_below n k (2 * pos) @ (if 2 * pos + 1 < tree_width n k then leaves_below n k (2 * pos + 1) else [])"
proof -
  let ?m = "(2 * pos + 1) * 2 ^ k"
  have e: "pos * 2 ^ Suc k = 2 * pos * 2 ^ k" "(pos + 1) * 2 ^ Suc k = (2 * pos + 1 + 1) * 2 ^ k" by simp_all
  have le: "2 * pos * 2 ^ k \<le> ?m" "?m \<le> (2 * pos + 1 + 1) * 2 ^ k" by simp_all
  show ?thesis
  proof (cases "?m < n")
    case True
    then have "2 * pos + 1 < tree_width n k" by (simp add: less_tree_width)
    moreover have "[2 * pos * 2 ^ k..<min ((2 * pos + 1 + 1) * 2 ^ k) n] = [2 * pos * 2 ^ k..<?m] @ [?m..<min ((2 * pos + 1 + 1) * 2 ^ k) n]"
      using upt_add_eq_append [of "2 * pos * 2 ^ k" ?m "min ((2 * pos + 1 + 1) * 2 ^ k) n - ?m"] le True by simp
    ultimately show ?thesis using True by (simp only: leaves_below_def e min_absorb1 less_imp_le if_True)
  next
    case False
    then have "\<not> 2 * pos + 1 < tree_width n k" by (simp add: less_tree_width)
    moreover have "min ((2 * pos + 1 + 1) * 2 ^ k) n = n" "min ?m n = n" using False le by linarith+
    ultimately show ?thesis by (simp only: leaves_below_def e if_False append_Nil2)
  qed
qed

lemma length_built:
  "pos < tree_width (length xs) k \<Longrightarrow>
     length (snd (built H xs ms k pos)) \<le> length (leaves_below (length xs) k pos) \<and>
     length (snd (built H xs ms k pos)) \<le> length (fst (built H xs ms k pos)) \<and>
     length (fst (built H xs ms k pos)) < 2 ^ Suc k"
proof (induction k arbitrary: pos)
  case 0
  then show ?case by (simp add: leaves_below_def)
next
  case (Suc k)
  let ?l = "built H xs ms k (2 * pos)" and ?r = "built H xs ms k (2 * pos + 1)"
  have w: "2 * pos < tree_width (length xs) k" using Suc.prems by (simp add: tree_width_Suc)
  have one: "1 \<le> length (leaves_below (length xs) (Suc k) pos)"
    using Suc.prems by (simp add: leaves_below_def less_tree_width Suc_le_eq)
  note l = Suc.IH [OF w]
  show ?case
  proof (cases "list_ex (\<lambda>p. ms ! p) (leaves_below (length xs) (Suc k) pos)")
    case True
    show ?thesis
    proof (cases "2 * pos + 1 < tree_width (length xs) k")
      case t: True
      note r = Suc.IH [OF t]
      show ?thesis using True t l r leaves_below_split [OF Suc.prems] by (simp add: split_beta)
    next
      case False
      then show ?thesis using True l leaves_below_split [OF Suc.prems] by (simp add: split_beta)
    qed
  next
    case False
    moreover have "Suc 0 < 4 * 2 ^ k" using zero_less_power [of "2::nat" k] by linarith
    ultimately show ?thesis using one by simp
  qed
qed


definition advance :: "extraction \<Rightarrow> nat \<Rightarrow> nat \<Rightarrow> uint256 list \<Rightarrow> nat list \<Rightarrow> extraction" where
  "advance e nb nh vs js = e\<lparr>nBitsUsed := nBitsUsed e + nb, nHashUsed := nHashUsed e + nh, ex_vMatch := ex_vMatch e @ vs, ex_vnIndex := ex_vnIndex e @ js\<rparr>"

lemma advance_advance: "advance (advance e a b vs js) c d ws ks = advance e (a + c) (b + d) (vs @ ws) (js @ ks)"
  by (simp add: advance_def)

lemma advance_simps [simp]:
  "ex_tree (advance e a b vs js) = ex_tree e" "nBitsUsed (advance e a b vs js) = nBitsUsed e + a"
  "nHashUsed (advance e a b vs js) = nHashUsed e + b"
  by (simp_all add: advance_def)

definition distinct_siblings :: "(uint256 \<Rightarrow> uint256 \<Rightarrow> uint256) \<Rightarrow> uint256 list \<Rightarrow> nat \<Rightarrow> bool" where
  "distinct_siblings H xs h \<longleftrightarrow>
     (\<forall>k < h. \<forall>i. 2 * i + 1 < tree_width (length xs) k \<longrightarrow> tree_node H xs k (2 * i) \<noteq> tree_node H xs k (2 * i + 1))"

definition matches_below :: "uint256 list \<Rightarrow> bool list \<Rightarrow> nat \<Rightarrow> nat \<Rightarrow> nat list" where
  "matches_below xs ms k pos = filter (\<lambda>p. ms ! p) (leaves_below (length xs) k pos)"

text \<open>Bits and hashes that start at the current positions of the extraction.\<close>

definition stored_at :: "extraction \<Rightarrow> bool list \<times> uint256 list \<Rightarrow> bool" where
  "stored_at e bh \<longleftrightarrow> (\<exists>post hpost. drop (nBitsUsed e) (vBits (ex_tree e)) = fst bh @ post \<and> drop (nHashUsed e) (vHash (ex_tree e)) = snd bh @ hpost)"

lemma drop_eq_Cons_nth: "drop n xs = x # ys \<Longrightarrow> n < length xs \<and> xs ! n = x \<and> drop (Suc n) xs = ys"
  by (metis drop_Suc drop_all drop_eq_Nil hd_drop_conv_nth leI list.distinct(1) list.sel(1) list.sel(3) tl_drop)

lemma drop_append_more: "drop n xs = ys @ zs \<Longrightarrow> drop (n + length ys) xs = zs"
  by (metis add.commute append_eq_conv_conj drop_drop)

lemma list_ex_filter: "\<not> list_ex P xs \<Longrightarrow> filter P xs = []"
  by (simp add: list_ex_iff filter_empty_conv)

lemma stored_leaf:
  assumes "stored_at e ([b], [h])" "b \<longrightarrow> k = 0"
  shows "nBitsUsed e < length (vBits (ex_tree e))" "vBits (ex_tree e) ! nBitsUsed e = b"
    "use_hash k pos b (e\<lparr>nBitsUsed := nBitsUsed e + 1\<rparr>) = (h, advance e 1 1 (if b then [h] else []) (if b then [pos] else []))"
  using assms by (auto simp: stored_at_def use_hash_def advance_def Let_def dest!: drop_eq_Cons_nth)

lemma stored_step:
  assumes "stored_at e (True # bs, hs)"
  shows "nBitsUsed e < length (vBits (ex_tree e))" "vBits (ex_tree e) ! nBitsUsed e"
    "stored_at (advance e 1 0 [] []) (bs, hs)" "e\<lparr>nBitsUsed := nBitsUsed e + 1\<rparr> = advance e 1 0 [] []"
  using assms by (auto simp: stored_at_def advance_def dest!: drop_eq_Cons_nth)

lemma stored_append_both:
  assumes "stored_at e (bs @ bs', hs @ hs')"
  shows stored_append1: "stored_at e (bs, hs)" and stored_append2: "stored_at (advance e (length bs) (length hs) vs js) (bs', hs')"
proof -
  show "stored_at e (bs, hs)" using assms by (auto simp: stored_at_def)
  show "stored_at (advance e (length bs) (length hs) vs js) (bs', hs')"
    using assms drop_append_more [of "nBitsUsed e" _ bs] drop_append_more [of "nHashUsed e" _ hs] by (force simp: stored_at_def)
qed

lemma extract_built:
  assumes "length xs \<le> 2 ^ 31"
  shows "k \<le> 32 \<Longrightarrow> pos < tree_width (length xs) k \<Longrightarrow> nTransactions (ex_tree e) = length xs \<Longrightarrow> stored_at e (built H xs ms k pos) \<Longrightarrow>
    distinct_siblings H xs k \<Longrightarrow>
    TraverseAndExtract H k pos e =
      (tree_node H xs k pos, advance e (length (fst (built H xs ms k pos))) (length (snd (built H xs ms k pos)))
         (map ((!) xs) (matches_below xs ms k pos)) (matches_below xs ms k pos))"
proof (induction k arbitrary: pos e)
  case 0
  then have l: "leaves_below (length xs) 0 pos = [pos]" by (simp add: leaves_below_def)
  note s = stored_leaf(1,2) [of e "ms ! pos" "xs ! pos" 0] stored_leaf(3) [of e "ms ! pos" "xs ! pos" 0 pos]
  show ?case using 0 s by (simp add: l matches_below_def)
next
  case (Suc k)
  let ?P = "list_ex (\<lambda>p. ms ! p) (leaves_below (length xs) (Suc k) pos)"
  have w: "CalcTreeWidth (length xs) k = tree_width (length xs) k" using CalcTreeWidth_eq [OF assms] Suc.prems by simp
  have wl: "2 * pos < tree_width (length xs) k" using Suc.prems(2) by (simp add: tree_width_Suc)
  have ds: "distinct_siblings H xs k" using Suc.prems(5) by (simp add: distinct_siblings_def)
  show ?case
  proof (cases ?P)
    case False
    then have b: "built H xs ms (Suc k) pos = ([False], [tree_node H xs (Suc k) pos])" by simp
    note s = stored_leaf(1,2) [OF Suc.prems(4) [unfolded b], of "Suc k"] stored_leaf(3) [OF Suc.prems(4) [unfolded b], of "Suc k" pos]
    show ?thesis using s False by (simp add: b matches_below_def list_ex_filter del: built.simps tree_node.simps)
  next
    case True
    let ?l = "built H xs ms k (2 * pos)" and ?r = "built H xs ms k (2 * pos + 1)"
    let ?ml = "matches_below xs ms k (2 * pos)" and ?mr = "matches_below xs ms k (2 * pos + 1)"
    show ?thesis
    proof (cases "2 * pos + 1 < tree_width (length xs) k")
      case t: True
      have b: "built H xs ms (Suc k) pos = (True # fst ?l @ fst ?r, snd ?l @ snd ?r)" using True t by (simp add: split_beta)
      have m: "matches_below xs ms (Suc k) pos = ?ml @ ?mr"
        using leaves_below_split [OF Suc.prems(2)] t by (simp add: matches_below_def)
      note s = stored_step [OF Suc.prems(4) [unfolded b]]
      let ?e1 = "advance e 1 0 [] []"
      let ?e2 = "advance ?e1 (length (fst ?l)) (length (snd ?l)) (map ((!) xs) ?ml) ?ml"
      have L: "TraverseAndExtract H k (2 * pos) ?e1 = (tree_node H xs k (2 * pos), ?e2)"
        using Suc.IH [OF _ wl _ _ ds, of ?e1] stored_append1 [OF s(3)] Suc.prems by simp
      have R: "TraverseAndExtract H k (2 * pos + 1) ?e2 = (tree_node H xs k (2 * pos + 1),
          advance ?e2 (length (fst ?r)) (length (snd ?r)) (map ((!) xs) ?mr) ?mr)"
        using Suc.IH [OF _ t _ _ ds, of ?e2] stored_append2 [OF s(3)] Suc.prems by simp
      have ne: "tree_node H xs k (2 * pos) \<noteq> tree_node H xs k (2 * pos + 1)"
        using Suc.prems(5) t by (simp add: distinct_siblings_def)
      show ?thesis
        using s(1,2,4) L R ne t Suc.prems(3)
        by (simp add: b m w mult.commute [of pos] Let_def split_beta advance_advance del: built.simps)
    next
      case f: False
      have b: "built H xs ms (Suc k) pos = (True # fst ?l @ [], snd ?l @ [])" using True f by (simp add: split_beta)
      have m: "matches_below xs ms (Suc k) pos = ?ml"
        using leaves_below_split [OF Suc.prems(2)] f by (simp add: matches_below_def)
      note s = stored_step [OF Suc.prems(4) [unfolded b]]
      let ?e1 = "advance e 1 0 [] []"
      have L: "TraverseAndExtract H k (2 * pos) ?e1 = (tree_node H xs k (2 * pos),
          advance ?e1 (length (fst ?l)) (length (snd ?l)) (map ((!) xs) ?ml) ?ml)"
        using Suc.IH [OF _ wl _ _ ds, of ?e1] stored_append1 [OF s(3)] Suc.prems by simp
      show ?thesis
        using s(1,2,4) L f Suc.prems(3)
        by (simp add: b m w mult.commute [of pos] Let_def split_beta advance_advance del: built.simps)
    qed
  qed
qed


text \<open>Without the mutation flag, siblings differ at every level below the root.\<close>

lemma adjacent_equal_nth: "adjacent_equal hs \<longleftrightarrow> (\<exists>i. 2 * i + 1 < length hs \<and> hs ! (2 * i) = hs ! (2 * i + 1))"
proof (induction hs rule: adjacent_equal.induct)
  case (1 a b hs)
  show ?case
  proof
    assume "adjacent_equal (a # b # hs)"
    then consider "a = b" | i where "2 * i + 1 < length hs" "hs ! (2 * i) = hs ! (2 * i + 1)" using 1 by auto
    then show "\<exists>i. 2 * i + 1 < length (a # b # hs) \<and> (a # b # hs) ! (2 * i) = (a # b # hs) ! (2 * i + 1)"
    proof cases
      case 1
      then show ?thesis by (intro exI [of _ 0]) simp
    next
      case (2 i)
      then show ?thesis by (intro exI [of _ "Suc i"]) simp
    qed
  next
    assume "\<exists>i. 2 * i + 1 < length (a # b # hs) \<and> (a # b # hs) ! (2 * i) = (a # b # hs) ! (2 * i + 1)"
    then obtain i where i: "2 * i + 1 < length (a # b # hs)" "(a # b # hs) ! (2 * i) = (a # b # hs) ! (2 * i + 1)" by blast
    then show "adjacent_equal (a # b # hs)" using 1 by (cases i) auto
  qed
qed auto

lemma unmutated_levels:
  assumes "\<not> snd (ComputeMerkleRoot_loop H (tree_level H xs k) m)" "k \<le> j" "j < tree_height (length xs) k"
  shows "\<not> adjacent_equal (tree_level H xs j)"
  using assms
proof (induction "length xs" k arbitrary: m rule: tree_height.induct)
  case (1 k)
  have w: "1 < tree_width (length xs) k"
    using 1(3,4) by (subst (asm) tree_height.simps) (auto split: if_splits)
  then have "1 < length (tree_level H xs k)" by (simp add: tree_level_def)
  then have step: "ComputeMerkleRoot_loop H (tree_level H xs k) m = ComputeMerkleRoot_loop H (tree_level H xs (k + 1)) (m \<or> adjacent_equal (tree_level H xs k))"
    by (subst ComputeMerkleRoot_loop.simps) (simp add: tree_level_Suc)
  show ?case
  proof (cases "j = k")
    case True
    then show ?thesis using 1(2) mutated_flag [of H "tree_level H xs (k + 1)" "m \<or> adjacent_equal (tree_level H xs k)"] by (simp add: step)
  next
    case False
    then show ?thesis using 1(1) [OF w] 1(2-4) w tree_height_step [OF w] by (simp add: step)
  qed
qed

lemma unmutated_distinct_siblings:
  assumes "\<not> snd (ComputeMerkleRoot H xs)"
  shows "distinct_siblings H xs (tree_height (length xs) 0)"
  unfolding distinct_siblings_def
proof (intro allI impI)
  fix k i
  assume k: "k < tree_height (length xs) 0" and i: "2 * i + 1 < tree_width (length xs) k"
  have "\<not> snd (ComputeMerkleRoot_loop H (tree_level H xs 0) False)"
    using assms by (simp add: ComputeMerkleRoot_def tree_level_0 split_beta)
  from unmutated_levels [OF this _ k] show "tree_node H xs k (2 * i) \<noteq> tree_node H xs k (2 * i + 1)"
    using i by (auto simp: adjacent_equal_nth tree_level_def)
qed

subsection \<open>Packed bits and serialization\<close>

lemma BitsToBytes_prefix:
  fixes bits :: "bool list"
  defines "step \<equiv> \<lambda>p (ret :: bytes). ret[p div 8 := ret ! (p div 8) OR push_bit (p mod 8) (of_bool (bits ! p))]"
  assumes "k \<le> length bits"
  shows "length (fold step [0..<k] (replicate ((length bits + 7) div 8) 0)) = (length bits + 7) div 8 \<and>
    (\<forall>i j. i < (length bits + 7) div 8 \<longrightarrow> j < 8 \<longrightarrow>
       (bit (fold step [0..<k] (replicate ((length bits + 7) div 8) 0) ! i) j \<longleftrightarrow> 8 * i + j < k \<and> bits ! (8 * i + j)))"
  using assms(2)
proof (induction k)
  case (Suc k)
  let ?r = "fold step [0..<k] (replicate ((length bits + 7) div 8) (0 :: u8))"
  have IH: "length ?r = (length bits + 7) div 8"
    "\<And>i j. i < (length bits + 7) div 8 \<Longrightarrow> j < 8 \<Longrightarrow> bit (?r ! i) j \<longleftrightarrow> 8 * i + j < k \<and> bits ! (8 * i + j)" using Suc by auto
  have k8: "k div 8 < (length bits + 7) div 8" using Suc.prems by linarith
  have eq: "8 * i + j = k \<longleftrightarrow> i = k div 8 \<and> j = k mod 8" if "j < 8" for i j
    using that by (auto simp: div_mult_mod_eq)
  have "bit (step k ?r ! i) j \<longleftrightarrow> 8 * i + j < Suc k \<and> bits ! (8 * i + j)" if ij: "i < (length bits + 7) div 8" "j < 8" for i j
  proof (cases "i = k div 8")
    case True
    have "bit (push_bit (k mod 8) (of_bool (bits ! k) :: u8)) j \<longleftrightarrow> j = k mod 8 \<and> bits ! k"
      using ij(2) by (auto simp: bit_simps)
    then show ?thesis using True ij IH k8 eq [OF ij(2), of i] by (auto simp: step_def bit_or_iff less_Suc_eq)
  next
    case False
    then show ?thesis using ij IH eq [OF ij(2), of i] by (auto simp: step_def less_Suc_eq)
  qed
  moreover have "length (step k ?r) = (length bits + 7) div 8" using IH by (simp add: step_def)
  ultimately show ?case by simp
qed simp

lemma bits_roundtrip: "BytesToBits (BitsToBytes bits) = bits @ replicate ((length bits + 7) div 8 * 8 - length bits) False"
proof (rule nth_equalityI)
  note p = BitsToBytes_prefix [of "length bits" bits, folded BitsToBytes_def, simplified]
  show len: "length (BytesToBits (BitsToBytes bits)) = length (bits @ replicate ((length bits + 7) div 8 * 8 - length bits) False)"
    using p by (simp add: BytesToBits_def)
  fix i assume "i < length (BytesToBits (BitsToBytes bits))"
  then have i: "i < (length bits + 7) div 8 * 8" using p by (simp add: BytesToBits_def)
  have "x AND push_bit j 1 \<noteq> 0 \<longleftrightarrow> bit x j" for x :: u8 and j
    by (simp add: push_bit_eq_mult and_exp_eq_0_iff_not_bit)
  then have "BytesToBits (BitsToBytes bits) ! i \<longleftrightarrow> bit (BitsToBytes bits ! (i div 8)) (i mod 8)"
    using i p by (simp add: BytesToBits_def)
  also have "\<dots> \<longleftrightarrow> i < length bits \<and> bits ! i"
    using i conjunct2 [OF p, rule_format, of "i div 8" "i mod 8"] by (simp add: less_mult_imp_div_less)
  finally show "BytesToBits (BitsToBytes bits) ! i = (bits @ replicate ((length bits + 7) div 8 * 8 - length bits) False) ! i"
    using i by (auto simp: nth_append)
qed


lemma length_BitsToBytes: "length (BitsToBytes bits) = (length bits + 7) div 8"
  using BitsToBytes_prefix [of "length bits" bits, folded BitsToBytes_def] by simp

definition pad_bits :: "bool list \<Rightarrow> bool list" where
  "pad_bits bits = bits @ replicate ((length bits + 7) div 8 * 8 - length bits) False"

interpretation hashesc: codec "VectorFormatter_Ser ser_uint256" "VectorFormatter_Unser 32 unser_uint256" "\<lambda>v. length v \<le> 0x2000000 \<and> (\<forall>x \<in> set v. True)"
  by (rule u256c.VectorFormatter_codec) (simp_all add: MAX_VECTOR_ALLOCATE_def)

lemma partial_tree_serialization:
  assumes "nTransactions t < 2 ^ 32" "length (vHash t) \<le> 0x2000000" "length (vBits t) \<le> 0x2000000"
  shows "Unser_CPartialMerkleTree (Ser_CPartialMerkleTree t @ rest) = Inr (t\<lparr>vBits := pad_bits (vBits t), fBad := False\<rparr>, rest)"
proof -
  have "length (BitsToBytes (vBits t)) \<le> 0x2000000" using assms(3) by (simp add: length_BitsToBytes)
  then show ?thesis
    using assms
    by (simp add: Unser_CPartialMerkleTree_def Ser_CPartialMerkleTree_def rbind_def rreturn_def u32c.decode_encode hashesc.decode_encode
        bytesc.decode_encode bits_roundtrip pad_bits_def unat_of_nat)
qed

lemma tree_height_le: "n \<le> 2 ^ m \<Longrightarrow> k \<le> m \<Longrightarrow> tree_height n k \<le> m"
proof (induction n k rule: tree_height.induct)
  case (1 n k)
  show ?case
  proof (cases "1 < tree_width n k")
    case True
    then have "2 ^ k < n" by (simp add: less_tree_width)
    then have "(2::nat) ^ k < 2 ^ m" using 1(2) by linarith
    then have "k + 1 \<le> m" using power_less_imp_less_exp [of "2::nat" k m] by simp
    then show ?thesis using 1(1) [OF True 1(2)] True by (subst tree_height.simps) simp
  next
    case False
    then show ?thesis using 1(3) by (subst tree_height.simps) simp
  qed
qed

lemma extract_new:
  assumes "ComputeMerkleRoot H xs = (root, False)" "xs \<noteq> []" "length xs \<le> 16666"
  shows "\<exists>t. CPartialMerkleTree_new H xs ms = Some t \<and> nTransactions t = length xs \<and> length (vHash t) \<le> 16666 \<and> length (vBits t) \<le> 0x10000 \<and>
     ExtractMatches H (t\<lparr>vBits := pad_bits (vBits t), fBad := False\<rparr>) js =
       (root, map ((!) xs) (filter (\<lambda>i. ms ! i) [0..<length xs]), js @ filter (\<lambda>i. ms ! i) [0..<length xs])"
proof -
  let ?n = "length xs" and ?h = "tree_height (length xs) 0"
  let ?b = "built H xs ms ?h 0"
  define t where "t = \<lparr>nTransactions = ?n, vBits = fst ?b, vHash = snd ?b, fBad = False\<rparr>"
  have n31: "?n \<le> 2 ^ 31" using assms(3) by simp
  have h: "CalcTreeHeight ?n 0 = ?h" using CalcTreeHeight_eq [OF n31, of 0] by simp
  have h15: "?h \<le> 15" by (rule tree_height_le) (use assms(3) in simp_all)
  have w: "0 < tree_width ?n ?h" by (rule tree_width_pos) (use assms(2) in simp)
  have new: "CPartialMerkleTree_new H xs ms = Some t"
    using assms(2,3) h15 TraverseAndBuild_eq [OF n31, of ?h] h by (simp add: CPartialMerkleTree_new_def t_def Let_def)
  have "tree_width ?n ?h \<le> 1" by (rule tree_height_width)
  then have "?n \<le> 2 ^ ?h" using less_tree_width [of 1 ?n ?h] by simp
  then have all: "leaves_below ?n ?h 0 = [0..<?n]" by (simp add: leaves_below_def)
  note len = length_built [OF w, of H ms]
  have "(2::nat) ^ Suc ?h \<le> 2 ^ 16" using h15 by (intro power_increasing) simp_all
  then have bits: "length (vBits t) \<le> 0x10000" using len by (simp add: t_def)
  have hash: "length (vHash t) \<le> ?n" "length (vHash t) \<le> length (vBits t)" using len by (simp_all add: t_def all)
  let ?t = "t\<lparr>vBits := pad_bits (vBits t), fBad := False\<rparr>"
  let ?e = "\<lparr>ex_tree = ?t, nBitsUsed = 0, nHashUsed = 0, ex_vMatch = [], ex_vnIndex = js\<rparr>"
  have st: "stored_at ?e ?b" by (simp add: stored_at_def t_def pad_bits_def)
  have "TraverseAndExtract H ?h 0 ?e = (tree_node H xs ?h 0, advance ?e (length (fst ?b)) (length (snd ?b))
         (map ((!) xs) (matches_below xs ms ?h 0)) (matches_below xs ms ?h 0))"
    using extract_built [OF n31 _ w _ st] unmutated_distinct_siblings [of H xs] assms(1) h15 by (simp add: t_def)
  moreover have "root = tree_node H xs ?h 0" using ComputeMerkleRoot_node [OF assms(2), of H] assms(1) by simp
  moreover have "length (pad_bits (vBits t)) = (length (vBits t) + 7) div 8 * 8" by (simp add: pad_bits_def)
  moreover have "\<not> (length (vBits t) + 7) div 8 * 8 < length (vHash t)" using hash(2) by linarith
  ultimately have "ExtractMatches H ?t js = (root, map ((!) xs) (filter (\<lambda>i. ms ! i) [0..<?n]), js @ filter (\<lambda>i. ms ! i) [0..<?n])"
    using hash assms(2,3) h
    by (simp add: ExtractMatches_def MAX_BLOCK_WEIGHT_def MIN_TRANSACTION_WEIGHT_def extraction_start_def matches_below_def all advance_def) (simp add: t_def)
  then show ?thesis using new bits hash assms(3) by (simp add: t_def)
qed


section \<open>Soundness\<close>

text \<open>The pairs that are hashed during an extraction.\<close>

fun extract_inputs :: "(uint256 \<Rightarrow> uint256 \<Rightarrow> uint256) \<Rightarrow> nat \<Rightarrow> nat \<Rightarrow> extraction \<Rightarrow> (uint256 \<times> uint256) list" where
  "extract_inputs H 0 pos e = []"
| "extract_inputs H (Suc height) pos e =
     (if nBitsUsed e \<ge> length (vBits (ex_tree e)) \<or> \<not> vBits (ex_tree e) ! nBitsUsed e then []
      else let e = e\<lparr>nBitsUsed := nBitsUsed e + 1\<rparr>; (left, e') = TraverseAndExtract H height (pos * 2) e
           in extract_inputs H height (pos * 2) e @
              (if pos * 2 + 1 < CalcTreeWidth (nTransactions (ex_tree e')) height
               then let (right, e'') = TraverseAndExtract H height (pos * 2 + 1) e'
                    in extract_inputs H height (pos * 2 + 1) e' @ [(left, right)]
               else [(left, left)]))"

lemma use_hash_tree:
  "use_hash k pos b e = (h, e') \<Longrightarrow> \<not> fBad (ex_tree e') \<Longrightarrow> ex_tree e' = ex_tree e \<and>
     (ex_vMatch e' = ex_vMatch e \<and> ex_vnIndex e' = ex_vnIndex e \<or>
      k = 0 \<and> ex_vMatch e' = ex_vMatch e @ [h] \<and> ex_vnIndex e' = ex_vnIndex e @ [pos])"
  by (auto simp: use_hash_def set_bad_def Let_def split: if_splits)

text \<open>The extraction only ever sets the flag of the tree.\<close>

definition tree_kept :: "extraction \<Rightarrow> extraction \<Rightarrow> bool" where
  "tree_kept e e' \<longleftrightarrow> nTransactions (ex_tree e') = nTransactions (ex_tree e) \<and> vBits (ex_tree e') = vBits (ex_tree e) \<and>
     vHash (ex_tree e') = vHash (ex_tree e) \<and> (fBad (ex_tree e) \<longrightarrow> fBad (ex_tree e'))"

lemma extract_tree:
  assumes "TraverseAndExtract H k pos e = (h, e')"
  shows "tree_kept e e'"
  using assms
proof (induction H k pos e arbitrary: h e' rule: TraverseAndExtract.induct)
  case (1 H pos e)
  then show ?case by (auto simp: use_hash_def set_bad_def Let_def tree_kept_def split: if_splits)
next
  case (2 H k pos e)
  show ?case
  proof (cases "length (vBits (ex_tree e)) \<le> nBitsUsed e \<or> \<not> vBits (ex_tree e) ! nBitsUsed e")
    case True
    then show ?thesis using 2(3) by (auto simp: use_hash_def set_bad_def Let_def tree_kept_def split: if_splits)
  next
    case False
    let ?e = "e\<lparr>nBitsUsed := nBitsUsed e + 1\<rparr>"
    obtain l e1 where L: "TraverseAndExtract H k (pos * 2) ?e = (l, e1)" by fastforce
    have b: "tree_kept ?e e1" using 2(1) [OF _ refl refl _ L] False by auto
    show ?thesis
    proof (cases "pos * 2 + 1 < CalcTreeWidth (nTransactions (ex_tree e1)) k")
      case True
      obtain r e2 where R: "TraverseAndExtract H k (pos * 2 + 1) e1 = (r, e2)" by fastforce
      have "tree_kept e1 e2" using 2(2) [OF _ refl refl _ L [symmetric] refl True R] False by auto
      then show ?thesis using 2(3) False L R True b by (auto simp: Let_def set_bad_def tree_kept_def)
    next
      case f: False
      then show ?thesis using 2(3) False L b by (auto simp: Let_def tree_kept_def)
    qed
  qed
qed

text \<open>The pairs below a node, and that all of them are hashed on the way to the root.\<close>

definition node_pair :: "(uint256 \<Rightarrow> uint256 \<Rightarrow> uint256) \<Rightarrow> uint256 list \<Rightarrow> nat \<Rightarrow> nat \<Rightarrow> uint256 \<times> uint256" where
  "node_pair H xs k i = (tree_node H xs k (2 * i), if 2 * i + 1 < tree_width (length xs) k then tree_node H xs k (2 * i + 1) else tree_node H xs k (2 * i))"

lemma level_pairs_nth: "i < length hs div 2 \<Longrightarrow> level_pairs hs ! i = (hs ! (2 * i), hs ! (2 * i + 1))"
proof (induction hs arbitrary: i rule: level_pairs.induct)
  case (1 a b hs)
  then show ?case by (cases i) auto
qed auto

lemma length_level_pairs: "length (level_pairs hs) = length hs div 2"
  by (induction hs rule: level_pairs.induct) auto

lemma node_pair_level:
  assumes "i < tree_width (length xs) (Suc k)"
  shows "node_pair H xs k i \<in> set (level_pairs (merkle_pad (tree_level H xs k)))"
proof -
  let ?w = "tree_width (length xs) k" and ?p = "merkle_pad (tree_level H xs k)"
  have i: "i < length ?p div 2" using assms by (simp add: length_merkle_pad tree_level_def tree_width_Suc)
  have lo: "2 * i < ?w" using assms by (simp add: tree_width_Suc)
  have "?p ! (2 * i) = tree_node H xs k (2 * i)" using lo by (auto simp: merkle_pad_def tree_level_def nth_append)
  moreover have "?p ! (2 * i + 1) = (if 2 * i + 1 < ?w then tree_node H xs k (2 * i + 1) else tree_node H xs k (2 * i))"
  proof (cases "2 * i + 1 < ?w")
    case True
    then show ?thesis by (auto simp: merkle_pad_def tree_level_def nth_append)
  next
    case False
    then have "?w = 2 * i + 1" using lo by linarith
    then show ?thesis by (auto simp: merkle_pad_def tree_level_def nth_append last_conv_nth)
  qed
  ultimately have "node_pair H xs k i = level_pairs ?p ! i" using level_pairs_nth [OF i] by (simp add: node_pair_def)
  then show ?thesis using i by (simp add: length_level_pairs)
qed

lemma node_pair_inputs:
  assumes "j \<le> k" "k < tree_height (length xs) j" "i < tree_width (length xs) (Suc k)"
  shows "node_pair H xs k i \<in> set (merkle_inputs H (tree_level H xs j))"
  using assms
proof (induction "length xs" j rule: tree_height.induct)
  case (1 j)
  have w: "1 < tree_width (length xs) j"
    using 1(2,3) by (subst (asm) tree_height.simps) (auto split: if_splits)
  then have l: "1 < length (tree_level H xs j)" by (simp add: tree_level_def)
  show ?case
  proof (cases "j = k")
    case True
    then show ?thesis using node_pair_level [OF 1(4)] l by (subst merkle_inputs.simps) simp
  next
    case False
    then have "node_pair H xs k i \<in> set (merkle_inputs H (tree_level H xs (j + 1)))"
      using 1(1) [OF w] 1(2-4) tree_height_step [OF w] by simp
    then show ?thesis using l by (subst merkle_inputs.simps) (simp add: tree_level_Suc)
  qed
qed

lemma collide_left: "collide H P Q \<Longrightarrow> collide H (P @ P') Q"
  unfolding collide_def set_append by blast

lemma collide_right: "collide H P' Q \<Longrightarrow> collide H (P @ P') Q"
  unfolding collide_def set_append by blast

lemma collide_last: "q \<in> set Q \<Longrightarrow> p \<noteq> q \<Longrightarrow> H (fst p) (snd p) = H (fst q) (snd q) \<Longrightarrow> collide H (P @ [p]) Q"
  unfolding collide_def by auto

definition genuine :: "uint256 list \<Rightarrow> extraction \<Rightarrow> extraction \<Rightarrow> bool" where
  "genuine xs e e' \<longleftrightarrow> (\<exists>js. (\<forall>j \<in> set js. j < length xs) \<and> ex_vMatch e' = ex_vMatch e @ map ((!) xs) js \<and> ex_vnIndex e' = ex_vnIndex e @ js)"

lemma genuine_same: "ex_vMatch e' = ex_vMatch e \<Longrightarrow> ex_vnIndex e' = ex_vnIndex e \<Longrightarrow> genuine xs e e'"
  unfolding genuine_def by (intro exI [of _ "[]"]) simp

lemma genuine_leaf: "j < length xs \<Longrightarrow> ex_vMatch e' = ex_vMatch e @ [xs ! j] \<Longrightarrow> ex_vnIndex e' = ex_vnIndex e @ [j] \<Longrightarrow> genuine xs e e'"
  unfolding genuine_def by (intro exI [of _ "[j]"]) simp

lemma genuine_trans: "genuine xs e e1 \<Longrightarrow> genuine xs e1 e2 \<Longrightarrow> genuine xs e e2"
proof -
  assume "genuine xs e e1" "genuine xs e1 e2"
  then obtain js ks where "\<forall>j \<in> set js. j < length xs" "ex_vMatch e1 = ex_vMatch e @ map ((!) xs) js" "ex_vnIndex e1 = ex_vnIndex e @ js"
    "\<forall>j \<in> set ks. j < length xs" "ex_vMatch e2 = ex_vMatch e1 @ map ((!) xs) ks" "ex_vnIndex e2 = ex_vnIndex e1 @ ks"
    by (auto simp: genuine_def)
  then show ?thesis by (auto simp: genuine_def intro!: exI [of _ "js @ ks"])
qed

lemma sound_pair:
  assumes "genuine xs e e0" "genuine xs e0 e1 \<or> collide H P Q" "genuine xs e1 e2 \<or> collide H P' Q"
  shows "genuine xs e e2 \<or> collide H (P @ P' @ R) Q"
proof (cases "collide H P Q \<or> collide H P' Q")
  case True
  then show ?thesis by (blast intro: collide_left collide_right)
next
  case False
  then show ?thesis using assms genuine_trans by blast
qed

lemma extract_sound:
  assumes n: "length xs \<le> 2 ^ 31" and R: "\<And>k i. k < h \<Longrightarrow> i < tree_width (length xs) (Suc k) \<Longrightarrow> node_pair H xs k i \<in> set Q"
  shows "TraverseAndExtract H k pos e = (tree_node H xs k pos, e') \<Longrightarrow> \<not> fBad (ex_tree e') \<Longrightarrow> nTransactions (ex_tree e) = length xs \<Longrightarrow>
    pos < tree_width (length xs) k \<Longrightarrow> k \<le> h \<Longrightarrow> h \<le> 31 \<Longrightarrow> genuine xs e e' \<or> collide H (extract_inputs H k pos e) Q"
proof (induction k arbitrary: pos e e')
  case 0
  then show ?case
    by (auto simp: set_bad_def split: if_splits dest!: use_hash_tree intro: genuine_same genuine_leaf)
next
  case (Suc k)
  let ?e = "e\<lparr>nBitsUsed := nBitsUsed e + 1\<rparr>" and ?n = "length xs"
  have w: "CalcTreeWidth ?n k = tree_width ?n k" using CalcTreeWidth_eq [OF n, of k] Suc.prems by simp
  show ?case
  proof (cases "length (vBits (ex_tree e)) \<le> nBitsUsed e \<or> \<not> vBits (ex_tree e) ! nBitsUsed e")
    case True
    then show ?thesis using Suc.prems(1,2)
      by (auto simp: set_bad_def Let_def simp del: tree_node.simps split: if_splits dest!: use_hash_tree intro: genuine_same)
  next
    case False
    obtain l e1 where L: "TraverseAndExtract H k (2 * pos) ?e = (l, e1)" by fastforce
    have k1: "tree_kept ?e e1" using L by (rule extract_tree)
    then have n1: "nTransactions (ex_tree e1) = ?n" using Suc.prems(3) by (simp add: tree_kept_def)
    have np: "node_pair H xs k pos \<in> set Q" by (rule R) (use Suc.prems(4,5) in simp_all)
    have pos2: "2 * pos < tree_width ?n k" using Suc.prems(4) by (simp add: tree_width_Suc)
    show ?thesis
    proof (cases "2 * pos + 1 < tree_width ?n k")
      case True
      obtain r e2 where R2: "TraverseAndExtract H k (2 * pos + 1) e1 = (r, e2)" by fastforce
      have k2: "tree_kept e1 e2" using R2 by (rule extract_tree)
      have T: "TraverseAndExtract H (Suc k) pos e = (H l r, if r = l then set_bad e2 else e2)"
        using False L R2 True n1 w by (simp add: Let_def mult.commute [of pos])
      have I: "extract_inputs H (Suc k) pos e = extract_inputs H k (2 * pos) ?e @ extract_inputs H k (2 * pos + 1) e1 @ [(l, r)]"
        using False L R2 True n1 w by (simp add: Let_def mult.commute [of pos])
      have nb: "\<not> fBad (ex_tree e2)" "e' = e2" using T Suc.prems(1,2) by (auto simp: set_bad_def split: if_splits)
      then have nb1: "\<not> fBad (ex_tree e1)" using k2 by (simp add: tree_kept_def)
      have eq: "H l r = H (fst (node_pair H xs k pos)) (snd (node_pair H xs k pos))"
        using T Suc.prems(1) by (simp add: node_pair_def)
      show ?thesis
      proof (cases "(l, r) = node_pair H xs k pos")
        case False
        then have "collide H ((extract_inputs H k (2 * pos) ?e @ extract_inputs H k (2 * pos + 1) e1) @ [(l, r)]) Q"
          by (intro collide_last [OF np]) (simp_all only: eq fst_conv snd_conv not_False_eq_True)
        then show ?thesis unfolding I append_assoc by (rule disjI2)
      next
        case True
        then have lr: "l = tree_node H xs k (2 * pos)" "r = tree_node H xs k (2 * pos + 1)"
          using \<open>2 * pos + 1 < tree_width ?n k\<close> by (simp_all add: node_pair_def)
        have "genuine xs ?e e1 \<or> collide H (extract_inputs H k (2 * pos) ?e) Q"
          by (rule Suc.IH) (use L lr nb1 Suc.prems pos2 in simp_all)
        moreover have "genuine xs e1 e2 \<or> collide H (extract_inputs H k (2 * pos + 1) e1) Q"
          by (rule Suc.IH) (use R2 lr nb n1 Suc.prems \<open>2 * pos + 1 < tree_width ?n k\<close> in simp_all)
        moreover have "genuine xs e ?e" by (rule genuine_same) simp_all
        ultimately show ?thesis unfolding I nb(2) by (intro sound_pair [of xs e ?e e1])
      qed
    next
      case f: False
      have T: "TraverseAndExtract H (Suc k) pos e = (H l l, e1)"
        using False L f n1 w by (simp add: Let_def mult.commute [of pos])
      have I: "extract_inputs H (Suc k) pos e = extract_inputs H k (2 * pos) ?e @ [(l, l)]"
        using False L f n1 w by (simp add: Let_def mult.commute [of pos])
      have e1: "e' = e1" using T Suc.prems(1) by simp
      have eq: "H l l = H (fst (node_pair H xs k pos)) (snd (node_pair H xs k pos))"
        using T Suc.prems(1) by (simp add: node_pair_def)
      show ?thesis
      proof (cases "(l, l) = node_pair H xs k pos")
        case False
        then have "collide H (extract_inputs H k (2 * pos) ?e @ [(l, l)]) Q"
          by (intro collide_last [OF np]) (simp_all only: eq fst_conv snd_conv not_False_eq_True)
        then show ?thesis unfolding I by (rule disjI2)
      next
        case True
        then have l: "l = tree_node H xs k (2 * pos)" by (simp add: node_pair_def)
        have "genuine xs ?e e1 \<or> collide H (extract_inputs H k (2 * pos) ?e) Q"
          by (rule Suc.IH) (use L l e1 Suc.prems pos2 in simp_all)
        moreover have "genuine xs e ?e" by (rule genuine_same) simp_all
        ultimately show ?thesis unfolding I e1 by (blast intro: genuine_trans collide_left)
      qed
    qed
  qed
qed


lemma extract_matches_sound:
  assumes x: "ExtractMatches H t [] = (root, vs, js)" "root \<noteq> 0" and m: "fst (ComputeMerkleRoot H xs) = root" and n: "nTransactions t = length xs"
  shows "vs = map ((!) xs) js \<and> (\<forall>j \<in> set js. j < length xs) \<or>
    collide H (extract_inputs H (CalcTreeHeight (nTransactions t) 0) 0 (extraction_start t [])) (merkle_inputs H xs)"
proof -
  let ?h = "tree_height (length xs) 0" and ?e = "extraction_start t []"
  have len: "length xs \<le> 16666" "xs \<noteq> []"
    using x n by (auto simp: ExtractMatches_def MAX_BLOCK_WEIGHT_def MIN_TRANSACTION_WEIGHT_def split: if_splits)
  then have n31: "length xs \<le> 2 ^ 31" by simp
  have h: "CalcTreeHeight (nTransactions t) 0 = ?h" "?h \<le> 31" using CalcTreeHeight_eq [OF n31, of 0] n by simp_all
  obtain r e where e: "TraverseAndExtract H ?h 0 ?e = (r, e)" by fastforce
  have r: "r = root" "\<not> fBad (ex_tree e)" "vs = ex_vMatch e" "js = ex_vnIndex e"
    using x e h by (auto simp: ExtractMatches_def split: if_splits)
  have root: "root = tree_node H xs ?h 0" using ComputeMerkleRoot_node [OF len(2), of H] m by simp
  have np: "node_pair H xs k i \<in> set (merkle_inputs H xs)" if "k < ?h" "i < tree_width (length xs) (Suc k)" for k i
    using node_pair_inputs [of 0 k xs i H] that by (simp add: tree_level_0)
  have w: "0 < tree_width (length xs) ?h" by (rule tree_width_pos) (use len in simp)
  have "genuine xs ?e e \<or> collide H (extract_inputs H ?h 0 ?e) (merkle_inputs H xs)"
    by (rule extract_sound [OF n31 np _ r(2) _ w order_refl h(2)]) (use e r root n in \<open>simp_all add: extraction_start_def\<close>)
  then show ?thesis unfolding h r(3,4) by (auto simp: genuine_def extraction_start_def)
qed

section \<open>Properties\<close>

text \<open>
  C19: A partial Merkle tree built over the transactions of a block survives its serialization: from what is read back, the extraction gives the Merkle
  root of the block and exactly the selected transactions with their positions, for every block within the weight limit whose root has no
  mutation flag.
\<close>

theorem partial_tree_roundtrip:
  assumes "ComputeMerkleRoot H xs = (root, False)" "xs \<noteq> []" "length xs \<le> 16666"
  shows "\<exists>t t'. CPartialMerkleTree_new H xs ms = Some t \<and> Unser_CPartialMerkleTree (Ser_CPartialMerkleTree t @ rest) = Inr (t', rest) \<and>
    ExtractMatches H t' [] = (root, map ((!) xs) (filter (\<lambda>i. ms ! i) [0..<length xs]), filter (\<lambda>i. ms ! i) [0..<length xs])"
proof -
  obtain t where t: "CPartialMerkleTree_new H xs ms = Some t" "nTransactions t = length xs" "length (vHash t) \<le> 16666" "length (vBits t) \<le> 0x10000"
    "ExtractMatches H (t\<lparr>vBits := pad_bits (vBits t), fBad := False\<rparr>) [] =
       (root, map ((!) xs) (filter (\<lambda>i. ms ! i) [0..<length xs]), [] @ filter (\<lambda>i. ms ! i) [0..<length xs])"
    using extract_new [OF assms, of ms "[]"] by blast
  then show ?thesis using partial_tree_serialization [of t rest] assms(3) by simp
qed

theorem partial_tree_roundtrip_witness:
  "\<exists>t t'. CPartialMerkleTree_new (\<lambda>a b. 3 * a + b) [1, 2, 3] [True, False, True] = Some t \<and>
     Unser_CPartialMerkleTree (Ser_CPartialMerkleTree t @ [7]) = Inr (t', [7]) \<and> ExtractMatches (\<lambda>a b. 3 * a + b) t' [] = (27, [1, 3], [0, 2])"
proof -
  have "ComputeMerkleRoot (\<lambda>a b. 3 * a + b) [1, 2, 3] = (27, False)"
    by (simp add: ComputeMerkleRoot_def ComputeMerkleRoot_loop.simps merkle_pad_def)
  from partial_tree_roundtrip [OF this, of "[True, False, True]" "[7]"] show ?thesis
    by (simp add: upt_rec numeral_2_eq_2)
qed


definition forged_tree :: CPartialMerkleTree where
  "forged_tree = \<lparr>nTransactions = 2, vBits = [True, False, True], vHash = [2, 0], fBad = False\<rparr>"


end
