(* ===== verification/Coins.thy ===== *)
theory Coins
  imports Merkle Script
begin

text \<open>
  Model of \<open>src/bitcoin/src/coins.h\<close>, \<open>coins.cpp\<close> and of the coins database in \<open>txdb.cpp\<close>. A view of the unspent outputs is a state with the operations of
  \<open>CCoinsView\<close> (\<open>view_ops\<close>); a cache is a view over another view. The circular list of flagged entries is the list of their outpoints from the
  sentinel on. \<open>U\<close> is \<open>Coin::DynamicMemoryUsage\<close>, which depends on the allocator.
\<close>

subsection \<open>Coins\<close>

record Coin =
  coin_out :: CTxOut
  coin_fCoinBase :: bool
  coin_nHeight :: "31 word"

definition Coin_new :: "CTxOut \<Rightarrow> int \<Rightarrow> bool \<Rightarrow> Coin" where
  "Coin_new outIn nHeightIn fCoinBaseIn = \<lparr>coin_out = outIn, coin_fCoinBase = fCoinBaseIn, coin_nHeight = word_of_int nHeightIn\<rparr>"

definition Coin_Clear :: Coin where
  "Coin_Clear = \<lparr>coin_out = \<lparr>nValue = - 1, scriptPubKey = []\<rparr>, coin_fCoinBase = False, coin_nHeight = 0\<rparr>"

definition Coin_IsSpent :: "Coin \<Rightarrow> bool" where
  "Coin_IsSpent c \<longleftrightarrow> CTxOut_IsNull (coin_out c)"

record CCoinsCacheEntry =
  coin :: Coin
  DIRTY :: bool
  FRESH :: bool

datatype coins_error = AssertionFailed | OverwriteUnspent | FreshMisapplied | FlagsNotCleared

record 'v view_ops =
  view_GetCoin :: "'v \<Rightarrow> COutPoint \<Rightarrow> Coin option \<times> 'v"
  view_GetBestBlock :: "'v \<Rightarrow> uint256 \<times> 'v"
  view_BatchWrite :: "'v \<Rightarrow> (COutPoint \<times> CCoinsCacheEntry) list \<Rightarrow> uint256 \<Rightarrow> coins_error + bool \<times> 'v"

record 'v CCoinsViewCache =
  base :: 'v
  hashBlock :: uint256
  cacheCoins :: "COutPoint \<Rightarrow> CCoinsCacheEntry option"
  flagged :: "COutPoint list"
  cachedCoinsUsage :: u64

definition CCoinsViewCache_new :: "'v \<Rightarrow> 'v CCoinsViewCache" where
  "CCoinsViewCache_new b = \<lparr>base = b, hashBlock = 0, cacheCoins = (\<lambda>_. None), flagged = [], cachedCoinsUsage = 0\<rparr>"

subsection \<open>Entries and flags\<close>

definition AddFlags :: "bool \<Rightarrow> bool \<Rightarrow> COutPoint \<Rightarrow> 'v CCoinsViewCache \<Rightarrow> 'v CCoinsViewCache" where
  "AddFlags d f p c =
     (case cacheCoins c p of
        None \<Rightarrow> c
      | Some e \<Rightarrow> c\<lparr>flagged := (if \<not> DIRTY e \<and> \<not> FRESH e then flagged c @ [p] else flagged c),
                     cacheCoins := (cacheCoins c)(p \<mapsto> e\<lparr>DIRTY := DIRTY e \<or> d, FRESH := FRESH e \<or> f\<rparr>)\<rparr>)"

definition SetDirty :: "COutPoint \<Rightarrow> 'v CCoinsViewCache \<Rightarrow> 'v CCoinsViewCache" where
  "SetDirty = AddFlags True False"

definition SetFresh :: "COutPoint \<Rightarrow> 'v CCoinsViewCache \<Rightarrow> 'v CCoinsViewCache" where
  "SetFresh = AddFlags False True"

definition SetClean :: "COutPoint \<Rightarrow> 'v CCoinsViewCache \<Rightarrow> 'v CCoinsViewCache" where
  "SetClean p c =
     (case cacheCoins c p of
        None \<Rightarrow> c
      | Some e \<Rightarrow> c\<lparr>flagged := removeAll p (flagged c), cacheCoins := (cacheCoins c)(p \<mapsto> e\<lparr>DIRTY := False, FRESH := False\<rparr>)\<rparr>)"

text \<open>Erasing an entry runs its destructor, which takes it off the list.\<close>

definition erase_entry :: "COutPoint \<Rightarrow> 'v CCoinsViewCache \<Rightarrow> 'v CCoinsViewCache" where
  "erase_entry p c = c\<lparr>flagged := removeAll p (flagged c), cacheCoins := (cacheCoins c)(p := None)\<rparr>"

text \<open>A new entry without flags, and a new coin for an entry.\<close>

definition emplace :: "COutPoint \<Rightarrow> Coin \<Rightarrow> 'v CCoinsViewCache \<Rightarrow> 'v CCoinsViewCache" where
  "emplace p x c = c\<lparr>cacheCoins := (cacheCoins c)(p \<mapsto> \<lparr>coin = x, DIRTY = False, FRESH = False\<rparr>)\<rparr>"

definition set_coin :: "COutPoint \<Rightarrow> Coin \<Rightarrow> 'v CCoinsViewCache \<Rightarrow> 'v CCoinsViewCache" where
  "set_coin p x c = c\<lparr>cacheCoins := (cacheCoins c)(p := map_option (\<lambda>e. e\<lparr>coin := x\<rparr>) (cacheCoins c p))\<rparr>"

definition add_usage :: "u64 \<Rightarrow> 'v CCoinsViewCache \<Rightarrow> 'v CCoinsViewCache" where
  "add_usage u c = c\<lparr>cachedCoinsUsage := cachedCoinsUsage c + u\<rparr>"

definition sub_usage :: "u64 \<Rightarrow> 'v CCoinsViewCache \<Rightarrow> 'v CCoinsViewCache" where
  "sub_usage u c = c\<lparr>cachedCoinsUsage := cachedCoinsUsage c - u\<rparr>"

subsection \<open>The cache\<close>

definition FetchCoin :: "(Coin \<Rightarrow> u64) \<Rightarrow> 'v view_ops \<Rightarrow> COutPoint \<Rightarrow> 'v CCoinsViewCache \<Rightarrow> CCoinsCacheEntry option \<times> 'v CCoinsViewCache" where
  "FetchCoin U V outpoint c =
     (case cacheCoins c outpoint of
        Some e \<Rightarrow> (Some e, c)
      | None \<Rightarrow>
          let (r, b) = view_GetCoin V (base c) outpoint; c = c\<lparr>base := b\<rparr>
          in (case r of
                None \<Rightarrow> (None, c)
              | Some x \<Rightarrow>
                  let c = add_usage (U x) (emplace outpoint x c);
                      c = (if Coin_IsSpent x then SetFresh outpoint c else c)
                  in (cacheCoins c outpoint, c)))"

definition cache_GetCoin :: "(Coin \<Rightarrow> u64) \<Rightarrow> 'v view_ops \<Rightarrow> 'v CCoinsViewCache \<Rightarrow> COutPoint \<Rightarrow> Coin option \<times> 'v CCoinsViewCache" where
  "cache_GetCoin U V c outpoint =
     (let (r, c) = FetchCoin U V outpoint c
      in (case r of None \<Rightarrow> None | Some e \<Rightarrow> if Coin_IsSpent (coin e) then None else Some (coin e), c))"

definition AddCoin :: "(Coin \<Rightarrow> u64) \<Rightarrow> COutPoint \<Rightarrow> Coin \<Rightarrow> bool \<Rightarrow> 'v CCoinsViewCache \<Rightarrow> (coins_error \<times> 'v CCoinsViewCache) + 'v CCoinsViewCache" where
  "AddCoin U outpoint x possible_overwrite c =
     (if Coin_IsSpent x then Inl (AssertionFailed, c)
      else if IsUnspendable (scriptPubKey (coin_out x)) then Inr c
      else let c = (case cacheCoins c outpoint of None \<Rightarrow> emplace outpoint Coin_Clear c | Some e \<Rightarrow> sub_usage (U (coin e)) c)
      in case cacheCoins c outpoint of
           None \<Rightarrow> Inr c
         | Some e \<Rightarrow>
             if \<not> possible_overwrite \<and> \<not> Coin_IsSpent (coin e) then Inl (OverwriteUnspent, c)
             else let fresh = (\<not> possible_overwrite \<and> \<not> DIRTY e);
                      c = SetDirty outpoint (set_coin outpoint x c);
                      c = (if fresh then SetFresh outpoint c else c)
                  in Inr (add_usage (U x) c))"

definition EmplaceCoinInternalDANGER :: "(Coin \<Rightarrow> u64) \<Rightarrow> COutPoint \<Rightarrow> Coin \<Rightarrow> 'v CCoinsViewCache \<Rightarrow> 'v CCoinsViewCache" where
  "EmplaceCoinInternalDANGER U outpoint x c =
     (let c = add_usage (U x) c
      in case cacheCoins c outpoint of None \<Rightarrow> SetDirty outpoint (emplace outpoint x c) | Some _ \<Rightarrow> c)"

text \<open>Whether a coin was found, the coin moved out (an empty one otherwise) and the new state.\<close>

definition SpendCoin :: "(Coin \<Rightarrow> u64) \<Rightarrow> 'v view_ops \<Rightarrow> COutPoint \<Rightarrow> 'v CCoinsViewCache \<Rightarrow> bool \<times> Coin \<times> 'v CCoinsViewCache" where
  "SpendCoin U V outpoint c =
     (let (r, c) = FetchCoin U V outpoint c
      in case r of
           None \<Rightarrow> (False, Coin_Clear, c)
         | Some e \<Rightarrow>
             let c = sub_usage (U (coin e)) c
             in (True, coin e,
                 if FRESH e then erase_entry outpoint c else set_coin outpoint Coin_Clear (SetDirty outpoint c)))"

definition AccessCoin :: "(Coin \<Rightarrow> u64) \<Rightarrow> 'v view_ops \<Rightarrow> COutPoint \<Rightarrow> 'v CCoinsViewCache \<Rightarrow> Coin \<times> 'v CCoinsViewCache" where
  "AccessCoin U V outpoint c =
     (let (r, c) = FetchCoin U V outpoint c in (case r of None \<Rightarrow> Coin_Clear | Some e \<Rightarrow> coin e, c))"

definition HaveCoin :: "(Coin \<Rightarrow> u64) \<Rightarrow> 'v view_ops \<Rightarrow> COutPoint \<Rightarrow> 'v CCoinsViewCache \<Rightarrow> bool \<times> 'v CCoinsViewCache" where
  "HaveCoin U V outpoint c =
     (let (r, c) = FetchCoin U V outpoint c in (case r of None \<Rightarrow> False | Some e \<Rightarrow> \<not> Coin_IsSpent (coin e), c))"

definition HaveCoinInCache :: "COutPoint \<Rightarrow> 'v CCoinsViewCache \<Rightarrow> bool" where
  "HaveCoinInCache outpoint c = (case cacheCoins c outpoint of None \<Rightarrow> False | Some e \<Rightarrow> \<not> Coin_IsSpent (coin e))"

definition cache_GetBestBlock :: "'v view_ops \<Rightarrow> 'v CCoinsViewCache \<Rightarrow> uint256 \<times> 'v CCoinsViewCache" where
  "cache_GetBestBlock V c =
     (if hashBlock c = 0 then let (h, b) = view_GetBestBlock V (base c) in (h, c\<lparr>base := b, hashBlock := h\<rparr>) else (hashBlock c, c))"

definition SetBestBlock :: "uint256 \<Rightarrow> 'v CCoinsViewCache \<Rightarrow> 'v CCoinsViewCache" where
  "SetBestBlock h c = c\<lparr>hashBlock := h\<rparr>"

definition BatchWrite_entry :: "(Coin \<Rightarrow> u64) \<Rightarrow> COutPoint \<times> CCoinsCacheEntry \<Rightarrow> 'v CCoinsViewCache \<Rightarrow> coins_error + 'v CCoinsViewCache" where
  "BatchWrite_entry U pe c =
     (let (p, e) = pe in
      if \<not> DIRTY e then Inr c
      else case cacheCoins c p of
             None \<Rightarrow>
               if FRESH e \<and> Coin_IsSpent (coin e) then Inr c
               else let c = SetDirty p (add_usage (U (coin e)) (emplace p (coin e) c))
                    in Inr (if FRESH e then SetFresh p c else c)
           | Some us \<Rightarrow>
               if FRESH e \<and> \<not> Coin_IsSpent (coin us) then Inl FreshMisapplied
               else if FRESH us \<and> Coin_IsSpent (coin e) then Inr (erase_entry p (sub_usage (U (coin us)) c))
               else Inr (SetDirty p (add_usage (U (coin e)) (set_coin p (coin e) (sub_usage (U (coin us)) c)))))"

fun BatchWrite_loop :: "(Coin \<Rightarrow> u64) \<Rightarrow> (COutPoint \<times> CCoinsCacheEntry) list \<Rightarrow> 'v CCoinsViewCache \<Rightarrow> coins_error + 'v CCoinsViewCache" where
  "BatchWrite_loop U [] c = Inr c"
| "BatchWrite_loop U (pe # es) c = (case BatchWrite_entry U pe c of Inl err \<Rightarrow> Inl err | Inr c \<Rightarrow> BatchWrite_loop U es c)"

definition cache_BatchWrite :: "(Coin \<Rightarrow> u64) \<Rightarrow> 'v CCoinsViewCache \<Rightarrow> (COutPoint \<times> CCoinsCacheEntry) list \<Rightarrow> uint256 \<Rightarrow> coins_error + bool \<times> 'v CCoinsViewCache" where
  "cache_BatchWrite U c es hashBlockIn =
     (case BatchWrite_loop U es c of Inl err \<Rightarrow> Inl err | Inr c \<Rightarrow> Inr (True, c\<lparr>hashBlock := hashBlockIn\<rparr>))"

definition cache_ops :: "(Coin \<Rightarrow> u64) \<Rightarrow> 'v view_ops \<Rightarrow> 'v CCoinsViewCache view_ops" where
  "cache_ops U V = \<lparr>view_GetCoin = cache_GetCoin U V, view_GetBestBlock = cache_GetBestBlock V, view_BatchWrite = cache_BatchWrite U\<rparr>"

text \<open>The entries a cursor visits, and what it does to them when the cache is kept.\<close>

definition cursor_entries :: "'v CCoinsViewCache \<Rightarrow> (COutPoint \<times> CCoinsCacheEntry) list" where
  "cursor_entries c = List.map_filter (\<lambda>p. map_option (Pair p) (cacheCoins c p)) (flagged c)"

definition NextAndMaybeErase :: "(Coin \<Rightarrow> u64) \<Rightarrow> COutPoint \<Rightarrow> 'v CCoinsViewCache \<Rightarrow> 'v CCoinsViewCache" where
  "NextAndMaybeErase U p c =
     (case cacheCoins c p of
        None \<Rightarrow> c
      | Some e \<Rightarrow> if Coin_IsSpent (coin e) then erase_entry p (sub_usage (U (coin e)) c) else SetClean p c)"

definition Flush :: "'v view_ops \<Rightarrow> 'v CCoinsViewCache \<Rightarrow> coins_error + bool \<times> 'v CCoinsViewCache" where
  "Flush V c =
     (case view_BatchWrite V (base c) (cursor_entries c) (hashBlock c) of
        Inl err \<Rightarrow> Inl err
      | Inr (fOk, b) \<Rightarrow>
          let c = c\<lparr>base := b\<rparr>; c = (if fOk then c\<lparr>cacheCoins := (\<lambda>_. None), flagged := []\<rparr> else c)
          in Inr (fOk, c\<lparr>cachedCoinsUsage := 0\<rparr>))"

definition Sync :: "(Coin \<Rightarrow> u64) \<Rightarrow> 'v view_ops \<Rightarrow> 'v CCoinsViewCache \<Rightarrow> coins_error + bool \<times> 'v CCoinsViewCache" where
  "Sync U V c =
     (case view_BatchWrite V (base c) (cursor_entries c) (hashBlock c) of
        Inl err \<Rightarrow> Inl err
      | Inr (fOk, b) \<Rightarrow>
          let c = fold (NextAndMaybeErase U) (flagged c) (c\<lparr>base := b\<rparr>)
          in if fOk \<and> flagged c \<noteq> [] then Inl FlagsNotCleared else Inr (fOk, c))"

definition Uncache :: "(Coin \<Rightarrow> u64) \<Rightarrow> COutPoint \<Rightarrow> 'v CCoinsViewCache \<Rightarrow> 'v CCoinsViewCache" where
  "Uncache U p c =
     (case cacheCoins c p of
        None \<Rightarrow> c
      | Some e \<Rightarrow> if \<not> DIRTY e \<and> \<not> FRESH e then erase_entry p (sub_usage (U (coin e)) c) else c)"

fun HaveInputs_loop :: "(Coin \<Rightarrow> u64) \<Rightarrow> 'v view_ops \<Rightarrow> CTxIn list \<Rightarrow> 'v CCoinsViewCache \<Rightarrow> bool \<times> 'v CCoinsViewCache" where
  "HaveInputs_loop U V [] c = (True, c)"
| "HaveInputs_loop U V (i # is) c =
     (let (have_coin, c) = HaveCoin U V (prevout i) c in if \<not> have_coin then (False, c) else HaveInputs_loop U V is c)"

definition HaveInputs :: "(Coin \<Rightarrow> u64) \<Rightarrow> 'v view_ops \<Rightarrow> CTransaction \<Rightarrow> 'v CCoinsViewCache \<Rightarrow> bool \<times> 'v CCoinsViewCache" where
  "HaveInputs U V tx c = (if \<not> IsCoinBase tx then HaveInputs_loop U V (vin tx) c else (True, c))"

fun AddCoins_loop :: "(Coin \<Rightarrow> u64) \<Rightarrow> 'v view_ops \<Rightarrow> uint256 \<Rightarrow> int \<Rightarrow> bool \<Rightarrow> bool \<Rightarrow> nat \<Rightarrow> CTxOut list \<Rightarrow> 'v CCoinsViewCache
    \<Rightarrow> (coins_error \<times> 'v CCoinsViewCache) + 'v CCoinsViewCache" where
  "AddCoins_loop U V txid nHeight fCoinbase check_for_overwrite i [] c = Inr c"
| "AddCoins_loop U V txid nHeight fCoinbase check_for_overwrite i (txout # outs) c =
     (let p = \<lparr>op_hash = txid, op_n = word_of_nat i\<rparr>;
          (overwrite, c) = (if check_for_overwrite then HaveCoin U V p c else (fCoinbase, c))
      in case AddCoin U p (Coin_new txout nHeight fCoinbase) overwrite c of
           Inl err \<Rightarrow> Inl err
         | Inr c \<Rightarrow> AddCoins_loop U V txid nHeight fCoinbase check_for_overwrite (i + 1) outs c)"

definition AddCoins :: "hash_functions \<Rightarrow> (Coin \<Rightarrow> u64) \<Rightarrow> 'v view_ops \<Rightarrow> CTransaction \<Rightarrow> int \<Rightarrow> bool \<Rightarrow> 'v CCoinsViewCache
    \<Rightarrow> (coins_error \<times> 'v CCoinsViewCache) + 'v CCoinsViewCache" where
  "AddCoins F U V tx nHeight check_for_overwrite c =
     AddCoins_loop U V (ComputeHash F tx) nHeight (IsCoinBase tx) check_for_overwrite 0 (vout tx) c"

definition MAX_OUTPUTS_PER_BLOCK :: nat where
  "MAX_OUTPUTS_PER_BLOCK = 4000000 div (4 * length (Ser_CTxOut \<lparr>nValue = - 1, scriptPubKey = []\<rparr>))"

function AccessByTxid_loop :: "(Coin \<Rightarrow> u64) \<Rightarrow> 'v view_ops \<Rightarrow> uint256 \<Rightarrow> nat \<Rightarrow> 'v CCoinsViewCache \<Rightarrow> Coin \<times> 'v CCoinsViewCache" where
  "AccessByTxid_loop U V txid n c =
     (if n < MAX_OUTPUTS_PER_BLOCK
      then let (alternate, c) = AccessCoin U V \<lparr>op_hash = txid, op_n = word_of_nat n\<rparr> c
           in if \<not> Coin_IsSpent alternate then (alternate, c) else AccessByTxid_loop U V txid (n + 1) c
      else (Coin_Clear, c))"
  by pat_completeness auto
termination
  by (relation "measure (\<lambda>(U, V, txid, n, c). MAX_OUTPUTS_PER_BLOCK - n)") auto

definition AccessByTxid :: "(Coin \<Rightarrow> u64) \<Rightarrow> 'v view_ops \<Rightarrow> uint256 \<Rightarrow> 'v CCoinsViewCache \<Rightarrow> Coin \<times> 'v CCoinsViewCache" where
  "AccessByTxid U V txid c = AccessByTxid_loop U V txid 0 c"

text \<open>\<open>SanityCheck\<close>: the flags of every entry, the list of flagged entries and the accounted memory. The map is finite.\<close>

definition entry_sane :: "CCoinsCacheEntry \<Rightarrow> bool" where
  "entry_sane e \<longleftrightarrow>
     (let d = DIRTY e; f = FRESH e; s = Coin_IsSpent (coin e)
      in \<not> (\<not> d \<and> f \<and> \<not> s) \<and> \<not> (\<not> d \<and> \<not> f \<and> s) \<and> \<not> (d \<and> f \<and> s))"

definition list_sane :: "'v CCoinsViewCache \<Rightarrow> bool" where
  "list_sane c \<longleftrightarrow> distinct (flagged c) \<and> (\<forall>p. p \<in> set (flagged c) \<longleftrightarrow> (\<exists>e. cacheCoins c p = Some e \<and> (DIRTY e \<or> FRESH e)))"

definition recomputed_usage :: "(Coin \<Rightarrow> u64) \<Rightarrow> 'v CCoinsViewCache \<Rightarrow> u64" where
  "recomputed_usage U c = (\<Sum>p \<in> dom (cacheCoins c). U (coin (the (cacheCoins c p))))"

definition SanityCheck :: "(Coin \<Rightarrow> u64) \<Rightarrow> 'v CCoinsViewCache \<Rightarrow> bool" where
  "SanityCheck U c \<longleftrightarrow>
     (\<forall>p e. cacheCoins c p = Some e \<longrightarrow> entry_sane e) \<and> list_sane c \<and> recomputed_usage U c = cachedCoinsUsage c"


section \<open>What a view promises\<close>

text \<open>
  A view stands for a map of unspent outputs and a best block. A batch write takes entries whose flags are right for the view: a fresh entry
  is unknown to it.
\<close>

definition coin_entry_ok :: "CCoinsCacheEntry \<Rightarrow> bool" where
  "coin_entry_ok e \<longleftrightarrow> entry_sane e \<and> (Coin_IsSpent (coin e) \<longrightarrow> coin e = Coin_Clear)"

definition entry_value :: "CCoinsCacheEntry \<Rightarrow> Coin option" where
  "entry_value e = (if Coin_IsSpent (coin e) then None else Some (coin e))"

definition entries_ok :: "(COutPoint \<Rightarrow> Coin option) \<Rightarrow> (COutPoint \<times> CCoinsCacheEntry) list \<Rightarrow> bool" where
  "entries_ok m es \<longleftrightarrow> distinct (map fst es) \<and> (\<forall>(p, e) \<in> set es. coin_entry_ok e \<and> (FRESH e \<longrightarrow> m p = None))"

fun write_back :: "(COutPoint \<times> CCoinsCacheEntry) list \<Rightarrow> (COutPoint \<Rightarrow> Coin option) \<Rightarrow> COutPoint \<Rightarrow> Coin option" where
  "write_back [] m = m"
| "write_back ((p, e) # es) m = write_back es (if DIRTY e then m(p := entry_value e) else m)"

locale coins_view =
  fixes V :: "'v view_ops"
    and utxo :: "'v \<Rightarrow> COutPoint \<Rightarrow> Coin option"
    and best :: "'v \<Rightarrow> uint256"
    and invar :: "'v \<Rightarrow> bool"
  assumes get_coin: "invar v \<Longrightarrow> view_GetCoin V v p = (r, v') \<Longrightarrow> r = utxo v p \<and> invar v' \<and> utxo v' = utxo v \<and> best v' = best v"
    and get_best: "invar v \<Longrightarrow> view_GetBestBlock V v = (h, v') \<Longrightarrow> h = best v \<and> invar v' \<and> utxo v' = utxo v \<and> best v' = best v"
    and unspent: "invar v \<Longrightarrow> utxo v p = Some x \<Longrightarrow> \<not> Coin_IsSpent x"
    and batch_write: "invar v \<Longrightarrow> entries_ok (utxo v) es \<Longrightarrow> h \<noteq> 0 \<Longrightarrow>
      \<exists>v'. view_BatchWrite V v es h = Inr (True, v') \<and> invar v' \<and> utxo v' = write_back es (utxo v) \<and> best v' = h"

text \<open>The map and the best block a cache stands for, given those of its base, and the invariant of a cache.\<close>

definition cache_utxo :: "('v \<Rightarrow> COutPoint \<Rightarrow> Coin option) \<Rightarrow> 'v CCoinsViewCache \<Rightarrow> COutPoint \<Rightarrow> Coin option" where
  "cache_utxo utxo c p = (case cacheCoins c p of None \<Rightarrow> utxo (base c) p | Some e \<Rightarrow> entry_value e)"

definition cache_best :: "('v \<Rightarrow> uint256) \<Rightarrow> 'v CCoinsViewCache \<Rightarrow> uint256" where
  "cache_best best c = (if hashBlock c = 0 then best (base c) else hashBlock c)"

definition entry_matches :: "Coin option \<Rightarrow> CCoinsCacheEntry \<Rightarrow> bool" where
  "entry_matches below e \<longleftrightarrow> coin_entry_ok e \<and> (FRESH e \<longrightarrow> below = None) \<and> (\<not> DIRTY e \<longrightarrow> entry_value e = below)"

definition cache_inv :: "('v \<Rightarrow> COutPoint \<Rightarrow> Coin option) \<Rightarrow> ('v \<Rightarrow> bool) \<Rightarrow> 'v CCoinsViewCache \<Rightarrow> bool" where
  "cache_inv utxo invar c \<longleftrightarrow>
     invar (base c) \<and> list_sane c \<and> (\<forall>p e. cacheCoins c p = Some e \<longrightarrow> entry_matches (utxo (base c) p) e)"

lemma cache_invD: "cache_inv utxo invar c \<Longrightarrow> cacheCoins c p = Some e \<Longrightarrow> entry_matches (utxo (base c) p) e"
  by (simp add: cache_inv_def)

lemma Coin_IsSpent_Clear [simp]: "Coin_IsSpent Coin_Clear"
  by (simp add: Coin_IsSpent_def Coin_Clear_def CTxOut_IsNull_def)

subsection \<open>The parts of a state that an update changes\<close>

lemmas update_defs = AddFlags_def SetDirty_def SetFresh_def SetClean_def erase_entry_def emplace_def set_coin_def add_usage_def sub_usage_def

lemma base_updates [simp]:
  "base (AddFlags d f p c) = base c" "base (SetClean p c) = base c" "base (erase_entry p c) = base c"
  "base (emplace p x c) = base c" "base (set_coin p x c) = base c" "base (add_usage u c) = base c" "base (sub_usage u c) = base c"
  by (simp_all add: update_defs split: option.split)

lemma hashBlock_updates [simp]:
  "hashBlock (AddFlags d f p c) = hashBlock c" "hashBlock (SetClean p c) = hashBlock c" "hashBlock (erase_entry p c) = hashBlock c"
  "hashBlock (emplace p x c) = hashBlock c" "hashBlock (set_coin p x c) = hashBlock c" "hashBlock (add_usage u c) = hashBlock c"
  "hashBlock (sub_usage u c) = hashBlock c"
  by (simp_all add: update_defs split: option.split)

lemma cacheCoins_updates [simp]:
  "cacheCoins (AddFlags d f p c) = (cacheCoins c)(p := map_option (\<lambda>e. e\<lparr>DIRTY := DIRTY e \<or> d, FRESH := FRESH e \<or> f\<rparr>) (cacheCoins c p))"
  "cacheCoins (SetClean p c) = (cacheCoins c)(p := map_option (\<lambda>e. e\<lparr>DIRTY := False, FRESH := False\<rparr>) (cacheCoins c p))"
  "cacheCoins (erase_entry p c) = (cacheCoins c)(p := None)"
  "cacheCoins (emplace p x c) = (cacheCoins c)(p \<mapsto> \<lparr>coin = x, DIRTY = False, FRESH = False\<rparr>)"
  "cacheCoins (set_coin p x c) = (cacheCoins c)(p := map_option (\<lambda>e. e\<lparr>coin := x\<rparr>) (cacheCoins c p))"
  "cacheCoins (add_usage u c) = cacheCoins c" "cacheCoins (sub_usage u c) = cacheCoins c"
  by (auto simp: update_defs split: option.split)

text \<open>The list of flagged entries stays right.\<close>

lemma list_sane_AddFlags: "list_sane c \<Longrightarrow> d \<or> f \<Longrightarrow> list_sane (AddFlags d f p c)"
  by (cases "cacheCoins c p") (auto simp: list_sane_def AddFlags_def)

lemma list_sane_SetClean: "list_sane c \<Longrightarrow> list_sane (SetClean p c)"
  by (cases "cacheCoins c p") (auto simp: list_sane_def SetClean_def distinct_removeAll)

lemma list_sane_erase: "list_sane c \<Longrightarrow> list_sane (erase_entry p c)"
  by (auto simp: list_sane_def erase_entry_def distinct_removeAll)

lemma list_sane_emplace: "list_sane c \<Longrightarrow> cacheCoins c p = None \<Longrightarrow> list_sane (emplace p x c)"
  by (auto simp: list_sane_def emplace_def)

lemma list_sane_set_coin: "list_sane c \<Longrightarrow> list_sane (set_coin p x c)"
  by (cases "cacheCoins c p") (auto simp: list_sane_def set_coin_def)

lemma list_sane_usage: "list_sane c \<Longrightarrow> list_sane (add_usage u c)" "list_sane c \<Longrightarrow> list_sane (sub_usage u c)"
  by (simp_all add: list_sane_def add_usage_def sub_usage_def)

lemma list_sane_base: "list_sane (c\<lparr>base := b\<rparr>) = list_sane c" "list_sane (c\<lparr>hashBlock := h\<rparr>) = list_sane c"
  by (simp_all add: list_sane_def)

lemmas list_sane_intros = list_sane_AddFlags list_sane_SetClean list_sane_erase list_sane_emplace list_sane_set_coin list_sane_usage

text \<open>To keep the invariant it is enough that the list stays right and that the changed entry matches the base.\<close>

lemma cache_inv_update:
  assumes "cache_inv utxo invar c" "base c' = base c" "list_sane c'" "\<And>q. q \<noteq> p \<Longrightarrow> cacheCoins c' q = cacheCoins c q"
    "\<And>e. cacheCoins c' p = Some e \<Longrightarrow> entry_matches (utxo (base c) p) e"
  shows "cache_inv utxo invar c'"
  using assms unfolding cache_inv_def by metis

lemma cache_utxo_update:
  assumes "base c' = base c" "\<And>q. q \<noteq> p \<Longrightarrow> cacheCoins c' q = cacheCoins c q"
  shows "cache_utxo utxo c' = (cache_utxo utxo c)(p := cache_utxo utxo c' p)"
  using assms by (auto simp: cache_utxo_def fun_eq_iff split: option.split)

lemmas entry_defs = entry_matches_def coin_entry_ok_def entry_sane_def entry_value_def Let_def


lemma cache_inv_base:
  assumes "cache_inv utxo invar c" "invar b" "utxo b = utxo (base c)"
  shows "cache_inv utxo invar (c\<lparr>base := b\<rparr>)"
  using assms by (simp add: cache_inv_def list_sane_base)

lemma cache_utxo_base: "utxo b = utxo (base c) \<Longrightarrow> cache_utxo utxo (c\<lparr>base := b\<rparr>) = cache_utxo utxo c"
  by (auto simp: cache_utxo_def fun_eq_iff split: option.split)

lemma cache_utxo_hashBlock [simp]: "cache_utxo utxo (c\<lparr>hashBlock := h\<rparr>) = cache_utxo utxo c"
  by (simp add: cache_utxo_def fun_eq_iff split: option.split)

lemma fold_NextAndMaybeErase:
  assumes "distinct ps"
  shows "base (fold (NextAndMaybeErase U) ps c) = base c \<and> hashBlock (fold (NextAndMaybeErase U) ps c) = hashBlock c \<and>
    (\<forall>q. cacheCoins (fold (NextAndMaybeErase U) ps c) q =
      (if q \<in> set ps then Option.bind (cacheCoins c q) (\<lambda>e. if Coin_IsSpent (coin e) then None else Some (e\<lparr>DIRTY := False, FRESH := False\<rparr>))
       else cacheCoins c q)) \<and>
    flagged (fold (NextAndMaybeErase U) ps c) = filter (\<lambda>q. \<not> (q \<in> set ps \<and> cacheCoins c q \<noteq> None)) (flagged c)"
  using assms
proof (induction ps arbitrary: c)
  case (Cons p ps)
  let ?c = "NextAndMaybeErase U p c"
  have c: "base ?c = base c" "hashBlock ?c = hashBlock c"
    "cacheCoins ?c = (cacheCoins c)(p := Option.bind (cacheCoins c p) (\<lambda>e. if Coin_IsSpent (coin e) then None else Some (e\<lparr>DIRTY := False, FRESH := False\<rparr>)))"
    "flagged ?c = filter (\<lambda>q. \<not> (q = p \<and> cacheCoins c q \<noteq> None)) (flagged c)"
    by (auto simp: NextAndMaybeErase_def SetClean_def erase_entry_def sub_usage_def removeAll_filter_not_eq fun_eq_iff split: option.split intro!: filter_cong)
  have f: "filter (\<lambda>q. \<not> (q \<in> set ps \<and> cacheCoins ?c q \<noteq> None)) (flagged ?c) = filter (\<lambda>q. \<not> (q \<in> set (p # ps) \<and> cacheCoins c q \<noteq> None)) (flagged c)"
    using Cons.prems unfolding c filter_filter by (intro filter_cong) auto
  show ?case using Cons.IH [of ?c] Cons.prems c f by auto
qed simp

section \<open>A cache over a view\<close>

definition coin_or_empty :: "Coin option \<Rightarrow> Coin" where
  "coin_or_empty r = (case r of None \<Rightarrow> Coin_Clear | Some x \<Rightarrow> x)"

context coins_view
begin

text \<open>A step of a cache that does not change what it stands for.\<close>

definition same_view :: "'v CCoinsViewCache \<Rightarrow> 'v CCoinsViewCache \<Rightarrow> bool" where
  "same_view c c' \<longleftrightarrow> cache_inv utxo invar c' \<and> cache_utxo utxo c' = cache_utxo utxo c \<and> cache_best best c' = cache_best best c \<and> hashBlock c' = hashBlock c"

lemma fetch_coin:
  assumes inv: "cache_inv utxo invar c" and f: "FetchCoin U V p c = (r, c')"
  shows "same_view c c' \<and> r = cacheCoins c' p \<and> cache_utxo utxo c p = (case r of None \<Rightarrow> None | Some e \<Rightarrow> entry_value e)"
proof (cases "cacheCoins c p")
  case (Some e)
  then have "r = Some e" "c' = c" using f by (simp_all add: FetchCoin_def)
  then show ?thesis using Some inv by (simp add: same_view_def cache_utxo_def)
next
  case None
  obtain x b where g: "view_GetCoin V (base c) p = (x, b)" by fastforce
  have ib: "invar (base c)" using inv by (simp add: cache_inv_def)
  have gb: "x = utxo (base c) p" "invar b" "utxo b = utxo (base c)" "best b = best (base c)" using get_coin [OF ib g] by auto
  let ?c = "c\<lparr>base := b\<rparr>"
  have i1: "cache_inv utxo invar ?c" by (rule cache_inv_base [OF inv gb(2,3)])
  have u1: "cache_utxo utxo ?c = cache_utxo utxo c" by (rule cache_utxo_base) (rule gb(3))
  have b1: "cache_best best ?c = cache_best best c" using gb(4) by (simp add: cache_best_def)
  show ?thesis
  proof (cases x)
    case n: None
    then show ?thesis using f None g i1 u1 b1 gb(1) by (auto simp: FetchCoin_def same_view_def cache_utxo_def)
  next
    case x: (Some y)
    then have y: "\<not> Coin_IsSpent y" using unspent [OF ib] gb(1) by simp
    let ?c' = "add_usage (U y) (emplace p y ?c)"
    have c': "c' = ?c'" "r = Some \<lparr>coin = y, DIRTY = False, FRESH = False\<rparr>" using f None g x y by (auto simp: FetchCoin_def)
    have "cache_inv utxo invar ?c'"
      by (rule cache_inv_update [OF i1, where p = p])
        (use i1 None y x gb in \<open>auto intro!: list_sane_intros simp: cache_inv_def list_sane_base entry_defs\<close>)
    moreover have "cache_utxo utxo ?c' = cache_utxo utxo ?c"
      by (subst cache_utxo_update [where p = p and c = ?c]) (use None y x gb in \<open>auto simp: cache_utxo_def entry_value_def fun_eq_iff\<close>)
    moreover have "cache_best best ?c' = cache_best best ?c" by (simp add: cache_best_def)
    ultimately show ?thesis using c' u1 b1 y x gb(1) None by (simp add: same_view_def cache_utxo_def entry_value_def)
  qed
qed

lemma cache_get_coin:
  assumes "cache_inv utxo invar c" "cache_GetCoin U V c p = (r, c')"
  shows "r = cache_utxo utxo c p \<and> same_view c c'"
proof -
  obtain s c1 where f: "FetchCoin U V p c = (s, c1)" by fastforce
  show ?thesis
    using fetch_coin [OF assms(1) f] assms(2) f by (auto simp: cache_GetCoin_def entry_value_def split: option.splits)
qed

lemma have_coin:
  assumes "cache_inv utxo invar c" "HaveCoin U V p c = (r, c')"
  shows "(r \<longleftrightarrow> cache_utxo utxo c p \<noteq> None) \<and> same_view c c'"
proof -
  obtain s c1 where f: "FetchCoin U V p c = (s, c1)" by fastforce
  show ?thesis
    using fetch_coin [OF assms(1) f] assms(2) f by (auto simp: HaveCoin_def entry_value_def split: option.splits)
qed

lemma access_coin:
  assumes "cache_inv utxo invar c" "AccessCoin U V p c = (x, c')"
  shows "x = coin_or_empty (cache_utxo utxo c p) \<and> same_view c c'"
proof -
  obtain s c1 where f: "FetchCoin U V p c = (s, c1)" by fastforce
  note fc = fetch_coin [OF assms(1) f]
  have "coin_entry_ok e" if "s = Some e" for e
    using fc that cache_invD [of utxo invar c1 p e] by (auto simp: same_view_def entry_matches_def)
  then show ?thesis
    using fc assms(2) f by (auto simp: AccessCoin_def entry_value_def coin_entry_ok_def coin_or_empty_def split: option.splits if_splits)
qed

lemma spend_coin:
  assumes "cache_inv utxo invar c" "SpendCoin U V p c = (ok, x, c')"
  shows "cache_inv utxo invar c' \<and> cache_utxo utxo c' = (cache_utxo utxo c)(p := None) \<and> cache_best best c' = cache_best best c \<and>
    hashBlock c' = hashBlock c \<and> x = coin_or_empty (cache_utxo utxo c p) \<and> (cache_utxo utxo c p \<noteq> None \<longrightarrow> ok)"
proof -
  obtain s c1 where f: "FetchCoin U V p c = (s, c1)" by fastforce
  note fc = fetch_coin [OF assms(1) f]
  have i1: "cache_inv utxo invar c1" and u1: "cache_utxo utxo c1 = cache_utxo utxo c" and b1: "cache_best best c1 = cache_best best c"
    and h1: "hashBlock c1 = hashBlock c" using fc by (simp_all add: same_view_def)
  have l1: "list_sane c1" using i1 by (simp add: cache_inv_def)
  show ?thesis
  proof (cases s)
    case None
    then show ?thesis using assms(2) f fc i1 u1 b1 h1 by (auto simp: SpendCoin_def coin_or_empty_def fun_eq_iff)
  next
    case (Some e)
    let ?c2 = "sub_usage (U (coin e)) c1"
    have e: "cacheCoins c1 p = Some e" using fc Some by simp
    have m: "entry_matches (utxo (base c1) p) e" by (rule cache_invD [OF i1 e])
    have c': "c' = (if FRESH e then erase_entry p ?c2 else set_coin p Coin_Clear (SetDirty p ?c2))" and ok: "ok" "x = coin e"
      using assms(2) f Some by (auto simp: SpendCoin_def Let_def)
    have "cache_inv utxo invar c'"
    proof (cases "FRESH e")
      case True
      then show ?thesis
        unfolding c' by (intro cache_inv_update [OF i1, where p = p]) (use l1 in \<open>auto intro!: list_sane_intros\<close>)
    next
      case False
      have "entry_matches (utxo (base c1) p) (e\<lparr>DIRTY := True, coin := Coin_Clear\<rparr>)" using False by (auto simp: entry_defs)
      then show ?thesis
        using False unfolding c'
        by (intro cache_inv_update [OF i1, where p = p]) (use e l1 in \<open>auto intro!: list_sane_intros simp: SetDirty_def\<close>)
    qed
    moreover have "cache_utxo utxo c' = (cache_utxo utxo c1)(p := None)"
      by (subst cache_utxo_update [where p = p and c = c1])
        (use m e in \<open>auto simp: c' cache_utxo_def entry_value_def entry_matches_def SetDirty_def\<close>)
    moreover have "cache_best best c' = cache_best best c1" "hashBlock c' = hashBlock c1" by (simp_all add: c' cache_best_def SetDirty_def)
    moreover have "x = coin_or_empty (cache_utxo utxo c p)" using m e ok u1 [symmetric] by (auto simp: coin_or_empty_def cache_utxo_def entry_defs)
    ultimately show ?thesis using u1 b1 h1 ok by simp
  qed
qed

lemma add_coin:
  assumes inv: "cache_inv utxo invar c" and x: "\<not> Coin_IsSpent x" and ow: "overwrite \<or> cache_utxo utxo c p = None"
  shows "\<exists>c'. AddCoin U p x overwrite c = Inr c' \<and> cache_inv utxo invar c' \<and>
    cache_utxo utxo c' = (if IsUnspendable (scriptPubKey (coin_out x)) then cache_utxo utxo c else (cache_utxo utxo c)(p \<mapsto> x)) \<and>
    cache_best best c' = cache_best best c \<and> hashBlock c' = hashBlock c"
proof (cases "IsUnspendable (scriptPubKey (coin_out x))")
  case True
  then show ?thesis using inv x by (simp add: AddCoin_def)
next
  case False
  have l: "list_sane c" using inv by (simp add: cache_inv_def)
  define c1 where "c1 = (case cacheCoins c p of None \<Rightarrow> emplace p Coin_Clear c | Some e \<Rightarrow> sub_usage (U (coin e)) c)"
  define e where "e = (case cacheCoins c p of None \<Rightarrow> \<lparr>coin = Coin_Clear, DIRTY = False, FRESH = False\<rparr> | Some e \<Rightarrow> e)"
  have e: "cacheCoins c1 p = Some e" and other: "\<And>q. q \<noteq> p \<Longrightarrow> cacheCoins c1 q = cacheCoins c q"
    and c1: "base c1 = base c" "hashBlock c1 = hashBlock c" "list_sane c1"
    using l by (auto simp: c1_def e_def list_sane_intros split: option.split)
  have m: "entry_matches (utxo (base c) p) e \<or> (cacheCoins c p = None \<and> e = \<lparr>coin = Coin_Clear, DIRTY = False, FRESH = False\<rparr>)"
    using cache_invD [OF inv, of p] by (auto simp: e_def split: option.split)
  have sp: "Coin_IsSpent (coin e)" "\<not> DIRTY e \<longrightarrow> utxo (base c) p = None" if "\<not> overwrite"
    using ow that m by (auto simp: cache_utxo_def e_def entry_defs split: option.splits if_splits)
  let ?fresh = "\<not> overwrite \<and> \<not> DIRTY e"
  let ?c2 = "SetDirty p (set_coin p x c1)"
  let ?c3 = "add_usage (U x) (if ?fresh then SetFresh p ?c2 else ?c2)"
  have A: "AddCoin U p x overwrite c = Inr ?c3"
    using x False e sp by (cases overwrite) (simp_all add: AddCoin_def c1_def [symmetric] Let_def)
  have l3: "list_sane ?c3" using c1(3) by (auto intro!: list_sane_intros simp: SetDirty_def SetFresh_def)
  have e3: "cacheCoins ?c3 p = Some \<lparr>coin = x, DIRTY = True, FRESH = FRESH e \<or> ?fresh\<rparr>"
    using e by (simp add: SetDirty_def SetFresh_def)
  have m3: "entry_matches (utxo (base c) p) \<lparr>coin = x, DIRTY = True, FRESH = FRESH e \<or> ?fresh\<rparr>"
    using x m sp by (auto simp: entry_defs)
  have "cache_inv utxo invar ?c3"
    by (rule cache_inv_update [OF inv, where p = p]) (use c1 l3 e3 m3 other in \<open>auto simp: SetDirty_def SetFresh_def\<close>)
  moreover have "cache_utxo utxo ?c3 = (cache_utxo utxo c)(p \<mapsto> x)"
  proof -
    have "cache_utxo utxo ?c3 p = Some x" using e3 x by (simp add: cache_utxo_def entry_value_def del: cacheCoins_updates)
    then show ?thesis
      by (subst cache_utxo_update [where p = p and c = c]) (use c1 other in \<open>auto simp: SetDirty_def SetFresh_def\<close>)
  qed
  moreover have "cache_best best ?c3 = cache_best best c" "hashBlock ?c3 = hashBlock c" using c1 by (simp_all add: cache_best_def SetDirty_def SetFresh_def)
  ultimately show ?thesis using A False by auto
qed


lemma uncache:
  assumes inv: "cache_inv utxo invar c"
  shows "same_view c (Uncache U p c)"
proof (cases "\<exists>e. cacheCoins c p = Some e \<and> \<not> DIRTY e \<and> \<not> FRESH e")
  case True
  then obtain e where e: "cacheCoins c p = Some e" "\<not> DIRTY e" "\<not> FRESH e" by blast
  let ?c = "erase_entry p (sub_usage (U (coin e)) c)"
  have m: "entry_matches (utxo (base c) p) e" by (rule cache_invD [OF inv e(1)])
  have "cache_inv utxo invar ?c"
    by (rule cache_inv_update [OF inv, where p = p]) (use inv in \<open>auto intro!: list_sane_intros simp: cache_inv_def\<close>)
  moreover have "cache_utxo utxo ?c = cache_utxo utxo c"
    by (subst cache_utxo_update [where p = p and c = c]) (use m e in \<open>auto simp: cache_utxo_def entry_matches_def fun_eq_iff\<close>)
  ultimately show ?thesis using e by (simp add: Uncache_def same_view_def cache_best_def)
next
  case False
  then show ?thesis using inv by (auto simp: Uncache_def same_view_def split: option.split)
qed

lemma batch_write_entry:
  assumes inv: "cache_inv utxo invar c" and e: "coin_entry_ok e" "FRESH e \<longrightarrow> cache_utxo utxo c p = None"
  shows "\<exists>c'. BatchWrite_entry U (p, e) c = Inr c' \<and> cache_inv utxo invar c' \<and> base c' = base c \<and> hashBlock c' = hashBlock c \<and>
    cache_utxo utxo c' = (if DIRTY e then (cache_utxo utxo c)(p := entry_value e) else cache_utxo utxo c)"
proof (cases "DIRTY e")
  case False
  then show ?thesis using inv by (simp add: BatchWrite_entry_def)
next
  case D: True
  have l: "list_sane c" using inv by (simp add: cache_inv_def)
  note ls = list_sane_intros [THEN list_sane_usage(2)]
  show ?thesis
  proof (cases "cacheCoins c p")
    case None
    have ns: "\<not> (FRESH e \<and> Coin_IsSpent (coin e))" using e(1) D by (auto simp: entry_defs)
    let ?c1 = "SetDirty p (add_usage (U (coin e)) (emplace p (coin e) c))"
    let ?c = "if FRESH e then SetFresh p ?c1 else ?c1"
    have l': "list_sane ?c" using l None by (auto intro!: list_sane_intros simp: SetDirty_def SetFresh_def)
    have e': "cacheCoins ?c p = Some \<lparr>coin = coin e, DIRTY = True, FRESH = FRESH e\<rparr>" by (simp add: SetDirty_def SetFresh_def)
    have m: "entry_matches (utxo (base c) p) \<lparr>coin = coin e, DIRTY = True, FRESH = FRESH e\<rparr>"
      using e ns None by (auto simp: entry_defs cache_utxo_def)
    have "cache_inv utxo invar ?c"
      by (rule cache_inv_update [OF inv, where p = p]) (use l' e' m in \<open>auto simp: SetDirty_def SetFresh_def\<close>)
    moreover have "cache_utxo utxo ?c = (cache_utxo utxo c)(p := entry_value e)"
    proof -
      have "cache_utxo utxo ?c p = entry_value e" using e' by (simp add: cache_utxo_def entry_value_def del: cacheCoins_updates)
      then show ?thesis by (subst cache_utxo_update [where p = p and c = c]) (auto simp: SetDirty_def SetFresh_def)
    qed
    moreover have "BatchWrite_entry U (p, e) c = Inr ?c" using None D ns by (auto simp: BatchWrite_entry_def Let_def)
    moreover have "base ?c = base c" "hashBlock ?c = hashBlock c" by (simp_all add: SetDirty_def SetFresh_def)
    ultimately show ?thesis using D by auto
  next
    case (Some us)
    have m: "entry_matches (utxo (base c) p) us" by (rule cache_invD [OF inv Some])
    have ns: "\<not> (FRESH e \<and> \<not> Coin_IsSpent (coin us))" using e(2) Some by (auto simp: cache_utxo_def entry_value_def split: if_splits)
    show ?thesis
    proof (cases "FRESH us \<and> Coin_IsSpent (coin e)")
      case True
      let ?c = "erase_entry p (sub_usage (U (coin us)) c)"
      have "cache_inv utxo invar ?c"
        by (rule cache_inv_update [OF inv, where p = p]) (use l in \<open>auto intro!: list_sane_intros\<close>)
      moreover have "cache_utxo utxo ?c = (cache_utxo utxo c)(p := entry_value e)"
        by (subst cache_utxo_update [where p = p and c = c]) (use m True in \<open>auto simp: cache_utxo_def entry_matches_def entry_value_def\<close>)
      moreover have "BatchWrite_entry U (p, e) c = Inr ?c" using Some D ns True by (simp add: BatchWrite_entry_def)
      ultimately show ?thesis using D by auto
    next
      case False
      let ?c = "SetDirty p (add_usage (U (coin e)) (set_coin p (coin e) (sub_usage (U (coin us)) c)))"
      have e': "cacheCoins ?c p = Some (us\<lparr>coin := coin e, DIRTY := True\<rparr>)" using Some by (simp add: SetDirty_def)
      have m': "entry_matches (utxo (base c) p) (us\<lparr>coin := coin e, DIRTY := True\<rparr>)"
        using e(1) m False by (auto simp: entry_defs)
      have "cache_inv utxo invar ?c"
        by (rule cache_inv_update [OF inv, where p = p]) (use l e' m' in \<open>auto intro!: list_sane_intros simp: SetDirty_def\<close>)
      moreover have "cache_utxo utxo ?c = (cache_utxo utxo c)(p := entry_value e)"
      proof -
        have "cache_utxo utxo ?c p = entry_value e" using e' by (simp add: cache_utxo_def entry_value_def del: cacheCoins_updates)
        then show ?thesis by (subst cache_utxo_update [where p = p and c = c]) (auto simp: SetDirty_def)
      qed
      moreover have "BatchWrite_entry U (p, e) c = Inr ?c" using Some D ns False by (auto simp: BatchWrite_entry_def)
      moreover have "base ?c = base c" "hashBlock ?c = hashBlock c" by (simp_all add: SetDirty_def)
      ultimately show ?thesis using D by auto
    qed
  qed
qed

lemma batch_write_loop:
  assumes "cache_inv utxo invar c" "entries_ok (cache_utxo utxo c) es"
  shows "\<exists>c'. BatchWrite_loop U es c = Inr c' \<and> cache_inv utxo invar c' \<and> base c' = base c \<and> cache_utxo utxo c' = write_back es (cache_utxo utxo c)"
  using assms
proof (induction es arbitrary: c)
  case (Cons pe es)
  obtain p e where pe: "pe = (p, e)" by fastforce
  obtain c1 where c1: "BatchWrite_entry U (p, e) c = Inr c1" "cache_inv utxo invar c1" "base c1 = base c"
    "cache_utxo utxo c1 = (if DIRTY e then (cache_utxo utxo c)(p := entry_value e) else cache_utxo utxo c)"
    using batch_write_entry [OF Cons.prems(1), of e p U] Cons.prems(2) by (auto simp: entries_ok_def pe)
  have "entries_ok (cache_utxo utxo c1) es"
    using Cons.prems(2) c1(4) by (force simp: entries_ok_def pe)
  from Cons.IH [OF c1(2) this] show ?case using c1 by (auto simp: pe)
qed simp

lemma write_back_other: "p \<notin> fst ` set es \<Longrightarrow> write_back es m p = m p"
  by (induction es m rule: write_back.induct) auto

lemma write_back_mem: "distinct (map fst es) \<Longrightarrow> (p, e) \<in> set es \<Longrightarrow> write_back es m p = (if DIRTY e then entry_value e else m p)"
proof (induction es m rule: write_back.induct)
  case (2 q e' es m)
  then show ?case by (cases "(p, e) = (q, e')") (auto simp: write_back_other image_iff)
qed simp

lemma cursor_entries_ok:
  assumes inv: "cache_inv utxo invar c"
  shows "entries_ok (utxo (base c)) (cursor_entries c) \<and> write_back (cursor_entries c) (utxo (base c)) = cache_utxo utxo c"
proof -
  have l: "list_sane c" using inv by (simp add: cache_inv_def)
  have set: "(p, e) \<in> set (cursor_entries c) \<longleftrightarrow> p \<in> set (flagged c) \<and> cacheCoins c p = Some e" for p e
    by (force simp: cursor_entries_def map_filter_def image_iff)
  have "map fst (List.map_filter (\<lambda>p. map_option (Pair p) (f p)) ps) = filter (\<lambda>p. f p \<noteq> None) ps" for f :: "COutPoint \<Rightarrow> CCoinsCacheEntry option" and ps
    by (induction ps) (auto simp: map_filter_def)
  then have "map fst (cursor_entries c) = filter (\<lambda>p. cacheCoins c p \<noteq> None) (flagged c)" by (simp add: cursor_entries_def)
  then have dist: "distinct (map fst (cursor_entries c))" using l by (simp add: list_sane_def)
  have "entries_ok (utxo (base c)) (cursor_entries c)"
    using dist cache_invD [OF inv] by (auto simp: entries_ok_def set entry_matches_def)
  moreover have "write_back (cursor_entries c) (utxo (base c)) p = cache_utxo utxo c p" for p
  proof (cases "p \<in> set (flagged c)")
    case True
    then obtain e where e: "cacheCoins c p = Some e" using l by (auto simp: list_sane_def)
    then show ?thesis
      using write_back_mem [OF dist, of p e "utxo (base c)"] set True cache_invD [OF inv e] by (auto simp: cache_utxo_def entry_matches_def)
  next
    case False
    then have "p \<notin> fst ` set (cursor_entries c)" using set by auto
    moreover have "cacheCoins c p = Some e \<Longrightarrow> \<not> DIRTY e" for e using False l by (auto simp: list_sane_def)
    ultimately show ?thesis
      using cache_invD [OF inv, of p] by (auto simp: write_back_other cache_utxo_def entry_matches_def split: option.split)
  qed
  ultimately show ?thesis by blast
qed

text \<open>The cache is a view again.\<close>

lemma cache_is_view: "coins_view (cache_ops U V) (cache_utxo utxo) (cache_best best) (cache_inv utxo invar)"
proof
  fix c :: "'v CCoinsViewCache" and p r c'
  assume "cache_inv utxo invar c" "view_GetCoin (cache_ops U V) c p = (r, c')"
  then show "r = cache_utxo utxo c p \<and> cache_inv utxo invar c' \<and> cache_utxo utxo c' = cache_utxo utxo c \<and> cache_best best c' = cache_best best c"
    using cache_get_coin by (auto simp: cache_ops_def same_view_def)
next
  fix c :: "'v CCoinsViewCache" and h c'
  assume i: "cache_inv utxo invar c" and g: "view_GetBestBlock (cache_ops U V) c = (h, c')"
  obtain k b where b: "view_GetBestBlock V (base c) = (k, b)" by fastforce
  have "k = best (base c) \<and> invar b \<and> utxo b = utxo (base c) \<and> best b = best (base c)"
    using get_best [OF _ b] i by (simp add: cache_inv_def)
  then show "h = cache_best best c \<and> cache_inv utxo invar c' \<and> cache_utxo utxo c' = cache_utxo utxo c \<and> cache_best best c' = cache_best best c"
    using g b i by (auto simp: cache_ops_def cache_GetBestBlock_def cache_best_def cache_inv_def list_sane_def cache_utxo_def fun_eq_iff split: if_splits option.split)
next
  fix c :: "'v CCoinsViewCache" and p x
  assume i: "cache_inv utxo invar c" and u: "cache_utxo utxo c p = Some x"
  show "\<not> Coin_IsSpent x"
    using unspent [of "base c" p x] i u by (auto simp: cache_utxo_def cache_inv_def entry_value_def split: option.splits if_splits)
next
  fix c :: "'v CCoinsViewCache" and es and h :: uint256
  assume i: "cache_inv utxo invar c" "entries_ok (cache_utxo utxo c) es" and h: "h \<noteq> 0"
  obtain c1 where "BatchWrite_loop U es c = Inr c1" "cache_inv utxo invar c1" "cache_utxo utxo c1 = write_back es (cache_utxo utxo c)"
    using batch_write_loop [OF i] by blast
  then show "\<exists>c'. view_BatchWrite (cache_ops U V) c es h = Inr (True, c') \<and> cache_inv utxo invar c' \<and>
      cache_utxo utxo c' = write_back es (cache_utxo utxo c) \<and> cache_best best c' = h"
    using h by (auto simp: cache_ops_def cache_BatchWrite_def cache_inv_def list_sane_base cache_utxo_def cache_best_def)
qed

lemma flush:
  assumes inv: "cache_inv utxo invar c" and h: "hashBlock c \<noteq> 0"
  shows "\<exists>c'. Flush V c = Inr (True, c') \<and> cache_inv utxo invar c' \<and> cache_utxo utxo c' = cache_utxo utxo c \<and> hashBlock c' = hashBlock c \<and>
    cacheCoins c' = (\<lambda>_. None) \<and> utxo (base c') = cache_utxo utxo c \<and> best (base c') = hashBlock c"
proof -
  have "invar (base c)" using inv by (simp add: cache_inv_def)
  from batch_write [OF this conjunct1 [OF cursor_entries_ok [OF inv]] h] cursor_entries_ok [OF inv]
  obtain b where "view_BatchWrite V (base c) (cursor_entries c) (hashBlock c) = Inr (True, b)" "invar b" "utxo b = cache_utxo utxo c" "best b = hashBlock c"
    by auto
  then show ?thesis by (auto simp: Flush_def Let_def cache_inv_def list_sane_def cache_utxo_def fun_eq_iff)
qed


lemma sync:
  assumes inv: "cache_inv utxo invar c" and h: "hashBlock c \<noteq> 0"
  shows "\<exists>c'. Sync U V c = Inr (True, c') \<and> cache_inv utxo invar c' \<and> cache_utxo utxo c' = cache_utxo utxo c \<and> hashBlock c' = hashBlock c \<and>
    flagged c' = [] \<and> utxo (base c') = cache_utxo utxo c \<and> best (base c') = hashBlock c"
proof -
  have l: "list_sane c" and "invar (base c)" using inv by (simp_all add: cache_inv_def)
  from batch_write [OF this(2) conjunct1 [OF cursor_entries_ok [OF inv]] h] cursor_entries_ok [OF inv]
  obtain b where b: "view_BatchWrite V (base c) (cursor_entries c) (hashBlock c) = Inr (True, b)" "invar b" "utxo b = cache_utxo utxo c" "best b = hashBlock c"
    by auto
  define c' where "c' = fold (NextAndMaybeErase U) (flagged c) (c\<lparr>base := b\<rparr>)"
  have d: "distinct (flagged c)" using l by (simp add: list_sane_def)
  note fo = fold_NextAndMaybeErase [OF d, of U "c\<lparr>base := b\<rparr>", folded c'_def, simplified]
  have fl: "flagged c' = []" using fo l by (auto simp: filter_empty_conv list_sane_def)
  have bb: "base c' = b" "hashBlock c' = hashBlock c" using fo by auto
  have un: "\<not> DIRTY e" "\<not> FRESH e" "\<not> Coin_IsSpent (coin e)" "cache_utxo utxo c p = Some (coin e)" if ep: "cacheCoins c' p = Some e" for p e
  proof -
    have cp: "cacheCoins c' p = (if p \<in> set (flagged c) then Option.bind (cacheCoins c p)
        (\<lambda>e. if Coin_IsSpent (coin e) then None else Some (e\<lparr>DIRTY := False, FRESH := False\<rparr>)) else cacheCoins c p)" using fo by auto
    obtain e0 where e0: "cacheCoins c p = Some e0" using ep cp by (cases "cacheCoins c p") (auto split: if_splits)
    have m: "entry_matches (utxo (base c) p) e0" by (rule cache_invD [OF inv e0])
    have fl: "p \<in> set (flagged c) \<longleftrightarrow> DIRTY e0 \<or> FRESH e0" using l e0 by (auto simp: list_sane_def)
    have "\<not> DIRTY e \<and> \<not> FRESH e \<and> \<not> Coin_IsSpent (coin e) \<and> coin e = coin e0"
      using ep cp e0 fl m by (auto simp: entry_defs split: if_splits)
    then show "\<not> DIRTY e" "\<not> FRESH e" "\<not> Coin_IsSpent (coin e)" "cache_utxo utxo c p = Some (coin e)"
      using e0 by (auto simp: cache_utxo_def entry_value_def)
  qed
  have no: "cache_utxo utxo c' p = cache_utxo utxo c p" for p
    using un [of p] b(3) bb by (auto simp: cache_utxo_def [of utxo c'] entry_value_def split: option.split)
  have "list_sane c'" using un by (auto simp: list_sane_def fl)
  moreover have "entry_matches (utxo b p) e" if "cacheCoins c' p = Some e" for p e
    using un [OF that] b(3) by (auto simp: entry_defs)
  ultimately have "cache_inv utxo invar c'" using b(2) bb by (simp add: cache_inv_def)
  moreover have "Sync U V c = Inr (True, c')" using b(1) fl by (simp add: Sync_def c'_def)
  ultimately show ?thesis using no fl b bb by auto
qed

end


section \<open>Runs\<close>

text \<open>Calls of a cache, with what the caller sees of each.\<close>

datatype coin_op = Op_Get COutPoint | Op_Have COutPoint | Op_Access COutPoint | Op_Add COutPoint Coin bool | Op_Spend COutPoint
  | Op_Uncache COutPoint | Op_SetBest uint256 | Op_GetBest | Op_Flush | Op_Sync

datatype coin_result = R_Coin "Coin option" | R_Bool bool | R_Ref Coin | R_Hash uint256 | R_None

definition cache_step :: "(Coin \<Rightarrow> u64) \<Rightarrow> 'v view_ops \<Rightarrow> coin_op \<Rightarrow> 'v CCoinsViewCache \<Rightarrow> coins_error + coin_result \<times> 'v CCoinsViewCache" where
  "cache_step U V opn c =
     (case opn of
        Op_Get p \<Rightarrow> (let (r, c) = cache_GetCoin U V c p in Inr (R_Coin r, c))
      | Op_Have p \<Rightarrow> (let (r, c) = HaveCoin U V p c in Inr (R_Bool r, c))
      | Op_Access p \<Rightarrow> (let (r, c) = AccessCoin U V p c in Inr (R_Ref r, c))
      | Op_Add p x overwrite \<Rightarrow> (case AddCoin U p x overwrite c of Inl (err, _) \<Rightarrow> Inl err | Inr c \<Rightarrow> Inr (R_None, c))
      | Op_Spend p \<Rightarrow> (let (_, x, c) = SpendCoin U V p c in Inr (R_Ref x, c))
      | Op_Uncache p \<Rightarrow> Inr (R_None, Uncache U p c)
      | Op_SetBest h \<Rightarrow> Inr (R_None, SetBestBlock h c)
      | Op_GetBest \<Rightarrow> (let (h, c) = cache_GetBestBlock V c in Inr (R_Hash h, c))
      | Op_Flush \<Rightarrow> (case Flush V c of Inl err \<Rightarrow> Inl err | Inr (ok, c) \<Rightarrow> Inr (R_Bool ok, c))
      | Op_Sync \<Rightarrow> (case Sync U V c of Inl err \<Rightarrow> Inl err | Inr (ok, c) \<Rightarrow> Inr (R_Bool ok, c)))"

fun cache_run :: "(Coin \<Rightarrow> u64) \<Rightarrow> 'v view_ops \<Rightarrow> coin_op list \<Rightarrow> 'v CCoinsViewCache \<Rightarrow> coins_error + coin_result list \<times> 'v CCoinsViewCache" where
  "cache_run U V [] c = Inr ([], c)"
| "cache_run U V (opn # ops) c =
     (case cache_step U V opn c of
        Inl err \<Rightarrow> Inl err
      | Inr (r, c) \<Rightarrow> (case cache_run U V ops c of Inl err \<Rightarrow> Inl err | Inr (rs, c) \<Rightarrow> Inr (r # rs, c)))"

text \<open>The same calls on a map of unspent outputs and a best block.\<close>

definition utxo_step :: "coin_op \<Rightarrow> (COutPoint \<Rightarrow> Coin option) \<times> uint256 \<Rightarrow> coin_result \<times> (COutPoint \<Rightarrow> Coin option) \<times> uint256" where
  "utxo_step opn s =
     (let (m, h) = s in
      case opn of
        Op_Get p \<Rightarrow> (R_Coin (m p), m, h)
      | Op_Have p \<Rightarrow> (R_Bool (m p \<noteq> None), m, h)
      | Op_Access p \<Rightarrow> (R_Ref (coin_or_empty (m p)), m, h)
      | Op_Add p x overwrite \<Rightarrow> (R_None, if IsUnspendable (scriptPubKey (coin_out x)) then m else m(p \<mapsto> x), h)
      | Op_Spend p \<Rightarrow> (R_Ref (coin_or_empty (m p)), m(p := None), h)
      | Op_Uncache p \<Rightarrow> (R_None, m, h)
      | Op_SetBest k \<Rightarrow> (R_None, m, k)
      | Op_GetBest \<Rightarrow> (R_Hash h, m, h)
      | Op_Flush \<Rightarrow> (R_Bool True, m, h)
      | Op_Sync \<Rightarrow> (R_Bool True, m, h))"

definition op_ok :: "coin_op \<Rightarrow> (COutPoint \<Rightarrow> Coin option) \<Rightarrow> bool" where
  "op_ok opn m =
     (case opn of
        Op_Add p x overwrite \<Rightarrow> \<not> Coin_IsSpent x \<and> (overwrite \<or> m p = None)
      | Op_SetBest h \<Rightarrow> h \<noteq> 0
      | _ \<Rightarrow> True)"

fun utxo_run :: "coin_op list \<Rightarrow> (COutPoint \<Rightarrow> Coin option) \<times> uint256 \<Rightarrow> coin_result list \<times> (COutPoint \<Rightarrow> Coin option) \<times> uint256" where
  "utxo_run [] s = ([], s)"
| "utxo_run (opn # ops) s = (let (r, s) = utxo_step opn s; (rs, s) = utxo_run ops s in (r # rs, s))"

fun ops_ok :: "coin_op list \<Rightarrow> (COutPoint \<Rightarrow> Coin option) \<times> uint256 \<Rightarrow> bool" where
  "ops_ok [] s = True"
| "ops_ok (opn # ops) s \<longleftrightarrow> op_ok opn (fst s) \<and> ops_ok ops (snd (utxo_step opn s))"

context coins_view
begin

lemma step_refines:
  assumes inv: "cache_inv utxo invar c" and h: "hashBlock c \<noteq> 0" and ok: "op_ok opn (cache_utxo utxo c)"
  shows "\<exists>r c'. cache_step U V opn c = Inr (r, c') \<and> utxo_step opn (cache_utxo utxo c, cache_best best c) = (r, cache_utxo utxo c', cache_best best c') \<and>
    cache_inv utxo invar c' \<and> hashBlock c' \<noteq> 0"
proof (cases opn)
  case (Op_Get p)
  obtain r c' where g: "cache_GetCoin U V c p = (r, c')" by fastforce
  show ?thesis using cache_get_coin [OF inv g] Op_Get g h by (simp add: cache_step_def utxo_step_def same_view_def)
next
  case (Op_Have p)
  obtain r c' where g: "HaveCoin U V p c = (r, c')" by fastforce
  show ?thesis using have_coin [OF inv g] Op_Have g h by (simp add: cache_step_def utxo_step_def same_view_def)
next
  case (Op_Access p)
  obtain r c' where g: "AccessCoin U V p c = (r, c')" by fastforce
  show ?thesis using access_coin [OF inv g] Op_Access g h by (simp add: cache_step_def utxo_step_def same_view_def)
next
  case (Op_Add p x overwrite)
  then obtain c' where a: "AddCoin U p x overwrite c = Inr c'" "cache_inv utxo invar c'" "hashBlock c' = hashBlock c" "cache_best best c' = cache_best best c"
    "cache_utxo utxo c' = (if IsUnspendable (scriptPubKey (coin_out x)) then cache_utxo utxo c else (cache_utxo utxo c)(p \<mapsto> x))"
    using add_coin [OF inv, of x overwrite p U] ok by (auto simp: op_ok_def)
  show ?thesis using Op_Add a h by (simp add: cache_step_def utxo_step_def)
next
  case (Op_Spend p)
  obtain b r c' where g: "SpendCoin U V p c = (b, r, c')" by (cases "SpendCoin U V p c")
  show ?thesis using spend_coin [OF inv g] Op_Spend g h by (simp add: cache_step_def utxo_step_def)
next
  case (Op_Uncache p)
  then show ?thesis using uncache [OF inv, of U p] h by (simp add: cache_step_def utxo_step_def same_view_def)
next
  case (Op_SetBest k)
  then show ?thesis
    using inv ok by (auto simp: cache_step_def utxo_step_def SetBestBlock_def cache_inv_def list_sane_base cache_best_def op_ok_def)
next
  case Op_GetBest
  then show ?thesis using inv h by (simp add: cache_step_def utxo_step_def cache_GetBestBlock_def cache_best_def)
next
  case Op_Flush
  obtain c' where f: "Flush V c = Inr (True, c')" "cache_inv utxo invar c'" "cache_utxo utxo c' = cache_utxo utxo c" "hashBlock c' = hashBlock c"
    using flush [OF inv h] by blast
  then show ?thesis using Op_Flush h by (simp add: cache_step_def utxo_step_def cache_best_def)
next
  case Op_Sync
  obtain c' where f: "Sync U V c = Inr (True, c')" "cache_inv utxo invar c'" "cache_utxo utxo c' = cache_utxo utxo c" "hashBlock c' = hashBlock c"
    using sync [OF inv h, of U] by blast
  then show ?thesis using Op_Sync h by (simp add: cache_step_def utxo_step_def cache_best_def)
qed

lemma run_refines:
  assumes "cache_inv utxo invar c" "hashBlock c \<noteq> 0" "ops_ok ops (cache_utxo utxo c, cache_best best c)"
  shows "\<exists>rs c'. cache_run U V ops c = Inr (rs, c') \<and> utxo_run ops (cache_utxo utxo c, cache_best best c) = (rs, cache_utxo utxo c', cache_best best c') \<and>
    cache_inv utxo invar c' \<and> hashBlock c' \<noteq> 0"
  using assms
proof (induction ops arbitrary: c)
  case (Cons opn ops)
  obtain r c1 where s: "cache_step U V opn c = Inr (r, c1)" "utxo_step opn (cache_utxo utxo c, cache_best best c) = (r, cache_utxo utxo c1, cache_best best c1)"
    "cache_inv utxo invar c1" "hashBlock c1 \<noteq> 0" using step_refines [OF Cons.prems(1,2), of opn U] Cons.prems(3) by auto
  from Cons.IH [OF s(3,4)] Cons.prems(3) s show ?case by fastforce
qed simp

end


section \<open>Accounting\<close>

definition accounted :: "(Coin \<Rightarrow> u64) \<Rightarrow> 'v CCoinsViewCache \<Rightarrow> bool" where
  "accounted U c \<longleftrightarrow> finite (dom (cacheCoins c)) \<and> recomputed_usage U c = cachedCoinsUsage c"

definition entry_usage :: "(Coin \<Rightarrow> u64) \<Rightarrow> CCoinsCacheEntry option \<Rightarrow> u64" where
  "entry_usage U r = (case r of None \<Rightarrow> 0 | Some e \<Rightarrow> U (coin e))"

lemma entry_usage_simps [simp]: "entry_usage U None = 0" "entry_usage U (Some e) = U (coin e)"
  by (simp_all add: entry_usage_def)

lemma recomputed_update:
  assumes fin: "finite (dom (cacheCoins c))" and c': "cacheCoins c' = (cacheCoins c)(p := v)"
  shows "recomputed_usage U c' = recomputed_usage U c - entry_usage U (cacheCoins c p) + entry_usage U v"
proof -
  let ?f = "\<lambda>m q. U (coin (the (m q)))" and ?D = "dom (cacheCoins c) - {p}"
  have rest: "(\<Sum>q \<in> ?D. ?f (cacheCoins c') q) = (\<Sum>q \<in> ?D. ?f (cacheCoins c) q)" by (rule sum.cong) (auto simp: c')
  have "recomputed_usage U c = entry_usage U (cacheCoins c p) + (\<Sum>q \<in> ?D. ?f (cacheCoins c) q)"
  proof (cases "cacheCoins c p")
    case (Some e)
    then show ?thesis using sum.remove [OF fin, of p "?f (cacheCoins c)"] by (auto simp: recomputed_usage_def)
  next
    case None
    then have "?D = dom (cacheCoins c)" by auto
    then show ?thesis using None by (simp add: recomputed_usage_def)
  qed
  moreover have "recomputed_usage U c' = entry_usage U v + (\<Sum>q \<in> ?D. ?f (cacheCoins c') q)"
  proof (cases v)
    case (Some e)
    then have "dom (cacheCoins c') = insert p ?D" by (auto simp: c')
    then show ?thesis using fin Some by (simp add: recomputed_usage_def sum.insert_remove) (simp add: c')
  next
    case None
    then have "dom (cacheCoins c') = ?D" by (auto simp: c')
    then show ?thesis using None by (simp add: recomputed_usage_def)
  qed
  ultimately show ?thesis using rest by simp
qed

lemma accounted_update:
  assumes "accounted U c" "cacheCoins c' = (cacheCoins c)(p := v)"
    "cachedCoinsUsage c' = cachedCoinsUsage c - entry_usage U (cacheCoins c p) + entry_usage U v"
  shows "accounted U c'"
  using assms recomputed_update [of c c' p v U] by (auto simp: accounted_def)

lemma usage_updates [simp]:
  "cachedCoinsUsage (AddFlags d f p c) = cachedCoinsUsage c" "cachedCoinsUsage (SetClean p c) = cachedCoinsUsage c"
  "cachedCoinsUsage (erase_entry p c) = cachedCoinsUsage c" "cachedCoinsUsage (emplace p x c) = cachedCoinsUsage c"
  "cachedCoinsUsage (set_coin p x c) = cachedCoinsUsage c" "cachedCoinsUsage (add_usage u c) = cachedCoinsUsage c + u"
  "cachedCoinsUsage (sub_usage u c) = cachedCoinsUsage c - u"
  by (simp_all add: update_defs split: option.split)

lemma accounted_cong:
  "cacheCoins c' = cacheCoins c \<Longrightarrow> cachedCoinsUsage c' = cachedCoinsUsage c \<Longrightarrow> accounted U c' = accounted U c"
  by (simp add: accounted_def recomputed_usage_def)

lemma accounted_FetchCoin:
  assumes "accounted U c" "FetchCoin U V p c = (r, c')"
  shows "accounted U c' \<and> r = cacheCoins c' p"
proof (cases "cacheCoins c p")
  case (Some e)
  then have "r = Some e" "c' = c" using assms(2) by (simp_all add: FetchCoin_def)
  then show ?thesis using assms Some by simp
next
  case None
  obtain x b where g: "view_GetCoin V (base c) p = (x, b)" by fastforce
  have b: "accounted U (c\<lparr>base := b\<rparr>)" using assms(1) by (simp add: accounted_def recomputed_usage_def)
  show ?thesis
  proof (cases x)
    case n: None
    then have "r = None" "c' = c\<lparr>base := b\<rparr>" using assms(2) None g by (simp_all add: FetchCoin_def)
    then show ?thesis using b None by simp
  next
    case (Some y)
    let ?c = "add_usage (U y) (emplace p y (c\<lparr>base := b\<rparr>))"
    have "c' = (if Coin_IsSpent y then SetFresh p ?c else ?c)" "r = cacheCoins c' p"
      using assms(2) None g Some by (auto simp: FetchCoin_def Let_def)
    then show ?thesis
      by (auto intro!: accounted_update [OF b, of _ p "r"] simp: None SetFresh_def)
  qed
qed

lemma accounted_AddCoin:
  assumes "accounted U c" "U Coin_Clear = 0" "AddCoin U p x overwrite c = Inr c'"
  shows "accounted U c'"
proof (cases "IsUnspendable (scriptPubKey (coin_out x))")
  case True
  then show ?thesis using assms by (auto simp: AddCoin_def split: if_splits)
next
  case False
  show ?thesis
  proof (rule accounted_update [OF assms(1), of c' p "cacheCoins c' p"])
    show "cacheCoins c' = (cacheCoins c)(p := cacheCoins c' p)"
      using assms(3) False by (auto simp: AddCoin_def Let_def SetDirty_def SetFresh_def split: if_splits option.splits)
    show "cachedCoinsUsage c' = cachedCoinsUsage c - entry_usage U (cacheCoins c p) + entry_usage U (cacheCoins c' p)"
      using assms(2,3) False by (auto simp: AddCoin_def Let_def SetDirty_def SetFresh_def split: if_splits option.splits)
  qed
qed

lemma accounted_SpendCoin:
  assumes "accounted U c" "U Coin_Clear = 0" "SpendCoin U V p c = (ok, x, c')"
  shows "accounted U c'"
proof -
  obtain r c1 where f: "FetchCoin U V p c = (r, c1)" by fastforce
  note a = accounted_FetchCoin [OF assms(1) f]
  show ?thesis
  proof (cases r)
    case None
    then show ?thesis using assms(3) f a by (simp add: SpendCoin_def)
  next
    case (Some e)
    have e: "cacheCoins c1 p = Some e" using a Some by simp
    have c': "c' = (if FRESH e then erase_entry p (sub_usage (U (coin e)) c1) else set_coin p Coin_Clear (SetDirty p (sub_usage (U (coin e)) c1)))"
      using assms(3) f Some by (auto simp: SpendCoin_def Let_def)
    show ?thesis
      by (rule accounted_update [OF conjunct1 [OF a], of c' p "cacheCoins c' p"]) (use e assms(2) in \<open>auto simp: c' SetDirty_def\<close>)
  qed
qed

lemma accounted_NextAndMaybeErase: "accounted U c \<Longrightarrow> accounted U (NextAndMaybeErase U p c)"
  by (cases "cacheCoins c p")
    (auto simp: NextAndMaybeErase_def intro: accounted_update [of U c _ p "cacheCoins (NextAndMaybeErase U p c) p"])

lemma accounted_fold: "accounted U c \<Longrightarrow> accounted U (fold (NextAndMaybeErase U) ps c)"
  by (induction ps arbitrary: c) (simp_all add: accounted_NextAndMaybeErase)

lemma accounted_Uncache: "accounted U c \<Longrightarrow> accounted U (Uncache U p c)"
  by (cases "cacheCoins c p") (auto simp: Uncache_def intro: accounted_update [of U c _ p None])

lemma accounted_base: "accounted U (c\<lparr>base := b\<rparr>) = accounted U c" "accounted U (c\<lparr>hashBlock := h\<rparr>) = accounted U c"
  by (simp_all add: accounted_def recomputed_usage_def)

lemma accounted_BatchWrite_entry:
  assumes "accounted U c" "BatchWrite_entry U (p, e) c = Inr c'"
  shows "accounted U c'"
proof (cases "c' = c")
  case False
  show ?thesis
    by (rule accounted_update [OF assms(1), of c' p "cacheCoins c' p"])
      (use assms(2) False in \<open>auto simp: BatchWrite_entry_def Let_def SetDirty_def SetFresh_def split: if_splits option.splits\<close>)
qed (use assms in simp)

lemma accounted_step:
  assumes a: "accounted U c" and z: "U Coin_Clear = 0" and s: "cache_step U V opn c = Inr (r, c')" and f: "opn = Op_Flush \<Longrightarrow> r = R_Bool True"
  shows "accounted U c'"
proof (cases opn)
  case (Op_Get p)
  then show ?thesis using s accounted_FetchCoin [OF a] by (cases "FetchCoin U V p c") (auto simp: cache_step_def cache_GetCoin_def)
next
  case (Op_Have p)
  then show ?thesis using s accounted_FetchCoin [OF a] by (cases "FetchCoin U V p c") (auto simp: cache_step_def HaveCoin_def)
next
  case (Op_Access p)
  then show ?thesis using s accounted_FetchCoin [OF a] by (cases "FetchCoin U V p c") (auto simp: cache_step_def AccessCoin_def)
next
  case (Op_Add p x overwrite)
  then show ?thesis using s accounted_AddCoin [OF a z] by (auto simp: cache_step_def split: sum.splits)
next
  case (Op_Spend p)
  then show ?thesis using s accounted_SpendCoin [OF a z] by (cases "SpendCoin U V p c") (auto simp: cache_step_def)
next
  case (Op_Uncache p)
  then show ?thesis using s accounted_Uncache [OF a] by (auto simp: cache_step_def)
next
  case (Op_SetBest h)
  then show ?thesis using s a by (auto simp: cache_step_def SetBestBlock_def accounted_base)
next
  case Op_GetBest
  then show ?thesis using s a by (auto simp: cache_step_def cache_GetBestBlock_def accounted_def recomputed_usage_def split: if_splits prod.splits)
next
  case Op_Flush
  then show ?thesis using s a f by (auto simp: cache_step_def Flush_def Let_def accounted_def recomputed_usage_def split: sum.splits if_splits)
next
  case Op_Sync
  then show ?thesis using s a by (auto simp: cache_step_def Sync_def Let_def accounted_fold accounted_base split: sum.splits if_splits)
qed

lemma sanity_check_iff:
  "cache_inv utxo invar c \<Longrightarrow> accounted U c \<Longrightarrow> SanityCheck U c"
  by (auto simp: SanityCheck_def accounted_def cache_inv_def entry_matches_def coin_entry_ok_def)


context coins_view
begin

lemma run_sane:
  assumes "cache_inv utxo invar c" "hashBlock c \<noteq> 0" "ops_ok ops (cache_utxo utxo c, cache_best best c)" "accounted U c" "U Coin_Clear = 0"
  shows "\<exists>rs c'. cache_run U V ops c = Inr (rs, c') \<and> utxo_run ops (cache_utxo utxo c, cache_best best c) = (rs, cache_utxo utxo c', cache_best best c') \<and>
    cache_inv utxo invar c' \<and> accounted U c'"
  using assms
proof (induction ops arbitrary: c)
  case (Cons opn ops)
  obtain r c1 where s: "cache_step U V opn c = Inr (r, c1)" "utxo_step opn (cache_utxo utxo c, cache_best best c) = (r, cache_utxo utxo c1, cache_best best c1)"
    "cache_inv utxo invar c1" "hashBlock c1 \<noteq> 0" using step_refines [OF Cons.prems(1,2), of opn U] Cons.prems(3) by auto
  have "accounted U c1"
    by (rule accounted_step [OF Cons.prems(4,5) s(1)]) (use s(2) in \<open>auto simp: utxo_step_def\<close>)
  from Cons.IH [OF s(3,4) _ this Cons.prems(5)] Cons.prems(3) s show ?case by fastforce
qed simp

lemma have_inputs_loop:
  assumes "cache_inv utxo invar c" "HaveInputs_loop U V is c = (r, c')"
  shows "(r \<longleftrightarrow> (\<forall>i \<in> set is. cache_utxo utxo c (prevout i) \<noteq> None)) \<and> same_view c c'"
  using assms
proof (induction "is" arbitrary: c)
  case Nil
  then show ?case by (simp add: same_view_def)
next
  case (Cons i "is")
  obtain b c1 where h: "HaveCoin U V (prevout i) c = (b, c1)" by fastforce
  note hc = have_coin [OF Cons.prems(1) h]
  show ?case
  proof (cases b)
    case True
    have "cache_inv utxo invar c1" using hc by (simp add: same_view_def)
    from Cons.IH [OF this] show ?thesis using Cons.prems(2) h hc True by (auto simp: same_view_def)
  next
    case False
    then show ?thesis using Cons.prems(2) h hc by auto
  qed
qed

lemma have_inputs:
  assumes "cache_inv utxo invar c" "HaveInputs U V tx c = (r, c')"
  shows "(r \<longleftrightarrow> IsCoinBase tx \<or> (\<forall>i \<in> set (vin tx). cache_utxo utxo c (prevout i) \<noteq> None)) \<and> same_view c c'"
  using assms have_inputs_loop [OF assms(1)] by (auto simp: HaveInputs_def same_view_def split: if_splits)

end

text \<open>Three paths on which the accounted memory no longer matches the entries.\<close>

lemma add_coin_throw_usage:
  assumes "accounted U c" "AddCoin U p x overwrite c = Inl (OverwriteUnspent, c')"
  shows "\<exists>e. cacheCoins c p = Some e \<and> cacheCoins c' = cacheCoins c \<and> recomputed_usage U c' = cachedCoinsUsage c' + U (coin e)"
  using assms by (auto simp: AddCoin_def Let_def accounted_def recomputed_usage_def split: if_splits option.splits)

lemma emplace_existing_usage:
  assumes "accounted U c" "cacheCoins c p \<noteq> None"
  shows "recomputed_usage U (EmplaceCoinInternalDANGER U p x c) + U x = cachedCoinsUsage (EmplaceCoinInternalDANGER U p x c)"
  using assms by (auto simp: EmplaceCoinInternalDANGER_def Let_def accounted_def recomputed_usage_def)

lemma flush_failed_usage:
  assumes "accounted U c" "Flush V c = Inr (False, c')"
  shows "recomputed_usage U c' = cachedCoinsUsage c \<and> cachedCoinsUsage c' = 0"
  using assms by (auto simp: Flush_def Let_def accounted_def recomputed_usage_def split: sum.splits if_splits)

end
