(* ===== verification/CoinsDB.thy ===== *)
theory CoinsDB
  imports Coins
begin

text \<open>
  Model of the coins database of \<open>src/bitcoin/src/txdb.cpp\<close> (\<open>CCoinsViewDB\<close>). The database is the values of its keys: the coins, the best block and the head
  blocks. A batch is applied as a whole or not at all; \<open>full\<close> says when the size estimate of a batch passes \<open>batch_write_bytes\<close>.
\<close>

record CCoinsViewDB =
  db_coins :: "COutPoint \<Rightarrow> Coin option"
  db_best_block :: "uint256 option"
  db_head_blocks :: "uint256 list option"

datatype db_write = EraseBestBlock | WriteHeadBlocks "uint256 list" | EraseHeadBlocks | WriteBestBlock uint256
  | EraseCoin COutPoint | WriteCoin COutPoint Coin

fun apply_write :: "db_write \<Rightarrow> CCoinsViewDB \<Rightarrow> CCoinsViewDB" where
  "apply_write EraseBestBlock db = db\<lparr>db_best_block := None\<rparr>"
| "apply_write (WriteHeadBlocks hs) db = db\<lparr>db_head_blocks := Some hs\<rparr>"
| "apply_write EraseHeadBlocks db = db\<lparr>db_head_blocks := None\<rparr>"
| "apply_write (WriteBestBlock h) db = db\<lparr>db_best_block := Some h\<rparr>"
| "apply_write (EraseCoin p) db = db\<lparr>db_coins := (db_coins db)(p := None)\<rparr>"
| "apply_write (WriteCoin p x) db = db\<lparr>db_coins := (db_coins db)(p \<mapsto> x)\<rparr>"

definition WriteBatch :: "db_write list \<Rightarrow> CCoinsViewDB \<Rightarrow> CCoinsViewDB" where
  "WriteBatch ws db = fold apply_write ws db"

definition db_GetCoin :: "CCoinsViewDB \<Rightarrow> COutPoint \<Rightarrow> Coin option \<times> CCoinsViewDB" where
  "db_GetCoin db outpoint = (db_coins db outpoint, db)"

definition db_GetBestBlock :: "CCoinsViewDB \<Rightarrow> uint256" where
  "db_GetBestBlock db = (case db_best_block db of None \<Rightarrow> 0 | Some h \<Rightarrow> h)"

definition db_GetHeadBlocks :: "CCoinsViewDB \<Rightarrow> uint256 list" where
  "db_GetHeadBlocks db = (case db_head_blocks db of None \<Rightarrow> [] | Some hs \<Rightarrow> hs)"

text \<open>The old tip, or \<open>None\<close> when the assertion on the interrupted transition fails.\<close>

definition db_old_tip :: "CCoinsViewDB \<Rightarrow> uint256 \<Rightarrow> uint256 option" where
  "db_old_tip db h =
     (let old_tip = db_GetBestBlock db; old_heads = db_GetHeadBlocks db
      in if old_tip = 0 \<and> length old_heads = 2 then if old_heads ! 0 = h then Some (old_heads ! 1) else None
         else Some old_tip)"

definition entry_write :: "COutPoint \<times> CCoinsCacheEntry \<Rightarrow> db_write list" where
  "entry_write pe =
     (let (p, e) = pe in if DIRTY e then [if Coin_IsSpent (coin e) then EraseCoin p else WriteCoin p (coin e)] else [])"

text \<open>The batches in the order they are written, the last one marking the database consistent again.\<close>

fun db_batches :: "(db_write list \<Rightarrow> bool) \<Rightarrow> uint256 \<Rightarrow> db_write list \<Rightarrow> (COutPoint \<times> CCoinsCacheEntry) list \<Rightarrow> db_write list list" where
  "db_batches full h batch [] = [batch @ [EraseHeadBlocks, WriteBestBlock h]]"
| "db_batches full h batch (pe # es) =
     (let batch = batch @ entry_write pe
      in if full batch then batch # db_batches full h [] es else db_batches full h batch es)"

definition db_plan :: "(db_write list \<Rightarrow> bool) \<Rightarrow> CCoinsViewDB \<Rightarrow> (COutPoint \<times> CCoinsCacheEntry) list \<Rightarrow> uint256 \<Rightarrow> coins_error + db_write list list" where
  "db_plan full db es h =
     (if h = 0 then Inl AssertionFailed
      else case db_old_tip db h of
             None \<Rightarrow> Inl AssertionFailed
           | Some old_tip \<Rightarrow> Inr (db_batches full h [EraseBestBlock, WriteHeadBlocks [h, old_tip]] es))"

definition db_BatchWrite :: "(db_write list \<Rightarrow> bool) \<Rightarrow> CCoinsViewDB \<Rightarrow> (COutPoint \<times> CCoinsCacheEntry) list \<Rightarrow> uint256 \<Rightarrow> coins_error + bool \<times> CCoinsViewDB" where
  "db_BatchWrite full db es h =
     (case db_plan full db es h of Inl err \<Rightarrow> Inl err | Inr batches \<Rightarrow> Inr (True, fold WriteBatch batches db))"

definition db_ops :: "(db_write list \<Rightarrow> bool) \<Rightarrow> CCoinsViewDB view_ops" where
  "db_ops full = \<lparr>view_GetCoin = db_GetCoin, view_GetBestBlock = (\<lambda>db. (db_GetBestBlock db, db)), view_BatchWrite = db_BatchWrite full\<rparr>"

section \<open>The database is a view\<close>

text \<open>A consistent database has no head blocks and stores no spent coin.\<close>

definition db_ok :: "CCoinsViewDB \<Rightarrow> bool" where
  "db_ok db \<longleftrightarrow> db_head_blocks db = None \<and> (\<forall>p x. db_coins db p = Some x \<longrightarrow> \<not> Coin_IsSpent x)"

lemma WriteBatch_append: "WriteBatch (vs @ ws) db = WriteBatch ws (WriteBatch vs db)"
  by (simp add: WriteBatch_def)

lemma WriteBatch_entry: "WriteBatch (entry_write (p, e)) db = (if DIRTY e then db\<lparr>db_coins := (db_coins db)(p := entry_value e)\<rparr> else db)"
  by (simp add: WriteBatch_def entry_write_def entry_value_def)

text \<open>However the writes are split, together they write back the entries and set the best block.\<close>

lemma db_batches_fold:
  "fold WriteBatch (db_batches full h batch es) db =
     (let db1 = WriteBatch batch db in db1\<lparr>db_coins := write_back es (db_coins db1), db_head_blocks := None, db_best_block := Some h\<rparr>)"
proof (induction es arbitrary: batch db)
  case Nil
  then show ?case by (simp add: WriteBatch_append Let_def) (simp add: WriteBatch_def)
next
  case (Cons pe es)
  obtain p e where pe: "pe = (p, e)" by fastforce
  have empty: "WriteBatch [] db' = db'" for db' by (simp add: WriteBatch_def)
  show ?case using Cons by (simp add: pe Let_def WriteBatch_append WriteBatch_entry empty)
qed

lemma db_BatchWrite_eq:
  assumes "db_plan full db es h = Inr batches"
  shows "db_BatchWrite full db es h = Inr (True, db\<lparr>db_coins := write_back es (db_coins db), db_head_blocks := None, db_best_block := Some h\<rparr>)"
  using assms
  by (auto simp: db_BatchWrite_def db_plan_def db_batches_fold Let_def WriteBatch_def split: if_splits option.splits)

lemma write_back_unspent:
  assumes "\<forall>p x. m p = Some x \<longrightarrow> \<not> Coin_IsSpent x" "write_back es m p = Some x"
  shows "\<not> Coin_IsSpent x"
  using assms
proof (induction es m rule: write_back.induct)
  case (2 q e es m)
  have "\<forall>p x. (if DIRTY e then m(q := entry_value e) else m) p = Some x \<longrightarrow> \<not> Coin_IsSpent x"
    using 2(2) by (auto simp: entry_value_def split: if_splits)
  then show ?case using 2(1,3) by simp
qed auto

interpretation db: coins_view "db_ops full" db_coins db_GetBestBlock db_ok for full
proof
  fix db es and h :: uint256
  assume db: "db_ok db" "entries_ok (db_coins db) es" "h \<noteq> 0"
  have "\<exists>batches. db_plan full db es h = Inr batches"
    using db by (auto simp: db_plan_def db_old_tip_def db_ok_def db_GetHeadBlocks_def Let_def)
  then show "\<exists>db'. view_BatchWrite (db_ops full) db es h = Inr (True, db') \<and> db_ok db' \<and> db_coins db' = write_back es (db_coins db) \<and> db_GetBestBlock db' = h"
    using db_BatchWrite_eq [of full db es h] db(1) write_back_unspent [of "db_coins db"]
    by (auto simp: db_ops_def db_ok_def db_GetBestBlock_def)
qed (auto simp: db_ops_def db_GetCoin_def db_ok_def)

text \<open>A cache over the database, and a cache over that cache: the stack that connects blocks.\<close>

interpretation tip: coins_view "cache_ops U (db_ops full)" "cache_utxo db_coins" "cache_best db_GetBestBlock" "cache_inv db_coins db_ok" for U full
  by (rule db.cache_is_view)

definition stack_ops :: "(Coin \<Rightarrow> u64) \<Rightarrow> (db_write list \<Rightarrow> bool) \<Rightarrow> CCoinsViewDB CCoinsViewCache view_ops" where
  "stack_ops U full = cache_ops U (db_ops full)"

definition stack_utxo :: "CCoinsViewDB CCoinsViewCache CCoinsViewCache \<Rightarrow> COutPoint \<Rightarrow> Coin option" where
  "stack_utxo = cache_utxo (cache_utxo db_coins)"

definition stack_best :: "CCoinsViewDB CCoinsViewCache CCoinsViewCache \<Rightarrow> uint256" where
  "stack_best = cache_best (cache_best db_GetBestBlock)"

definition stack_inv :: "CCoinsViewDB CCoinsViewCache CCoinsViewCache \<Rightarrow> bool" where
  "stack_inv = cache_inv (cache_utxo db_coins) (cache_inv db_coins db_ok)"

lemma stack_run:
  assumes "stack_inv c" "hashBlock c \<noteq> 0" "ops_ok ops (stack_utxo c, stack_best c)" "accounted U c" "U Coin_Clear = 0"
  shows "\<exists>rs c'. cache_run U (stack_ops U full) ops c = Inr (rs, c') \<and>
    utxo_run ops (stack_utxo c, stack_best c) = (rs, stack_utxo c', stack_best c') \<and> stack_inv c' \<and> accounted U c'"
  unfolding stack_ops_def stack_utxo_def stack_best_def stack_inv_def
  by (rule tip.run_sane) (use assms in \<open>simp_all add: stack_utxo_def stack_best_def stack_inv_def\<close>)


section \<open>Interrupted writes\<close>

text \<open>What the database holds after the first \<open>k\<close> batches of a write.\<close>

lemma db_batches_prefix:
  assumes "k < length (db_batches full h batch es)"
  shows "\<exists>j. fold WriteBatch (take k (db_batches full h batch es)) db =
    (if k = 0 then db else (WriteBatch batch db)\<lparr>db_coins := write_back (take j es) (db_coins (WriteBatch batch db))\<rparr>)"
  using assms
proof (induction es arbitrary: batch db k)
  case (Cons pe es)
  obtain p e where pe: "pe = (p, e)" by fastforce
  have empty: "WriteBatch [] db' = db'" for db' by (simp add: WriteBatch_def)
  let ?b = "batch @ entry_write pe"
  have b: "WriteBatch ?b db = (WriteBatch batch db)\<lparr>db_coins := write_back [pe] (db_coins (WriteBatch batch db))\<rparr>"
    by (simp add: WriteBatch_append WriteBatch_entry pe)
  show ?case
  proof (cases "full ?b")
    case True
    show ?thesis
    proof (cases k)
      case (Suc k')
      then have "k' < length (db_batches full h [] es)" using Cons.prems True by (simp add: Let_def)
      from Cons.IH [OF this, of "WriteBatch ?b db"] obtain j where
        "fold WriteBatch (take k' (db_batches full h [] es)) (WriteBatch ?b db) =
           (if k' = 0 then WriteBatch ?b db else (WriteBatch ?b db)\<lparr>db_coins := write_back (take j es) (db_coins (WriteBatch ?b db))\<rparr>)"
        unfolding empty by blast
      then show ?thesis using Suc True b by (intro exI [of _ "if k' = 0 then 1 else Suc j"]) (simp add: Let_def pe)
    qed simp
  next
    case False
    then have "k < length (db_batches full h ?b es)" using Cons.prems by (simp add: Let_def)
    from Cons.IH [OF this, of db] obtain j where
      "fold WriteBatch (take k (db_batches full h ?b es)) db =
         (if k = 0 then db else (WriteBatch ?b db)\<lparr>db_coins := write_back (take j es) (db_coins (WriteBatch ?b db))\<rparr>)" by blast
    then show ?thesis using False b by (intro exI [of _ "Suc j"]) (simp add: Let_def pe)
  qed
qed simp

definition dirty_keys :: "(COutPoint \<times> CCoinsCacheEntry) list \<Rightarrow> COutPoint set" where
  "dirty_keys es = {p. \<exists>e. (p, e) \<in> set es \<and> DIRTY e}"

lemma dirty_keys_simps [simp]: "dirty_keys [] = {}" "dirty_keys ((p, e) # es) = (if DIRTY e then {p} else {}) \<union> dirty_keys es"
  by (auto simp: dirty_keys_def)

lemma write_back_absorb: "(\<And>p. p \<notin> dirty_keys es \<Longrightarrow> m p = m' p) \<Longrightarrow> write_back es m = write_back es m'"
proof (induction es arbitrary: m m')
  case (Cons pe es)
  obtain p e where pe: "pe = (p, e)" by fastforce
  show ?case unfolding pe write_back.simps by (rule Cons.IH) (use Cons.prems in \<open>auto simp: pe\<close>)
qed (simp add: fun_eq_iff)

lemma write_back_frame: "p \<notin> dirty_keys es \<Longrightarrow> write_back es m p = m p"
  by (induction es m rule: write_back.induct) (auto split: if_splits)

lemma write_back_again: "write_back es (write_back (take j es) m) = write_back es m"
  by (rule write_back_absorb, rule write_back_frame) (auto simp: dirty_keys_def dest: in_set_takeD)

lemma interrupted:
  assumes db: "db_ok db" and plan: "db_plan full db es h = Inr batches" and k: "0 < k" "k < length batches"
  defines "db' \<equiv> fold WriteBatch (take k batches) db"
  shows "db_best_block db' = None \<and> db_head_blocks db' = Some [h, db_GetBestBlock db] \<and> (\<exists>j. db_coins db' = write_back (take j es) (db_coins db))"
proof -
  have b: "batches = db_batches full h [EraseBestBlock, WriteHeadBlocks [h, db_GetBestBlock db]] es"
    using plan db by (auto simp: db_plan_def db_old_tip_def db_ok_def db_GetHeadBlocks_def Let_def split: if_splits)
  show ?thesis
    using db_batches_prefix [of k full h "[EraseBestBlock, WriteHeadBlocks [h, db_GetBestBlock db]]" es db] k
    by (auto simp: db'_def b WriteBatch_def)
qed

lemma crash_recovery:
  assumes db: "db_ok db" and h: "h \<noteq> 0" and plan: "db_plan full db es h = Inr batches" and k: "k < length batches"
  shows "db_BatchWrite full' (fold WriteBatch (take k batches) db) es h = db_BatchWrite full db es h"
proof (cases "k = 0")
  case True
  have "\<exists>bs. db_plan full' db es h = Inr bs"
    using db h by (auto simp: db_plan_def db_old_tip_def db_ok_def db_GetHeadBlocks_def Let_def)
  then show ?thesis using db_BatchWrite_eq [OF plan] db_BatchWrite_eq [of full' db es h] True by auto
next
  case False
  let ?d = "fold WriteBatch (take k batches) db"
  obtain j where i: "db_best_block ?d = None" "db_head_blocks ?d = Some [h, db_GetBestBlock db]" "db_coins ?d = write_back (take j es) (db_coins db)"
    using interrupted [OF db plan _ k] False by auto
  have "\<exists>bs. db_plan full' ?d es h = Inr bs"
    using h i by (simp add: db_plan_def db_old_tip_def db_GetHeadBlocks_def db_GetBestBlock_def)
  then have "db_BatchWrite full' ?d es h = Inr (True, ?d\<lparr>db_coins := write_back es (db_coins ?d), db_head_blocks := None, db_best_block := Some h\<rparr>)"
    using db_BatchWrite_eq by blast
  also have "?d\<lparr>db_coins := write_back es (db_coins ?d), db_head_blocks := None, db_best_block := Some h\<rparr> =
      db\<lparr>db_coins := write_back es (db_coins db), db_head_blocks := None, db_best_block := Some h\<rparr>"
    by (rule CCoinsViewDB.equality) (simp_all add: i write_back_again)
  finally show ?thesis using db_BatchWrite_eq [OF plan] by simp
qed


section \<open>Properties\<close>

definition example_coin :: Coin where
  "example_coin = \<lparr>coin_out = \<lparr>nValue = 50, scriptPubKey = [0x51]\<rparr>, coin_fCoinBase = False, coin_nHeight = 7\<rparr>"

definition example_outpoint :: COutPoint where
  "example_outpoint = \<lparr>op_hash = 3, op_n = 0\<rparr>"

definition example_db :: CCoinsViewDB where
  "example_db = \<lparr>db_coins = (\<lambda>_. None), db_best_block = Some 1, db_head_blocks = None\<rparr>"

definition example_usage :: "Coin \<Rightarrow> u64" where
  "example_usage x = word_of_nat (length (scriptPubKey (coin_out x)))"

lemma example_coin_unspent: "\<not> Coin_IsSpent example_coin"
  by (simp add: example_coin_def Coin_IsSpent_def CTxOut_IsNull_def)

lemma example_coin_spendable: "\<not> IsUnspendable (scriptPubKey (coin_out example_coin))"
  by (simp add: example_coin_def IsUnspendable_def MAX_SCRIPT_SIZE_def)

lemma example_usage_empty: "example_usage Coin_Clear = 0"
  by (simp add: example_usage_def Coin_Clear_def)

text \<open>
  C7: Over the coins database, a cache on a cache behaves as one map of unspent outputs with a best block: every sequence of look-ups, additions, spends,
  evictions, syncs and flushes that adds no spent coin, and overwrites an unspent one only where it says so, fails no assertion, throws no
  error, returns what the map returns, and ends in a state that passes the sanity check, whatever part of the entries was fetched,
  written back or evicted on the way.
\<close>

theorem coins_stack_refines:
  assumes "stack_inv c" "hashBlock c \<noteq> 0" "ops_ok ops (stack_utxo c, stack_best c)" "accounted U c" "U Coin_Clear = 0"
  shows "\<exists>rs c'. cache_run U (stack_ops U full) ops c = Inr (rs, c') \<and>
    utxo_run ops (stack_utxo c, stack_best c) = (rs, stack_utxo c', stack_best c') \<and> stack_inv c' \<and> SanityCheck U c'"
proof -
  obtain rs c' where r: "cache_run U (stack_ops U full) ops c = Inr (rs, c')" "utxo_run ops (stack_utxo c, stack_best c) = (rs, stack_utxo c', stack_best c')"
    "stack_inv c'" "accounted U c'" using stack_run [OF assms] by blast
  then have "SanityCheck U c'" unfolding stack_inv_def by (blast intro: sanity_check_iff)
  then show ?thesis using r by blast
qed

definition example_stack :: "CCoinsViewDB CCoinsViewCache CCoinsViewCache" where
  "example_stack = (CCoinsViewCache_new (CCoinsViewCache_new example_db))\<lparr>hashBlock := 1\<rparr>"

theorem coins_stack_refines_witness:
  "\<exists>rs c'. cache_run example_usage (stack_ops example_usage (\<lambda>b. length b > 2))
      [Op_Add example_outpoint example_coin False, Op_Sync, Op_Spend example_outpoint, Op_Flush, Op_Have example_outpoint] example_stack = Inr (rs, c') \<and>
    rs = [R_None, R_Bool True, R_Ref example_coin, R_Bool True, R_Bool False] \<and> SanityCheck example_usage c'"
proof -
  let ?ops = "[Op_Add example_outpoint example_coin False, Op_Sync, Op_Spend example_outpoint, Op_Flush, Op_Have example_outpoint]"
  have inv: "stack_inv example_stack"
    by (simp add: stack_inv_def example_stack_def CCoinsViewCache_new_def cache_inv_def list_sane_def db_ok_def example_db_def)
  have u: "stack_utxo example_stack = (\<lambda>_. None)"
    by (simp add: stack_utxo_def cache_utxo_def example_stack_def CCoinsViewCache_new_def example_db_def fun_eq_iff)
  have ok: "ops_ok ?ops (stack_utxo example_stack, stack_best example_stack)"
    by (simp add: u op_ok_def utxo_step_def example_coin_unspent)
  have acc: "accounted example_usage example_stack"
    by (simp add: accounted_def recomputed_usage_def example_stack_def CCoinsViewCache_new_def)
  have "hashBlock example_stack \<noteq> 0" by (simp add: example_stack_def)
  from coins_stack_refines [OF inv this ok acc example_usage_empty, of "\<lambda>b. length b > 2"] show ?thesis
    by (auto simp: u utxo_step_def example_coin_spendable coin_or_empty_def)
qed

text \<open>
  C15: An interrupted write to the coins database can be finished: after any number of its batches but not all, the database names the transition
  from the old to the new block instead of a best block, and writing the same entries again, in batches of any size, gives exactly the result of the
  uninterrupted write.
\<close>

theorem coins_db_crash_recovery:
  assumes "db_ok db" "h \<noteq> 0" "db_plan full db es h = Inr batches" "k < length batches"
  shows "(k = 0 \<or> db_GetBestBlock (fold WriteBatch (take k batches) db) = 0 \<and>
                  db_GetHeadBlocks (fold WriteBatch (take k batches) db) = [h, db_GetBestBlock db]) \<and>
    db_BatchWrite full' (fold WriteBatch (take k batches) db) es h =
      Inr (True, db\<lparr>db_coins := write_back es (db_coins db), db_head_blocks := None, db_best_block := Some h\<rparr>)"
proof
  show "k = 0 \<or> db_GetBestBlock (fold WriteBatch (take k batches) db) = 0 \<and>
      db_GetHeadBlocks (fold WriteBatch (take k batches) db) = [h, db_GetBestBlock db]"
    using interrupted [OF assms(1,3) _ assms(4)] by (auto simp: db_GetBestBlock_def db_GetHeadBlocks_def)
  show "db_BatchWrite full' (fold WriteBatch (take k batches) db) es h =
      Inr (True, db\<lparr>db_coins := write_back es (db_coins db), db_head_blocks := None, db_best_block := Some h\<rparr>)"
    using crash_recovery [OF assms] db_BatchWrite_eq [OF assms(3)] by simp
qed

definition example_entries :: "(COutPoint \<times> CCoinsCacheEntry) list" where
  "example_entries = [(example_outpoint, \<lparr>coin = example_coin, DIRTY = True, FRESH = True\<rparr>)]"

theorem coins_db_crash_recovery_witness:
  "\<exists>batches. db_plan (\<lambda>_. True) example_db example_entries 2 = Inr batches \<and> length batches = 2 \<and>
     db_GetHeadBlocks (fold WriteBatch (take 1 batches) example_db) = [2, 1] \<and>
     db_BatchWrite (\<lambda>_. False) (fold WriteBatch (take 1 batches) example_db) example_entries 2 =
       Inr (True, example_db\<lparr>db_coins := write_back example_entries (db_coins example_db), db_head_blocks := None, db_best_block := Some 2\<rparr>)"
proof -
  let ?b = "[[EraseBestBlock, WriteHeadBlocks [2, 1], WriteCoin example_outpoint example_coin], [EraseHeadBlocks, WriteBestBlock 2]]"
  have p: "db_plan (\<lambda>_. True) example_db example_entries 2 = Inr ?b"
    by (simp add: db_plan_def db_old_tip_def example_db_def db_GetBestBlock_def db_GetHeadBlocks_def example_entries_def entry_write_def example_coin_unspent Let_def)
  have d: "db_ok example_db" by (simp add: db_ok_def example_db_def)
  have g: "db_GetBestBlock example_db = 1" by (simp add: db_GetBestBlock_def example_db_def)
  from coins_db_crash_recovery [OF d _ p, of 1 "\<lambda>_. False"] show ?thesis using p g by (intro exI [of _ ?b]) simp
qed

text \<open>
  C39: On three paths the memory accounted by a cache departs from the memory of its entries: a rejected overwrite drops the usage of the entry that
  stays, a bulk insertion of a known outpoint adds the usage of a coin that is not stored, and a failed flush resets the usage to zero
  while all entries stay.
\<close>

theorem coins_usage_departs:
  assumes "accounted U c"
  shows "(AddCoin U p x overwrite c = Inl (OverwriteUnspent, c1) \<longrightarrow>
            (\<exists>e. cacheCoins c1 p = Some e \<and> recomputed_usage U c1 = cachedCoinsUsage c1 + U (coin e))) \<and>
    (cacheCoins c p \<noteq> None \<longrightarrow> recomputed_usage U (EmplaceCoinInternalDANGER U p x c) + U x = cachedCoinsUsage (EmplaceCoinInternalDANGER U p x c)) \<and>
    (Flush V c = Inr (False, c2) \<longrightarrow> recomputed_usage U c2 = cachedCoinsUsage c \<and> cachedCoinsUsage c2 = 0)"
  using add_coin_throw_usage [OF assms, of p x overwrite c1] emplace_existing_usage [OF assms, of p x] flush_failed_usage [OF assms, of V c2] by auto

definition example_cache :: "CCoinsViewDB CCoinsViewCache" where
  "example_cache = \<lparr>base = example_db, hashBlock = 1, cacheCoins = [example_outpoint \<mapsto> \<lparr>coin = example_coin, DIRTY = True, FRESH = False\<rparr>],
     flagged = [example_outpoint], cachedCoinsUsage = 1\<rparr>"

theorem coins_usage_departs_witness:
  "\<exists>c1 e. AddCoin example_usage example_outpoint example_coin False example_cache = Inl (OverwriteUnspent, c1) \<and> cacheCoins c1 example_outpoint = Some e \<and>
     recomputed_usage example_usage c1 = cachedCoinsUsage c1 + example_usage (coin e)"
proof -
  have a: "accounted example_usage example_cache"
    by (simp add: accounted_def recomputed_usage_def example_cache_def example_usage_def example_coin_def)
  obtain c1 where "AddCoin example_usage example_outpoint example_coin False example_cache = Inl (OverwriteUnspent, c1)"
    by (simp add: AddCoin_def example_coin_unspent example_coin_spendable example_cache_def Let_def)
  then show ?thesis using coins_usage_departs [OF a, of example_outpoint example_coin False c1 "db_ops (\<lambda>_. True)" example_cache] by auto
qed

end
