(* ===== verification/TxVerify.thy ===== *)
theory TxVerify
  imports CoinsDB MerkleBlock Pow ScriptVerify
begin

text \<open>
  Model of \<open>src/bitcoin/src/consensus/tx_check.cpp\<close> and \<open>tx_verify.cpp\<close>: the checks of a transaction without context, its lock times, its signature
  operations and its inputs. A check is valid with a result, invalid with its reject reason, or stops at a failed assertion or an
  exception. After an invalid verdict the callers drop the view.
\<close>

datatype 'a verdict = Valid 'a | Invalid string | Fatal

definition vbind :: "'a verdict \<Rightarrow> ('a \<Rightarrow> 'b verdict) \<Rightarrow> 'b verdict" where
  "vbind r f = (case r of Valid x \<Rightarrow> f x | Invalid reason \<Rightarrow> Invalid reason | Fatal \<Rightarrow> Fatal)"

lemma vbind_Valid_iff [simp]: "vbind r f = Valid y \<longleftrightarrow> (\<exists>x. r = Valid x \<and> f x = Valid y)"
  by (cases r) (simp_all add: vbind_def)

lemma vbind_simps [simp]: "vbind (Valid x) f = f x" "vbind (Invalid reason) f = Invalid reason" "vbind Fatal f = Fatal"
  by (simp_all add: vbind_def)

subsection \<open>Checks without context\<close>

fun check_outputs :: "int \<Rightarrow> CTxOut list \<Rightarrow> unit verdict" where
  "check_outputs nValueOut [] = Valid ()"
| "check_outputs nValueOut (txout # outs) =
     (let v = sint (nValue txout) in
      if v < 0 then Invalid ''bad-txns-vout-negative''
      else if v > MAX_MONEY then Invalid ''bad-txns-vout-toolarge''
      else if \<not> MoneyRange (nValueOut + v) then Invalid ''bad-txns-txouttotal-toolarge''
      else check_outputs (nValueOut + v) outs)"

fun check_duplicates :: "COutPoint set \<Rightarrow> CTxIn list \<Rightarrow> unit verdict" where
  "check_duplicates vInOutPoints [] = Valid ()"
| "check_duplicates vInOutPoints (txin # ins) =
     (if prevout txin \<in> vInOutPoints then Invalid ''bad-txns-inputs-duplicate''
      else check_duplicates (insert (prevout txin) vInOutPoints) ins)"

definition CheckTransaction :: "CTransaction \<Rightarrow> unit verdict" where
  "CheckTransaction tx =
     (if vin tx = [] then Invalid ''bad-txns-vin-empty''
      else if vout tx = [] then Invalid ''bad-txns-vout-empty''
      else if length (SerializeTransaction False tx) * 4 > MAX_BLOCK_WEIGHT then Invalid ''bad-txns-oversize''
      else vbind (check_outputs 0 (vout tx)) (\<lambda>_.
           vbind (check_duplicates {} (vin tx)) (\<lambda>_.
             if IsCoinBase tx
             then if length (scriptSig (vin tx ! 0)) < 2 \<or> length (scriptSig (vin tx ! 0)) > 100 then Invalid ''bad-cb-length'' else Valid ()
             else if \<exists>txin \<in> set (vin tx). COutPoint_IsNull (prevout txin) then Invalid ''bad-txns-prevout-null'' else Valid ())))"

subsection \<open>Lock times\<close>

definition IsFinalTx :: "CTransaction \<Rightarrow> int \<Rightarrow> int \<Rightarrow> bool" where
  "IsFinalTx tx nBlockHeight nBlockTime =
     (if nLockTime tx = 0 then True
      else if uint (nLockTime tx) < (if uint (nLockTime tx) < uint LOCKTIME_THRESHOLD then nBlockHeight else nBlockTime) then True
      else \<forall>txin \<in> set (vin tx). nSequence txin = SEQUENCE_FINAL)"

definition LOCKTIME_VERIFY_SEQUENCE :: u32 where
  "LOCKTIME_VERIFY_SEQUENCE = 1"

text \<open>The lock of one input; \<open>None\<close> is a failed assertion.\<close>

definition sequence_lock :: "block_map \<Rightarrow> uint256 \<Rightarrow> CTxIn \<Rightarrow> int \<Rightarrow> int \<times> int \<Rightarrow> (int \<times> int) option" where
  "sequence_lock m block txin nCoinHeight lock =
     (let (nMinHeight, nMinTime) = lock in
      if nSequence txin AND SEQUENCE_LOCKTIME_TYPE_FLAG \<noteq> 0
      then case GetAncestor m block (max (nCoinHeight - 1) 0) of
             Some (Some p) \<Rightarrow>
               let nCoinTime = GetMedianTimePast m p
               in Some (nMinHeight,
                        max nMinTime (nCoinTime + uint (push_bit SEQUENCE_LOCKTIME_GRANULARITY (nSequence txin AND SEQUENCE_LOCKTIME_MASK)) - 1))
           | _ \<Rightarrow> None
      else Some (max nMinHeight (nCoinHeight + uint (nSequence txin AND SEQUENCE_LOCKTIME_MASK) - 1), nMinTime))"

text \<open>The locks and the heights that were relevant for them.\<close>

fun sequence_locks_loop :: "block_map \<Rightarrow> uint256 \<Rightarrow> (CTxIn \<times> int) list \<Rightarrow> int \<times> int \<Rightarrow> int list \<Rightarrow> ((int \<times> int) \<times> int list) option" where
  "sequence_locks_loop m block [] lock heights = Some (lock, heights)"
| "sequence_locks_loop m block ((txin, nCoinHeight) # ins) lock heights =
     (if nSequence txin AND SEQUENCE_LOCKTIME_DISABLE_FLAG \<noteq> 0 then sequence_locks_loop m block ins lock (heights @ [0])
      else Option.bind (sequence_lock m block txin nCoinHeight lock) (\<lambda>lock. sequence_locks_loop m block ins lock (heights @ [nCoinHeight])))"

definition CalculateSequenceLocks :: "block_map \<Rightarrow> CTransaction \<Rightarrow> u32 \<Rightarrow> int list \<Rightarrow> uint256 \<Rightarrow> ((int \<times> int) \<times> int list) option" where
  "CalculateSequenceLocks m tx fl prevHeights block =
     (if length prevHeights \<noteq> length (vin tx) then None
      else if \<not> (version tx \<ge> 2 \<and> fl AND LOCKTIME_VERIFY_SEQUENCE \<noteq> 0) then Some ((- 1, - 1), prevHeights)
      else sequence_locks_loop m block (zip (vin tx) prevHeights) (- 1, - 1) [])"

definition EvaluateSequenceLocks :: "block_map \<Rightarrow> uint256 \<Rightarrow> int \<times> int \<Rightarrow> bool option" where
  "EvaluateSequenceLocks m block lockPair =
     (case m block of
        None \<Rightarrow> None
      | Some b \<Rightarrow>
          (case pprev b of
             None \<Rightarrow> None
           | Some p \<Rightarrow> Some (\<not> (fst lockPair \<ge> nHeight b \<or> snd lockPair \<ge> GetMedianTimePast m p))))"

definition SequenceLocks :: "block_map \<Rightarrow> CTransaction \<Rightarrow> u32 \<Rightarrow> int list \<Rightarrow> uint256 \<Rightarrow> bool option" where
  "SequenceLocks m tx fl prevHeights block =
     Option.bind (CalculateSequenceLocks m tx fl prevHeights block) (\<lambda>(lockPair, _). EvaluateSequenceLocks m block lockPair)"

subsection \<open>Signature operations\<close>

text \<open>The counters are \<open>unsigned int\<close>, and so are their products with the scale factor; the cost they add up to has 64 bits.\<close>

definition GetLegacySigOpCount :: "CTransaction \<Rightarrow> nat" where
  "GetLegacySigOpCount tx =
     (sum_list (map (\<lambda>txin. GetSigOpCount (scriptSig txin) False) (vin tx)) +
      sum_list (map (\<lambda>txout. GetSigOpCount (scriptPubKey txout) False) (vout tx))) mod 2 ^ 32"

fun p2sh_sigops :: "(Coin \<Rightarrow> u64) \<Rightarrow> 'v view_ops \<Rightarrow> CTxIn list \<Rightarrow> nat \<Rightarrow> 'v CCoinsViewCache \<Rightarrow> (nat \<times> 'v CCoinsViewCache) verdict" where
  "p2sh_sigops U V [] nSigOps c = Valid (nSigOps, c)"
| "p2sh_sigops U V (txin # ins) nSigOps c =
     (let (x, c) = AccessCoin U V (prevout txin) c in
      if Coin_IsSpent x then Fatal
      else let spk = scriptPubKey (coin_out x)
           in p2sh_sigops U V ins (if IsPayToScriptHash spk then (nSigOps + GetSigOpCount_sig spk (scriptSig txin)) mod 2 ^ 32 else nSigOps) c)"

definition GetP2SHSigOpCount :: "(Coin \<Rightarrow> u64) \<Rightarrow> 'v view_ops \<Rightarrow> CTransaction \<Rightarrow> 'v CCoinsViewCache \<Rightarrow> (nat \<times> 'v CCoinsViewCache) verdict" where
  "GetP2SHSigOpCount U V tx c = (if IsCoinBase tx then Valid (0, c) else p2sh_sigops U V (vin tx) 0 c)"

fun witness_sigops :: "(Coin \<Rightarrow> u64) \<Rightarrow> 'v view_ops \<Rightarrow> u32 \<Rightarrow> CTxIn list \<Rightarrow> nat \<Rightarrow> 'v CCoinsViewCache \<Rightarrow> (nat \<times> 'v CCoinsViewCache) verdict" where
  "witness_sigops U V fl [] nSigOps c = Valid (nSigOps, c)"
| "witness_sigops U V fl (txin # ins) nSigOps c =
     (let (x, c) = AccessCoin U V (prevout txin) c in
      if Coin_IsSpent x then Fatal
      else case CountWitnessSigOps (scriptSig txin) (scriptPubKey (coin_out x)) (scriptWitness txin) fl of
             None \<Rightarrow> Fatal
           | Some n \<Rightarrow> witness_sigops U V fl ins (nSigOps + n) c)"

definition GetTransactionSigOpCost :: "(Coin \<Rightarrow> u64) \<Rightarrow> 'v view_ops \<Rightarrow> CTransaction \<Rightarrow> u32 \<Rightarrow> 'v CCoinsViewCache \<Rightarrow> (nat \<times> 'v CCoinsViewCache) verdict" where
  "GetTransactionSigOpCost U V tx fl c =
     (let nSigOps = GetLegacySigOpCount tx * 4 mod 2 ^ 32 in
      if IsCoinBase tx then Valid (nSigOps, c)
      else vbind (if fl AND SCRIPT_VERIFY_P2SH \<noteq> 0 then GetP2SHSigOpCount U V tx c else Valid (0, c)) (\<lambda>(n, c).
             witness_sigops U V fl (vin tx) (nSigOps + n * 4 mod 2 ^ 32) c))"

subsection \<open>Inputs\<close>

definition COINBASE_MATURITY :: int where
  "COINBASE_MATURITY = 100"

fun check_inputs :: "(Coin \<Rightarrow> u64) \<Rightarrow> 'v view_ops \<Rightarrow> int \<Rightarrow> CTxIn list \<Rightarrow> int \<Rightarrow> 'v CCoinsViewCache \<Rightarrow> (int \<times> 'v CCoinsViewCache) verdict" where
  "check_inputs U V nSpendHeight [] nValueIn c = Valid (nValueIn, c)"
| "check_inputs U V nSpendHeight (txin # ins) nValueIn c =
     (let (x, c) = AccessCoin U V (prevout txin) c in
      if Coin_IsSpent x then Fatal
      else if coin_fCoinBase x \<and> nSpendHeight - uint (coin_nHeight x) < COINBASE_MATURITY then Invalid ''bad-txns-premature-spend-of-coinbase''
      else let v = sint (nValue (coin_out x))
           in if \<not> MoneyRange v \<or> \<not> MoneyRange (nValueIn + v) then Invalid ''bad-txns-inputvalues-outofrange''
              else check_inputs U V nSpendHeight ins (nValueIn + v) c)"

text \<open>The fee and the view; \<open>GetValueOut\<close> throws when an output value is out of range.\<close>

definition CheckTxInputs :: "(Coin \<Rightarrow> u64) \<Rightarrow> 'v view_ops \<Rightarrow> CTransaction \<Rightarrow> int \<Rightarrow> 'v CCoinsViewCache \<Rightarrow> (int \<times> 'v CCoinsViewCache) verdict" where
  "CheckTxInputs U V tx nSpendHeight c =
     (let (have_inputs, c) = HaveInputs U V tx c in
      if \<not> have_inputs then Invalid ''bad-txns-inputs-missingorspent''
      else vbind (check_inputs U V nSpendHeight (vin tx) 0 c) (\<lambda>(nValueIn, c).
             case GetValueOut tx of
               None \<Rightarrow> Fatal
             | Some value_out \<Rightarrow>
                 if nValueIn < value_out then Invalid ''bad-txns-in-belowout''
                 else let txfee_aux = nValueIn - value_out
                      in if \<not> MoneyRange txfee_aux then Invalid ''bad-txns-fee-outofrange'' else Valid (txfee_aux, c)))"


section \<open>What the checks mean\<close>

definition coin_value :: "Coin \<Rightarrow> int" where
  "coin_value x = sint (nValue (coin_out x))"

definition outputs_value :: "CTxOut list \<Rightarrow> int" where
  "outputs_value outs = sum_list (map (\<lambda>txout. sint (nValue txout)) outs)"

definition inputs_value :: "(COutPoint \<Rightarrow> Coin option) \<Rightarrow> CTxIn list \<Rightarrow> int" where
  "inputs_value m ins = sum_list (map (\<lambda>txin. coin_value (coin_or_empty (m (prevout txin)))) ins)"

lemma check_outputs_valid:
  "check_outputs v outs = Valid () \<Longrightarrow> MoneyRange v \<Longrightarrow>
     (\<forall>txout \<in> set outs. 0 \<le> sint (nValue txout)) \<and> GetValueOut_loop v outs = Some (v + outputs_value outs) \<and> MoneyRange (v + outputs_value outs)"
proof (induction v outs rule: check_outputs.induct)
  case (2 v txout outs)
  then have "check_outputs (v + sint (nValue txout)) outs = Valid ()" "MoneyRange (v + sint (nValue txout))" "MoneyRange (sint (nValue txout))"
    by (auto simp: Let_def MoneyRange_def split: if_splits)
  then show ?case using 2 by (auto simp: Let_def outputs_value_def add.assoc MoneyRange_def split: if_splits)
qed (simp add: outputs_value_def)

lemma check_duplicates_valid: "check_duplicates S ins = Valid () \<longleftrightarrow> distinct (map prevout ins) \<and> (\<forall>txin \<in> set ins. prevout txin \<notin> S)"
proof (induction S ins rule: check_duplicates.induct)
  case (2 S txin ins)
  show ?case
  proof (cases "prevout txin \<in> S")
    case False
    have "(\<forall>i \<in> set ins. prevout i \<notin> insert (prevout txin) S) \<longleftrightarrow> prevout txin \<notin> prevout ` set ins \<and> (\<forall>i \<in> set ins. prevout i \<notin> S)"
      by (metis image_iff insert_iff)
    then show ?thesis using 2 False by auto
  qed simp
qed simp

lemma CheckTransaction_valid:
  assumes "CheckTransaction tx = Valid ()"
  shows "vin tx \<noteq> [] \<and> vout tx \<noteq> [] \<and> length (SerializeTransaction False tx) \<le> 1000000 \<and> distinct (map prevout (vin tx)) \<and>
    (\<forall>txout \<in> set (vout tx). 0 \<le> sint (nValue txout)) \<and> GetValueOut tx = Some (outputs_value (vout tx)) \<and> MoneyRange (outputs_value (vout tx))"
proof -
  have "check_outputs 0 (vout tx) = Valid ()" "check_duplicates {} (vin tx) = Valid ()"
    using assms by (auto simp: CheckTransaction_def split: if_splits)
  then show ?thesis
    using assms check_outputs_valid [of 0 "vout tx"]
    by (auto simp: CheckTransaction_def check_duplicates_valid GetValueOut_def MAX_BLOCK_WEIGHT_def MoneyRange_def MAX_MONEY_def COIN_def split: if_splits)
qed

definition mature :: "int \<Rightarrow> Coin \<Rightarrow> bool" where
  "mature nSpendHeight x \<longleftrightarrow> (coin_fCoinBase x \<longrightarrow> nSpendHeight - uint (coin_nHeight x) \<ge> COINBASE_MATURITY)"

definition inputs_ok :: "(COutPoint \<Rightarrow> Coin option) \<Rightarrow> int \<Rightarrow> CTxIn list \<Rightarrow> bool" where
  "inputs_ok m nSpendHeight ins \<longleftrightarrow> (\<forall>txin \<in> set ins. \<exists>x. m (prevout txin) = Some x \<and> mature nSpendHeight x \<and> MoneyRange (coin_value x))"

lemma inputs_value_nonneg: "inputs_ok m h ins \<Longrightarrow> 0 \<le> inputs_value m ins"
  unfolding inputs_value_def by (rule sum_list_nonneg) (auto simp: inputs_ok_def coin_or_empty_def MoneyRange_def)

context coins_view
begin

lemma check_inputs_iff:
  assumes "cache_inv utxo invar c" "MoneyRange v"
  shows "(\<exists>c'. check_inputs U V h ins v c = Valid (v', c')) \<longleftrightarrow>
    inputs_ok (cache_utxo utxo c) h ins \<and> v' = v + inputs_value (cache_utxo utxo c) ins \<and> MoneyRange v'"
  using assms
proof (induction ins arbitrary: c v)
  case Nil
  then show ?case by (auto simp: inputs_ok_def inputs_value_def)
next
  case (Cons txin ins)
  obtain x c1 where a: "AccessCoin U V (prevout txin) c = (x, c1)" by fastforce
  note ac = access_coin [OF Cons.prems(1) a]
  have i1: "cache_inv utxo invar c1" and u1: "cache_utxo utxo c1 = cache_utxo utxo c" using ac by (simp_all add: same_view_def)
  let ?m = "cache_utxo utxo c" and ?v = "v + coin_value x"
  show ?case
  proof (cases "?m (prevout txin)")
    case None
    then have "Coin_IsSpent x" using ac by (simp add: coin_or_empty_def)
    then show ?thesis using a None by (simp add: inputs_ok_def)
  next
    case (Some y)
    then have x: "x = y" using ac by (simp add: coin_or_empty_def)
    have "\<not> Coin_IsSpent y" using Some coins_view.unspent [OF cache_is_view Cons.prems(1)] by blast
    show ?thesis
    proof (cases "mature h x \<and> MoneyRange (coin_value x) \<and> MoneyRange ?v")
      case True
      have "check_inputs U V h (txin # ins) v c = check_inputs U V h ins ?v c1"
        using a True \<open>\<not> Coin_IsSpent y\<close> x by (auto simp: mature_def coin_value_def Let_def)
      then show ?thesis
        using Cons.IH [OF i1, of ?v] True Some x u1 by (auto simp: inputs_ok_def inputs_value_def coin_or_empty_def add.assoc)
    next
      case False
      have "\<not> (\<exists>c'. check_inputs U V h (txin # ins) v c = Valid (v', c'))"
        using a False \<open>\<not> Coin_IsSpent y\<close> x by (auto simp: mature_def coin_value_def Let_def)
      moreover have "\<not> (inputs_ok ?m h (txin # ins) \<and> v' = v + inputs_value ?m (txin # ins) \<and> MoneyRange v')"
      proof
        assume "inputs_ok ?m h (txin # ins) \<and> v' = v + inputs_value ?m (txin # ins) \<and> MoneyRange v'"
        moreover from this have "0 \<le> inputs_value ?m ins" by (intro inputs_value_nonneg [of _ h]) (simp add: inputs_ok_def)
        ultimately show False
          using False Cons.prems(2) Some x by (auto simp: inputs_ok_def inputs_value_def coin_or_empty_def MoneyRange_def)
      qed
      ultimately show ?thesis by blast
    qed
  qed
qed

lemma check_inputs_view:
  assumes "cache_inv utxo invar c" "check_inputs U V h ins v c = Valid (v', c')"
  shows "same_view c c'"
  using assms
proof (induction ins arbitrary: c v)
  case Nil
  then show ?case by (simp add: same_view_def)
next
  case (Cons txin ins)
  obtain x c1 where a: "AccessCoin U V (prevout txin) c = (x, c1)" by fastforce
  note ac = access_coin [OF Cons.prems(1) a]
  then have "cache_inv utxo invar c1" by (simp add: same_view_def)
  from Cons.IH [OF this] show ?case using Cons.prems(2) a ac by (auto simp: same_view_def Let_def split: if_splits)
qed

lemma check_tx_inputs_iff:
  assumes inv: "cache_inv utxo invar c" and cb: "\<not> IsCoinBase tx"
  shows "(\<exists>c'. CheckTxInputs U V tx h c = Valid (fee, c')) \<longleftrightarrow>
    inputs_ok (cache_utxo utxo c) h (vin tx) \<and> MoneyRange (inputs_value (cache_utxo utxo c) (vin tx)) \<and>
    (\<exists>value_out. GetValueOut tx = Some value_out \<and> value_out \<le> inputs_value (cache_utxo utxo c) (vin tx) \<and>
       fee = inputs_value (cache_utxo utxo c) (vin tx) - value_out)"
proof -
  obtain r c1 where hi: "HaveInputs U V tx c = (r, c1)" by fastforce
  note hv = have_inputs [OF inv hi]
  have i1: "cache_inv utxo invar c1" and u1: "cache_utxo utxo c1 = cache_utxo utxo c" using hv by (simp_all add: same_view_def)
  have z: "MoneyRange 0" by (simp add: MoneyRange_def MAX_MONEY_def COIN_def)
  have out: "GetValueOut tx = Some w \<Longrightarrow> MoneyRange w" for w
  proof -
    have "GetValueOut_loop v outs = Some w \<Longrightarrow> MoneyRange w" for v outs
      by (induction v outs rule: GetValueOut_loop.induct) (auto split: if_splits)
    then show "GetValueOut tx = Some w \<Longrightarrow> MoneyRange w" by (simp add: GetValueOut_def)
  qed
  let ?I = "inputs_value (cache_utxo utxo c) (vin tx)"
  note ci = check_inputs_iff [OF i1 z, of U h "vin tx", unfolded u1 add_0]
  show ?thesis
  proof (cases "inputs_ok (cache_utxo utxo c) h (vin tx) \<and> MoneyRange ?I")
    case True
    then have "\<exists>c'. check_inputs U V h (vin tx) 0 c1 = Valid (?I, c')" by (intro iffD2 [OF ci]) simp
    then obtain c2 where c2: "check_inputs U V h (vin tx) 0 c1 = Valid (?I, c2)" by blast
    have "r" using hv True by (auto simp: inputs_ok_def)
    then have e: "CheckTxInputs U V tx h c = (case GetValueOut tx of None \<Rightarrow> Fatal | Some value_out \<Rightarrow>
        if ?I < value_out then Invalid ''bad-txns-in-belowout''
        else if \<not> MoneyRange (?I - value_out) then Invalid ''bad-txns-fee-outofrange'' else Valid (?I - value_out, c2))"
      using hi c2 by (cases "GetValueOut tx") (simp_all add: CheckTxInputs_def)
    show ?thesis
    proof (cases "GetValueOut tx")
      case None
      then show ?thesis by (simp add: e)
    next
      case (Some w)
      have "0 \<le> w" using out [OF Some] by (simp add: MoneyRange_def)
      moreover have "?I \<le> MAX_MONEY" using True by (simp add: MoneyRange_def)
      ultimately have "MoneyRange (?I - w) \<longleftrightarrow> w \<le> ?I" by (auto simp: MoneyRange_def)
      then show ?thesis using True by (auto simp: e Some)
    qed
  next
    case False
    have "\<not> (\<exists>c'. CheckTxInputs U V tx h c = Valid (fee, c'))"
    proof
      assume "\<exists>c'. CheckTxInputs U V tx h c = Valid (fee, c')"
      then obtain v c2 where "check_inputs U V h (vin tx) 0 c1 = Valid (v, c2)" using hi by (auto simp: CheckTxInputs_def split: if_splits)
      then have "\<exists>c'. check_inputs U V h (vin tx) 0 c1 = Valid (v, c')" by blast
      from iffD1 [OF ci this] show False using False by auto
    qed
    then show ?thesis using False by blast
  qed
qed

lemma check_tx_inputs_view:
  assumes "cache_inv utxo invar c" "CheckTxInputs U V tx h c = Valid (fee, c')"
  shows "same_view c c'"
proof -
  obtain r c1 where hi: "HaveInputs U V tx c = (r, c1)" by fastforce
  note hv = have_inputs [OF assms(1) hi]
  then have i1: "cache_inv utxo invar c1" by (simp add: same_view_def)
  obtain v where "check_inputs U V h (vin tx) 0 c1 = Valid (v, c')"
    using assms(2) hi by (auto simp: CheckTxInputs_def Let_def split: if_splits option.splits)
  from check_inputs_view [OF i1 this] show ?thesis using hv by (simp add: same_view_def)
qed

end


text \<open>
  C21: A transaction that is no coinbase passes the check of its inputs with a fee exactly when every input spends an unspent output that is mature and in
  the money range, the inputs add up to an amount in the money range that covers the outputs, and the fee is the difference; the check
  neither throws nor fails its assertion then.
\<close>

theorem check_tx_inputs_exact:
  assumes "stack_inv c" "\<not> IsCoinBase tx"
  shows "(\<exists>c'. CheckTxInputs U (stack_ops U full) tx h c = Valid (fee, c')) \<longleftrightarrow>
    inputs_ok (stack_utxo c) h (vin tx) \<and> MoneyRange (inputs_value (stack_utxo c) (vin tx)) \<and>
    (\<exists>value_out. GetValueOut tx = Some value_out \<and> value_out \<le> inputs_value (stack_utxo c) (vin tx) \<and>
       fee = inputs_value (stack_utxo c) (vin tx) - value_out)"
  unfolding stack_ops_def stack_utxo_def by (rule tip.check_tx_inputs_iff) (use assms in \<open>simp_all add: stack_inv_def\<close>)

definition spending_tx :: CTransaction where
  "spending_tx = \<lparr>vin = [\<lparr>prevout = example_outpoint, scriptSig = [], nSequence = 0, scriptWitness = []\<rparr>],
     vout = [\<lparr>nValue = 45, scriptPubKey = [0x51]\<rparr>], version = 1, nLockTime = 0\<rparr>"

definition funded_stack :: "CCoinsViewDB CCoinsViewCache CCoinsViewCache" where
  "funded_stack = (CCoinsViewCache_new (CCoinsViewCache_new (example_db\<lparr>db_coins := [example_outpoint \<mapsto> example_coin]\<rparr>)))\<lparr>hashBlock := 1\<rparr>"

lemma funded_stack_inv: "stack_inv funded_stack"
  by (simp add: stack_inv_def funded_stack_def CCoinsViewCache_new_def cache_inv_def list_sane_def db_ok_def example_db_def example_coin_unspent)

lemma funded_stack_utxo: "stack_utxo funded_stack = [example_outpoint \<mapsto> example_coin]"
  by (simp add: stack_utxo_def cache_utxo_def funded_stack_def CCoinsViewCache_new_def example_db_def fun_eq_iff)

theorem check_tx_inputs_exact_witness:
  "\<exists>c'. CheckTxInputs example_usage (stack_ops example_usage (\<lambda>_. False)) spending_tx 20 funded_stack = Valid (5, c')"
proof -
  have "\<not> IsCoinBase spending_tx" by (simp add: IsCoinBase_def spending_tx_def example_outpoint_def COutPoint_IsNull_def)
  moreover have "inputs_ok (stack_utxo funded_stack) 20 (vin spending_tx)"
    by (simp add: inputs_ok_def funded_stack_utxo spending_tx_def mature_def example_coin_def coin_value_def MoneyRange_def MAX_MONEY_def COIN_def)
  moreover have "inputs_value (stack_utxo funded_stack) (vin spending_tx) = 50"
    by (simp add: inputs_value_def funded_stack_utxo spending_tx_def coin_or_empty_def coin_value_def example_coin_def)
  moreover have "GetValueOut spending_tx = Some 45"
    by (simp add: GetValueOut_def spending_tx_def MoneyRange_def MAX_MONEY_def COIN_def)
  ultimately show ?thesis
    using check_tx_inputs_exact [OF funded_stack_inv, of spending_tx example_usage "\<lambda>_. False" 20 5] by (simp add: MoneyRange_def MAX_MONEY_def COIN_def)
qed

end
