(* ===== verification/InputScripts.thy ===== *)
theory InputScripts
  imports TxVerify
begin

text \<open>
  Model of \<open>CheckInputScripts\<close> of \<open>src/bitcoin/src/validation.cpp\<close> with the script check it runs for every input, and of the signature cache in
  \<open>script/sigcache.cpp\<close>. The two caches are lossy sets of salted hashes: \<open>sig_held\<close> and \<open>script_held\<close> say which entries a
  lookup finds. The checks run inline, as they do without worker threads.
\<close>

definition ScriptErrorString :: "ScriptError \<Rightarrow> string" where
  "ScriptErrorString serror =
     (case serror of
        SCRIPT_ERR_OK \<Rightarrow> ''No error''
      | SCRIPT_ERR_EVAL_FALSE \<Rightarrow> ''Script evaluated without error but finished with a false/empty top stack element''
      | SCRIPT_ERR_VERIFY \<Rightarrow> ''Script failed an OP_VERIFY operation''
      | SCRIPT_ERR_EQUALVERIFY \<Rightarrow> ''Script failed an OP_EQUALVERIFY operation''
      | SCRIPT_ERR_CHECKMULTISIGVERIFY \<Rightarrow> ''Script failed an OP_CHECKMULTISIGVERIFY operation''
      | SCRIPT_ERR_CHECKSIGVERIFY \<Rightarrow> ''Script failed an OP_CHECKSIGVERIFY operation''
      | SCRIPT_ERR_NUMEQUALVERIFY \<Rightarrow> ''Script failed an OP_NUMEQUALVERIFY operation''
      | SCRIPT_ERR_SCRIPT_SIZE \<Rightarrow> ''Script is too big''
      | SCRIPT_ERR_PUSH_SIZE \<Rightarrow> ''Push value size limit exceeded''
      | SCRIPT_ERR_OP_COUNT \<Rightarrow> ''Operation limit exceeded''
      | SCRIPT_ERR_STACK_SIZE \<Rightarrow> ''Stack size limit exceeded''
      | SCRIPT_ERR_SIG_COUNT \<Rightarrow> ''Signature count negative or greater than pubkey count''
      | SCRIPT_ERR_PUBKEY_COUNT \<Rightarrow> ''Pubkey count negative or limit exceeded''
      | SCRIPT_ERR_BAD_OPCODE \<Rightarrow> ''Opcode missing or not understood''
      | SCRIPT_ERR_DISABLED_OPCODE \<Rightarrow> ''Attempted to use a disabled opcode''
      | SCRIPT_ERR_INVALID_STACK_OPERATION \<Rightarrow> ''Operation not valid with the current stack size''
      | SCRIPT_ERR_INVALID_ALTSTACK_OPERATION \<Rightarrow> ''Operation not valid with the current altstack size''
      | SCRIPT_ERR_OP_RETURN \<Rightarrow> ''OP_RETURN was encountered''
      | SCRIPT_ERR_UNBALANCED_CONDITIONAL \<Rightarrow> ''Invalid OP_IF construction''
      | SCRIPT_ERR_NEGATIVE_LOCKTIME \<Rightarrow> ''Negative locktime''
      | SCRIPT_ERR_UNSATISFIED_LOCKTIME \<Rightarrow> ''Locktime requirement not satisfied''
      | SCRIPT_ERR_SIG_HASHTYPE \<Rightarrow> ''Signature hash type missing or not understood''
      | SCRIPT_ERR_SIG_DER \<Rightarrow> ''Non-canonical DER signature''
      | SCRIPT_ERR_MINIMALDATA \<Rightarrow> ''Data push larger than necessary''
      | SCRIPT_ERR_SIG_PUSHONLY \<Rightarrow> ''Only push operators allowed in signatures''
      | SCRIPT_ERR_SIG_HIGH_S \<Rightarrow> ''Non-canonical signature: S value is unnecessarily high''
      | SCRIPT_ERR_SIG_NULLDUMMY \<Rightarrow> ''Dummy CHECKMULTISIG argument must be zero''
      | SCRIPT_ERR_MINIMALIF \<Rightarrow> ''OP_IF/NOTIF argument must be minimal''
      | SCRIPT_ERR_SIG_NULLFAIL \<Rightarrow> ''Signature must be zero for failed CHECK(MULTI)SIG operation''
      | SCRIPT_ERR_DISCOURAGE_UPGRADABLE_NOPS \<Rightarrow> ''NOPx reserved for soft-fork upgrades''
      | SCRIPT_ERR_DISCOURAGE_UPGRADABLE_WITNESS_PROGRAM \<Rightarrow> ''Witness version reserved for soft-fork upgrades''
      | SCRIPT_ERR_DISCOURAGE_UPGRADABLE_TAPROOT_VERSION \<Rightarrow> ''Taproot version reserved for soft-fork upgrades''
      | SCRIPT_ERR_DISCOURAGE_OP_SUCCESS \<Rightarrow> ''OP_SUCCESSx reserved for soft-fork upgrades''
      | SCRIPT_ERR_DISCOURAGE_UPGRADABLE_PUBKEYTYPE \<Rightarrow> ''Public key version reserved for soft-fork upgrades''
      | SCRIPT_ERR_PUBKEYTYPE \<Rightarrow> ''Public key is neither compressed or uncompressed''
      | SCRIPT_ERR_CLEANSTACK \<Rightarrow> ''Stack size must be exactly one after execution''
      | SCRIPT_ERR_WITNESS_PROGRAM_WRONG_LENGTH \<Rightarrow> ''Witness program has incorrect length''
      | SCRIPT_ERR_WITNESS_PROGRAM_WITNESS_EMPTY \<Rightarrow> ''Witness program was passed an empty witness''
      | SCRIPT_ERR_WITNESS_PROGRAM_MISMATCH \<Rightarrow> ''Witness program hash mismatch''
      | SCRIPT_ERR_WITNESS_MALLEATED \<Rightarrow> ''Witness requires empty scriptSig''
      | SCRIPT_ERR_WITNESS_MALLEATED_P2SH \<Rightarrow> ''Witness requires only-redeemscript scriptSig''
      | SCRIPT_ERR_WITNESS_UNEXPECTED \<Rightarrow> ''Witness provided for non-witness script''
      | SCRIPT_ERR_WITNESS_PUBKEYTYPE \<Rightarrow> ''Using non-compressed keys in segwit''
      | SCRIPT_ERR_SCHNORR_SIG_SIZE \<Rightarrow> ''Invalid Schnorr signature size''
      | SCRIPT_ERR_SCHNORR_SIG_HASHTYPE \<Rightarrow> ''Invalid Schnorr signature hash type''
      | SCRIPT_ERR_SCHNORR_SIG \<Rightarrow> ''Invalid Schnorr signature''
      | SCRIPT_ERR_TAPROOT_WRONG_CONTROL_SIZE \<Rightarrow> ''Invalid Taproot control block size''
      | SCRIPT_ERR_TAPSCRIPT_VALIDATION_WEIGHT \<Rightarrow> ''Too much signature validation relative to witness weight''
      | SCRIPT_ERR_TAPSCRIPT_CHECKMULTISIG \<Rightarrow> ''OP_CHECKMULTISIG(VERIFY) is not available in tapscript''
      | SCRIPT_ERR_TAPSCRIPT_MINIMALIF \<Rightarrow> ''OP_IF/NOTIF argument must be minimal in tapscript''
      | SCRIPT_ERR_OP_CODESEPARATOR \<Rightarrow> ''Using OP_CODESEPARATOR in non-witness script''
      | SCRIPT_ERR_SIG_FINDANDDELETE \<Rightarrow> ''Signature is found in scriptCode''
      | _ \<Rightarrow> ''unknown error'')"

definition MANDATORY_SCRIPT_VERIFY_FLAGS :: u32 where
  "MANDATORY_SCRIPT_VERIFY_FLAGS =
     SCRIPT_VERIFY_P2SH OR SCRIPT_VERIFY_DERSIG OR SCRIPT_VERIFY_NULLDUMMY OR SCRIPT_VERIFY_CHECKLOCKTIMEVERIFY OR
     SCRIPT_VERIFY_CHECKSEQUENCEVERIFY OR SCRIPT_VERIFY_WITNESS OR SCRIPT_VERIFY_TAPROOT"

definition STANDARD_SCRIPT_VERIFY_FLAGS :: u32 where
  "STANDARD_SCRIPT_VERIFY_FLAGS =
     MANDATORY_SCRIPT_VERIFY_FLAGS OR SCRIPT_VERIFY_STRICTENC OR SCRIPT_VERIFY_MINIMALDATA OR SCRIPT_VERIFY_DISCOURAGE_UPGRADABLE_NOPS OR
     SCRIPT_VERIFY_CLEANSTACK OR SCRIPT_VERIFY_MINIMALIF OR SCRIPT_VERIFY_NULLFAIL OR SCRIPT_VERIFY_LOW_S OR
     SCRIPT_VERIFY_DISCOURAGE_UPGRADABLE_WITNESS_PROGRAM OR SCRIPT_VERIFY_WITNESS_PUBKEYTYPE OR SCRIPT_VERIFY_CONST_SCRIPTCODE OR
     SCRIPT_VERIFY_DISCOURAGE_UPGRADABLE_TAPROOT_VERSION OR SCRIPT_VERIFY_DISCOURAGE_OP_SUCCESS OR SCRIPT_VERIFY_DISCOURAGE_UPGRADABLE_PUBKEYTYPE"

definition STANDARD_NOT_MANDATORY_VERIFY_FLAGS :: u32 where
  "STANDARD_NOT_MANDATORY_VERIFY_FLAGS = STANDARD_SCRIPT_VERIFY_FLAGS AND NOT MANDATORY_SCRIPT_VERIFY_FLAGS"

subsection \<open>The signature cache\<close>

record ValidationCache =
  sig_nonce :: uint256
  sig_held :: "uint256 \<Rightarrow> bool"
  script_nonce :: uint256
  script_held :: "uint256 \<Rightarrow> bool"

definition ComputeEntryECDSA :: "hash_functions \<Rightarrow> ValidationCache \<Rightarrow> uint256 \<Rightarrow> bytes \<Rightarrow> bytes \<Rightarrow> uint256" where
  "ComputeEntryECDSA F K hash vchSig pubkey =
     uint256_of_bytes (SHA256 F (ser_uint256 (sig_nonce K) @ (0x45 # replicate 31 0) @ ser_uint256 hash @ take (CPubKey_size pubkey) pubkey @ vchSig))"

definition ComputeEntrySchnorr :: "hash_functions \<Rightarrow> ValidationCache \<Rightarrow> uint256 \<Rightarrow> bytes \<Rightarrow> bytes \<Rightarrow> uint256" where
  "ComputeEntrySchnorr F K hash sig pubkey =
     uint256_of_bytes (SHA256 F (ser_uint256 (sig_nonce K) @ (0x53 # replicate 31 0) @ ser_uint256 hash @ pubkey @ sig))"

definition caching_CheckECDSASignature ::
  "hash_functions \<Rightarrow> secp256k1 \<Rightarrow> ValidationCache \<Rightarrow> tx_checker \<Rightarrow> bytes \<Rightarrow> bytes \<Rightarrow> script \<Rightarrow> SigVersion \<Rightarrow> bool option" where
  "caching_CheckECDSASignature F E K c vchSigIn vchPubKey scriptCode sv =
     (let pubkey = CPubKey_Set vchPubKey
      in if \<not> CPubKey_IsValid pubkey then Some False
         else if vchSigIn = [] then Some False
         else let nHashType = ucast (last vchSigIn); vchSig = butlast vchSigIn
              in if sv = WITNESS_V0 \<and> sint (amount c) < 0 then HandleMissingData (m_mdb c)
                 else (case SignatureHash F scriptCode (txTo c) (nIn c) nHashType (amount c) sv (txdata c) of
                         None \<Rightarrow> None
                       | Some sighash \<Rightarrow>
                           Some (sig_held K (ComputeEntryECDSA F K sighash vchSig pubkey) \<or> CPubKey_Verify E pubkey sighash vchSig)))"

definition caching_CheckSchnorrSignature ::
  "hash_functions \<Rightarrow> secp256k1 \<Rightarrow> ValidationCache \<Rightarrow> tx_checker \<Rightarrow> bytes \<Rightarrow> bytes \<Rightarrow> SigVersion \<Rightarrow> ScriptExecutionData \<Rightarrow> ScriptError
     \<Rightarrow> ScriptExecutionData outcome" where
  "caching_CheckSchnorrSignature F E K c sig pubkey_in sv ed serror =
     assert_that ((sv = TAPROOT \<or> sv = TAPSCRIPT) \<and> length pubkey_in = 32)
       (if length sig \<noteq> 64 \<and> length sig \<noteq> 65 then Fail SCRIPT_ERR_SCHNORR_SIG_SIZE
        else let hashtype = (if length sig = 65 then last sig else ucast SIGHASH_DEFAULT);
                 sig64 = (if length sig = 65 then butlast sig else sig)
        in if length sig = 65 \<and> hashtype = ucast SIGHASH_DEFAULT then Fail SCRIPT_ERR_SCHNORR_SIG_HASHTYPE
           else case txdata c of
                  None \<Rightarrow> (case HandleMissingData (m_mdb c) of None \<Rightarrow> Abort | Some _ \<Rightarrow> Fail serror)
                | Some d \<Rightarrow>
                    (case SignatureHashSchnorr F ed (txTo c) (nIn c) hashtype sv d (m_mdb c) of
                       None \<Rightarrow> Abort
                     | Some (ed, None) \<Rightarrow> Fail SCRIPT_ERR_SCHNORR_SIG_HASHTYPE
                     | Some (ed, Some sighash) \<Rightarrow>
                         if sig_held K (ComputeEntrySchnorr F K sighash sig64 pubkey_in) then Ret ed
                         else (case VerifySchnorr E pubkey_in sighash sig64 of
                                 None \<Rightarrow> Abort
                               | Some ok \<Rightarrow> if \<not> ok then Fail SCRIPT_ERR_SCHNORR_SIG else Ret ed)))"

definition CachingTransactionSignatureChecker :: "hash_functions \<Rightarrow> secp256k1 \<Rightarrow> ValidationCache \<Rightarrow> tx_checker \<Rightarrow> SignatureChecker" where
  "CachingTransactionSignatureChecker F E K c =
     (TransactionSignatureChecker F E c)\<lparr>CheckECDSASignature := caching_CheckECDSASignature F E K c,
        CheckSchnorrSignature := caching_CheckSchnorrSignature F E K c\<rparr>"

subsection \<open>The scripts of a transaction's inputs\<close>

definition CScriptCheck ::
  "hash_functions \<Rightarrow> secp256k1 \<Rightarrow> ValidationCache \<Rightarrow> CTransaction \<Rightarrow> PrecomputedTransactionData \<Rightarrow> u32 \<Rightarrow> nat \<Rightarrow> CTxOut \<Rightarrow> unit outcome" where
  "CScriptCheck F E K tx d nFlags i m_tx_out =
     VerifyScript
       \<lparr>hashes = F, secp = E, flags = nFlags,
        checker = CachingTransactionSignatureChecker F E K \<lparr>txTo = tx, m_mdb = ASSERT_FAIL, nIn = i, amount = nValue m_tx_out, txdata = Some d\<rparr>,
        sigversion = BASE\<rparr>
       (scriptSig (vin tx ! i)) (scriptPubKey m_tx_out) (scriptWitness (vin tx ! i))"

fun check_scripts ::
  "hash_functions \<Rightarrow> secp256k1 \<Rightarrow> ValidationCache \<Rightarrow> CTransaction \<Rightarrow> PrecomputedTransactionData \<Rightarrow> u32 \<Rightarrow> nat \<Rightarrow> CTxOut list \<Rightarrow> unit verdict" where
  "check_scripts F E K tx d fl i [] = Valid ()"
| "check_scripts F E K tx d fl i (out # outs) =
     (case CScriptCheck F E K tx d fl i out of
        Ret _ \<Rightarrow> check_scripts F E K tx d fl (i + 1) outs
      | Abort \<Rightarrow> Fatal
      | Fail result \<Rightarrow>
          if fl AND STANDARD_NOT_MANDATORY_VERIFY_FLAGS \<noteq> 0
          then (case CScriptCheck F E K tx d (fl AND NOT STANDARD_NOT_MANDATORY_VERIFY_FLAGS) i out of
                  Ret _ \<Rightarrow> Invalid (''non-mandatory-script-verify-flag ('' @ ScriptErrorString result @ '')'')
                | Abort \<Rightarrow> Fatal
                | Fail mandatory_result \<Rightarrow> Invalid (''mandatory-script-verify-flag-failed ('' @ ScriptErrorString mandatory_result @ '')''))
          else Invalid (''mandatory-script-verify-flag-failed ('' @ ScriptErrorString result @ '')''))"

fun collect_spent :: "(Coin \<Rightarrow> u64) \<Rightarrow> 'v view_ops \<Rightarrow> CTxIn list \<Rightarrow> CTxOut list \<Rightarrow> 'v CCoinsViewCache \<Rightarrow> (CTxOut list \<times> 'v CCoinsViewCache) verdict" where
  "collect_spent U V [] spent_outputs c = Valid (spent_outputs, c)"
| "collect_spent U V (txin # ins) spent_outputs c =
     (let (x, c) = AccessCoin U V (prevout txin) c in
      if Coin_IsSpent x then Fatal else collect_spent U V ins (spent_outputs @ [coin_out x]) c)"

definition script_cache_entry :: "hash_functions \<Rightarrow> ValidationCache \<Rightarrow> CTransaction \<Rightarrow> u32 \<Rightarrow> uint256" where
  "script_cache_entry F K tx fl =
     uint256_of_bytes (SHA256 F (ser_uint256 (script_nonce K) @ ser_uint256 (script_nonce K) @ ser_uint256 (ComputeWitnessHash F tx) @ ser_writedata32 fl))"

definition CheckInputScripts ::
  "hash_functions \<Rightarrow> secp256k1 \<Rightarrow> ValidationCache \<Rightarrow> (Coin \<Rightarrow> u64) \<Rightarrow> 'v view_ops \<Rightarrow> CTransaction \<Rightarrow> u32 \<Rightarrow> PrecomputedTransactionData
     \<Rightarrow> 'v CCoinsViewCache \<Rightarrow> 'v CCoinsViewCache verdict" where
  "CheckInputScripts F E K U V tx fl d c =
     (if IsCoinBase tx then Valid c
      else if script_held K (script_cache_entry F K tx fl) then Valid c
      else vbind (if m_spent_outputs_ready d then Valid (d, c)
                  else vbind (collect_spent U V (vin tx) [] c) (\<lambda>(spent_outputs, c).
                         case PrecomputedTransactionData_Init F tx spent_outputs False d of None \<Rightarrow> Fatal | Some d \<Rightarrow> Valid (d, c))) (\<lambda>(d, c).
           if length (m_spent_outputs d) \<noteq> length (vin tx) then Fatal
           else vbind (check_scripts F E K tx d fl 0 (m_spent_outputs d)) (\<lambda>_. Valid c)))"


section \<open>What the checks mean\<close>

text \<open>The signature cache holds the entries of valid signatures only.\<close>

definition sig_cache_sound :: "hash_functions \<Rightarrow> secp256k1 \<Rightarrow> ValidationCache \<Rightarrow> bool" where
  "sig_cache_sound F E K \<longleftrightarrow>
     (\<forall>hash sig pubkey. sig_held K (ComputeEntryECDSA F K hash sig pubkey) \<longrightarrow> CPubKey_Verify E pubkey hash sig) \<and>
     (\<forall>hash sig pubkey. length sig = 64 \<longrightarrow> sig_held K (ComputeEntrySchnorr F K hash sig pubkey) \<longrightarrow> VerifySchnorr E pubkey hash sig = Some True)"

lemma caching_checker_eq:
  assumes "sig_cache_sound F E K"
  shows "CachingTransactionSignatureChecker F E K c = TransactionSignatureChecker F E c"
proof -
  have "caching_CheckECDSASignature F E K c = tx_CheckECDSASignature F E c"
    using assms by (auto simp: fun_eq_iff caching_CheckECDSASignature_def tx_CheckECDSASignature_def Let_def sig_cache_sound_def split: option.split)
  moreover have "caching_CheckSchnorrSignature F E K c sig pk sv ed err = tx_CheckSchnorrSignature F E c sig pk sv ed err" for sig pk sv ed err
  proof (cases "length sig = 64 \<or> length sig = 65")
    case True
    define s where "s = (if length sig = 65 then butlast sig else sig)"
    define t where "t = (if length sig = 65 then last sig else ucast SIGHASH_DEFAULT)"
    have "length s = 64" using True by (auto simp: s_def)
    then have "sig_held K (ComputeEntrySchnorr F K h s pk) \<Longrightarrow> VerifySchnorr E pk h s = Some True" for h
      using assms by (simp add: sig_cache_sound_def)
    then show ?thesis
      unfolding caching_CheckSchnorrSignature_def tx_CheckSchnorrSignature_def s_def [symmetric] t_def [symmetric] Let_def
      by (auto split: option.split prod.split)
  next
    case False
    then show ?thesis by (simp add: caching_CheckSchnorrSignature_def tx_CheckSchnorrSignature_def)
  qed
  ultimately show ?thesis by (simp add: CachingTransactionSignatureChecker_def TransactionSignatureChecker_def fun_eq_iff)
qed

text \<open>The script of one input against the output it spends, with no cache in between.\<close>

definition input_verifies ::
  "hash_functions \<Rightarrow> secp256k1 \<Rightarrow> CTransaction \<Rightarrow> PrecomputedTransactionData \<Rightarrow> u32 \<Rightarrow> nat \<Rightarrow> CTxOut \<Rightarrow> bool" where
  "input_verifies F E tx d fl i out \<longleftrightarrow>
     VerifyScript
       \<lparr>hashes = F, secp = E, flags = fl,
        checker = TransactionSignatureChecker F E \<lparr>txTo = tx, m_mdb = ASSERT_FAIL, nIn = i, amount = nValue out, txdata = Some d\<rparr>, sigversion = BASE\<rparr>
       (scriptSig (vin tx ! i)) (scriptPubKey out) (scriptWitness (vin tx ! i)) = Ret ()"

lemma check_scripts_valid:
  assumes "sig_cache_sound F E K"
  shows "check_scripts F E K tx d fl i outs = Valid () \<longleftrightarrow> (\<forall>k < length outs. input_verifies F E tx d fl (i + k) (outs ! k))"
proof (induction outs arbitrary: i)
  case (Cons out outs)
  have "CScriptCheck F E K tx d fl i out = Ret () \<longleftrightarrow> input_verifies F E tx d fl i out"
    by (simp add: CScriptCheck_def input_verifies_def caching_checker_eq [OF assms])
  moreover have "(\<forall>k < length (out # outs). input_verifies F E tx d fl (i + k) ((out # outs) ! k)) \<longleftrightarrow>
      input_verifies F E tx d fl i out \<and> (\<forall>k < length outs. input_verifies F E tx d fl (Suc i + k) (outs ! k))"
    by (auto simp: less_Suc_eq_0_disj)
  ultimately show ?case
    using Cons by (cases "CScriptCheck F E K tx d fl i out") (auto split: outcome.split)
qed simp

definition spent_outputs :: "(COutPoint \<Rightarrow> Coin option) \<Rightarrow> CTransaction \<Rightarrow> CTxOut list" where
  "spent_outputs m tx = map (\<lambda>txin. coin_out (coin_or_empty (m (prevout txin)))) (vin tx)"

lemma Init_spent:
  assumes "PrecomputedTransactionData_Init F tx outs f d = Some d'"
  shows "m_spent_outputs d' = outs"
  using assms by (auto simp: PrecomputedTransactionData_Init_def Let_def Init_bip341_def Init_bip143_def Init_shared_def split: if_splits prod.splits)

lemma Init_defined:
  assumes "length outs = length (vin tx)"
  shows "\<exists>d. PrecomputedTransactionData_Init F tx outs f PrecomputedTransactionData_new = Some d"
proof -
  have "PrecomputedTransactionData_Init F tx outs f PrecomputedTransactionData_new \<noteq> None"
    using assms by (simp add: PrecomputedTransactionData_Init_def PrecomputedTransactionData_new_def Let_def split: prod.split)
  then show ?thesis by blast
qed

context coins_view
begin

lemma collect_spent_valid:
  assumes "cache_inv utxo invar c" "\<forall>txin \<in> set ins. cache_utxo utxo c (prevout txin) \<noteq> None"
  shows "\<exists>c'. collect_spent U V ins outs c = Valid (outs @ map (\<lambda>txin. coin_out (coin_or_empty (cache_utxo utxo c (prevout txin)))) ins, c') \<and> same_view c c'"
  using assms
proof (induction ins arbitrary: c outs)
  case Nil
  then show ?case by (simp add: same_view_def)
next
  case (Cons txin ins)
  obtain x c1 where a: "AccessCoin U V (prevout txin) c = (x, c1)" by fastforce
  note ac = access_coin [OF Cons.prems(1) a]
  have i1: "cache_inv utxo invar c1" and u1: "cache_utxo utxo c1 = cache_utxo utxo c" using ac by (simp_all add: same_view_def)
  obtain y where y: "cache_utxo utxo c (prevout txin) = Some y" using Cons.prems(2) by auto
  have "\<not> Coin_IsSpent x" using y ac coins_view.unspent [OF cache_is_view Cons.prems(1)] by (auto simp: coin_or_empty_def)
  moreover obtain c2 where "collect_spent U V ins (outs @ [coin_out x]) c1 =
      Valid ((outs @ [coin_out x]) @ map (\<lambda>txin. coin_out (coin_or_empty (cache_utxo utxo c (prevout txin)))) ins, c2)" "same_view c1 c2"
    using Cons.IH [OF i1, of "outs @ [coin_out x]"] Cons.prems(2) u1 by auto
  ultimately show ?case using a ac by (auto simp: same_view_def)
qed

lemma check_input_scripts:
  assumes inv: "cache_inv utxo invar c" and cb: "\<not> IsCoinBase tx" and av: "\<forall>txin \<in> set (vin tx). cache_utxo utxo c (prevout txin) \<noteq> None"
    and miss: "\<not> script_held K (script_cache_entry F K tx fl)" and sound: "sig_cache_sound F E K"
  shows "\<exists>d. PrecomputedTransactionData_Init F tx (spent_outputs (cache_utxo utxo c) tx) False PrecomputedTransactionData_new = Some d \<and>
    ((\<exists>c'. CheckInputScripts F E K U V tx fl PrecomputedTransactionData_new c = Valid c') \<longleftrightarrow>
      (\<forall>i < length (vin tx). input_verifies F E tx d fl i (spent_outputs (cache_utxo utxo c) tx ! i)))"
proof -
  obtain d where init: "PrecomputedTransactionData_Init F tx (spent_outputs (cache_utxo utxo c) tx) False PrecomputedTransactionData_new = Some d"
    using Init_defined [of "spent_outputs (cache_utxo utxo c) tx" tx F False] by (auto simp: spent_outputs_def)
  let ?o = "spent_outputs (cache_utxo utxo c) tx"
  obtain c1 where c1: "collect_spent U V (vin tx) [] c = Valid (?o, c1)" using collect_spent_valid [OF inv av, of U "[]"] by (auto simp: spent_outputs_def)
  have l: "length ?o = length (vin tx)" by (simp add: spent_outputs_def)
  have "CheckInputScripts F E K U V tx fl PrecomputedTransactionData_new c = vbind (check_scripts F E K tx d fl 0 ?o) (\<lambda>_. Valid c1)"
    using cb miss c1 init Init_spent [OF init] l by (simp add: CheckInputScripts_def PrecomputedTransactionData_new_def)
  then show ?thesis using check_scripts_valid [OF sound, of tx d fl 0 ?o] l init by auto
qed

lemma check_input_scripts_view:
  assumes inv: "cache_inv utxo invar c" and av: "\<forall>txin \<in> set (vin tx). cache_utxo utxo c (prevout txin) \<noteq> None"
    and ok: "CheckInputScripts F E K U V tx fl d c = Valid c'"
  shows "same_view c c'"
proof -
  obtain o1 c1 where c1: "collect_spent U V (vin tx) [] c = Valid (o1, c1)" "same_view c c1" using collect_spent_valid [OF inv av, of U "[]"] by auto
  moreover have "c' = c \<or> c' = c1" using ok c1(1) by (auto simp: CheckInputScripts_def split: if_splits option.splits)
  ultimately show ?thesis using inv by (auto simp: same_view_def)
qed

end


definition empty_caches :: ValidationCache where
  "empty_caches = \<lparr>sig_nonce = 5, sig_held = (\<lambda>_. False), script_nonce = 6, script_held = (\<lambda>_. False)\<rparr>"

lemma anyone_can_spend:
  "VerifyScript \<lparr>hashes = F, secp = E, flags = 0, checker = ch, sigversion = BASE\<rparr> [] [0x51] [] = Ret ()"
  by code_simp


end
