(* ===== verification/BlockCheck.thy ===== *)
theory BlockCheck
  imports InputScripts
begin

text \<open>
  Model of the block checks of \<open>src/bitcoin/src/validation.cpp\<close> that need no coins: the header, the Merkle root, the body, the witness commitment and the
  rules that depend on the previous headers. A block carries three flags that remember checks it has passed; they are a record of
  their own, given to and returned by the checks that use them.
\<close>

record ConsensusParams =
  pow :: Params
  hashGenesisBlock :: uint256
  nSubsidyHalvingInterval :: int
  script_flag_exceptions :: "uint256 \<Rightarrow> u32 option"
  BIP34Height :: int
  BIP34Hash :: uint256
  BIP65Height :: int
  BIP66Height :: int
  CSVHeight :: int
  SegwitHeight :: int
  signet_blocks :: bool

datatype BuriedDeployment = DEPLOYMENT_HEIGHTINCB | DEPLOYMENT_CLTV | DEPLOYMENT_DERSIG | DEPLOYMENT_CSV | DEPLOYMENT_SEGWIT

definition DeploymentHeight :: "ConsensusParams \<Rightarrow> BuriedDeployment \<Rightarrow> int" where
  "DeploymentHeight P dep =
     (case dep of
        DEPLOYMENT_HEIGHTINCB \<Rightarrow> BIP34Height P
      | DEPLOYMENT_CLTV \<Rightarrow> BIP65Height P
      | DEPLOYMENT_DERSIG \<Rightarrow> BIP66Height P
      | DEPLOYMENT_CSV \<Rightarrow> CSVHeight P
      | DEPLOYMENT_SEGWIT \<Rightarrow> SegwitHeight P)"

definition DeploymentActiveAfter :: "CBlockIndex option \<Rightarrow> ConsensusParams \<Rightarrow> BuriedDeployment \<Rightarrow> bool" where
  "DeploymentActiveAfter pindexPrev P dep \<longleftrightarrow> (case pindexPrev of None \<Rightarrow> 0 | Some b \<Rightarrow> nHeight b + 1) \<ge> DeploymentHeight P dep"

definition DeploymentActiveAt :: "CBlockIndex \<Rightarrow> ConsensusParams \<Rightarrow> BuriedDeployment \<Rightarrow> bool" where
  "DeploymentActiveAt index P dep \<longleftrightarrow> nHeight index \<ge> DeploymentHeight P dep"

subsection \<open>Checks without context\<close>

record block_memo =
  fChecked :: bool
  m_checked_witness_commitment :: bool
  m_checked_merkle_root :: bool

definition CBlock_GetHash :: "hash_functions \<Rightarrow> CBlock \<Rightarrow> uint256" where
  "CBlock_GetHash F block = CBlockHeader_GetHash (HashWriter_GetHash F) (header block)"

definition CheckBlockHeader :: "hash_functions \<Rightarrow> ConsensusParams \<Rightarrow> CBlock \<Rightarrow> bool \<Rightarrow> unit verdict" where
  "CheckBlockHeader F P block fCheckPOW =
     (if fCheckPOW \<and> \<not> CheckProofOfWorkImpl (CBlock_GetHash F block) (nBits (header block)) (pow P) then Invalid ''high-hash'' else Valid ())"

definition CheckMerkleRoot :: "hash_functions \<Rightarrow> CBlock \<Rightarrow> block_memo \<Rightarrow> block_memo \<times> unit verdict" where
  "CheckMerkleRoot F block memo =
     (if m_checked_merkle_root memo then (memo, Valid ())
      else let (merkle_root, mutated) = BlockMerkleRoot F block in
           if hashMerkleRoot (header block) \<noteq> merkle_root then (memo, Invalid ''bad-txnmrklroot'')
           else if mutated then (memo, Invalid ''bad-txns-duplicate'')
           else (memo\<lparr>m_checked_merkle_root := True\<rparr>, Valid ()))"

definition MAX_BLOCK_SIGOPS_COST :: nat where
  "MAX_BLOCK_SIGOPS_COST = 80000"

fun check_transactions :: "CTransaction list \<Rightarrow> unit verdict" where
  "check_transactions [] = Valid ()"
| "check_transactions (tx # txs) = vbind (CheckTransaction tx) (\<lambda>_. check_transactions txs)"

definition check_body :: "CBlock \<Rightarrow> unit verdict" where
  "check_body block =
     (if vtx block = [] \<or> length (vtx block) * 4 > MAX_BLOCK_WEIGHT \<or> length (Ser_CBlock False block) * 4 > MAX_BLOCK_WEIGHT then Invalid ''bad-blk-length''
      else if vtx block = [] \<or> \<not> IsCoinBase (vtx block ! 0) then Invalid ''bad-cb-missing''
      else if \<exists>tx \<in> set (tl (vtx block)). IsCoinBase tx then Invalid ''bad-cb-multiple''
      else vbind (check_transactions (vtx block)) (\<lambda>_.
             let nSigOps = sum_list (map GetLegacySigOpCount (vtx block)) mod 2 ^ 32
             in if nSigOps * 4 mod 2 ^ 32 > MAX_BLOCK_SIGOPS_COST then Invalid ''bad-blk-sigops'' else Valid ()))"

text \<open>\<open>signet\<close> is \<open>CheckSignetBlockSolution\<close>, the signature check of the signet test network.\<close>

definition CheckBlock ::
  "hash_functions \<Rightarrow> ConsensusParams \<Rightarrow> (CBlock \<Rightarrow> bool) \<Rightarrow> CBlock \<Rightarrow> bool \<Rightarrow> bool \<Rightarrow> block_memo \<Rightarrow> block_memo \<times> unit verdict" where
  "CheckBlock F P signet block fCheckPOW fCheckMerkleRoot memo =
     (if fChecked memo then (memo, Valid ())
      else case CheckBlockHeader F P block fCheckPOW of
             Valid _ \<Rightarrow>
               if signet_blocks P \<and> fCheckPOW \<and> \<not> signet block then (memo, Invalid ''bad-signet-blksig'')
               else (case (if fCheckMerkleRoot then CheckMerkleRoot F block memo else (memo, Valid ())) of
                       (memo, Valid _) \<Rightarrow>
                         (case check_body block of
                            Valid _ \<Rightarrow> (if fCheckPOW \<and> fCheckMerkleRoot then memo\<lparr>fChecked := True\<rparr> else memo, Valid ())
                          | r \<Rightarrow> (memo, r))
                     | (memo, r) \<Rightarrow> (memo, r))
           | r \<Rightarrow> (memo, r))"

subsection \<open>The witness commitment\<close>

definition is_commitment :: "script \<Rightarrow> bool" where
  "is_commitment spk \<longleftrightarrow> length spk \<ge> 38 \<and> take 6 spk = [0x6a, 0x24, 0xaa, 0x21, 0xa9, 0xed]"

fun commitment_loop :: "int \<Rightarrow> CTxOut list \<Rightarrow> int \<Rightarrow> int" where
  "commitment_loop o' [] commitpos = commitpos"
| "commitment_loop o' (out # outs) commitpos = commitment_loop (o' + 1) outs (if is_commitment (scriptPubKey out) then o' else commitpos)"

definition GetWitnessCommitmentIndex :: "CBlock \<Rightarrow> int" where
  "GetWitnessCommitmentIndex block = (if vtx block \<noteq> [] then commitment_loop 0 (vout (vtx block ! 0)) (- 1) else - 1)"

definition CheckWitnessMalleation :: "hash_functions \<Rightarrow> CBlock \<Rightarrow> bool \<Rightarrow> block_memo \<Rightarrow> block_memo \<times> unit verdict" where
  "CheckWitnessMalleation F block expect_witness_commitment memo =
     (let unexpected = (if \<exists>tx \<in> set (vtx block). HasWitness tx then Invalid ''unexpected-witness'' else Valid ());
          commitpos = GetWitnessCommitmentIndex block in
      if expect_witness_commitment then
        if m_checked_witness_commitment memo then (memo, Valid ())
        else if commitpos \<noteq> - 1 then
          if vtx block = [] \<or> vin (vtx block ! 0) = [] then (memo, Fatal)
          else let witness_stack = scriptWitness (vin (vtx block ! 0) ! 0) in
               if length witness_stack \<noteq> 1 \<or> length (witness_stack ! 0) \<noteq> 32 then (memo, Invalid ''bad-witness-nonce-size'')
               else (case BlockWitnessMerkleRoot F block of
                       None \<Rightarrow> (memo, Fatal)
                     | Some (hash_witness, _) \<Rightarrow>
                         if CHash256 F (ser_uint256 hash_witness @ witness_stack ! 0) \<noteq>
                            take 32 (drop 6 (scriptPubKey (vout (vtx block ! 0) ! nat commitpos)))
                         then (memo, Invalid ''bad-witness-merkle-match'')
                         else (memo\<lparr>m_checked_witness_commitment := True\<rparr>, Valid ()))
        else (memo, unexpected)
      else (memo, unexpected))"

definition GetBlockWeight :: "CBlock \<Rightarrow> nat" where
  "GetBlockWeight block = length (Ser_CBlock False block) * 3 + length (Ser_CBlock True block)"

subsection \<open>Checks that depend on the previous headers\<close>

definition GetLastCheckpoint :: "block_map \<Rightarrow> uint256 list \<Rightarrow> CBlockIndex option" where
  "GetLastCheckpoint m checkpoints = (case filter (\<lambda>hash. m hash \<noteq> None) (rev checkpoints) of [] \<Rightarrow> None | hash # _ \<Rightarrow> m hash)"

definition hex_digit :: "nat \<Rightarrow> char" where
  "hex_digit n = ''0123456789abcdef'' ! (n mod 16)"

text \<open>\<open>now\<close> is the time in seconds, \<open>checkpoints\<close> the hashes of the checkpoints by height; \<open>None\<close> when they are disabled.\<close>

definition ContextualCheckBlockHeader ::
  "ConsensusParams \<Rightarrow> block_map \<Rightarrow> uint256 list option \<Rightarrow> int \<Rightarrow> CBlockHeader \<Rightarrow> uint256 \<Rightarrow> unit verdict" where
  "ContextualCheckBlockHeader P m checkpoints now block pindexPrev =
     (case m pindexPrev of
        None \<Rightarrow> Fatal
      | Some prev \<Rightarrow>
          let height = nHeight prev + 1 in
          case GetNextWorkRequired m pindexPrev block (pow P) of
            None \<Rightarrow> Fatal
          | Some required \<Rightarrow>
              if nBits block \<noteq> required then Invalid ''bad-diffbits''
              else if (case checkpoints of
                         None \<Rightarrow> False
                       | Some cs \<Rightarrow> (case GetLastCheckpoint m cs of None \<Rightarrow> False | Some pcheckpoint \<Rightarrow> height < nHeight pcheckpoint))
              then Invalid ''bad-fork-prior-to-checkpoint''
              else if CBlockHeader_GetBlockTime block \<le> GetMedianTimePast m pindexPrev then Invalid ''time-too-old''
              else if enforce_BIP94 (pow P) \<and> height smod DifficultyAdjustmentInterval (pow P) = 0 \<and>
                      CBlockHeader_GetBlockTime block < GetBlockTime prev - 600
              then Invalid ''time-timewarp-attack''
              else if CBlockHeader_GetBlockTime block > now + 7200 then Invalid ''time-too-new''
              else if (sint (nVersion block) < 2 \<and> DeploymentActiveAfter (Some prev) P DEPLOYMENT_HEIGHTINCB) \<or>
                      (sint (nVersion block) < 3 \<and> DeploymentActiveAfter (Some prev) P DEPLOYMENT_DERSIG) \<or>
                      (sint (nVersion block) < 4 \<and> DeploymentActiveAfter (Some prev) P DEPLOYMENT_CLTV)
              then Invalid (''bad-version(0x'' @ map (\<lambda>i. hex_digit (unat (nVersion block) div 16 ^ (7 - i))) [0..<8] @ '')'')
              else Valid ())"

definition ContextualCheckBlock ::
  "hash_functions \<Rightarrow> ConsensusParams \<Rightarrow> block_map \<Rightarrow> CBlock \<Rightarrow> uint256 option \<Rightarrow> block_memo \<Rightarrow> block_memo \<times> unit verdict" where
  "ContextualCheckBlock F P m block pindexPrev memo =
     (let prev = (case pindexPrev of None \<Rightarrow> None | Some p \<Rightarrow> m p);
          height = (case prev of None \<Rightarrow> 0 | Some b \<Rightarrow> nHeight b + 1);
          enforce_mtp = DeploymentActiveAfter prev P DEPLOYMENT_CSV in
      if enforce_mtp \<and> pindexPrev = None then (memo, Fatal)
      else let nLockTimeCutoff = (if enforce_mtp then GetMedianTimePast m (the pindexPrev) else CBlockHeader_GetBlockTime (header block));
               expect = push_int64 [] height in
           if \<exists>tx \<in> set (vtx block). \<not> IsFinalTx tx height nLockTimeCutoff then (memo, Invalid ''bad-txns-nonfinal'')
           else if DeploymentActiveAfter prev P DEPLOYMENT_HEIGHTINCB \<and>
                   (length (scriptSig (vin (vtx block ! 0) ! 0)) < length expect \<or>
                    expect \<noteq> take (length expect) (scriptSig (vin (vtx block ! 0) ! 0)))
           then (memo, Invalid ''bad-cb-height'')
           else (case CheckWitnessMalleation F block (DeploymentActiveAfter prev P DEPLOYMENT_SEGWIT) memo of
                   (memo, Valid _) \<Rightarrow> (memo, if GetBlockWeight block > MAX_BLOCK_WEIGHT then Invalid ''bad-blk-weight'' else Valid ())
                 | (memo, r) \<Rightarrow> (memo, r)))"


section \<open>What the checks mean\<close>

definition no_memo :: block_memo where
  "no_memo = \<lparr>fChecked = False, m_checked_witness_commitment = False, m_checked_merkle_root = False\<rparr>"

text \<open>The flags remember checks that succeed.\<close>

definition memo_sound :: "hash_functions \<Rightarrow> ConsensusParams \<Rightarrow> (CBlock \<Rightarrow> bool) \<Rightarrow> CBlock \<Rightarrow> block_memo \<Rightarrow> bool" where
  "memo_sound F P signet block memo \<longleftrightarrow>
     (fChecked memo \<longrightarrow> snd (CheckBlock F P signet block True True no_memo) = Valid ()) \<and>
     (m_checked_merkle_root memo \<longrightarrow> snd (CheckMerkleRoot F block no_memo) = Valid ()) \<and>
     (m_checked_witness_commitment memo \<longrightarrow> snd (CheckWitnessMalleation F block True no_memo) = Valid ())"

lemma memo_sound_no_memo: "memo_sound F P signet block no_memo"
  by (simp add: memo_sound_def no_memo_def)

lemma CheckMerkleRoot_no_memo:
  "snd (CheckMerkleRoot F block no_memo) =
     (let (merkle_root, mutated) = BlockMerkleRoot F block in
      if hashMerkleRoot (header block) \<noteq> merkle_root then Invalid ''bad-txnmrklroot'' else if mutated then Invalid ''bad-txns-duplicate'' else Valid ())"
  by (simp add: CheckMerkleRoot_def no_memo_def split: prod.split)

lemma CheckMerkleRoot_memo:
  assumes "memo_sound F P signet block memo"
  shows "snd (CheckMerkleRoot F block memo) = snd (CheckMerkleRoot F block no_memo) \<and> memo_sound F P signet block (fst (CheckMerkleRoot F block memo)) \<and>
    fChecked (fst (CheckMerkleRoot F block memo)) = fChecked memo"
  using assms by (auto simp: CheckMerkleRoot_def no_memo_def memo_sound_def split: prod.splits if_splits)

lemma CheckBlock_no_memo:
  "snd (CheckBlock F P signet block fCheckPOW fCheckMerkleRoot no_memo) =
     vbind (CheckBlockHeader F P block fCheckPOW) (\<lambda>_.
       if signet_blocks P \<and> fCheckPOW \<and> \<not> signet block then Invalid ''bad-signet-blksig''
       else vbind (if fCheckMerkleRoot then snd (CheckMerkleRoot F block no_memo) else Valid ()) (\<lambda>_. check_body block))"
  by (auto simp: CheckBlock_def no_memo_def vbind_def split: verdict.split prod.split)

lemma CheckBlock_weaker:
  assumes "snd (CheckBlock F P signet block True True no_memo) = Valid ()"
  shows "snd (CheckBlock F P signet block fCheckPOW fCheckMerkleRoot no_memo) = Valid ()"
  using assms unfolding CheckBlock_no_memo
  by (cases fCheckPOW; cases fCheckMerkleRoot; cases "CheckBlockHeader F P block True"; cases "snd (CheckMerkleRoot F block no_memo)")
    (auto simp: CheckBlockHeader_def split: if_splits)

lemma CheckBlock_memo:
  assumes "memo_sound F P signet block memo"
  shows "snd (CheckBlock F P signet block fCheckPOW fCheckMerkleRoot memo) = snd (CheckBlock F P signet block fCheckPOW fCheckMerkleRoot no_memo) \<and>
    memo_sound F P signet block (fst (CheckBlock F P signet block fCheckPOW fCheckMerkleRoot memo))"
proof (cases "fChecked memo")
  case True
  then show ?thesis using assms CheckBlock_weaker [of F P signet block] by (simp add: CheckBlock_def memo_sound_def)
next
  case False
  define q where "q = (if fCheckMerkleRoot then CheckMerkleRoot F block memo else (memo, Valid ()))"
  have q: "snd q = (if fCheckMerkleRoot then snd (CheckMerkleRoot F block no_memo) else Valid ())" "memo_sound F P signet block (fst q)"
    using CheckMerkleRoot_memo [OF assms] assms by (auto simp: q_def)
  have eq: "CheckBlock F P signet block fCheckPOW fCheckMerkleRoot memo =
     (case CheckBlockHeader F P block fCheckPOW of
        Valid _ \<Rightarrow>
          if signet_blocks P \<and> fCheckPOW \<and> \<not> signet block then (memo, Invalid ''bad-signet-blksig'')
          else (case q of
                  (memo, Valid _) \<Rightarrow>
                    (case check_body block of
                       Valid _ \<Rightarrow> (if fCheckPOW \<and> fCheckMerkleRoot then memo\<lparr>fChecked := True\<rparr> else memo, Valid ())
                     | r \<Rightarrow> (memo, r))
                | (memo, r) \<Rightarrow> (memo, r))
      | r \<Rightarrow> (memo, r))"
    by (simp only: CheckBlock_def q_def False if_False)
  obtain memo1 r where qr: "q = (memo1, r)" by fastforce
  note no = CheckBlock_no_memo [of F P signet block fCheckPOW fCheckMerkleRoot, folded q(1)]
  show ?thesis
  proof (cases "CheckBlockHeader F P block fCheckPOW = Valid () \<and> \<not> (signet_blocks P \<and> fCheckPOW \<and> \<not> signet block) \<and> r = Valid ()")
    case ok: True
    have v: "snd (CheckBlock F P signet block fCheckPOW fCheckMerkleRoot no_memo) = check_body block" using ok unfolding no qr by auto
    show ?thesis
    proof (cases "check_body block")
      case (Valid u)
      have "memo_sound F P signet block (memo1\<lparr>fChecked := True\<rparr>)" if "fCheckPOW \<and> fCheckMerkleRoot"
        using that q(2) v Valid by (simp add: qr memo_sound_def)
      then show ?thesis using ok q(2) v unfolding eq qr by (simp add: Valid)
    qed (use ok q(2) v in \<open>auto simp: eq qr\<close>)
  next
    case False
    then show ?thesis
      using q(2) assms unfolding no eq qr
      by (cases "CheckBlockHeader F P block fCheckPOW"; cases "signet_blocks P \<and> fCheckPOW \<and> \<not> signet block"; cases r) auto
  qed
qed

lemma check_transactions_valid: "check_transactions txs = Valid () \<longleftrightarrow> (\<forall>tx \<in> set txs. CheckTransaction tx = Valid ())"
  by (induction txs) auto

lemma check_body_valid:
  assumes "check_body block = Valid ()"
  shows "vtx block \<noteq> [] \<and> IsCoinBase (hd (vtx block)) \<and> (\<forall>tx \<in> set (tl (vtx block)). \<not> IsCoinBase tx) \<and> (\<forall>tx \<in> set (vtx block). CheckTransaction tx = Valid ())"
  using assms by (cases "vtx block") (auto simp: check_body_def Let_def check_transactions_valid split: if_splits)

lemma CheckBlock_valid:
  assumes "memo_sound F P signet block memo" "snd (CheckBlock F P signet block fCheckPOW fCheckMerkleRoot memo) = Valid ()"
  shows "check_body block = Valid ()"
  using CheckBlock_memo [OF assms(1)] assms(2) unfolding CheckBlock_no_memo by (auto split: if_splits)

lemma CheckWitnessMalleation_memo:
  assumes "memo_sound F P signet block memo"
  shows "snd (CheckWitnessMalleation F block expect memo) = snd (CheckWitnessMalleation F block expect no_memo) \<and>
    memo_sound F P signet block (fst (CheckWitnessMalleation F block expect memo))"
proof (cases "expect \<and> m_checked_witness_commitment memo")
  case True
  then show ?thesis using assms by (simp add: CheckWitnessMalleation_def memo_sound_def)
next
  case False
  then show ?thesis
    using assms by (auto simp: CheckWitnessMalleation_def no_memo_def memo_sound_def Let_def split: option.splits prod.splits if_splits)
qed


lemma ContextualCheckBlock_memo:
  assumes "memo_sound F P signet block memo"
  shows "snd (ContextualCheckBlock F P m block pindexPrev memo) = snd (ContextualCheckBlock F P m block pindexPrev no_memo) \<and>
    memo_sound F P signet block (fst (ContextualCheckBlock F P m block pindexPrev memo))"
proof -
  define expect where "expect = DeploymentActiveAfter (case pindexPrev of None \<Rightarrow> None | Some p \<Rightarrow> m p) P DEPLOYMENT_SEGWIT"
  obtain memo1 r1 memo2 where w: "CheckWitnessMalleation F block expect memo = (memo1, r1)" "CheckWitnessMalleation F block expect no_memo = (memo2, r1)"
    "memo_sound F P signet block memo1"
    using CheckWitnessMalleation_memo [OF assms, of expect] by (metis prod.collapse)
  then show ?thesis using assms unfolding ContextualCheckBlock_def expect_def [symmetric] Let_def by (auto split: verdict.split)
qed

text \<open>
  C22: The flags by which a block remembers the checks it has passed are transparent: with flags that hold only after the check
  succeeds, the block checks with and without context give the verdict they give without the flags, and leave such flags.
\<close>

theorem block_memo_transparent:
  assumes "memo_sound F P signet block memo"
  shows "snd (CheckBlock F P signet block fCheckPOW fCheckMerkleRoot memo) = snd (CheckBlock F P signet block fCheckPOW fCheckMerkleRoot no_memo) \<and>
    memo_sound F P signet block (fst (CheckBlock F P signet block fCheckPOW fCheckMerkleRoot memo)) \<and>
    snd (ContextualCheckBlock F P m block pindexPrev memo) = snd (ContextualCheckBlock F P m block pindexPrev no_memo) \<and>
    memo_sound F P signet block (fst (ContextualCheckBlock F P m block pindexPrev memo))"
  using CheckBlock_memo [OF assms] ContextualCheckBlock_memo [OF assms] by blast

definition example_consensus :: ConsensusParams where
  "example_consensus =
     \<lparr>pow = \<lparr>powLimit = 0, fPowAllowMinDifficultyBlocks = False, enforce_BIP94 = False, fPowNoRetargeting = False, nPowTargetSpacing = 600,
             nPowTargetTimespan = 1209600\<rparr>,
      hashGenesisBlock = 77, nSubsidyHalvingInterval = 210000, script_flag_exceptions = (\<lambda>_. None), BIP34Height = 1000, BIP34Hash = 0, BIP65Height = 1000,
      BIP66Height = 1000, CSVHeight = 1000, SegwitHeight = 1000, signet_blocks = False\<rparr>"

definition single_block :: "CTransaction \<Rightarrow> CBlock" where
  "single_block tx = \<lparr>header = CBlockHeader_SetNull\<lparr>hashMerkleRoot := ComputeHash example_hashes tx\<rparr>, vtx = [tx]\<rparr>"

lemma single_block_root: "snd (CheckMerkleRoot example_hashes (single_block tx) no_memo) = Valid ()"
  unfolding CheckMerkleRoot_no_memo
  by (simp add: single_block_def CBlockHeader_SetNull_def BlockMerkleRoot_def ComputeMerkleRoot_def ComputeMerkleRoot_loop.simps)

theorem block_memo_transparent_witness:
  "let block = single_block spending_tx in
   snd (CheckBlock example_hashes example_consensus (\<lambda>_. True) block False True (no_memo\<lparr>m_checked_merkle_root := True\<rparr>)) =
     snd (CheckBlock example_hashes example_consensus (\<lambda>_. True) block False True no_memo)"
proof -
  have "memo_sound example_hashes example_consensus (\<lambda>_. True) (single_block spending_tx) (no_memo\<lparr>m_checked_merkle_root := True\<rparr>)"
    using single_block_root by (simp add: memo_sound_def no_memo_def)
  then show ?thesis using block_memo_transparent by (simp add: Let_def)
qed

end
