(* ===== verification/Connect.thy ===== *)
theory Connect
  imports BlockCheck
begin

text \<open>
  Model of the part of \<open>src/bitcoin/src/validation.cpp\<close> that changes the coins: the block subsidy, \<open>UpdateCoins\<close>, \<open>ConnectBlock\<close>, \<open>ApplyTxInUndo\<close> and
  \<open>DisconnectBlock\<close>. An index entry is named by its hash in the block index. Undo data is a list of coins for every transaction
  but the coinbase. Where the code returns false after it has changed the view, its callers drop the view, and so the model returns none.
\<close>

definition GetBlockSubsidy :: "int \<Rightarrow> ConsensusParams \<Rightarrow> int" where
  "GetBlockSubsidy height P =
     (let halvings = height sdiv nSubsidyHalvingInterval P
      in if halvings \<ge> 64 then 0 else drop_bit (nat halvings) (50 * COIN))"

subsection \<open>Applying a transaction\<close>

fun spend_inputs :: "(Coin \<Rightarrow> u64) \<Rightarrow> 'v view_ops \<Rightarrow> CTxIn list \<Rightarrow> Coin list \<Rightarrow> 'v CCoinsViewCache \<Rightarrow> (Coin list \<times> 'v CCoinsViewCache) verdict" where
  "spend_inputs U V [] vprevout c = Valid (vprevout, c)"
| "spend_inputs U V (txin # ins) vprevout c =
     (let (is_spent, x, c) = SpendCoin U V (prevout txin) c in if \<not> is_spent then Fatal else spend_inputs U V ins (vprevout @ [x]) c)"

definition UpdateCoins ::
  "hash_functions \<Rightarrow> (Coin \<Rightarrow> u64) \<Rightarrow> 'v view_ops \<Rightarrow> CTransaction \<Rightarrow> int \<Rightarrow> 'v CCoinsViewCache \<Rightarrow> (Coin list \<times> 'v CCoinsViewCache) verdict" where
  "UpdateCoins F U V tx height c =
     vbind (if \<not> IsCoinBase tx then spend_inputs U V (vin tx) [] c else Valid ([], c)) (\<lambda>(txundo, c).
       case AddCoins F U V tx height False c of Inl _ \<Rightarrow> Fatal | Inr c \<Rightarrow> Valid (txundo, c))"

subsection \<open>Connecting a block\<close>

text \<open>
  What \<open>ConnectBlock\<close> reads besides the block and the view. \<open>ce_signet\<close> is the signet check and \<open>ce_write_undo\<close> the write of the undo data to
  disk with its effect on the block manager, \<open>None\<close> when it fails.
\<close>

record connect_env =
  ce_hashes :: hash_functions
  ce_secp :: secp256k1
  ce_cache :: ValidationCache
  ce_params :: ConsensusParams
  ce_usage :: "Coin \<Rightarrow> u64"
  AssumedValidBlock :: uint256
  m_best_header :: uint256
  MinimumChainWork :: base_uint
  ce_signet :: "CBlock \<Rightarrow> bool"
  ce_write_undo :: "Coin list list \<Rightarrow> uint256 \<Rightarrow> BlockManager \<Rightarrow> BlockManager option"

text \<open>\<open>None\<close> is the division by a zero block proof.\<close>

definition GetBlockProofEquivalentTime :: "CBlockIndex \<Rightarrow> CBlockIndex \<Rightarrow> CBlockIndex \<Rightarrow> Params \<Rightarrow> int option" where
  "GetBlockProofEquivalentTime to from tip params =
     (let (r, sign) = (if base_uint_CompareTo (nChainWork to) (nChainWork from) > 0
                       then (base_uint_sub (nChainWork to) (nChainWork from), 1)
                       else (base_uint_sub (nChainWork from) (nChainWork to), - 1))
      in Option.bind (GetBlockProof (bi_nBits tip)) (\<lambda>proof.
         Option.bind (base_uint_div (base_uint_mul r (base_uint_of_u64 8 (word_of_int (nPowTargetSpacing params)))) proof) (\<lambda>r.
           Some (if base_uint_bits r > 63 then sign * (2 ^ 63 - 1) else sign * uint (base_uint_GetLow64 r)))))"

text \<open>Whether the scripts are checked: not below the assumed valid block when it is buried by two weeks of work.\<close>

definition script_checks :: "connect_env \<Rightarrow> block_map \<Rightarrow> uint256 \<Rightarrow> CBlockIndex \<Rightarrow> bool option" where
  "script_checks X m pindex b =
     (if AssumedValidBlock X = 0 \<or> m (AssumedValidBlock X) = None then Some True
      else case m (m_best_header X) of
             None \<Rightarrow> None
           | Some best \<Rightarrow>
               if GetAncestor m (AssumedValidBlock X) (nHeight b) = Some (Some pindex) \<and>
                  GetAncestor m (m_best_header X) (nHeight b) = Some (Some pindex) \<and>
                  base_uint_CompareTo (nChainWork best) (MinimumChainWork X) \<ge> 0
               then map_option (\<lambda>t. t \<le> 60 * 60 * 24 * 7 * 2) (GetBlockProofEquivalentTime best b best (pow (ce_params X)))
               else Some True)"

definition IsBIP30Repeat :: "uint256 \<Rightarrow> CBlockIndex \<Rightarrow> bool" where
  "IsBIP30Repeat hash b \<longleftrightarrow>
     (nHeight b = 91842 \<and> hash = 0x00000000000a4d0a398161ffc163c503763b1f4360639393e0e4c8e300e0caec) \<or>
     (nHeight b = 91880 \<and> hash = 0x00000000000743f190a18c5577a3c2d2a1f610ae9601ac046a38084ccb7cd721)"

definition enforce_BIP30 :: "ConsensusParams \<Rightarrow> block_map \<Rightarrow> uint256 \<Rightarrow> CBlockIndex \<Rightarrow> uint256 \<Rightarrow> bool" where
  "enforce_BIP30 P m hash b prev \<longleftrightarrow>
     (\<not> IsBIP30Repeat hash b \<and> GetAncestor m prev (BIP34Height P) \<noteq> Some (Some (BIP34Hash P))) \<or> nHeight b \<ge> 1983702"

definition block_outpoints :: "hash_functions \<Rightarrow> CTransaction list \<Rightarrow> COutPoint list" where
  "block_outpoints F txs = concat (map (\<lambda>tx. map (\<lambda>o'. \<lparr>COutPoint.op_hash = ComputeHash F tx, op_n = word_of_nat o'\<rparr>) [0..<length (vout tx)]) txs)"

fun find_overwrite :: "(Coin \<Rightarrow> u64) \<Rightarrow> 'v view_ops \<Rightarrow> COutPoint list \<Rightarrow> bool \<Rightarrow> 'v CCoinsViewCache \<Rightarrow> bool \<times> 'v CCoinsViewCache" where
  "find_overwrite U V [] bad c = (bad, c)"
| "find_overwrite U V (p # ps) bad c = (let (have_coin, c) = HaveCoin U V p c in find_overwrite U V ps (bad \<or> have_coin) c)"

definition GetBlockScriptFlags :: "ConsensusParams \<Rightarrow> uint256 \<Rightarrow> CBlockIndex \<Rightarrow> u32" where
  "GetBlockScriptFlags P hash b =
     (case script_flag_exceptions P hash of None \<Rightarrow> SCRIPT_VERIFY_P2SH OR SCRIPT_VERIFY_WITNESS OR SCRIPT_VERIFY_TAPROOT | Some fl \<Rightarrow> fl)
     OR (if DeploymentActiveAt b P DEPLOYMENT_DERSIG then SCRIPT_VERIFY_DERSIG else 0)
     OR (if DeploymentActiveAt b P DEPLOYMENT_CLTV then SCRIPT_VERIFY_CHECKLOCKTIMEVERIFY else 0)
     OR (if DeploymentActiveAt b P DEPLOYMENT_CSV then SCRIPT_VERIFY_CHECKSEQUENCEVERIFY else 0)
     OR (if DeploymentActiveAt b P DEPLOYMENT_SEGWIT then SCRIPT_VERIFY_NULLDUMMY else 0)"

fun coin_heights :: "(Coin \<Rightarrow> u64) \<Rightarrow> 'v view_ops \<Rightarrow> CTxIn list \<Rightarrow> int list \<Rightarrow> 'v CCoinsViewCache \<Rightarrow> int list \<times> 'v CCoinsViewCache" where
  "coin_heights U V [] prevheights c = (prevheights, c)"
| "coin_heights U V (txin # ins) prevheights c =
     (let (x, c) = AccessCoin U V (prevout txin) c in coin_heights U V ins (prevheights @ [uint (coin_nHeight x)]) c)"

text \<open>The checks of one transaction that needs coins: its fee is added and its relative lock times hold.\<close>

definition check_spend ::
  "connect_env \<Rightarrow> 'v view_ops \<Rightarrow> block_map \<Rightarrow> uint256 \<Rightarrow> CBlockIndex \<Rightarrow> CTransaction \<Rightarrow> int \<Rightarrow> 'v CCoinsViewCache \<Rightarrow> (int \<times> 'v CCoinsViewCache) verdict" where
  "check_spend X V m pindex b tx nFees c =
     vbind (CheckTxInputs (ce_usage X) V tx (nHeight b) c) (\<lambda>(txfee, c).
       if \<not> MoneyRange (nFees + txfee) then Invalid ''bad-txns-accumulated-fee-outofrange''
       else let (prevheights, c) = coin_heights (ce_usage X) V (vin tx) [] c;
                nLockTimeFlags = (if DeploymentActiveAt b (ce_params X) DEPLOYMENT_CSV then LOCKTIME_VERIFY_SEQUENCE else 0)
            in case SequenceLocks m tx nLockTimeFlags prevheights pindex of
                 None \<Rightarrow> Fatal
               | Some ok \<Rightarrow> if \<not> ok then Invalid ''bad-txns-nonfinal'' else Valid (nFees + txfee, c))"

type_synonym 'v connect_state = "int \<times> nat \<times> Coin list list \<times> 'v CCoinsViewCache"

definition connect_tx ::
  "connect_env \<Rightarrow> 'v view_ops \<Rightarrow> block_map \<Rightarrow> uint256 \<Rightarrow> CBlockIndex \<Rightarrow> bool \<Rightarrow> nat \<Rightarrow> CTransaction \<Rightarrow> 'v connect_state \<Rightarrow> 'v connect_state verdict" where
  "connect_tx X V m pindex b fScriptChecks i tx st =
     (let (nFees, nSigOpsCost, vtxundo, c) = st; fl = GetBlockScriptFlags (ce_params X) pindex b in
      vbind (if \<not> IsCoinBase tx then check_spend X V m pindex b tx nFees c else Valid (nFees, c)) (\<lambda>(nFees, c).
      vbind (GetTransactionSigOpCost (ce_usage X) V tx fl c) (\<lambda>(cost, c).
        if nSigOpsCost + cost > MAX_BLOCK_SIGOPS_COST then Invalid ''bad-blk-sigops''
        else vbind (if \<not> IsCoinBase tx \<and> fScriptChecks
                    then CheckInputScripts (ce_hashes X) (ce_secp X) (ce_cache X) (ce_usage X) V tx fl PrecomputedTransactionData_new c
                    else Valid c) (\<lambda>c.
             vbind (UpdateCoins (ce_hashes X) (ce_usage X) V tx (nHeight b) c) (\<lambda>(txundo, c).
               Valid (nFees, nSigOpsCost + cost, if i > 0 then vtxundo @ [txundo] else vtxundo, c))))))"

fun connect_txs ::
  "connect_env \<Rightarrow> 'v view_ops \<Rightarrow> block_map \<Rightarrow> uint256 \<Rightarrow> CBlockIndex \<Rightarrow> bool \<Rightarrow> nat \<Rightarrow> CTransaction list \<Rightarrow> 'v connect_state \<Rightarrow> 'v connect_state verdict" where
  "connect_txs X V m pindex b fScriptChecks i [] st = Valid st"
| "connect_txs X V m pindex b fScriptChecks i (tx # txs) st =
     vbind (connect_tx X V m pindex b fScriptChecks i tx st) (connect_txs X V m pindex b fScriptChecks (i + 1) txs)"

definition BLOCK_VALID_SCRIPTS :: u32 where
  "BLOCK_VALID_SCRIPTS = 5"

text \<open>The writes that follow a valid block: undo data, validity level and best block.\<close>

definition finish_connect ::
  "connect_env \<Rightarrow> uint256 \<Rightarrow> Coin list list \<Rightarrow> BlockManager \<Rightarrow> 'v CCoinsViewCache \<Rightarrow> (BlockManager \<times> Coin list list \<times> 'v CCoinsViewCache) verdict" where
  "finish_connect X pindex vtxundo bm c =
     (case ce_write_undo X vtxundo pindex bm of
        None \<Rightarrow> Fatal
      | Some bm \<Rightarrow>
          (case m_block_index bm pindex of
             None \<Rightarrow> Fatal
           | Some b \<Rightarrow>
               (case (IsValid b BLOCK_VALID_SCRIPTS, RaiseValidity b BLOCK_VALID_SCRIPTS) of
                  (Some True, _) \<Rightarrow> Valid (bm, vtxundo, SetBestBlock pindex c)
                | (Some False, Some (b, _)) \<Rightarrow>
                    Valid (bm\<lparr>m_block_index := (m_block_index bm)(pindex \<mapsto> b), m_dirty_blockindex := insert pindex (m_dirty_blockindex bm)\<rparr>,
                           vtxundo, SetBestBlock pindex c)
                | _ \<Rightarrow> Fatal)))"

text \<open>Everything after the check of the block and of the view's best block.\<close>

definition connect_body ::
  "connect_env \<Rightarrow> 'v view_ops \<Rightarrow> bool \<Rightarrow> CBlock \<Rightarrow> uint256 \<Rightarrow> CBlockIndex \<Rightarrow> uint256 \<Rightarrow> BlockManager \<Rightarrow> 'v CCoinsViewCache
     \<Rightarrow> (BlockManager \<times> Coin list list \<times> 'v CCoinsViewCache) verdict" where
  "connect_body X V fJustCheck block pindex b prev bm c =
     (let m = m_block_index bm; P = ce_params X;
          (overwrites, c) = (if enforce_BIP30 P m pindex b prev
                             then find_overwrite (ce_usage X) V (block_outpoints (ce_hashes X) (vtx block)) False c else (False, c))
      in case (script_checks X m pindex b, GetValueOut (vtx block ! 0)) of
           (Some fScriptChecks, Some coinbase_value) \<Rightarrow>
             vbind (if overwrites then Invalid ''bad-txns-BIP30'' else connect_txs X V m pindex b fScriptChecks 0 (vtx block) (0, 0, [], c))
               (\<lambda>(nFees, nSigOpsCost, vtxundo, c).
                  if coinbase_value > nFees + GetBlockSubsidy (nHeight b) P then Invalid ''bad-cb-amount''
                  else if fJustCheck then Valid (bm, vtxundo, c)
                  else finish_connect X pindex vtxundo bm c)
         | _ \<Rightarrow> Fatal)"

definition ConnectBlock ::
  "connect_env \<Rightarrow> 'v view_ops \<Rightarrow> bool \<Rightarrow> CBlock \<Rightarrow> uint256 \<Rightarrow> BlockManager \<Rightarrow> 'v CCoinsViewCache \<Rightarrow> block_memo
     \<Rightarrow> block_memo \<times> (BlockManager \<times> Coin list list \<times> 'v CCoinsViewCache) verdict" where
  "ConnectBlock X V fJustCheck block pindex bm c memo =
     (case m_block_index bm pindex of
        None \<Rightarrow> (memo, Fatal)
      | Some b \<Rightarrow>
          if pindex \<noteq> CBlock_GetHash (ce_hashes X) block then (memo, Fatal)
          else case CheckBlock (ce_hashes X) (ce_params X) (ce_signet X) block (\<not> fJustCheck) (\<not> fJustCheck) memo of
                 (memo, Invalid reason) \<Rightarrow>
                   (memo, if reason = ''bad-txnmrklroot'' \<or> reason = ''bad-txns-duplicate'' then Fatal else Invalid reason)
               | (memo, Fatal) \<Rightarrow> (memo, Fatal)
               | (memo, Valid _) \<Rightarrow>
                   (memo,
                    let (best, c) = cache_GetBestBlock V c in
                    if (case pprev b of None \<Rightarrow> 0 | Some prev \<Rightarrow> prev) \<noteq> best then Fatal
                    else if pindex = hashGenesisBlock (ce_params X) then Valid (bm, [], if fJustCheck then c else SetBestBlock pindex c)
                    else case pprev b of
                           None \<Rightarrow> Fatal
                         | Some prev \<Rightarrow> connect_body X V fJustCheck block pindex b prev bm c))"

subsection \<open>Disconnecting a block\<close>

datatype DisconnectResult = DISCONNECT_OK | DISCONNECT_UNCLEAN | DISCONNECT_FAILED

definition ApplyTxInUndo :: "(Coin \<Rightarrow> u64) \<Rightarrow> 'v view_ops \<Rightarrow> Coin \<Rightarrow> COutPoint \<Rightarrow> 'v CCoinsViewCache \<Rightarrow> (DisconnectResult \<times> 'v CCoinsViewCache) verdict" where
  "ApplyTxInUndo U V undo out c =
     (let (have_coin, c) = HaveCoin U V out c; fClean = (\<not> have_coin);
          (undo, c) = (if coin_nHeight undo = 0
                       then let (alternate, c) = AccessByTxid U V (COutPoint.op_hash out) c
                            in (if \<not> Coin_IsSpent alternate
                                then Some (undo\<lparr>coin_nHeight := coin_nHeight alternate, coin_fCoinBase := coin_fCoinBase alternate\<rparr>) else None, c)
                       else (Some undo, c))
      in case undo of
           None \<Rightarrow> Valid (DISCONNECT_FAILED, c)
         | Some undo \<Rightarrow>
             (case AddCoin U out undo (\<not> fClean) c of
                Inl _ \<Rightarrow> Fatal
              | Inr c \<Rightarrow> Valid (if fClean then DISCONNECT_OK else DISCONNECT_UNCLEAN, c)))"

text \<open>The outputs of one transaction from index \<open>o'\<close> on.\<close>

fun disconnect_outputs ::
  "(Coin \<Rightarrow> u64) \<Rightarrow> 'v view_ops \<Rightarrow> uint256 \<Rightarrow> int \<Rightarrow> bool \<Rightarrow> bool \<Rightarrow> nat \<Rightarrow> CTxOut list \<Rightarrow> bool \<Rightarrow> 'v CCoinsViewCache \<Rightarrow> bool \<times> 'v CCoinsViewCache" where
  "disconnect_outputs U V hash height is_coinbase is_bip30_exception o' [] fClean c = (fClean, c)"
| "disconnect_outputs U V hash height is_coinbase is_bip30_exception o' (txout # outs) fClean c =
     (if \<not> IsUnspendable (scriptPubKey txout)
      then let (is_spent, x, c) = SpendCoin U V \<lparr>COutPoint.op_hash = hash, op_n = word_of_nat o'\<rparr> c;
               mismatch = (\<not> is_spent \<or> txout \<noteq> coin_out x \<or> height \<noteq> uint (coin_nHeight x) \<or> is_coinbase \<noteq> coin_fCoinBase x)
           in disconnect_outputs U V hash height is_coinbase is_bip30_exception (o' + 1) outs (fClean \<and> (mismatch \<longrightarrow> is_bip30_exception)) c
      else disconnect_outputs U V hash height is_coinbase is_bip30_exception (o' + 1) outs fClean c)"

text \<open>The coins of the inputs, last input first; \<open>None\<close> stands for the return of \<open>DISCONNECT_FAILED\<close>.\<close>

fun restore_inputs :: "(Coin \<Rightarrow> u64) \<Rightarrow> 'v view_ops \<Rightarrow> (Coin \<times> COutPoint) list \<Rightarrow> bool \<Rightarrow> 'v CCoinsViewCache \<Rightarrow> (bool option \<times> 'v CCoinsViewCache) verdict" where
  "restore_inputs U V [] fClean c = Valid (Some fClean, c)"
| "restore_inputs U V ((undo, out) # us) fClean c =
     vbind (ApplyTxInUndo U V undo out c) (\<lambda>(res, c).
       if res = DISCONNECT_FAILED then Valid (None, c) else restore_inputs U V us (fClean \<and> res \<noteq> DISCONNECT_UNCLEAN) c)"

text \<open>The transactions, last one first, each with its undo data; the first transaction of the block has none.\<close>

fun disconnect_txs ::
  "hash_functions \<Rightarrow> (Coin \<Rightarrow> u64) \<Rightarrow> 'v view_ops \<Rightarrow> int \<Rightarrow> bool \<Rightarrow> (CTransaction \<times> Coin list option) list \<Rightarrow> bool \<Rightarrow> 'v CCoinsViewCache
     \<Rightarrow> (bool option \<times> 'v CCoinsViewCache) verdict" where
  "disconnect_txs F U V height fEnforceBIP30 [] fClean c = Valid (Some fClean, c)"
| "disconnect_txs F U V height fEnforceBIP30 ((tx, undo) # txs) fClean c =
     (let is_coinbase = IsCoinBase tx;
          (fClean, c) = disconnect_outputs U V (ComputeHash F tx) height is_coinbase (is_coinbase \<and> \<not> fEnforceBIP30) 0 (vout tx) fClean c
      in case undo of
           None \<Rightarrow> disconnect_txs F U V height fEnforceBIP30 txs fClean c
         | Some vprevout \<Rightarrow>
             if length vprevout \<noteq> length (vin tx) then Valid (None, c)
             else vbind (restore_inputs U V (rev (zip vprevout (map prevout (vin tx)))) fClean c) (\<lambda>(r, c).
                    case r of None \<Rightarrow> Valid (None, c) | Some fClean \<Rightarrow> disconnect_txs F U V height fEnforceBIP30 txs fClean c))"

definition IsBIP30Unspendable :: "uint256 \<Rightarrow> CBlockIndex \<Rightarrow> bool" where
  "IsBIP30Unspendable hash b \<longleftrightarrow>
     (nHeight b = 91722 \<and> hash = 0x00000000000271a2dc26e7667f8419f2e15416dc6955e5a6c6cdf3f2574dd08e) \<or>
     (nHeight b = 91812 \<and> hash = 0x00000000000af0aed4792b1acee3d966af36cf5def14935db8de83d6f9306f2f)"

text \<open>\<open>read_undo\<close> is what reading the undo data of the block from disk gives.\<close>

definition DisconnectBlock ::
  "hash_functions \<Rightarrow> (Coin \<Rightarrow> u64) \<Rightarrow> 'v view_ops \<Rightarrow> block_map \<Rightarrow> Coin list list option \<Rightarrow> CBlock \<Rightarrow> uint256 \<Rightarrow> 'v CCoinsViewCache
     \<Rightarrow> (DisconnectResult \<times> 'v CCoinsViewCache) verdict" where
  "DisconnectBlock F U V m read_undo block pindex c =
     (case (m pindex, read_undo) of
        (None, _) \<Rightarrow> Fatal
      | (Some b, None) \<Rightarrow> Valid (DISCONNECT_FAILED, c)
      | (Some b, Some vtxundo) \<Rightarrow>
          if length vtxundo + 1 \<noteq> length (vtx block) then Valid (DISCONNECT_FAILED, c)
          else vbind (disconnect_txs F U V (nHeight b) (\<not> IsBIP30Unspendable pindex b) (rev (zip (vtx block) (None # map Some vtxundo))) True c) (\<lambda>(r, c).
                 case r of
                   None \<Rightarrow> Valid (DISCONNECT_FAILED, c)
                 | Some fClean \<Rightarrow>
                     (case pprev b of
                        None \<Rightarrow> Fatal
                      | Some prev \<Rightarrow> Valid (if fClean then DISCONNECT_OK else DISCONNECT_UNCLEAN, SetBestBlock prev c))))"

end
