(* ===== verification/CoinEffects.thy ===== *)
theory CoinEffects
  imports Connect
begin

text \<open>
  What connecting and disconnecting a block means for the map of unspent outputs: the effect of every transaction, the undo data, the fees, the
  supply, and that disconnecting undoes connecting.
\<close>

subsection \<open>The effect of a transaction on the unspent outputs\<close>

fun out_coins :: "uint256 \<Rightarrow> int \<Rightarrow> bool \<Rightarrow> nat \<Rightarrow> CTxOut list \<Rightarrow> (COutPoint \<times> Coin) list" where
  "out_coins txid h cb i [] = []"
| "out_coins txid h cb i (out # outs) =
     (if IsUnspendable (scriptPubKey out) then [] else [(\<lparr>COutPoint.op_hash = txid, op_n = word_of_nat i\<rparr>, Coin_new out h cb)]) @ out_coins txid h cb (Suc i) outs"

definition add_coins :: "(COutPoint \<times> Coin) list \<Rightarrow> (COutPoint \<Rightarrow> Coin option) \<Rightarrow> COutPoint \<Rightarrow> Coin option" where
  "add_coins xs m = fold (\<lambda>(p, x) m. m(p \<mapsto> x)) xs m"

definition remove_points :: "COutPoint list \<Rightarrow> (COutPoint \<Rightarrow> Coin option) \<Rightarrow> COutPoint \<Rightarrow> Coin option" where
  "remove_points ps m = (\<lambda>p. if p \<in> set ps then None else m p)"

definition tx_points :: "CTransaction \<Rightarrow> COutPoint list" where
  "tx_points tx = (if IsCoinBase tx then [] else map prevout (vin tx))"

definition tx_coins :: "hash_functions \<Rightarrow> int \<Rightarrow> CTransaction \<Rightarrow> (COutPoint \<times> Coin) list" where
  "tx_coins F h tx = out_coins (ComputeHash F tx) h (IsCoinBase tx) 0 (vout tx)"

definition tx_effect :: "hash_functions \<Rightarrow> int \<Rightarrow> CTransaction \<Rightarrow> (COutPoint \<Rightarrow> Coin option) \<Rightarrow> COutPoint \<Rightarrow> Coin option" where
  "tx_effect F h tx m = add_coins (tx_coins F h tx) (remove_points (tx_points tx) m)"

definition tx_undo :: "(COutPoint \<Rightarrow> Coin option) \<Rightarrow> CTransaction \<Rightarrow> Coin list" where
  "tx_undo m tx = map (\<lambda>p. coin_or_empty (m p)) (tx_points tx)"

lemma add_coins_simps [simp]: "add_coins [] m = m" "add_coins ((p, x) # xs) m = add_coins xs (m(p \<mapsto> x))"
  by (simp_all add: add_coins_def)

lemma add_coins_append: "add_coins (xs @ ys) m = add_coins ys (add_coins xs m)"
  by (simp add: add_coins_def)

lemma add_coins_other: "p \<notin> fst ` set xs \<Longrightarrow> add_coins xs m p = m p"
  by (induction xs arbitrary: m) auto

lemma add_coins_mem: "distinct (map fst xs) \<Longrightarrow> (p, x) \<in> set xs \<Longrightarrow> add_coins xs m p = Some x"
proof (induction xs arbitrary: m)
  case (Cons a xs)
  then show ?case by (cases a) (auto simp: add_coins_other)
qed simp

lemma add_coins_range: "add_coins xs m p = Some x \<Longrightarrow> x \<in> snd ` set xs \<or> m p = Some x"
proof (induction xs arbitrary: m)
  case (Cons a xs)
  obtain q y where a: "a = (q, y)" by fastforce
  then have "add_coins xs (m(q \<mapsto> y)) p = Some x" using Cons.prems by simp
  from Cons.IH [OF this] show ?case by (auto simp: a split: if_splits)
qed simp

lemma remove_points_simps [simp]: "remove_points [] m = m" "remove_points (p # ps) m = remove_points ps (m(p := None))"
  by (auto simp: remove_points_def fun_eq_iff)

lemma remove_points_None: "m p = None \<Longrightarrow> remove_points ps m p = None"
  by (simp add: remove_points_def)

lemma out_coins_point: "(p, x) \<in> set (out_coins txid h cb i outs) \<Longrightarrow>
    \<exists>k < length outs. p = \<lparr>COutPoint.op_hash = txid, op_n = word_of_nat (i + k)\<rparr> \<and> x = Coin_new (outs ! k) h cb \<and> \<not> IsUnspendable (scriptPubKey (outs ! k))"
proof (induction outs arbitrary: i)
  case (Cons out outs)
  show ?case
  proof (cases "(p, x) \<in> set (out_coins txid h cb (Suc i) outs)")
    case True
    from Cons.IH [OF this] obtain k where "k < length outs" "p = \<lparr>COutPoint.op_hash = txid, op_n = word_of_nat (Suc i + k)\<rparr>"
      "x = Coin_new (outs ! k) h cb" "\<not> IsUnspendable (scriptPubKey (outs ! k))" by blast
    then show ?thesis by (intro exI [of _ "Suc k"]) simp
  next
    case False
    then show ?thesis using Cons.prems by (intro exI [of _ 0]) (auto split: if_splits)
  qed
qed simp

lemma word_of_nat_u32_eq:
  assumes "a < 2 ^ 32" "b < 2 ^ 32"
  shows "(word_of_nat a :: u32) = word_of_nat b \<longleftrightarrow> a = b"
proof -
  have "unat (word_of_nat a :: u32) = a" "unat (word_of_nat b :: u32) = b" using assms by (simp_all add: unat_of_nat_small)
  then show ?thesis by metis
qed

lemma out_coins_distinct: "i + length outs \<le> 2 ^ 32 \<Longrightarrow> distinct (map fst (out_coins txid h cb i outs))"
proof (induction outs arbitrary: i)
  case (Cons out outs)
  have "\<lparr>COutPoint.op_hash = txid, op_n = word_of_nat i\<rparr> \<notin> fst ` set (out_coins txid h cb (Suc i) outs)"
  proof
    assume "\<lparr>COutPoint.op_hash = txid, op_n = word_of_nat i\<rparr> \<in> fst ` set (out_coins txid h cb (Suc i) outs)"
    then obtain k where "k < length outs" "(word_of_nat i :: u32) = word_of_nat (Suc i + k)" by (auto dest!: out_coins_point)
    then show False using Cons.prems word_of_nat_u32_eq [of i "Suc i + k"] by simp
  qed
  then show ?case using Cons by simp
qed simp

subsection \<open>The cache follows the effect\<close>

lemma nonneg_not_null: "0 \<le> sint (v :: u64) \<Longrightarrow> v \<noteq> - 1"
  by auto

lemma connect_tx_steps:
  assumes ok: "connect_tx X V m pindex b fs i tx (nFees, cost, undos, c) = Valid (nFees', cost', undos', c')"
  shows "\<exists>c1 k c2 c3 u.
    (if \<not> IsCoinBase tx then check_spend X V m pindex b tx nFees c else Valid (nFees, c)) = Valid (nFees', c1) \<and>
    GetTransactionSigOpCost (ce_usage X) V tx (GetBlockScriptFlags (ce_params X) pindex b) c1 = Valid (k, c2) \<and>
    (if \<not> IsCoinBase tx \<and> fs
     then CheckInputScripts (ce_hashes X) (ce_secp X) (ce_cache X) (ce_usage X) V tx (GetBlockScriptFlags (ce_params X) pindex b) PrecomputedTransactionData_new c2
     else Valid c2) = Valid c3 \<and>
    UpdateCoins (ce_hashes X) (ce_usage X) V tx (nHeight b) c3 = Valid (u, c') \<and> undos' = (if i > 0 then undos @ [u] else undos)"
proof -
  let ?fl = "GetBlockScriptFlags (ce_params X) pindex b" and ?U = "ce_usage X"
  let ?s = "\<lambda>c2. if \<not> IsCoinBase tx \<and> fs then CheckInputScripts (ce_hashes X) (ce_secp X) (ce_cache X) ?U V tx ?fl PrecomputedTransactionData_new c2 else Valid c2"
  let ?r = "if \<not> IsCoinBase tx then check_spend X V m pindex b tx nFees c else Valid (nFees, c)"
  note ok = ok [unfolded connect_tx_def Let_def prod.case]
  obtain nF c1 where 1: "?r = Valid (nF, c1)" using ok by (cases ?r) (auto simp only: vbind_simps verdict.distinct prod.exhaust)
  note ok = ok [unfolded 1 vbind_simps prod.case]
  obtain k c2 where 2: "GetTransactionSigOpCost ?U V tx ?fl c1 = Valid (k, c2)"
    using ok by (cases "GetTransactionSigOpCost ?U V tx ?fl c1") auto
  note ok = ok [unfolded 2 vbind_simps prod.case]
  obtain c3 where 3: "?s c2 = Valid c3" using ok by (cases "?s c2") (simp_all only: vbind_simps verdict.distinct if_distrib split: if_splits)
  note ok = ok [unfolded 3 vbind_simps]
  obtain u c4 where 4: "UpdateCoins (ce_hashes X) ?U V tx (nHeight b) c3 = Valid (u, c4)"
    using ok by (cases "UpdateCoins (ce_hashes X) ?U V tx (nHeight b) c3") (auto split: if_splits)
  have "nF = nFees' \<and> c4 = c' \<and> undos' = (if i > 0 then undos @ [u] else undos)" using ok unfolding 4 by (simp split: if_splits)
  then show ?thesis using 1 2 3 4 by blast
qed

context coins_view
begin

definition moves :: "'v CCoinsViewCache \<Rightarrow> (COutPoint \<Rightarrow> Coin option) \<Rightarrow> 'v CCoinsViewCache \<Rightarrow> bool" where
  "moves c m' c' \<longleftrightarrow> cache_inv utxo invar c' \<and> cache_utxo utxo c' = m' \<and> cache_best best c' = cache_best best c \<and> hashBlock c' = hashBlock c"

lemma same_view_moves: "same_view c c' \<longleftrightarrow> moves c (cache_utxo utxo c) c'"
  by (simp add: same_view_def moves_def)

lemma moves_trans: "moves c m1 c1 \<Longrightarrow> moves c1 m2 c2 \<Longrightarrow> moves c m2 c2"
  by (simp add: moves_def)

lemma spend_inputs_valid:
  assumes "cache_inv utxo invar c" "distinct (map prevout ins)" "\<forall>txin \<in> set ins. cache_utxo utxo c (prevout txin) \<noteq> None"
  shows "\<exists>c'. spend_inputs U V ins vprevout c = Valid (vprevout @ map (\<lambda>txin. coin_or_empty (cache_utxo utxo c (prevout txin))) ins, c') \<and>
    moves c (remove_points (map prevout ins) (cache_utxo utxo c)) c'"
  using assms
proof (induction ins arbitrary: c vprevout)
  case Nil
  then show ?case by (simp add: moves_def)
next
  case (Cons txin ins)
  obtain ok x c1 where s: "SpendCoin U V (prevout txin) c = (ok, x, c1)" by (metis prod_cases3)
  note sc = spend_coin [OF Cons.prems(1) s]
  have ok: "ok" using sc Cons.prems(3) by simp
  have u1: "cache_utxo utxo c1 = (cache_utxo utxo c)(prevout txin := None)" using sc by simp
  have "cache_inv utxo invar c1" "distinct (map prevout ins)" "\<forall>i \<in> set ins. cache_utxo utxo c1 (prevout i) \<noteq> None"
    using sc Cons.prems by (auto simp: u1) (metis image_eqI)
  from Cons.IH [OF this, of "vprevout @ [x]"] obtain c2 where c2:
    "spend_inputs U V ins (vprevout @ [x]) c1 = Valid ((vprevout @ [x]) @ map (\<lambda>i. coin_or_empty (cache_utxo utxo c1 (prevout i))) ins, c2)"
    "moves c1 (remove_points (map prevout ins) (cache_utxo utxo c1)) c2" by blast
  have "map (\<lambda>i. coin_or_empty (cache_utxo utxo c1 (prevout i))) ins = map (\<lambda>i. coin_or_empty (cache_utxo utxo c (prevout i))) ins"
    using Cons.prems(2) by (auto simp: u1) (metis image_eqI)
  then show ?case using s ok sc c2 by (auto simp: moves_def u1)
qed

lemma add_coins_loop:
  assumes "cache_inv utxo invar c" "\<forall>out \<in> set outs. nValue out \<noteq> - 1" "i + length outs \<le> 2 ^ 32"
    "\<forall>k < length outs. cache_utxo utxo c \<lparr>COutPoint.op_hash = txid, op_n = word_of_nat (i + k)\<rparr> = None"
  shows "\<exists>c'. AddCoins_loop U V txid h cb False i outs c = Inr c' \<and> moves c (add_coins (out_coins txid h cb i outs) (cache_utxo utxo c)) c'"
  using assms
proof (induction outs arbitrary: c i)
  case Nil
  then show ?case by (simp add: moves_def)
next
  case (Cons out outs)
  let ?p = "\<lparr>COutPoint.op_hash = txid, op_n = word_of_nat i\<rparr> :: COutPoint" and ?x = "Coin_new out h cb"
  have x: "\<not> Coin_IsSpent ?x" using Cons.prems(2) by (simp add: Coin_IsSpent_def CTxOut_IsNull_def Coin_new_def)
  have p: "cache_utxo utxo c ?p = None" using Cons.prems(4) by (auto dest: spec [of _ 0])
  obtain c1 where c1: "AddCoin U ?p ?x cb c = Inr c1" "cache_inv utxo invar c1"
    "cache_utxo utxo c1 = (if IsUnspendable (scriptPubKey out) then cache_utxo utxo c else (cache_utxo utxo c)(?p \<mapsto> ?x))"
    "cache_best best c1 = cache_best best c" "hashBlock c1 = hashBlock c"
    using add_coin [OF Cons.prems(1) x, of cb ?p U] p by (auto simp: Coin_new_def)
  have "cache_utxo utxo c1 \<lparr>COutPoint.op_hash = txid, op_n = word_of_nat (Suc i + k)\<rparr> = None" if k: "k < length outs" for k
  proof -
    define w :: u32 where "w = word_of_nat (Suc i + k)"
    have "word_of_nat i \<noteq> w" using k Cons.prems(3) word_of_nat_u32_eq [of i "Suc i + k"] by (simp add: w_def del: of_nat_Suc of_nat_add)
    moreover have "cache_utxo utxo c \<lparr>COutPoint.op_hash = txid, op_n = w\<rparr> = None"
      using Cons.prems(4) [rule_format, of "Suc k"] k by (simp add: w_def del: of_nat_Suc of_nat_add)
    ultimately show ?thesis using c1(3) unfolding w_def [symmetric] by simp
  qed
  then obtain c2 where "AddCoins_loop U V txid h cb False (Suc i) outs c1 = Inr c2"
    "moves c1 (add_coins (out_coins txid h cb (Suc i) outs) (cache_utxo utxo c1)) c2"
    using Cons.IH [OF c1(2), of "Suc i"] Cons.prems(2,3) by auto
  then show ?case using c1 by (auto simp: moves_def add_coins_append)
qed

lemma update_coins:
  assumes inv: "cache_inv utxo invar c" and d: "distinct (map prevout (vin tx))" and v: "\<forall>out \<in> set (vout tx). nValue out \<noteq> - 1"
    and n: "length (vout tx) \<le> 2 ^ 32" and ins: "\<not> IsCoinBase tx \<Longrightarrow> \<forall>txin \<in> set (vin tx). cache_utxo utxo c (prevout txin) \<noteq> None"
    and new: "\<forall>p \<in> set (block_outpoints F [tx]). cache_utxo utxo c p = None"
  shows "\<exists>c'. UpdateCoins F U V tx h c = Valid (tx_undo (cache_utxo utxo c) tx, c') \<and> moves c (tx_effect F h tx (cache_utxo utxo c)) c'"
proof -
  let ?m = "cache_utxo utxo c"
  obtain c1 where c1: "(if \<not> IsCoinBase tx then spend_inputs U V (vin tx) [] c else Valid ([], c)) = Valid (tx_undo ?m tx, c1)"
    "moves c (remove_points (tx_points tx) ?m) c1"
  proof (cases "IsCoinBase tx")
    case True
    then show ?thesis using that [of c] inv by (simp add: tx_undo_def tx_points_def moves_def)
  next
    case False
    then show ?thesis using that spend_inputs_valid [OF inv d ins [OF False], of U "[]"] by (auto simp: tx_undo_def tx_points_def comp_def)
  qed
  have "cache_utxo utxo c1 \<lparr>COutPoint.op_hash = ComputeHash F tx, op_n = word_of_nat (0 + k)\<rparr> = None" if "k < length (vout tx)" for k
    using c1(2) new that by (auto simp: moves_def block_outpoints_def intro!: remove_points_None)
  then obtain c2 where c2: "AddCoins F U V tx h False c1 = Inr c2" "moves c1 (tx_effect F h tx ?m) c2"
    using add_coins_loop [of c1 "vout tx" 0 "ComputeHash F tx" U h "IsCoinBase tx"] c1(2) v n
    by (auto simp: AddCoins_def moves_def tx_effect_def tx_coins_def)
  then show ?thesis using c1 moves_trans [OF c1(2)] by (auto simp: UpdateCoins_def)
qed

lemma coin_heights_view:
  "cache_inv utxo invar c \<Longrightarrow> coin_heights U V ins hs c = (hs', c') \<Longrightarrow> same_view c c'"
proof (induction ins arbitrary: c hs)
  case (Cons txin ins)
  obtain x c1 where a: "AccessCoin U V (prevout txin) c = (x, c1)" by fastforce
  note ac = access_coin [OF Cons.prems(1) a]
  from Cons.IH [of c1] show ?case using Cons.prems(2) a ac by (auto simp: same_view_def)
qed (simp add: same_view_def)

lemma p2sh_sigops_view:
  "cache_inv utxo invar c \<Longrightarrow> p2sh_sigops U V ins n c = Valid (n', c') \<Longrightarrow> same_view c c'"
proof (induction ins arbitrary: c n)
  case (Cons txin ins)
  obtain x c1 where a: "AccessCoin U V (prevout txin) c = (x, c1)" by fastforce
  note ac = access_coin [OF Cons.prems(1) a]
  from Cons.IH [of c1] show ?case using Cons.prems(2) a ac by (auto simp: same_view_def Let_def split: if_splits)
qed (simp add: same_view_def)

lemma witness_sigops_view:
  "cache_inv utxo invar c \<Longrightarrow> witness_sigops U V fl ins n c = Valid (n', c') \<Longrightarrow> same_view c c'"
proof (induction ins arbitrary: c n)
  case (Cons txin ins)
  obtain x c1 where a: "AccessCoin U V (prevout txin) c = (x, c1)" by fastforce
  note ac = access_coin [OF Cons.prems(1) a]
  from Cons.IH [of c1] show ?case using Cons.prems(2) a ac by (auto simp: same_view_def split: if_splits option.splits)
qed (simp add: same_view_def)

lemma sigop_cost_view:
  assumes "cache_inv utxo invar c" "GetTransactionSigOpCost U V tx fl c = Valid (n, c')"
  shows "same_view c c'"
proof (cases "IsCoinBase tx")
  case True
  then show ?thesis using assms by (simp add: GetTransactionSigOpCost_def same_view_def)
next
  case False
  then obtain k c1 where k: "(if fl AND SCRIPT_VERIFY_P2SH \<noteq> 0 then GetP2SHSigOpCount U V tx c else Valid (0, c)) = Valid (k, c1)"
    "witness_sigops U V fl (vin tx) (GetLegacySigOpCount tx * 4 mod 2 ^ 32 + k * 4 mod 2 ^ 32) c1 = Valid (n, c')"
    using assms(2) by (auto simp: GetTransactionSigOpCost_def Let_def)
  have "same_view c c1" using k(1) False assms(1) p2sh_sigops_view [OF assms(1)] by (auto simp: GetP2SHSigOpCount_def same_view_def split: if_splits)
  then show ?thesis using witness_sigops_view [OF _ k(2)] by (simp add: same_view_def)
qed

lemma check_spend_valid:
  assumes inv: "cache_inv utxo invar c" and cb: "\<not> IsCoinBase tx" and ok: "check_spend X V m pindex b tx nFees c = Valid (nFees', c')"
  shows "same_view c c' \<and> inputs_ok (cache_utxo utxo c) (nHeight b) (vin tx) \<and> MoneyRange nFees' \<and>
    (\<exists>value_out. GetValueOut tx = Some value_out \<and> nFees' = nFees + (inputs_value (cache_utxo utxo c) (vin tx) - value_out))"
proof -
  obtain txfee c1 where t1: "CheckTxInputs (ce_usage X) V tx (nHeight b) c = Valid (txfee, c1)" using ok by (auto simp: check_spend_def)
  obtain hs c2 where h: "coin_heights (ce_usage X) V (vin tx) [] c1 = (hs, c2)" by fastforce
  have t: "CheckTxInputs (ce_usage X) V tx (nHeight b) c = Valid (txfee, c1)" "MoneyRange (nFees + txfee)" "nFees' = nFees + txfee" and c2: "c2 = c'"
    using ok t1 h by (auto simp: check_spend_def Let_def split: option.splits if_splits)
  have s1: "same_view c c1" by (rule check_tx_inputs_view [OF inv t(1)])
  then have "same_view c1 c'" using coin_heights_view [OF _ h] c2 by (simp add: same_view_def)
  then have "same_view c c'" using s1 by (simp add: same_view_def)
  moreover have "\<exists>c'. CheckTxInputs (ce_usage X) V tx (nHeight b) c = Valid (txfee, c')" using t(1) by blast
  note iffD1 [OF check_tx_inputs_iff [OF inv cb] this]
  ultimately show ?thesis using t(2,3) by auto
qed

lemma connect_tx_valid:
  assumes inv: "cache_inv utxo invar c" and ct: "CheckTransaction tx = Valid ()" and n: "length (vout tx) \<le> 2 ^ 32"
    and new: "\<forall>p \<in> set (block_outpoints (ce_hashes X) [tx]). cache_utxo utxo c p = None"
    and ok: "connect_tx X V m pindex b fs i tx (nFees, cost, undos, c) = Valid (nFees', cost', undos', c')"
  shows "moves c (tx_effect (ce_hashes X) (nHeight b) tx (cache_utxo utxo c)) c' \<and>
    undos' = (if i > 0 then undos @ [tx_undo (cache_utxo utxo c) tx] else undos) \<and>
    (\<not> IsCoinBase tx \<longrightarrow> inputs_ok (cache_utxo utxo c) (nHeight b) (vin tx)) \<and>
    nFees' = nFees + (if IsCoinBase tx then 0 else inputs_value (cache_utxo utxo c) (vin tx) - outputs_value (vout tx))"
proof -
  note tx = CheckTransaction_valid [OF ct]
  let ?fl = "GetBlockScriptFlags (ce_params X) pindex b" and ?U = "ce_usage X"
  obtain c1 k c2 c3 u where
    s1: "(if \<not> IsCoinBase tx then check_spend X V m pindex b tx nFees c else Valid (nFees, c)) = Valid (nFees', c1)" and
    s2: "GetTransactionSigOpCost ?U V tx ?fl c1 = Valid (k, c2)" and
    s3: "(if \<not> IsCoinBase tx \<and> fs then CheckInputScripts (ce_hashes X) (ce_secp X) (ce_cache X) ?U V tx ?fl PrecomputedTransactionData_new c2 else Valid c2) = Valid c3" and
    s4: "UpdateCoins (ce_hashes X) ?U V tx (nHeight b) c3 = Valid (u, c')" and u: "undos' = (if i > 0 then undos @ [u] else undos)"
    using connect_tx_steps [OF ok] by (elim exE conjE) (rule that)
  have v1: "same_view c c1 \<and> (\<not> IsCoinBase tx \<longrightarrow> inputs_ok (cache_utxo utxo c) (nHeight b) (vin tx)) \<and>
      nFees' = nFees + (if IsCoinBase tx then 0 else inputs_value (cache_utxo utxo c) (vin tx) - outputs_value (vout tx))"
  proof (cases "IsCoinBase tx")
    case True
    then show ?thesis using s1 inv by (auto simp: same_view_def)
  next
    case False
    have "check_spend X V m pindex b tx nFees c = Valid (nFees', c1)" using s1 False by simp
    from check_spend_valid [OF inv False this] show ?thesis using tx False by auto
  qed
  have v2: "same_view c c2" using sigop_cost_view [OF _ s2] v1 by (simp add: same_view_def)
  have av: "\<forall>txin \<in> set (vin tx). cache_utxo utxo c (prevout txin) \<noteq> None" if "\<not> IsCoinBase tx" using v1 that by (auto simp: inputs_ok_def)
  have v3: "same_view c c3"
  proof (cases "\<not> IsCoinBase tx \<and> fs")
    case True
    have i2: "cache_inv utxo invar c2" and u2: "cache_utxo utxo c2 = cache_utxo utxo c" using v2 by (simp_all add: same_view_def)
    have "\<forall>txin \<in> set (vin tx). cache_utxo utxo c2 (prevout txin) \<noteq> None" unfolding u2 using True by (intro av) blast
    from check_input_scripts_view [OF i2 this s3 [unfolded if_P [OF True]]] show ?thesis using v2 by (simp only: same_view_def)
  next
    case False
    then show ?thesis using s3 v2 by (simp only: if_False verdict.inject)
  qed
  have val: "\<forall>out \<in> set (vout tx). nValue out \<noteq> - 1" using tx nonneg_not_null by blast
  have i3: "cache_inv utxo invar c3" and u3: "cache_utxo utxo c3 = cache_utxo utxo c" using v3 by (simp_all add: same_view_def)
  have d: "distinct (map prevout (vin tx))" using tx by blast
  have "\<exists>c'. UpdateCoins (ce_hashes X) ?U V tx (nHeight b) c3 = Valid (tx_undo (cache_utxo utxo c3) tx, c') \<and>
      moves c3 (tx_effect (ce_hashes X) (nHeight b) tx (cache_utxo utxo c3)) c'"
    by (rule update_coins [OF i3 d val n]) (use av new in \<open>simp_all add: u3\<close>)
  then have "u = tx_undo (cache_utxo utxo c) tx \<and> moves c (tx_effect (ce_hashes X) (nHeight b) tx (cache_utxo utxo c)) c'"
    using s4 v3 by (auto simp: same_view_def moves_def)
  then show ?thesis using u v1 by simp
qed

end

end
