(* ===== verification/ConnectProps.thy ===== *)
theory ConnectProps
  imports CoinEffects
begin

text \<open>
  What connecting and disconnecting a block guarantee: connecting creates no more value than the subsidy, and disconnecting undoes connecting.
\<close>

subsection \<open>The transactions of a block in order\<close>

abbreviation txs_effect :: "hash_functions \<Rightarrow> int \<Rightarrow> CTransaction list \<Rightarrow> (COutPoint \<Rightarrow> Coin option) \<Rightarrow> COutPoint \<Rightarrow> Coin option" where
  "txs_effect F h \<equiv> fold (tx_effect F h)"

fun txs_undo :: "hash_functions \<Rightarrow> int \<Rightarrow> CTransaction list \<Rightarrow> (COutPoint \<Rightarrow> Coin option) \<Rightarrow> Coin list list" where
  "txs_undo F h [] m = []"
| "txs_undo F h (tx # txs) m = tx_undo m tx # txs_undo F h txs (tx_effect F h tx m)"

fun txs_spend :: "hash_functions \<Rightarrow> int \<Rightarrow> CTransaction list \<Rightarrow> (COutPoint \<Rightarrow> Coin option) \<Rightarrow> bool" where
  "txs_spend F h [] m = True"
| "txs_spend F h (tx # txs) m \<longleftrightarrow> (\<not> IsCoinBase tx \<longrightarrow> inputs_ok m h (vin tx)) \<and> txs_spend F h txs (tx_effect F h tx m)"

definition tx_fee :: "(COutPoint \<Rightarrow> Coin option) \<Rightarrow> CTransaction \<Rightarrow> int" where
  "tx_fee m tx = (if IsCoinBase tx then 0 else inputs_value m (vin tx) - outputs_value (vout tx))"

fun txs_fees :: "hash_functions \<Rightarrow> int \<Rightarrow> CTransaction list \<Rightarrow> (COutPoint \<Rightarrow> Coin option) \<Rightarrow> int" where
  "txs_fees F h [] m = 0"
| "txs_fees F h (tx # txs) m = tx_fee m tx + txs_fees F h txs (tx_effect F h tx m)"

text \<open>No output of the transactions is unspent before, and the transactions have different identifiers.\<close>

definition outputs_new :: "hash_functions \<Rightarrow> CTransaction list \<Rightarrow> (COutPoint \<Rightarrow> Coin option) \<Rightarrow> bool" where
  "outputs_new F txs m \<longleftrightarrow> distinct (map (ComputeHash F) txs) \<and> (\<forall>p \<in> set (block_outpoints F txs). m p = None)"

lemma tx_coins_hash: "(p, x) \<in> set (tx_coins F h tx) \<Longrightarrow> COutPoint.op_hash p = ComputeHash F tx"
  unfolding tx_coins_def by (drule out_coins_point) auto

lemma tx_effect_other: "COutPoint.op_hash p \<noteq> ComputeHash F tx \<Longrightarrow> m p = None \<Longrightarrow> tx_effect F h tx m p = None"
  unfolding tx_effect_def by (subst add_coins_other) (auto dest: tx_coins_hash intro: remove_points_None)

lemma block_outpoints_Cons: "set (block_outpoints F (tx # txs)) = set (block_outpoints F [tx]) \<union> set (block_outpoints F txs)"
  by (simp add: block_outpoints_def)

lemma block_outpoints_hash: "p \<in> set (block_outpoints F txs) \<Longrightarrow> COutPoint.op_hash p \<in> ComputeHash F ` set txs"
  by (auto simp: block_outpoints_def)

lemma outputs_new_Cons:
  assumes "outputs_new F (tx # txs) m"
  shows "(\<forall>p \<in> set (block_outpoints F [tx]). m p = None) \<and> outputs_new F txs (tx_effect F h tx m)"
proof -
  have "tx_effect F h tx m p = None" if "p \<in> set (block_outpoints F txs)" for p
    using that assms block_outpoints_hash [OF that] block_outpoints_Cons [of F tx txs] by (intro tx_effect_other) (auto simp: outputs_new_def)
  then show ?thesis using assms block_outpoints_Cons [of F tx txs] by (auto simp: outputs_new_def)
qed

lemma vout_length: "length (vout tx) \<le> length (SerializeTransaction False tx)"
proof -
  have "length xs \<le> length (VectorFormatter_Ser Ser_CTxOut xs)" for xs
  proof -
    have "length xs \<le> length (concat (map Ser_CTxOut xs))" by (induction xs) (simp_all add: Ser_CTxOut_def ser_writedata64_def)
    then show ?thesis by (simp add: VectorFormatter_Ser_def)
  qed
  from this [of "vout tx"] show ?thesis by (simp add: SerializeTransaction_def Let_def)
qed

lemma CheckTransaction_vout: "CheckTransaction tx = Valid () \<Longrightarrow> length (vout tx) \<le> 2 ^ 32"
  using CheckTransaction_valid [of tx] vout_length [of tx] by simp

context coins_view
begin

lemma connect_txs_valid:
  assumes "cache_inv utxo invar c" "\<forall>tx \<in> set txs. CheckTransaction tx = Valid ()" "outputs_new (ce_hashes X) txs (cache_utxo utxo c)"
    "connect_txs X V m pindex b fs i txs (nFees, cost, undos, c) = Valid (nFees', cost', undos', c')"
  shows "moves c (txs_effect (ce_hashes X) (nHeight b) txs (cache_utxo utxo c)) c' \<and>
    undos' = undos @ drop (1 - i) (txs_undo (ce_hashes X) (nHeight b) txs (cache_utxo utxo c)) \<and>
    txs_spend (ce_hashes X) (nHeight b) txs (cache_utxo utxo c) \<and> nFees' = nFees + txs_fees (ce_hashes X) (nHeight b) txs (cache_utxo utxo c)"
  using assms
proof (induction txs arbitrary: i nFees cost undos c)
  case Nil
  then show ?case by (simp add: moves_def)
next
  case (Cons tx txs)
  let ?F = "ce_hashes X" and ?h = "nHeight b" and ?m = "cache_utxo utxo c"
  obtain f1 k1 u1 c1 where 1: "connect_tx X V m pindex b fs i tx (nFees, cost, undos, c) = Valid (f1, k1, u1, c1)"
    and 2: "connect_txs X V m pindex b fs (i + 1) txs (f1, k1, u1, c1) = Valid (nFees', cost', undos', c')"
    using Cons.prems(4) by auto
  note new = outputs_new_Cons [OF Cons.prems(3), where h = ?h]
  have ct: "CheckTransaction tx = Valid ()" using Cons.prems(2) by simp
  note tx = connect_tx_valid [OF Cons.prems(1) ct CheckTransaction_vout [OF ct] conjunct1 [OF new] 1]
  have i1: "cache_inv utxo invar c1" and m1: "cache_utxo utxo c1 = tx_effect ?F ?h tx ?m" using tx by (simp_all add: moves_def)
  have "moves c1 (txs_effect ?F ?h txs (tx_effect ?F ?h tx ?m)) c' \<and>
    undos' = u1 @ drop (1 - (i + 1)) (txs_undo ?F ?h txs (tx_effect ?F ?h tx ?m)) \<and>
    txs_spend ?F ?h txs (tx_effect ?F ?h tx ?m) \<and> nFees' = f1 + txs_fees ?F ?h txs (tx_effect ?F ?h tx ?m)"
    using Cons.IH [OF i1 _ _ 2] Cons.prems(2) new m1 by simp
  moreover have "drop (1 - i) (x # xs) = (if i > 0 then x # xs else xs)" for x :: "Coin list" and xs by (cases i) simp_all
  ultimately show ?case using tx by (auto simp: moves_def tx_fee_def)
qed

end


subsection \<open>The supply\<close>

definition total_value :: "(COutPoint \<Rightarrow> Coin option) \<Rightarrow> int" where
  "total_value m = (\<Sum>p \<in> dom m. coin_value (the (m p)))"

definition coins_nonneg :: "(COutPoint \<Rightarrow> Coin option) \<Rightarrow> bool" where
  "coins_nonneg m \<longleftrightarrow> (\<forall>p x. m p = Some x \<longrightarrow> 0 \<le> coin_value x)"

lemma total_empty [simp]: "total_value (\<lambda>_. None) = 0"
  by (simp add: total_value_def)

lemma total_delete:
  assumes "finite (dom m)" "m p = Some x"
  shows "total_value (m(p := None)) = total_value m - coin_value x"
proof -
  have "total_value m = coin_value x + (\<Sum>q \<in> dom m - {p}. coin_value (the (m q)))"
    unfolding total_value_def using assms by (subst sum.remove [of _ p]) auto
  moreover have "(\<Sum>q \<in> dom m - {p}. coin_value (the (m q))) = total_value (m(p := None))"
    unfolding total_value_def by (rule sum.cong) auto
  ultimately show ?thesis by simp
qed

lemma total_insert:
  assumes "finite (dom m)" "coins_nonneg m"
  shows "total_value (m(p \<mapsto> x)) \<le> total_value m + coin_value x"
proof -
  let ?m = "m(p := None)"
  have "total_value (m(p \<mapsto> x)) = coin_value x + total_value ?m"
    using total_delete [of "m(p \<mapsto> x)" p x] assms(1) by simp
  moreover have "total_value ?m \<le> total_value m"
  proof (cases "m p")
    case None
    then have "?m = m" by (simp add: fun_upd_idem)
    then show ?thesis by simp
  next
    case (Some y)
    then show ?thesis using total_delete [OF assms(1) Some] assms(2) by (simp add: coins_nonneg_def)
  qed
  ultimately show ?thesis by simp
qed

lemma total_remove:
  "finite (dom m) \<Longrightarrow> distinct ps \<Longrightarrow> \<forall>p \<in> set ps. m p \<noteq> None \<Longrightarrow>
     total_value (remove_points ps m) = total_value m - sum_list (map (\<lambda>p. coin_value (coin_or_empty (m p))) ps)"
proof (induction ps arbitrary: m)
  case (Cons p ps)
  obtain x where x: "m p = Some x" using Cons.prems(3) by auto
  define m' where "m' = m(p := None)"
  have "\<forall>q \<in> set ps. m' q \<noteq> None" "finite (dom m')" using Cons.prems by (auto simp: m'_def)
  then have A: "total_value (remove_points ps m') = total_value m' - sum_list (map (\<lambda>q. coin_value (coin_or_empty (m' q))) ps)"
    using Cons.IH [of m'] Cons.prems(2) by simp
  have eq: "map (\<lambda>q. coin_value (coin_or_empty (m' q))) ps = map (\<lambda>q. coin_value (coin_or_empty (m q))) ps"
    using Cons.prems(2) by (auto simp: m'_def)
  note A [unfolded eq]
  then show ?case using total_delete [OF Cons.prems(1) x] x by (simp add: coin_or_empty_def m'_def)
qed simp

lemma total_add:
  "finite (dom m) \<Longrightarrow> coins_nonneg m \<Longrightarrow> \<forall>(p, x) \<in> set xs. 0 \<le> coin_value x \<Longrightarrow>
     finite (dom (add_coins xs m)) \<and> coins_nonneg (add_coins xs m) \<and> total_value (add_coins xs m) \<le> total_value m + sum_list (map (\<lambda>(p, x). coin_value x) xs)"
proof (induction xs arbitrary: m)
  case (Cons a xs)
  obtain p x where a: "a = (p, x)" by fastforce
  define m' where "m' = m(p \<mapsto> x)"
  have "finite (dom m')" "coins_nonneg m'" using Cons.prems a by (auto simp: coins_nonneg_def m'_def)
  with Cons.IH [of m'] Cons.prems(3) have "finite (dom (add_coins xs m')) \<and> coins_nonneg (add_coins xs m') \<and>
      total_value (add_coins xs m') \<le> total_value m' + sum_list (map (\<lambda>(p, x). coin_value x) xs)" by simp
  then show ?case using total_insert [OF Cons.prems(1,2), of p x, folded m'_def] by (simp add: a m'_def [symmetric] del: fun_upd_apply)
qed simp

lemma out_coins_value:
  "\<forall>out \<in> set outs. 0 \<le> sint (nValue out) \<Longrightarrow> sum_list (map (\<lambda>(p, x). coin_value x) (out_coins txid h cb i outs)) \<le> outputs_value outs"
  by (induction outs arbitrary: i) (auto simp: outputs_value_def coin_value_def Coin_new_def intro: add_mono add_increasing)

lemma remove_points_ok:
  "finite (dom m) \<Longrightarrow> finite (dom (remove_points ps m))" "coins_nonneg m \<Longrightarrow> coins_nonneg (remove_points ps m)"
proof -
  have "dom (remove_points ps m) \<subseteq> dom m" by (auto simp: remove_points_def split: if_splits)
  then show "finite (dom m) \<Longrightarrow> finite (dom (remove_points ps m))" by (rule finite_subset)
qed (auto simp: coins_nonneg_def remove_points_def split: if_splits)

lemma tx_effect_total:
  assumes fin: "finite (dom m)" and nn: "coins_nonneg m" and ct: "CheckTransaction tx = Valid ()" and sp: "\<not> IsCoinBase tx \<longrightarrow> inputs_ok m h (vin tx)"
  shows "finite (dom (tx_effect F h tx m)) \<and> coins_nonneg (tx_effect F h tx m) \<and>
    total_value (tx_effect F h tx m) \<le> total_value m - tx_fee m tx + (if IsCoinBase tx then outputs_value (vout tx) else 0)"
proof -
  note tx = CheckTransaction_valid [OF ct]
  let ?r = "remove_points (tx_points tx) m"
  have r: "finite (dom ?r)" "coins_nonneg ?r" by (rule remove_points_ok(1) [OF fin], rule remove_points_ok(2) [OF nn])
  have out: "\<forall>(p, x) \<in> set (tx_coins F h tx). 0 \<le> coin_value x"
    using tx unfolding tx_coins_def by (auto dest!: out_coins_point simp: coin_value_def Coin_new_def)
  have "total_value ?r = total_value m - (if IsCoinBase tx then 0 else inputs_value m (vin tx))"
  proof (cases "IsCoinBase tx")
    case False
    then have "\<forall>p \<in> set (map prevout (vin tx)). m p \<noteq> None" using sp by (auto simp: inputs_ok_def)
    then show ?thesis using total_remove [OF fin, of "map prevout (vin tx)"] tx False by (simp add: tx_points_def inputs_value_def comp_def)
  qed (simp add: tx_points_def)
  moreover have "sum_list (map (\<lambda>(p, x). coin_value x) (tx_coins F h tx)) \<le> outputs_value (vout tx)"
    unfolding tx_coins_def by (rule out_coins_value) (use tx in blast)
  ultimately show ?thesis using total_add [OF r out] unfolding tx_effect_def tx_fee_def by (cases "IsCoinBase tx") auto
qed

lemma txs_effect_total:
  "finite (dom m) \<Longrightarrow> coins_nonneg m \<Longrightarrow> \<forall>tx \<in> set txs. CheckTransaction tx = Valid () \<Longrightarrow> txs_spend F h txs m \<Longrightarrow>
     finite (dom (txs_effect F h txs m)) \<and> coins_nonneg (txs_effect F h txs m) \<and>
     total_value (txs_effect F h txs m) \<le> total_value m - txs_fees F h txs m + sum_list (map (\<lambda>tx. if IsCoinBase tx then outputs_value (vout tx) else 0) txs)"
proof (induction txs arbitrary: m)
  case (Cons tx txs)
  have "finite (dom (tx_effect F h tx m)) \<and> coins_nonneg (tx_effect F h tx m) \<and>
      total_value (tx_effect F h tx m) \<le> total_value m - tx_fee m tx + (if IsCoinBase tx then outputs_value (vout tx) else 0)"
    using Cons.prems by (intro tx_effect_total) auto
  with Cons.IH [of "tx_effect F h tx m"] Cons.prems show ?case by simp
qed simp


subsection \<open>The sum of the subsidies\<close>

definition era_subsidy :: "nat \<Rightarrow> int" where
  "era_subsidy k = (if k \<ge> 64 then 0 else drop_bit k (50 * COIN))"

lemma GetBlockSubsidy_era:
  assumes "nSubsidyHalvingInterval P = int I" "0 < I"
  shows "GetBlockSubsidy (int h) P = era_subsidy (h div I)"
proof -
  have "int h sdiv int I = int (h div I)" using assms(2) by (cases "h = 0") (simp_all add: signed_divide_int_def zdiv_int)
  then show ?thesis using assms(1) by (simp add: GetBlockSubsidy_def era_subsidy_def Let_def)
qed

lemma era_subsidy_nonneg: "0 \<le> era_subsidy k"
  by (simp add: era_subsidy_def COIN_def)

lemma sum_eras: "0 < I \<Longrightarrow> (\<Sum>h < I * K. g (h div I)) = int I * (\<Sum>k < K. g k)"
proof (induction K)
  case (Suc K)
  have "{..<I * Suc K} = {..<I * K} \<union> {I * K..<I * K + I}" by auto
  moreover have "(\<Sum>h = I * K..<I * K + I. g (h div I)) = (\<Sum>h = I * K..<I * K + I. g K)"
  proof (rule sum.cong)
    fix h
    assume "h \<in> {I * K..<I * K + I}"
    then have "h div I = K" by (intro div_nat_eqI) (auto simp: mult.commute)
    then show "g (h div I) = g K" by simp
  qed simp
  ultimately have "(\<Sum>h < I * Suc K. g (h div I)) = (\<Sum>h < I * K. g (h div I)) + int I * g K"
    by (simp add: sum.union_disjoint ivl_disj_int)
  then show ?case using Suc by (simp add: algebra_simps)
qed simp

lemma sum_all_eras: "(\<Sum>k < 64. era_subsidy k) = 9999999989"
  by code_simp

lemma subsidies_bounded:
  assumes "nSubsidyHalvingInterval P = int I" "0 < I"
  shows "(\<Sum>h < N. GetBlockSubsidy (int h) P) \<le> int I * 9999999989"
proof -
  let ?K = "max 64 N"
  have "N \<le> I * ?K" using assms(2) by (metis le_trans max.cobounded2 mult.commute mult_le_mono1 nat_mult_1_right One_nat_def Suc_leI mult_le_mono2)
  then have "(\<Sum>h < N. era_subsidy (h div I)) \<le> (\<Sum>h < I * ?K. era_subsidy (h div I))"
    by (intro sum_mono2) (auto simp: era_subsidy_nonneg)
  also have "\<dots> = int I * (\<Sum>k < ?K. era_subsidy k)" by (rule sum_eras [OF assms(2)])
  also have "(\<Sum>k < ?K. era_subsidy k) = (\<Sum>k < 64. era_subsidy k)"
    by (rule sum.mono_neutral_right) (auto simp: era_subsidy_def)
  finally show ?thesis by (simp add: GetBlockSubsidy_era [OF assms] sum_all_eras)
qed


subsection \<open>Connecting a block\<close>

text \<open>The block does not overwrite unspent outputs: either the check of BIP30 is on, or it is known from elsewhere.\<close>

definition no_overwrite :: "connect_env \<Rightarrow> BlockManager \<Rightarrow> uint256 \<Rightarrow> CBlockIndex \<Rightarrow> CBlock \<Rightarrow> (COutPoint \<Rightarrow> Coin option) \<Rightarrow> bool" where
  "no_overwrite X bm pindex b block m \<longleftrightarrow>
     distinct (map (ComputeHash (ce_hashes X)) (vtx block)) \<and>
     ((\<exists>prev. pprev b = Some prev \<and> enforce_BIP30 (ce_params X) (m_block_index bm) pindex b prev) \<or>
      (\<forall>p \<in> set (block_outpoints (ce_hashes X) (vtx block)). m p = None))"

lemma finish_connect_valid: "finish_connect X pindex undos bm c = Valid (bm', undos', c') \<Longrightarrow> undos' = undos \<and> c' = SetBestBlock pindex c"
  by (auto simp: finish_connect_def split: option.splits bool.splits)

lemma connect_body_steps:
  assumes "connect_body X V False block pindex b prev bm c = Valid (bm', undos, c')"
  shows "\<exists>overwrites c1 fs v nFees cost c2.
    (if enforce_BIP30 (ce_params X) (m_block_index bm) pindex b prev
     then find_overwrite (ce_usage X) V (block_outpoints (ce_hashes X) (vtx block)) False c else (False, c)) = (overwrites, c1) \<and>
    \<not> overwrites \<and> GetValueOut (vtx block ! 0) = Some v \<and>
    connect_txs X V (m_block_index bm) pindex b fs 0 (vtx block) (0, 0, [], c1) = Valid (nFees, cost, undos, c2) \<and>
    v \<le> nFees + GetBlockSubsidy (nHeight b) (ce_params X) \<and> c' = SetBestBlock pindex c2"
proof -
  obtain overwrites c1 where o: "(if enforce_BIP30 (ce_params X) (m_block_index bm) pindex b prev
      then find_overwrite (ce_usage X) V (block_outpoints (ce_hashes X) (vtx block)) False c else (False, c)) = (overwrites, c1)" by fastforce
  note a = assms [unfolded connect_body_def Let_def o prod.case]
  obtain fs where fs: "script_checks X (m_block_index bm) pindex b = Some fs" using a by (auto split: option.splits)
  obtain v where v: "GetValueOut (vtx block ! 0) = Some v" using a by (auto split: option.splits)
  note a = a [unfolded fs v prod.case option.case vbind_Valid_iff]
  have no: "\<not> overwrites" using a by auto
  obtain nFees cost u c2 where t: "connect_txs X V (m_block_index bm) pindex b fs 0 (vtx block) (0, 0, [], c1) = Valid (nFees, cost, u, c2)"
    "\<not> v > nFees + GetBlockSubsidy (nHeight b) (ce_params X)" "finish_connect X pindex u bm c2 = Valid (bm', undos, c')"
    using a no by (auto split: if_splits)
  show ?thesis
    by (rule exI [of _ overwrites], rule exI [of _ c1], rule exI [of _ fs], rule exI [of _ v], rule exI [of _ nFees], rule exI [of _ cost], rule exI [of _ c2])
      (use o no v t finish_connect_valid [OF t(3)] in auto)
qed

context coins_view
begin

lemma find_overwrite:
  "cache_inv utxo invar c \<Longrightarrow> find_overwrite U V ps bad c = (bad', c') \<Longrightarrow>
     same_view c c' \<and> (bad' \<longleftrightarrow> bad \<or> (\<exists>p \<in> set ps. cache_utxo utxo c p \<noteq> None))"
proof (induction ps arbitrary: bad c)
  case (Cons p ps)
  obtain r c1 where h: "HaveCoin U V p c = (r, c1)" by fastforce
  note hv = have_coin [OF Cons.prems(1) h]
  have i1: "cache_inv utxo invar c1" and u1: "cache_utxo utxo c1 = cache_utxo utxo c" using hv by (simp_all add: same_view_def)
  have "find_overwrite U V ps (bad \<or> r) c1 = (bad', c')" using Cons.prems(2) h by simp
  from Cons.IH [OF i1 this] show ?case using hv u1 by (auto simp: same_view_def)
qed (simp add: same_view_def)

lemma connect_body_valid:
  assumes inv: "cache_inv utxo invar c" and body: "check_body block = Valid ()" and prev: "pprev b = Some prev"
    and new: "no_overwrite X bm pindex b block (cache_utxo utxo c)"
    and ok: "connect_body X V False block pindex b prev bm c = Valid (bm', undos, c')"
  shows "cache_inv utxo invar c' \<and> cache_utxo utxo c' = txs_effect (ce_hashes X) (nHeight b) (vtx block) (cache_utxo utxo c) \<and> hashBlock c' = pindex \<and>
    undos = tl (txs_undo (ce_hashes X) (nHeight b) (vtx block) (cache_utxo utxo c)) \<and>
    outputs_new (ce_hashes X) (vtx block) (cache_utxo utxo c) \<and> txs_spend (ce_hashes X) (nHeight b) (vtx block) (cache_utxo utxo c) \<and>
    outputs_value (vout (hd (vtx block))) \<le> txs_fees (ce_hashes X) (nHeight b) (vtx block) (cache_utxo utxo c) + GetBlockSubsidy (nHeight b) (ce_params X)"
proof -
  note cb = check_body_valid [OF body]
  obtain overwrites c1 fs v nFees cost c2 where s:
    "(if enforce_BIP30 (ce_params X) (m_block_index bm) pindex b prev
      then find_overwrite (ce_usage X) V (block_outpoints (ce_hashes X) (vtx block)) False c else (False, c)) = (overwrites, c1)"
    "\<not> overwrites" "GetValueOut (vtx block ! 0) = Some v"
    "connect_txs X V (m_block_index bm) pindex b fs 0 (vtx block) (0, 0, [], c1) = Valid (nFees, cost, undos, c2)"
    "v \<le> nFees + GetBlockSubsidy (nHeight b) (ce_params X)" "c' = SetBestBlock pindex c2"
    using connect_body_steps [OF ok] by blast
  have "same_view c c1 \<and> outputs_new (ce_hashes X) (vtx block) (cache_utxo utxo c)"
  proof (cases "enforce_BIP30 (ce_params X) (m_block_index bm) pindex b prev")
    case True
    from find_overwrite [OF inv s(1) [unfolded if_P [OF True]]] show ?thesis using s(2) new by (auto simp: no_overwrite_def outputs_new_def)
  next
    case False
    then show ?thesis using s(1) new prev inv by (auto simp: no_overwrite_def outputs_new_def same_view_def)
  qed
  then have i1: "cache_inv utxo invar c1" and u1: "cache_utxo utxo c1 = cache_utxo utxo c" and new: "outputs_new (ce_hashes X) (vtx block) (cache_utxo utxo c)"
    by (simp_all add: same_view_def)
  have "\<forall>tx \<in> set (vtx block). CheckTransaction tx = Valid ()" using cb by blast
  note t = connect_txs_valid [OF i1 this, unfolded u1, OF new s(4)]
  have "CheckTransaction (vtx block ! 0) = Valid ()" using cb by simp
  then have "v = outputs_value (vout (hd (vtx block)))" using CheckTransaction_valid s(3) cb by (auto simp: hd_conv_nth)
  then show ?thesis using t s(5,6) new by (auto simp: moves_def SetBestBlock_def cache_inv_def list_sane_base drop_Suc)
qed

lemma get_best_block:
  assumes "cache_inv utxo invar c" "cache_GetBestBlock V c = (h, c')"
  shows "h = cache_best best c \<and> cache_inv utxo invar c' \<and> cache_utxo utxo c' = cache_utxo utxo c"
proof -
  obtain h' b where b: "view_GetBestBlock V (base c) = (h', b)" by fastforce
  have ib: "invar (base c)" using assms(1) by (simp add: cache_inv_def)
  note gb = get_best [OF ib b]
  have i: "cache_inv utxo invar (c\<lparr>base := b\<rparr>)" "cache_utxo utxo (c\<lparr>base := b\<rparr>) = cache_utxo utxo c"
    using cache_inv_base [OF assms(1)] cache_utxo_base [of utxo b c] gb by auto
  show ?thesis
  proof (cases "hashBlock c = 0")
    case True
    then have "c' = c\<lparr>base := b, hashBlock := h'\<rparr>" "h = h'" using assms(2) b by (auto simp: cache_GetBestBlock_def)
    then show ?thesis using i True gb by (auto simp: cache_best_def cache_inv_def list_sane_base cache_utxo_def fun_eq_iff)
  next
    case False
    then show ?thesis using assms by (auto simp: cache_GetBestBlock_def cache_best_def)
  qed
qed

lemma connect_block_valid:
  assumes inv: "cache_inv utxo invar c" and memo: "memo_sound (ce_hashes X) (ce_params X) (ce_signet X) block memo"
    and b: "m_block_index bm pindex = Some b" and gen: "pindex \<noteq> hashGenesisBlock (ce_params X)"
    and new: "no_overwrite X bm pindex b block (cache_utxo utxo c)"
    and ok: "snd (ConnectBlock X V False block pindex bm c memo) = Valid (bm', undos, c')"
  shows "check_body block = Valid () \<and> pprev b = Some (cache_best best c) \<and>
    cache_inv utxo invar c' \<and> cache_utxo utxo c' = txs_effect (ce_hashes X) (nHeight b) (vtx block) (cache_utxo utxo c) \<and> hashBlock c' = pindex \<and>
    undos = tl (txs_undo (ce_hashes X) (nHeight b) (vtx block) (cache_utxo utxo c)) \<and>
    outputs_new (ce_hashes X) (vtx block) (cache_utxo utxo c) \<and> txs_spend (ce_hashes X) (nHeight b) (vtx block) (cache_utxo utxo c) \<and>
    outputs_value (vout (hd (vtx block))) \<le> txs_fees (ce_hashes X) (nHeight b) (vtx block) (cache_utxo utxo c) + GetBlockSubsidy (nHeight b) (ce_params X)"
proof -
  obtain memo1 r where cb: "CheckBlock (ce_hashes X) (ce_params X) (ce_signet X) block True True memo = (memo1, r)" by fastforce
  have r: "r = Valid ()" using ok b cb by (cases r) (auto simp: ConnectBlock_def split: if_splits)
  have body: "check_body block = Valid ()" by (rule CheckBlock_valid [OF memo, of True True]) (simp add: cb r)
  obtain h c1 where h: "cache_GetBestBlock V c = (h, c1)" by fastforce
  note gb = get_best_block [OF inv h]
  obtain prev where prev: "pprev b = Some prev" "prev = h" "connect_body X V False block pindex b prev bm c1 = Valid (bm', undos, c')"
    using ok b cb r h gen by (auto simp: ConnectBlock_def split: if_splits option.splits)
  have i1: "cache_inv utxo invar c1" and u1: "cache_utxo utxo c1 = cache_utxo utxo c" using gb by simp_all
  show ?thesis using connect_body_valid [OF i1 body prev(1) _ prev(3)] new u1 body gb prev by simp
qed

lemma connect_block_supply:
  assumes inv: "cache_inv utxo invar c" and memo: "memo_sound (ce_hashes X) (ce_params X) (ce_signet X) block memo"
    and b: "m_block_index bm pindex = Some b" and gen: "pindex \<noteq> hashGenesisBlock (ce_params X)"
    and new: "no_overwrite X bm pindex b block (cache_utxo utxo c)"
    and fin: "finite (dom (cache_utxo utxo c))" and nn: "coins_nonneg (cache_utxo utxo c)"
    and ok: "snd (ConnectBlock X V False block pindex bm c memo) = Valid (bm', undos, c')"
  shows "cache_inv utxo invar c' \<and> finite (dom (cache_utxo utxo c')) \<and> coins_nonneg (cache_utxo utxo c') \<and>
    total_value (cache_utxo utxo c') \<le> total_value (cache_utxo utxo c) + GetBlockSubsidy (nHeight b) (ce_params X)"
proof -
  note cv = connect_block_valid [OF inv memo b gen new ok]
  note cb = check_body_valid [OF conjunct1 [OF cv]]
  have "\<forall>tx \<in> set (vtx block). CheckTransaction tx = Valid ()" "txs_spend (ce_hashes X) (nHeight b) (vtx block) (cache_utxo utxo c)" using cv cb by simp_all
  note t = txs_effect_total [OF fin nn this]
  obtain tx txs where v: "vtx block = tx # txs" using cb by (cases "vtx block") auto
  have "map (\<lambda>tx. if IsCoinBase tx then outputs_value (vout tx) else 0) txs = map (\<lambda>_. 0) txs" using cb v by auto
  then have "sum_list (map (\<lambda>tx. if IsCoinBase tx then outputs_value (vout tx) else 0) (vtx block)) = outputs_value (vout (hd (vtx block)))"
    using cb unfolding v by (simp add: sum_list_triv del: map_eq_conv)
  then show ?thesis using t cv by auto
qed

end

end
