(* ===== verification/Disconnect.thy ===== *)
theory Disconnect
  imports ConnectProps
begin

text \<open>
  Disconnecting a block undoes connecting it, and the value that any chain of connected blocks can create is bounded.
\<close>

subsection \<open>Undoing the effect\<close>

text \<open>A coin that undo data restores: unspent, of known height and spendable.\<close>

definition restorable :: "Coin \<Rightarrow> bool" where
  "restorable x \<longleftrightarrow> \<not> Coin_IsSpent x \<and> coin_nHeight x \<noteq> 0 \<and> \<not> IsUnspendable (scriptPubKey (coin_out x))"

definition coins_restorable :: "(COutPoint \<Rightarrow> Coin option) \<Rightarrow> bool" where
  "coins_restorable m \<longleftrightarrow> (\<forall>p x. m p = Some x \<longrightarrow> restorable x)"

lemma height_roundtrip: "0 \<le> h \<Longrightarrow> h < 2 ^ 31 \<Longrightarrow> uint (word_of_int h :: 31 word) = h"
  by (simp add: unsigned_of_int take_bit_int_eq_self_iff)

lemma coin_new_restorable:
  assumes "0 < h" "h < 2 ^ 31" "0 \<le> sint (nValue out)" "\<not> IsUnspendable (scriptPubKey out)"
  shows "restorable (Coin_new out h cb)"
proof -
  have "(word_of_int h :: 31 word) \<noteq> 0" using height_roundtrip [of h] assms(1,2) by auto
  then show ?thesis using assms(3,4) nonneg_not_null by (auto simp: restorable_def Coin_new_def Coin_IsSpent_def CTxOut_IsNull_def)
qed

lemma tx_effect_restorable:
  assumes "coins_restorable m" "CheckTransaction tx = Valid ()" "0 < h" "h < 2 ^ 31"
  shows "coins_restorable (tx_effect F h tx m)"
  unfolding coins_restorable_def
proof (intro allI impI)
  fix p x
  assume "tx_effect F h tx m p = Some x"
  then have "x \<in> snd ` set (tx_coins F h tx) \<or> remove_points (tx_points tx) m p = Some x" unfolding tx_effect_def by (rule add_coins_range)
  then show "restorable x"
  proof
    assume "x \<in> snd ` set (tx_coins F h tx)"
    then obtain k where "k < length (vout tx)" "x = Coin_new (vout tx ! k) h (IsCoinBase tx)" "\<not> IsUnspendable (scriptPubKey (vout tx ! k))"
      unfolding tx_coins_def by (auto dest!: out_coins_point)
    then show ?thesis using CheckTransaction_valid [OF assms(2)] assms(3,4) by (auto intro!: coin_new_restorable)
  next
    assume "remove_points (tx_points tx) m p = Some x"
    then show ?thesis using assms(1) by (auto simp: remove_points_def coins_restorable_def split: if_splits)
  qed
qed

lemma tx_coins_outpoint: "(p, x) \<in> set (tx_coins F h tx) \<Longrightarrow> p \<in> set (block_outpoints F [tx])"
  unfolding tx_coins_def by (drule out_coins_point) (auto simp: block_outpoints_def)

lemma remove_tx_coins:
  assumes "\<forall>p \<in> set (block_outpoints F [tx]). m p = None"
  shows "remove_points (map fst (tx_coins F h tx)) (tx_effect F h tx m) = remove_points (tx_points tx) m"
proof
  fix p
  show "remove_points (map fst (tx_coins F h tx)) (tx_effect F h tx m) p = remove_points (tx_points tx) m p"
  proof (cases "p \<in> fst ` set (tx_coins F h tx)")
    case True
    then have "m p = None" using assms tx_coins_outpoint by fastforce
    then show ?thesis using True by (simp add: remove_points_def)
  next
    case False
    then show ?thesis by (simp add: remove_points_def [of "map fst _"] tx_effect_def add_coins_other)
  qed
qed

lemma restore_points:
  assumes "distinct ps" "\<forall>p \<in> set ps. m p \<noteq> None"
  shows "add_coins (map (\<lambda>(x, p). (p, x)) (rev (zip (map (\<lambda>p. coin_or_empty (m p)) ps) ps))) (remove_points ps m) = m"
proof
  fix p
  let ?xs = "map (\<lambda>(x, p). (p, x)) (rev (zip (map (\<lambda>p. coin_or_empty (m p)) ps) ps))"
  have xs: "?xs = rev (map (\<lambda>p. (p, coin_or_empty (m p))) ps)" by (simp add: rev_map zip_map1 zip_same_conv_map comp_def)
  show "add_coins ?xs (remove_points ps m) p = m p"
  proof (cases "p \<in> set ps")
    case True
    have "add_coins ?xs (remove_points ps m) p = Some (coin_or_empty (m p))"
      unfolding xs by (rule add_coins_mem) (use assms(1) True in \<open>auto simp: rev_map comp_def\<close>)
    then show ?thesis using assms(2) True by (auto simp: coin_or_empty_def)
  next
    case False
    then show ?thesis unfolding xs by (subst add_coins_other) (auto simp: remove_points_def)
  qed
qed

context coins_view
begin

lemma disconnect_outputs_ok:
  assumes "cache_inv utxo invar c" "i + length outs \<le> 2 ^ 32" "0 \<le> h" "h < 2 ^ 31" "\<forall>(p, x) \<in> set (out_coins txid h cb i outs). cache_utxo utxo c p = Some x"
  shows "\<exists>c'. disconnect_outputs U V txid h cb e i outs fClean c = (fClean, c') \<and> moves c (remove_points (map fst (out_coins txid h cb i outs)) (cache_utxo utxo c)) c'"
  using assms
proof (induction outs arbitrary: i c)
  case Nil
  then show ?case by (simp add: moves_def)
next
  case (Cons out outs)
  show ?case
  proof (cases "IsUnspendable (scriptPubKey out)")
    case True
    then show ?thesis using Cons.IH [of c "Suc i"] Cons.prems by simp
  next
    case False
    let ?p = "\<lparr>COutPoint.op_hash = txid, op_n = word_of_nat i\<rparr> :: COutPoint"
    obtain ok x c1 where s: "SpendCoin U V ?p c = (ok, x, c1)" by (metis prod_cases3)
    note sc = spend_coin [OF Cons.prems(1) s]
    have p: "cache_utxo utxo c ?p = Some (Coin_new out h cb)" using Cons.prems(5) False by simp
    have x: "ok" "x = Coin_new out h cb" using sc p by (simp_all add: coin_or_empty_def)
    have i1: "cache_inv utxo invar c1" and u1: "cache_utxo utxo c1 = (cache_utxo utxo c)(?p := None)" using sc by simp_all
    have d: "?p \<notin> fst ` set (out_coins txid h cb (Suc i) outs)"
      using out_coins_distinct [OF Cons.prems(2), of txid h cb] False by simp
    have "cache_utxo utxo c1 q = Some y" if q: "(q, y) \<in> set (out_coins txid h cb (Suc i) outs)" for q y
    proof -
      have "q \<noteq> ?p" using d q by force
      then show ?thesis using bspec [OF Cons.prems(5), of "(q, y)"] q by (simp add: u1)
    qed
    then have "\<forall>(q, y) \<in> set (out_coins txid h cb (Suc i) outs). cache_utxo utxo c1 q = Some y" by blast
    then obtain c2 where "disconnect_outputs U V txid h cb e (Suc i) outs fClean c1 = (fClean, c2)"
      "moves c1 (remove_points (map fst (out_coins txid h cb (Suc i) outs)) (cache_utxo utxo c1)) c2"
      using Cons.IH [OF i1, of "Suc i"] Cons.prems(2-4) by auto
    then show ?thesis using False s x sc u1 height_roundtrip [OF Cons.prems(3,4)] by (auto simp: Coin_new_def moves_def)
  qed
qed

lemma apply_undo_ok:
  assumes inv: "cache_inv utxo invar c" and x: "restorable x" and p: "cache_utxo utxo c p = None"
  shows "\<exists>c'. ApplyTxInUndo U V x p c = Valid (DISCONNECT_OK, c') \<and> moves c ((cache_utxo utxo c)(p \<mapsto> x)) c'"
proof -
  obtain r c1 where h: "HaveCoin U V p c = (r, c1)" by fastforce
  note hv = have_coin [OF inv h]
  have i1: "cache_inv utxo invar c1" and u1: "cache_utxo utxo c1 = cache_utxo utxo c" using hv by (simp_all add: same_view_def)
  have r: "\<not> r" using hv p by simp
  have "\<not> Coin_IsSpent x" "False \<or> cache_utxo utxo c1 p = None" using x p u1 by (simp_all add: restorable_def)
  from add_coin [OF i1 this] obtain c2 where "AddCoin U p x False c1 = Inr c2" "cache_inv utxo invar c2"
    "cache_utxo utxo c2 = (cache_utxo utxo c)(p \<mapsto> x)" "cache_best best c2 = cache_best best c1" "hashBlock c2 = hashBlock c1"
    using x u1 by (auto simp: restorable_def)
  then show ?thesis using h r x hv by (auto simp: ApplyTxInUndo_def restorable_def moves_def same_view_def)
qed

lemma restore_inputs_ok:
  assumes "cache_inv utxo invar c" "distinct (map snd us)" "\<forall>(x, p) \<in> set us. restorable x \<and> cache_utxo utxo c p = None"
  shows "\<exists>c'. restore_inputs U V us fClean c = Valid (Some fClean, c') \<and> moves c (add_coins (map (\<lambda>(x, p). (p, x)) us) (cache_utxo utxo c)) c'"
  using assms
proof (induction us arbitrary: c)
  case Nil
  then show ?case by (simp add: moves_def)
next
  case (Cons a us)
  obtain x p where a: "a = (x, p)" by fastforce
  have "restorable x" "cache_utxo utxo c p = None" using Cons.prems(3) a by simp_all
  from apply_undo_ok [OF Cons.prems(1) this] obtain c1 where c1: "ApplyTxInUndo U V x p c = Valid (DISCONNECT_OK, c1)" "moves c ((cache_utxo utxo c)(p \<mapsto> x)) c1"
    by blast
  have i1: "cache_inv utxo invar c1" and u1: "cache_utxo utxo c1 = (cache_utxo utxo c)(p \<mapsto> x)" using c1(2) by (simp_all add: moves_def)
  have "restorable y \<and> cache_utxo utxo c1 q = None" if q: "(y, q) \<in> set us" for y q
  proof -
    have "q \<noteq> p" using Cons.prems(2) q a by force
    then show ?thesis using bspec [OF Cons.prems(3), of "(y, q)"] q by (simp add: u1)
  qed
  then have "\<forall>(y, q) \<in> set us. restorable y \<and> cache_utxo utxo c1 q = None" by blast
  moreover have "distinct (map snd us)" using Cons.prems(2) by simp
  ultimately obtain c2 where c2: "restore_inputs U V us fClean c1 = Valid (Some fClean, c2)" "moves c1 (add_coins (map (\<lambda>(x, p). (p, x)) us) (cache_utxo utxo c1)) c2"
    using Cons.IH [OF i1] by blast
  show ?case using c1(1) c2(1) moves_trans [OF c1(2) c2(2)] by (simp add: a u1)
qed

lemma disconnect_tx_ok:
  assumes inv: "cache_inv utxo invar c" and u: "cache_utxo utxo c = tx_effect F h tx m" and ct: "CheckTransaction tx = Valid ()" and cb: "\<not> IsCoinBase tx"
    and new: "\<forall>p \<in> set (block_outpoints F [tx]). m p = None" and sp: "inputs_ok m h (vin tx)" and rs: "coins_restorable m" and h: "0 \<le> h" "h < 2 ^ 31"
  shows "\<exists>c'. disconnect_txs F U V h e ((tx, Some (tx_undo m tx)) # txs) fClean c = disconnect_txs F U V h e txs fClean c' \<and> moves c m c'"
proof -
  note tx = CheckTransaction_valid [OF ct]
  have n: "0 + length (vout tx) \<le> 2 ^ 32" using CheckTransaction_vout [OF ct] by simp
  have d: "distinct (map fst (tx_coins F h tx))" unfolding tx_coins_def by (rule out_coins_distinct [OF n])
  have "\<forall>(p, x) \<in> set (out_coins (ComputeHash F tx) h (IsCoinBase tx) 0 (vout tx)). cache_utxo utxo c p = Some x"
    unfolding u using add_coins_mem [OF d] by (auto simp: tx_effect_def tx_coins_def)
  from disconnect_outputs_ok [OF inv n h this, of U "IsCoinBase tx \<and> \<not> e" fClean]
  obtain c1 where c1: "disconnect_outputs U V (ComputeHash F tx) h (IsCoinBase tx) (IsCoinBase tx \<and> \<not> e) 0 (vout tx) fClean c = (fClean, c1)"
    "moves c (remove_points (tx_points tx) m) c1"
    using remove_tx_coins [OF new, of h] by (auto simp: u tx_coins_def)
  have i1: "cache_inv utxo invar c1" and u1: "cache_utxo utxo c1 = remove_points (tx_points tx) m" using c1(2) by (simp_all add: moves_def)
  have ps: "tx_points tx = map prevout (vin tx)" using cb by (simp add: tx_points_def)
  have av: "\<forall>p \<in> set (tx_points tx). m p \<noteq> None" using sp by (auto simp: ps inputs_ok_def)
  have dp: "distinct (tx_points tx)" using tx by (simp add: ps)
  let ?us = "rev (zip (tx_undo m tx) (tx_points tx))"
  have "distinct (map snd ?us)" using dp by (simp add: rev_map [symmetric] tx_undo_def)
  moreover have "\<forall>(x, p) \<in> set ?us. restorable x \<and> cache_utxo utxo c1 p = None"
    using av rs by (auto simp: u1 tx_undo_def remove_points_def zip_map1 zip_same_conv_map coins_restorable_def coin_or_empty_def)
  ultimately obtain c2 where c2: "restore_inputs U V ?us fClean c1 = Valid (Some fClean, c2)" "moves c1 m c2"
    using restore_inputs_ok [OF i1, of ?us U fClean] restore_points [OF dp av] by (auto simp: u1 tx_undo_def)
  have "length (tx_undo m tx) = length (vin tx)" by (simp add: tx_undo_def ps)
  then have "disconnect_txs F U V h e ((tx, Some (tx_undo m tx)) # txs) fClean c = disconnect_txs F U V h e txs fClean c2"
    using c1(1) c2(1) cb by (simp add: ps)
  then show ?thesis using moves_trans [OF c1(2) c2(2)] by blast
qed

lemma disconnect_txs_ok:
  assumes "cache_inv utxo invar c" "cache_utxo utxo c = txs_effect F h txs m" "\<forall>tx \<in> set txs. CheckTransaction tx = Valid () \<and> \<not> IsCoinBase tx"
    "outputs_new F txs m" "txs_spend F h txs m" "coins_restorable m" "0 < h" "h < 2 ^ 31"
  shows "\<exists>c'. disconnect_txs F U V h e (rev (zip txs (map Some (txs_undo F h txs m))) @ rest) fClean c = disconnect_txs F U V h e rest fClean c' \<and> moves c m c'"
  using assms
proof (induction txs arbitrary: m rest)
  case Nil
  then show ?case by (auto simp: moves_def)
next
  case (Cons tx txs)
  let ?m = "tx_effect F h tx m"
  have ct: "CheckTransaction tx = Valid ()" "\<not> IsCoinBase tx" using Cons.prems(3) by simp_all
  note new = outputs_new_Cons [OF Cons.prems(4), of h]
  have "coins_restorable ?m" by (rule tx_effect_restorable [OF Cons.prems(6) ct(1) Cons.prems(7,8)])
  then have "\<exists>c'. disconnect_txs F U V h e (rev (zip txs (map Some (txs_undo F h txs ?m))) @ (tx, Some (tx_undo m tx)) # rest) fClean c =
      disconnect_txs F U V h e ((tx, Some (tx_undo m tx)) # rest) fClean c' \<and> moves c ?m c'"
    using Cons.prems new by (intro Cons.IH) auto
  then obtain c1 where c1: "disconnect_txs F U V h e (rev (zip txs (map Some (txs_undo F h txs ?m))) @ (tx, Some (tx_undo m tx)) # rest) fClean c =
      disconnect_txs F U V h e ((tx, Some (tx_undo m tx)) # rest) fClean c1" "moves c ?m c1" by blast
  have "\<exists>c'. disconnect_txs F U V h e ((tx, Some (tx_undo m tx)) # rest) fClean c1 = disconnect_txs F U V h e rest fClean c' \<and> moves c1 m c'"
    by (rule disconnect_tx_ok) (use c1(2) ct new Cons.prems in \<open>simp_all add: moves_def\<close>)
  then show ?case using c1 moves_trans [OF c1(2)] by auto
qed

lemma disconnect_block_ok:
  assumes inv: "cache_inv utxo invar c" and u: "cache_utxo utxo c = txs_effect F (nHeight b) (vtx block) m" and body: "check_body block = Valid ()"
    and new: "outputs_new F (vtx block) m" and sp: "txs_spend F (nHeight b) (vtx block) m" and rs: "coins_restorable m" and h: "0 < nHeight b" "nHeight b < 2 ^ 31"
    and b: "mi pindex = Some b" "pprev b = Some prev" and undos: "undos = tl (txs_undo F (nHeight b) (vtx block) m)"
  shows "\<exists>c'. DisconnectBlock F U V mi (Some undos) block pindex c = Valid (DISCONNECT_OK, c') \<and>
    cache_inv utxo invar c' \<and> cache_utxo utxo c' = m \<and> hashBlock c' = prev"
proof -
  note cb = check_body_valid [OF body]
  obtain tx txs where v: "vtx block = tx # txs" using cb by (cases "vtx block") auto
  let ?h = "nHeight b" and ?m = "tx_effect F (nHeight b) tx m" and ?e = "\<not> IsBIP30Unspendable pindex b"
  have ct: "CheckTransaction tx = Valid ()" and txs: "\<forall>tx \<in> set txs. CheckTransaction tx = Valid () \<and> \<not> IsCoinBase tx" and is_cb: "IsCoinBase tx"
    using cb v by auto
  note nw = outputs_new_Cons [OF new [unfolded v], of ?h]
  have un: "undos = txs_undo F ?h txs ?m" using undos v by simp
  have len: "length undos + 1 = length (vtx block)"
  proof -
    have "length (txs_undo F ?h xs k) = length xs" for xs k by (induction xs arbitrary: k) simp_all
    then show ?thesis by (simp add: un v)
  qed
  have "\<exists>c'. disconnect_txs F U V ?h ?e (rev (zip txs (map Some (txs_undo F ?h txs ?m))) @ [(tx, None)]) True c =
      disconnect_txs F U V ?h ?e [(tx, None)] True c' \<and> moves c ?m c'"
    by (rule disconnect_txs_ok) (use inv u v txs nw sp tx_effect_restorable [OF rs ct h] h in simp_all)
  then obtain c1 where c1: "disconnect_txs F U V ?h ?e (rev (zip (vtx block) (None # map Some undos))) True c = disconnect_txs F U V ?h ?e [(tx, None)] True c1"
    "moves c ?m c1" by (auto simp: v un)
  have i1: "cache_inv utxo invar c1" and u1: "cache_utxo utxo c1 = ?m" using c1(2) by (simp_all add: moves_def)
  have n: "0 + length (vout tx) \<le> 2 ^ 32" using CheckTransaction_vout [OF ct] by simp
  have d: "distinct (map fst (tx_coins F ?h tx))" unfolding tx_coins_def by (rule out_coins_distinct [OF n])
  have "\<forall>(p, x) \<in> set (out_coins (ComputeHash F tx) ?h (IsCoinBase tx) 0 (vout tx)). cache_utxo utxo c1 p = Some x"
    unfolding u1 using add_coins_mem [OF d] by (auto simp: tx_effect_def tx_coins_def)
  from disconnect_outputs_ok [OF i1 n _ h(2) this, of U "IsCoinBase tx \<and> \<not> ?e" True] h(1)
  obtain c2 where c2: "disconnect_outputs U V (ComputeHash F tx) ?h (IsCoinBase tx) (IsCoinBase tx \<and> \<not> ?e) 0 (vout tx) True c1 = (True, c2)" "moves c1 m c2"
    using remove_tx_coins [OF conjunct1 [OF nw], of ?h] is_cb by (auto simp: u1 tx_coins_def tx_points_def)
  then have "disconnect_txs F U V ?h ?e [(tx, None)] True c1 = Valid (Some True, c2)" by simp
  then have "DisconnectBlock F U V mi (Some undos) block pindex c = Valid (DISCONNECT_OK, SetBestBlock prev c2)"
    using b len c1(1) by (simp add: DisconnectBlock_def)
  then show ?thesis using c2(2) by (auto simp: moves_def SetBestBlock_def cache_inv_def list_sane_base)
qed

end

lemma stack_connect:
  assumes "stack_inv c" "memo_sound (ce_hashes X) (ce_params X) (ce_signet X) block memo"
    "m_block_index bm pindex = Some b" "pindex \<noteq> hashGenesisBlock (ce_params X)" "no_overwrite X bm pindex b block (stack_utxo c)"
    "snd (ConnectBlock X (stack_ops (ce_usage X) full) False block pindex bm c memo) = Valid (bm', undos, c')"
  shows "check_body block = Valid () \<and> pprev b = Some (stack_best c) \<and>
    stack_inv c' \<and> stack_utxo c' = txs_effect (ce_hashes X) (nHeight b) (vtx block) (stack_utxo c) \<and> hashBlock c' = pindex \<and>
    undos = tl (txs_undo (ce_hashes X) (nHeight b) (vtx block) (stack_utxo c)) \<and>
    outputs_new (ce_hashes X) (vtx block) (stack_utxo c) \<and> txs_spend (ce_hashes X) (nHeight b) (vtx block) (stack_utxo c) \<and>
    outputs_value (vout (hd (vtx block))) \<le> txs_fees (ce_hashes X) (nHeight b) (vtx block) (stack_utxo c) + GetBlockSubsidy (nHeight b) (ce_params X)"
  using tip.connect_block_valid assms unfolding stack_ops_def stack_utxo_def stack_best_def stack_inv_def by blast

lemma stack_connect_supply:
  assumes "stack_inv c" "memo_sound (ce_hashes X) (ce_params X) (ce_signet X) block memo"
    "m_block_index bm pindex = Some b" "pindex \<noteq> hashGenesisBlock (ce_params X)" "no_overwrite X bm pindex b block (stack_utxo c)"
    "finite (dom (stack_utxo c))" "coins_nonneg (stack_utxo c)"
    "snd (ConnectBlock X (stack_ops (ce_usage X) full) False block pindex bm c memo) = Valid (bm', undos, c')"
  shows "stack_inv c' \<and> finite (dom (stack_utxo c')) \<and> coins_nonneg (stack_utxo c') \<and>
    total_value (stack_utxo c') \<le> total_value (stack_utxo c) + GetBlockSubsidy (nHeight b) (ce_params X)"
  using tip.connect_block_supply assms unfolding stack_ops_def stack_utxo_def stack_inv_def by blast

lemma stack_disconnect:
  assumes "stack_inv d" "stack_utxo d = txs_effect F (nHeight b) (vtx block) m" "check_body block = Valid ()"
    "outputs_new F (vtx block) m" "txs_spend F (nHeight b) (vtx block) m" "coins_restorable m" "0 < nHeight b" "nHeight b < 2 ^ 31"
    "mi pindex = Some b" "pprev b = Some prev"
  shows "\<exists>d'. DisconnectBlock F U (stack_ops U full) mi (Some (tl (txs_undo F (nHeight b) (vtx block) m))) block pindex d = Valid (DISCONNECT_OK, d') \<and>
    stack_inv d' \<and> stack_utxo d' = m \<and> hashBlock d' = prev"
  using tip.disconnect_block_ok assms unfolding stack_ops_def stack_utxo_def stack_inv_def by blast

subsection \<open>Chains of blocks\<close>

text \<open>
  The states a chain of \<open>n\<close> blocks after the genesis block leads to from an empty map: blocks are connected at consecutive heights, and between
  blocks the index may grow and the view may change in ways that keep the map, as when it is flushed.
\<close>

inductive chain_run :: "connect_env \<Rightarrow> nat \<Rightarrow> BlockManager \<Rightarrow> CCoinsViewDB CCoinsViewCache CCoinsViewCache \<Rightarrow> bool" for X where
  chain_start: "stack_inv c \<Longrightarrow> stack_utxo c = (\<lambda>_. None) \<Longrightarrow> chain_run X 0 bm c"
| chain_keep: "chain_run X n bm c \<Longrightarrow> stack_inv c' \<Longrightarrow> stack_utxo c' = stack_utxo c \<Longrightarrow> chain_run X n bm' c'"
| chain_connect: "chain_run X n bm c \<Longrightarrow> m_block_index bm pindex = Some b \<Longrightarrow> nHeight b = int n + 1 \<Longrightarrow> pindex \<noteq> hashGenesisBlock (ce_params X) \<Longrightarrow>
    memo_sound (ce_hashes X) (ce_params X) (ce_signet X) block memo \<Longrightarrow> no_overwrite X bm pindex b block (stack_utxo c) \<Longrightarrow>
    snd (ConnectBlock X (stack_ops (ce_usage X) full) False block pindex bm c memo) = Valid (bm', undos, c') \<Longrightarrow> chain_run X (Suc n) bm' c'"

lemma chain_run_supply:
  "chain_run X n bm c \<Longrightarrow> stack_inv c \<and> finite (dom (stack_utxo c)) \<and> coins_nonneg (stack_utxo c) \<and>
     total_value (stack_utxo c) \<le> (\<Sum>h = 1..n. GetBlockSubsidy (int h) (ce_params X))"
proof (induction rule: chain_run.induct)
  case (chain_connect n bm c pindex b block memo full bm' undos c')
  then have "stack_inv c' \<and> finite (dom (stack_utxo c')) \<and> coins_nonneg (stack_utxo c') \<and>
      total_value (stack_utxo c') \<le> total_value (stack_utxo c) + GetBlockSubsidy (int n + 1) (ce_params X)"
    using stack_connect_supply [of c X block memo bm pindex b full bm' undos c'] by simp
  then show ?case using chain_connect.IH by (simp add: add.commute)
qed (simp_all add: coins_nonneg_def)

end
