(* ===== verification/Accept.thy ===== *)
theory Accept
  imports Disconnect
begin

text \<open>
  The rules a block must obey, stated on the map of unspent outputs without caches or views, and that a block that obeys them is connected.
\<close>

subsection \<open>The rules for a transaction\<close>

fun p2sh_count :: "(COutPoint \<Rightarrow> Coin option) \<Rightarrow> CTxIn list \<Rightarrow> nat \<Rightarrow> nat" where
  "p2sh_count m [] n = n"
| "p2sh_count m (txin # ins) n =
     (let spk = scriptPubKey (coin_out (coin_or_empty (m (prevout txin))))
      in p2sh_count m ins (if IsPayToScriptHash spk then (n + GetSigOpCount_sig spk (scriptSig txin)) mod 2 ^ 32 else n))"

fun witness_count :: "(COutPoint \<Rightarrow> Coin option) \<Rightarrow> u32 \<Rightarrow> CTxIn list \<Rightarrow> nat \<Rightarrow> nat option" where
  "witness_count m fl [] n = Some n"
| "witness_count m fl (txin # ins) n =
     (case CountWitnessSigOps (scriptSig txin) (scriptPubKey (coin_out (coin_or_empty (m (prevout txin))))) (scriptWitness txin) fl of
        None \<Rightarrow> None
      | Some k \<Rightarrow> witness_count m fl ins (n + k))"

definition sigop_cost :: "(COutPoint \<Rightarrow> Coin option) \<Rightarrow> CTransaction \<Rightarrow> u32 \<Rightarrow> nat option" where
  "sigop_cost m tx fl =
     (let n = GetLegacySigOpCount tx * 4 mod 2 ^ 32
      in if IsCoinBase tx then Some n
         else witness_count m fl (vin tx) (n + (if fl AND SCRIPT_VERIFY_P2SH \<noteq> 0 then p2sh_count m (vin tx) 0 else 0) * 4 mod 2 ^ 32))"

text \<open>Mature inputs in the money range that cover the outputs, relative lock times, and scripts that verify.\<close>

definition spend_rules :: "connect_env \<Rightarrow> block_map \<Rightarrow> uint256 \<Rightarrow> CBlockIndex \<Rightarrow> bool \<Rightarrow> (COutPoint \<Rightarrow> Coin option) \<Rightarrow> CTransaction \<Rightarrow> bool" where
  "spend_rules X mi pindex b fScriptChecks m tx \<longleftrightarrow>
     inputs_ok m (nHeight b) (vin tx) \<and> MoneyRange (inputs_value m (vin tx)) \<and> outputs_value (vout tx) \<le> inputs_value m (vin tx) \<and>
     SequenceLocks mi tx (if DeploymentActiveAt b (ce_params X) DEPLOYMENT_CSV then LOCKTIME_VERIFY_SEQUENCE else 0)
       (map (\<lambda>txin. uint (coin_nHeight (coin_or_empty (m (prevout txin))))) (vin tx)) pindex = Some True \<and>
     (fScriptChecks \<longrightarrow>
        (\<exists>d. PrecomputedTransactionData_Init (ce_hashes X) tx (spent_outputs m tx) False PrecomputedTransactionData_new = Some d \<and>
           (\<forall>i < length (vin tx).
              input_verifies (ce_hashes X) (ce_secp X) tx d (GetBlockScriptFlags (ce_params X) pindex b) i (spent_outputs m tx ! i))))"

text \<open>The transactions in order, with the fees and the signature operation cost accumulated so far.\<close>

fun txs_rules ::
  "connect_env \<Rightarrow> block_map \<Rightarrow> uint256 \<Rightarrow> CBlockIndex \<Rightarrow> bool \<Rightarrow> CTransaction list \<Rightarrow> int \<Rightarrow> nat \<Rightarrow> (COutPoint \<Rightarrow> Coin option) \<Rightarrow> bool" where
  "txs_rules X mi pindex b fs [] fees cost m = True"
| "txs_rules X mi pindex b fs (tx # txs) fees cost m \<longleftrightarrow>
     (\<not> IsCoinBase tx \<longrightarrow> spend_rules X mi pindex b fs m tx) \<and> MoneyRange (fees + tx_fee m tx) \<and>
     (case sigop_cost m tx (GetBlockScriptFlags (ce_params X) pindex b) of
        None \<Rightarrow> False
      | Some k \<Rightarrow> cost + k \<le> MAX_BLOCK_SIGOPS_COST \<and>
          txs_rules X mi pindex b fs txs (fees + tx_fee m tx) (cost + k) (tx_effect (ce_hashes X) (nHeight b) tx m))"

subsection \<open>A transaction that obeys the rules is connected\<close>

context coins_view
begin

lemma access_available:
  assumes "cache_inv utxo invar c" "cache_utxo utxo c p = Some x" "AccessCoin U V p c = (y, c')"
  shows "y = x \<and> \<not> Coin_IsSpent x \<and> same_view c c'"
  using access_coin [OF assms(1,3)] assms(2) coins_view.unspent [OF cache_is_view assms(1,2)] by (simp add: coin_or_empty_def)

lemma coin_heights_exact:
  assumes "cache_inv utxo invar c"
  shows "\<exists>c'. coin_heights U V ins hs c = (hs @ map (\<lambda>txin. uint (coin_nHeight (coin_or_empty (cache_utxo utxo c (prevout txin))))) ins, c') \<and> same_view c c'"
  using assms
proof (induction ins arbitrary: c hs)
  case Nil
  then show ?case by (simp add: same_view_def)
next
  case (Cons txin ins)
  obtain x c1 where a: "AccessCoin U V (prevout txin) c = (x, c1)" by fastforce
  note ac = access_coin [OF Cons.prems a]
  have i1: "cache_inv utxo invar c1" and u1: "cache_utxo utxo c1 = cache_utxo utxo c" using ac by (simp_all add: same_view_def)
  from Cons.IH [OF i1, of "hs @ [uint (coin_nHeight x)]"] show ?case using a ac u1 by (auto simp: same_view_def)
qed

lemma p2sh_sigops_exact:
  assumes "cache_inv utxo invar c" "\<forall>txin \<in> set ins. cache_utxo utxo c (prevout txin) \<noteq> None"
  shows "\<exists>c'. p2sh_sigops U V ins n c = Valid (p2sh_count (cache_utxo utxo c) ins n, c') \<and> same_view c c'"
  using assms
proof (induction ins arbitrary: c n)
  case Nil
  then show ?case by (simp add: same_view_def)
next
  case (Cons txin ins)
  obtain x where x: "cache_utxo utxo c (prevout txin) = Some x" using Cons.prems(2) by auto
  obtain y c1 where a: "AccessCoin U V (prevout txin) c = (y, c1)" by fastforce
  note ac = access_available [OF Cons.prems(1) x a]
  have i1: "cache_inv utxo invar c1" and u1: "cache_utxo utxo c1 = cache_utxo utxo c" using ac by (simp_all add: same_view_def)
  have "\<forall>txin \<in> set ins. cache_utxo utxo c1 (prevout txin) \<noteq> None" using Cons.prems(2) u1 by simp
  from Cons.IH [OF i1 this] obtain c2 where "p2sh_sigops U V ins k c1 = Valid (p2sh_count (cache_utxo utxo c) ins k, c2 k) \<and> same_view c1 (c2 k)" for k
    unfolding u1 by metis
  then show ?case using a ac x by (auto simp: Let_def coin_or_empty_def same_view_def)
qed

lemma witness_sigops_exact:
  assumes "cache_inv utxo invar c" "\<forall>txin \<in> set ins. cache_utxo utxo c (prevout txin) \<noteq> None" "witness_count (cache_utxo utxo c) fl ins n = Some k"
  shows "\<exists>c'. witness_sigops U V fl ins n c = Valid (k, c') \<and> same_view c c'"
  using assms
proof (induction ins arbitrary: c n)
  case Nil
  then show ?case by (simp add: same_view_def)
next
  case (Cons txin ins)
  obtain x where x: "cache_utxo utxo c (prevout txin) = Some x" using Cons.prems(2) by auto
  obtain y c1 where a: "AccessCoin U V (prevout txin) c = (y, c1)" by fastforce
  note ac = access_available [OF Cons.prems(1) x a]
  have i1: "cache_inv utxo invar c1" and u1: "cache_utxo utxo c1 = cache_utxo utxo c" using ac by (simp_all add: same_view_def)
  obtain j where j: "CountWitnessSigOps (scriptSig txin) (scriptPubKey (coin_out x)) (scriptWitness txin) fl = Some j"
    "witness_count (cache_utxo utxo c1) fl ins (n + j) = Some k"
    using Cons.prems(3) x u1 by (auto simp: coin_or_empty_def split: option.splits)
  have "\<forall>txin \<in> set ins. cache_utxo utxo c1 (prevout txin) \<noteq> None" using Cons.prems(2) u1 by simp
  from Cons.IH [OF i1 this j(2)] show ?case using a ac j(1) by (auto simp: same_view_def)
qed

lemma sigop_cost_exact:
  assumes inv: "cache_inv utxo invar c" and av: "\<not> IsCoinBase tx \<longrightarrow> (\<forall>txin \<in> set (vin tx). cache_utxo utxo c (prevout txin) \<noteq> None)"
    and k: "sigop_cost (cache_utxo utxo c) tx fl = Some k"
  shows "\<exists>c'. GetTransactionSigOpCost U V tx fl c = Valid (k, c') \<and> same_view c c'"
proof (cases "IsCoinBase tx")
  case True
  then show ?thesis using k inv by (simp add: GetTransactionSigOpCost_def sigop_cost_def Let_def same_view_def)
next
  case False
  have av: "\<forall>txin \<in> set (vin tx). cache_utxo utxo c (prevout txin) \<noteq> None" using av False by simp
  let ?n = "if fl AND SCRIPT_VERIFY_P2SH \<noteq> 0 then p2sh_count (cache_utxo utxo c) (vin tx) 0 else 0"
  obtain c1 where c1: "(if fl AND SCRIPT_VERIFY_P2SH \<noteq> 0 then GetP2SHSigOpCount U V tx c else Valid (0, c)) = Valid (?n, c1)" "same_view c c1"
  proof (cases "fl AND SCRIPT_VERIFY_P2SH \<noteq> 0")
    case True
    then show ?thesis using that p2sh_sigops_exact [OF inv av, of U 0] False by (auto simp: GetP2SHSigOpCount_def)
  next
    case no: False
    then show ?thesis using that [of c] inv by (simp add: same_view_def)
  qed
  have i1: "cache_inv utxo invar c1" and u1: "cache_utxo utxo c1 = cache_utxo utxo c" using c1(2) by (simp_all add: same_view_def)
  have "\<exists>c'. witness_sigops U V fl (vin tx) (GetLegacySigOpCount tx * 4 mod 2 ^ 32 + ?n * 4 mod 2 ^ 32) c1 = Valid (k, c') \<and> same_view c1 c'"
    by (rule witness_sigops_exact [OF i1]) (use av k False in \<open>simp_all only: u1 sigop_cost_def Let_def if_False\<close>)
  then obtain c2 where c2: "witness_sigops U V fl (vin tx) (GetLegacySigOpCount tx * 4 mod 2 ^ 32 + ?n * 4 mod 2 ^ 32) c1 = Valid (k, c2)" "same_view c1 c2" by blast
  have "GetTransactionSigOpCost U V tx fl c = Valid (k, c2)"
    using False c1(1) c2(1) by (simp only: GetTransactionSigOpCost_def Let_def if_False vbind_simps prod.case)
  then show ?thesis using c1(2) c2(2) by (auto simp: same_view_def)
qed

lemma check_spend_accepts:
  assumes inv: "cache_inv utxo invar c" and cb: "\<not> IsCoinBase tx" and ct: "CheckTransaction tx = Valid ()"
    and r: "spend_rules X mi pindex b fs (cache_utxo utxo c) tx" and f: "MoneyRange (fees + tx_fee (cache_utxo utxo c) tx)"
  shows "\<exists>c'. check_spend X V mi pindex b tx fees c = Valid (fees + tx_fee (cache_utxo utxo c) tx, c') \<and> same_view c c'"
proof -
  let ?m = "cache_utxo utxo c" and ?fee = "tx_fee (cache_utxo utxo c) tx"
  note tx = CheckTransaction_valid [OF ct]
  have "\<exists>c'. CheckTxInputs (ce_usage X) V tx (nHeight b) c = Valid (?fee, c')"
    by (rule iffD2 [OF check_tx_inputs_iff [OF inv cb]]) (use r tx cb in \<open>simp add: spend_rules_def tx_fee_def\<close>)
  then obtain c1 where c1: "CheckTxInputs (ce_usage X) V tx (nHeight b) c = Valid (?fee, c1)" by blast
  have s1: "same_view c c1" by (rule check_tx_inputs_view [OF inv c1])
  have i1: "cache_inv utxo invar c1" and u1: "cache_utxo utxo c1 = ?m" using s1 by (simp_all add: same_view_def)
  obtain c2 where c2: "coin_heights (ce_usage X) V (vin tx) [] c1 = (map (\<lambda>txin. uint (coin_nHeight (coin_or_empty (?m (prevout txin))))) (vin tx), c2)" "same_view c1 c2"
    using coin_heights_exact [OF i1, of "ce_usage X" "vin tx" "[]"] u1 by auto
  have sl: "SequenceLocks mi tx (if DeploymentActiveAt b (ce_params X) DEPLOYMENT_CSV then LOCKTIME_VERIFY_SEQUENCE else 0)
      (map (\<lambda>txin. uint (coin_nHeight (coin_or_empty (?m (prevout txin))))) (vin tx)) pindex = Some True" using r by (simp add: spend_rules_def)
  have "check_spend X V mi pindex b tx fees c = Valid (fees + ?fee, c2)"
    using f unfolding check_spend_def c1 vbind_simps prod.case c2(1) Let_def sl by simp
  then show ?thesis using s1 c2(2) by (auto simp: same_view_def)
qed

lemma input_scripts_accept:
  assumes inv: "cache_inv utxo invar c" and cb: "\<not> IsCoinBase tx" and sound: "sig_cache_sound (ce_hashes X) (ce_secp X) (ce_cache X)"
    and r: "spend_rules X mi pindex b True (cache_utxo utxo c) tx"
  shows "\<exists>c'. CheckInputScripts (ce_hashes X) (ce_secp X) (ce_cache X) U V tx (GetBlockScriptFlags (ce_params X) pindex b) PrecomputedTransactionData_new c = Valid c' \<and>
    same_view c c'"
proof (cases "script_held (ce_cache X) (script_cache_entry (ce_hashes X) (ce_cache X) tx (GetBlockScriptFlags (ce_params X) pindex b))")
  case True
  then show ?thesis using cb inv by (simp add: CheckInputScripts_def same_view_def)
next
  case False
  have av: "\<forall>txin \<in> set (vin tx). cache_utxo utxo c (prevout txin) \<noteq> None" using r by (auto simp: spend_rules_def inputs_ok_def)
  obtain d where d: "PrecomputedTransactionData_Init (ce_hashes X) tx (spent_outputs (cache_utxo utxo c) tx) False PrecomputedTransactionData_new = Some d"
    "\<forall>i < length (vin tx). input_verifies (ce_hashes X) (ce_secp X) tx d (GetBlockScriptFlags (ce_params X) pindex b) i (spent_outputs (cache_utxo utxo c) tx ! i)"
    using r by (auto simp: spend_rules_def)
  from check_input_scripts [OF inv cb av False sound, of U] d
  have "\<exists>c'. CheckInputScripts (ce_hashes X) (ce_secp X) (ce_cache X) U V tx (GetBlockScriptFlags (ce_params X) pindex b) PrecomputedTransactionData_new c = Valid c'"
    by (metis option.inject)
  then show ?thesis using check_input_scripts_view [OF inv av] by blast
qed

lemma connect_tx_accepts:
  assumes inv: "cache_inv utxo invar c" and ct: "CheckTransaction tx = Valid ()" and new: "\<forall>p \<in> set (block_outpoints (ce_hashes X) [tx]). cache_utxo utxo c p = None"
    and sound: "sig_cache_sound (ce_hashes X) (ce_secp X) (ce_cache X)"
    and r: "\<not> IsCoinBase tx \<longrightarrow> spend_rules X mi pindex b fs (cache_utxo utxo c) tx" and f: "MoneyRange (fees + tx_fee (cache_utxo utxo c) tx)"
    and k: "sigop_cost (cache_utxo utxo c) tx (GetBlockScriptFlags (ce_params X) pindex b) = Some k" "cost + k \<le> MAX_BLOCK_SIGOPS_COST"
  shows "\<exists>undos' c'. connect_tx X V mi pindex b fs i tx (fees, cost, undos, c) = Valid (fees + tx_fee (cache_utxo utxo c) tx, cost + k, undos', c') \<and>
    moves c (tx_effect (ce_hashes X) (nHeight b) tx (cache_utxo utxo c)) c'"
proof -
  let ?fl = "GetBlockScriptFlags (ce_params X) pindex b" and ?U = "ce_usage X" and ?m = "cache_utxo utxo c"
  note tx = CheckTransaction_valid [OF ct]
  have av: "\<not> IsCoinBase tx \<longrightarrow> (\<forall>txin \<in> set (vin tx). ?m (prevout txin) \<noteq> None)" using r by (auto simp: spend_rules_def inputs_ok_def)
  obtain c1 where 1: "(if \<not> IsCoinBase tx then check_spend X V mi pindex b tx fees c else Valid (fees, c)) = Valid (fees + tx_fee ?m tx, c1)" "same_view c c1"
  proof (cases "IsCoinBase tx")
    case True
    then show ?thesis using that [of c] inv by (simp add: tx_fee_def same_view_def)
  next
    case False
    then have r': "spend_rules X mi pindex b fs ?m tx" using r by simp
    show ?thesis using that check_spend_accepts [OF inv False ct r' f] unfolding if_P [OF False] by blast
  qed
  have i1: "cache_inv utxo invar c1" and u1: "cache_utxo utxo c1 = ?m" using 1(2) by (simp_all add: same_view_def)
  obtain c2 where 2: "GetTransactionSigOpCost ?U V tx ?fl c1 = Valid (k, c2)" "same_view c1 c2"
    using sigop_cost_exact [OF i1, of tx ?fl k ?U] av k(1) u1 by auto
  have i2: "cache_inv utxo invar c2" and u2: "cache_utxo utxo c2 = ?m" using 2(2) u1 by (simp_all add: same_view_def)
  let ?s = "if \<not> IsCoinBase tx \<and> fs then CheckInputScripts (ce_hashes X) (ce_secp X) (ce_cache X) ?U V tx ?fl PrecomputedTransactionData_new c2 else Valid c2"
  obtain c3 where 3: "?s = Valid c3" "same_view c2 c3"
  proof (cases "\<not> IsCoinBase tx \<and> fs")
    case True
    then have "\<not> IsCoinBase tx" "spend_rules X mi pindex b True (cache_utxo utxo c2) tx" using r u2 by auto
    from input_scripts_accept [OF i2 this(1) sound this(2), of ?U] obtain c3 where
      "CheckInputScripts (ce_hashes X) (ce_secp X) (ce_cache X) ?U V tx ?fl PrecomputedTransactionData_new c2 = Valid c3" "same_view c2 c3" by blast
    then show ?thesis using that [of c3] unfolding if_P [OF True] by blast
  next
    case False
    then show ?thesis using that [of c2] i2 unfolding if_not_P [OF False] by (simp add: same_view_def)
  qed
  have i3: "cache_inv utxo invar c3" and u3: "cache_utxo utxo c3 = ?m" using 3(2) u2 by (simp_all add: same_view_def)
  have val: "\<forall>out \<in> set (vout tx). nValue out \<noteq> - 1" using tx nonneg_not_null by blast
  have d: "distinct (map prevout (vin tx))" using tx by blast
  have "\<exists>c'. UpdateCoins (ce_hashes X) ?U V tx (nHeight b) c3 = Valid (tx_undo (cache_utxo utxo c3) tx, c') \<and>
      moves c3 (tx_effect (ce_hashes X) (nHeight b) tx (cache_utxo utxo c3)) c'"
    by (rule update_coins [OF i3 d val CheckTransaction_vout [OF ct]]) (use av new in \<open>simp_all add: u3\<close>)
  then obtain u c4 where 4: "UpdateCoins (ce_hashes X) ?U V tx (nHeight b) c3 = Valid (u, c4)" "moves c3 (tx_effect (ce_hashes X) (nHeight b) tx ?m) c4"
    unfolding u3 by blast
  have le: "\<not> cost + k > MAX_BLOCK_SIGOPS_COST" using k(2) by simp
  have "connect_tx X V mi pindex b fs i tx (fees, cost, undos, c) =
      Valid (fees + tx_fee ?m tx, cost + k, if i > 0 then undos @ [u] else undos, c4)"
    unfolding connect_tx_def Let_def prod.case 1(1) vbind_simps 2(1) if_not_P [OF le] 3(1) 4(1) ..
  moreover have "moves c (tx_effect (ce_hashes X) (nHeight b) tx ?m) c4"
    using 1(2) 2(2) 3(2) 4(2) by (simp add: same_view_def moves_def)
  ultimately show ?thesis by blast
qed

lemma connect_txs_accepts:
  assumes "cache_inv utxo invar c" "\<forall>tx \<in> set txs. CheckTransaction tx = Valid ()" "outputs_new (ce_hashes X) txs (cache_utxo utxo c)"
    "sig_cache_sound (ce_hashes X) (ce_secp X) (ce_cache X)" "txs_rules X mi pindex b fs txs fees cost (cache_utxo utxo c)"
  shows "\<exists>st. connect_txs X V mi pindex b fs i txs (fees, cost, undos, c) = Valid st"
  using assms
proof (induction txs arbitrary: i fees cost undos c)
  case (Cons tx txs)
  let ?m = "cache_utxo utxo c"
  obtain k where k: "sigop_cost ?m tx (GetBlockScriptFlags (ce_params X) pindex b) = Some k" "cost + k \<le> MAX_BLOCK_SIGOPS_COST"
    "txs_rules X mi pindex b fs txs (fees + tx_fee ?m tx) (cost + k) (tx_effect (ce_hashes X) (nHeight b) tx ?m)"
    "\<not> IsCoinBase tx \<longrightarrow> spend_rules X mi pindex b fs ?m tx" "MoneyRange (fees + tx_fee ?m tx)"
    using Cons.prems(5) by (auto split: option.splits)
  note new = outputs_new_Cons [OF Cons.prems(3), where h = "nHeight b"]
  have ct: "CheckTransaction tx = Valid ()" using Cons.prems(2) by simp
  obtain undos' c' where t: "connect_tx X V mi pindex b fs i tx (fees, cost, undos, c) = Valid (fees + tx_fee ?m tx, cost + k, undos', c')"
    "moves c (tx_effect (ce_hashes X) (nHeight b) tx ?m) c'"
    using connect_tx_accepts [OF Cons.prems(1) ct conjunct1 [OF new] Cons.prems(4) k(4,5,1,2)] by blast
  have "cache_inv utxo invar c'" "cache_utxo utxo c' = tx_effect (ce_hashes X) (nHeight b) tx ?m" using t(2) by (simp_all add: moves_def)
  then have "\<exists>st. connect_txs X V mi pindex b fs (i + 1) txs (fees + tx_fee ?m tx, cost + k, undos', c') = Valid st"
    using Cons.prems(2,4) new k(3) by (intro Cons.IH) simp_all
  then show ?case using t(1) by simp
qed simp

lemma connect_body_accepts:
  assumes inv: "cache_inv utxo invar c" and body: "check_body block = Valid ()" and new: "outputs_new (ce_hashes X) (vtx block) (cache_utxo utxo c)"
    and sound: "sig_cache_sound (ce_hashes X) (ce_secp X) (ce_cache X)" and fs: "script_checks X (m_block_index bm) pindex b = Some fs"
    and r: "txs_rules X (m_block_index bm) pindex b fs (vtx block) 0 0 (cache_utxo utxo c)"
    and v: "outputs_value (vout (hd (vtx block))) \<le> txs_fees (ce_hashes X) (nHeight b) (vtx block) (cache_utxo utxo c) + GetBlockSubsidy (nHeight b) (ce_params X)"
    and w: "\<forall>undos. \<exists>bm' b'. ce_write_undo X undos pindex bm = Some bm' \<and> m_block_index bm' pindex = Some b'"
  shows "\<exists>r. connect_body X V False block pindex b prev bm c = Valid r"
proof -
  note cb = check_body_valid [OF body]
  have cts: "\<forall>tx \<in> set (vtx block). CheckTransaction tx = Valid ()" using cb by blast
  obtain overwrites c1 where o: "(if enforce_BIP30 (ce_params X) (m_block_index bm) pindex b prev
      then find_overwrite (ce_usage X) V (block_outpoints (ce_hashes X) (vtx block)) False c else (False, c)) = (overwrites, c1)" by fastforce
  have no: "\<not> overwrites \<and> same_view c c1"
  proof (cases "enforce_BIP30 (ce_params X) (m_block_index bm) pindex b prev")
    case True
    from find_overwrite [OF inv o [unfolded if_P [OF True]]] show ?thesis using new by (auto simp: outputs_new_def)
  next
    case False
    then show ?thesis using o inv by (simp add: same_view_def)
  qed
  have i1: "cache_inv utxo invar c1" and u1: "cache_utxo utxo c1 = cache_utxo utxo c" using no by (simp_all add: same_view_def)
  obtain fees cost undos c2 where t: "connect_txs X V (m_block_index bm) pindex b fs 0 (vtx block) (0, 0, [], c1) = Valid (fees, cost, undos, c2)"
    using connect_txs_accepts [OF i1 cts _ sound, of "m_block_index bm" pindex b fs 0 0 0 "[]"] new r u1 by auto
  have f: "fees = txs_fees (ce_hashes X) (nHeight b) (vtx block) (cache_utxo utxo c)"
    using connect_txs_valid [OF i1 cts _ t] new u1 by simp
  have "vtx block \<noteq> []" "CheckTransaction (vtx block ! 0) = Valid ()" using cb by simp_all
  then have g: "GetValueOut (vtx block ! 0) = Some (outputs_value (vout (hd (vtx block))))" using CheckTransaction_valid by (simp add: hd_conv_nth)
  obtain bm' b' where bm': "ce_write_undo X undos pindex bm = Some bm'" "m_block_index bm' pindex = Some b'" using w by blast
  have "IsValid b' BLOCK_VALID_SCRIPTS \<noteq> None" "RaiseValidity b' BLOCK_VALID_SCRIPTS \<noteq> None"
    by (auto simp: IsValid_def RaiseValidity_def BLOCK_VALID_SCRIPTS_def BLOCK_VALID_MASK_def intro: exI [of _ True] exI [of _ False])
  then have "\<exists>r. finish_connect X pindex undos bm c2 = Valid r"
    using bm' by (auto simp: finish_connect_def split: bool.split)
  then show ?thesis
    using no v f unfolding connect_body_def Let_def o prod.case fs g option.case t by auto
qed

lemma connect_block_accepts:
  assumes inv: "cache_inv utxo invar c" and memo: "memo_sound (ce_hashes X) (ce_params X) (ce_signet X) block memo"
    and cb: "snd (CheckBlock (ce_hashes X) (ce_params X) (ce_signet X) block True True no_memo) = Valid ()"
    and b: "m_block_index bm (CBlock_GetHash (ce_hashes X) block) = Some b" "pprev b = Some (cache_best best c)"
    and new: "outputs_new (ce_hashes X) (vtx block) (cache_utxo utxo c)"
    and sound: "sig_cache_sound (ce_hashes X) (ce_secp X) (ce_cache X)"
    and fs: "script_checks X (m_block_index bm) (CBlock_GetHash (ce_hashes X) block) b = Some fs"
    and r: "txs_rules X (m_block_index bm) (CBlock_GetHash (ce_hashes X) block) b fs (vtx block) 0 0 (cache_utxo utxo c)"
    and v: "outputs_value (vout (hd (vtx block))) \<le> txs_fees (ce_hashes X) (nHeight b) (vtx block) (cache_utxo utxo c) + GetBlockSubsidy (nHeight b) (ce_params X)"
    and w: "\<forall>undos. \<exists>bm' b'. ce_write_undo X undos (CBlock_GetHash (ce_hashes X) block) bm = Some bm' \<and> m_block_index bm' (CBlock_GetHash (ce_hashes X) block) = Some b'"
  shows "\<exists>r. snd (ConnectBlock X V False block (CBlock_GetHash (ce_hashes X) block) bm c memo) = Valid r"
proof -
  obtain memo1 rr where m1: "CheckBlock (ce_hashes X) (ce_params X) (ce_signet X) block True True memo = (memo1, rr)" by fastforce
  have rr: "rr = Valid ()" using CheckBlock_memo [OF memo, of True True] cb m1 by simp
  have body: "check_body block = Valid ()" by (rule CheckBlock_valid [OF memo, of True True]) (simp add: m1 rr)
  obtain h c1 where h: "cache_GetBestBlock V c = (h, c1)" by fastforce
  note gb = get_best_block [OF inv h]
  have i1: "cache_inv utxo invar c1" and u1: "cache_utxo utxo c1 = cache_utxo utxo c" and hb: "h = cache_best best c" using gb by simp_all
  have "\<exists>r. connect_body X V False block (CBlock_GetHash (ce_hashes X) block) b (cache_best best c) bm c1 = Valid r"
    by (rule connect_body_accepts [OF i1 body _ sound fs]) (use new r v w u1 in simp_all)
  then show ?thesis using b m1 rr h hb by (auto simp: ConnectBlock_def)
qed

end

lemma stack_accepts:
  assumes "stack_inv c" "memo_sound (ce_hashes X) (ce_params X) (ce_signet X) block memo"
    "snd (CheckBlock (ce_hashes X) (ce_params X) (ce_signet X) block True True no_memo) = Valid ()"
    "pindex = CBlock_GetHash (ce_hashes X) block" "m_block_index bm pindex = Some b" "pprev b = Some (stack_best c)"
    "outputs_new (ce_hashes X) (vtx block) (stack_utxo c)" "sig_cache_sound (ce_hashes X) (ce_secp X) (ce_cache X)"
    "script_checks X (m_block_index bm) pindex b = Some fs" "txs_rules X (m_block_index bm) pindex b fs (vtx block) 0 0 (stack_utxo c)"
    "outputs_value (vout (hd (vtx block))) \<le> txs_fees (ce_hashes X) (nHeight b) (vtx block) (stack_utxo c) + GetBlockSubsidy (nHeight b) (ce_params X)"
    "\<forall>undos. \<exists>bm' b'. ce_write_undo X undos pindex bm = Some bm' \<and> m_block_index bm' pindex = Some b'"
  shows "\<exists>bm' undos c'. snd (ConnectBlock X (stack_ops (ce_usage X) full) False block pindex bm c memo) = Valid (bm', undos, c')"
proof -
  have "\<exists>r. snd (ConnectBlock X (stack_ops (ce_usage X) full) False block pindex bm c memo) = Valid r"
    unfolding assms(4) stack_ops_def
    by (rule tip.connect_block_accepts)
      (use assms in \<open>simp_all add: stack_inv_def stack_utxo_def stack_best_def\<close>)
  then show ?thesis by (metis prod_cases3)
qed

end
