(* ===== verification/BlockProps.thy ===== *)
theory BlockProps
  imports Accept
begin

text \<open>
  What connecting and disconnecting blocks guarantees, on the tip's stack of views: a block that obeys the rules is connected, no value is created beyond
  the subsidy, the supply is capped, and disconnecting a connected block restores the map of unspent outputs. An example block that spends a funded
  output, with hash functions and a proof-of-work limit it meets, shows that the hypotheses hold together.
\<close>

section \<open>An example\<close>

text \<open>A hash that maps a message to its length, which keeps the identifiers below small.\<close>

definition length_hashes :: hash_functions where
  "length_hashes = \<lparr>SHA256 = (\<lambda>bs. if length bs = 32 then bs else word_of_nat (length bs) # replicate 31 0), RIPEMD160 = (\<lambda>_. replicate 20 0), SHA1 = (\<lambda>_. replicate 20 0)\<rparr>"

lemma nat_of_le_zeros: "nat_of_le (replicate n 0) = 0"
  by (induction n) simp_all

lemma length_hash: "length bs \<noteq> 32 \<Longrightarrow> HashWriter_GetHash length_hashes bs = word_of_nat (length bs mod 256)"
  by (simp add: HashWriter_GetHash_def length_hashes_def uint256_of_bytes_def nat_of_le_zeros unat_of_nat_u8)

definition connect_params :: ConsensusParams where
  "connect_params = example_consensus\<lparr>pow := (pow example_consensus)\<lparr>powLimit := 100\<rparr>\<rparr>"

definition connect_example :: connect_env where
  "connect_example =
     \<lparr>ce_hashes = length_hashes, ce_secp = example_secp, ce_cache = empty_caches, ce_params = connect_params, ce_usage = example_usage,
      AssumedValidBlock = 0, m_best_header = 0, MinimumChainWork = [], ce_signet = (\<lambda>_. True), ce_write_undo = (\<lambda>_ _ bm. Some bm)\<rparr>"

definition coinbase_tx :: CTransaction where
  "coinbase_tx = \<lparr>vin = [\<lparr>prevout = \<lparr>COutPoint.op_hash = 0, op_n = COutPoint_NULL_INDEX\<rparr>, scriptSig = [1, 8], nSequence = 0, scriptWitness = []\<rparr>],
     vout = [\<lparr>nValue = 5000000000, scriptPubKey = [0x51]\<rparr>], version = 1, nLockTime = 0\<rparr>"

definition connect_block :: "CTransaction list \<Rightarrow> CBlock" where
  "connect_block txs =
     \<lparr>header = \<lparr>nVersion = 1, hashPrevBlock = 1, hashMerkleRoot = fst (ComputeMerkleRoot (merkle_hash length_hashes) (map (ComputeHash length_hashes) txs)), nTime = 1000, nBits = 0x03000060, nNonce = 0\<rparr>,
      vtx = txs\<rparr>"

definition connect_index :: "int \<Rightarrow> BlockManager" where
  "connect_index h =
     \<lparr>m_block_index = [1 \<mapsto> (CBlockIndex_new CBlockHeader_SetNull)\<lparr>nHeight := h\<rparr>, 80 \<mapsto> (CBlockIndex_new CBlockHeader_SetNull)\<lparr>nHeight := h + 1, pprev := Some 1\<rparr>],
      m_dirty_blockindex = {}, best_header = None\<rparr>"

lemmas length_defs = Ser_CBlockHeader_def SerializeTransaction_def VectorFormatter_Ser_def Ser_CTxIn_def Ser_CTxOut_def Ser_COutPoint_def
  ser_writedata8_def ser_writedata32_def ser_writedata64_def ser_uint256_def Serialize_bytes_def WriteCompactSize_def

lemma header_hash: "CBlock_GetHash length_hashes (connect_block txs) = 80"
proof -
  have "length (Ser_CBlockHeader h) = 80" for h by (simp add: length_defs)
  then show ?thesis by (simp add: CBlock_GetHash_def CBlockHeader_GetHash_def length_hash)
qed

lemma lens: "length (SerializeTransaction False coinbase_tx) = 63" "length (SerializeTransaction False spending_tx) = 61"
  by (simp_all add: coinbase_tx_def spending_tx_def length_defs)

lemma target: "compact_target 0x03000060 = Some 0x60"
  by (simp add: compact_target_def compact_value_def)

lemma sigs: "GetSigOpCount [1, 8] False = 0" "GetSigOpCount [] False = 0" "GetSigOpCount [0x51] False = 0"
  by code_simp+

lemma sig0: "GetLegacySigOpCount coinbase_tx = 0" "GetLegacySigOpCount spending_tx = 0"
  by (simp_all add: GetLegacySigOpCount_def coinbase_tx_def spending_tx_def sigs)

lemma ctx: "CheckTransaction coinbase_tx = Valid ()" "CheckTransaction spending_tx = Valid ()"
  using lens by (simp_all add: CheckTransaction_def coinbase_tx_def spending_tx_def MAX_BLOCK_WEIGHT_def MoneyRange_def MAX_MONEY_def COIN_def
     IsCoinBase_def COutPoint_IsNull_def example_outpoint_def)


lemma txids: "ComputeHash length_hashes coinbase_tx = 63" "ComputeHash length_hashes spending_tx = 61"
  by (simp_all add: ComputeHash_def length_hash lens)

lemma proof_of_work: "CheckProofOfWorkImpl 80 0x03000060 (pow connect_params)"
proof -
  note t = DeriveTarget_eq [where bits = "0x03000060" and limit = 100, unfolded target option.case]
  obtain b where b: "DeriveTarget 0x03000060 100 = Some b" using t by (cases "DeriveTarget 0x03000060 100") simp_all
  then show ?thesis using t by (simp add: CheckProofOfWorkImpl_def connect_params_def example_consensus_def bval_CompareTo bval_UintToArith256)
qed

lemma coinbase: "IsCoinBase coinbase_tx" "\<not> IsCoinBase spending_tx"
  by (simp_all add: coinbase_tx_def spending_tx_def IsCoinBase_def COutPoint_IsNull_def example_outpoint_def)

lemma length_Ser_CBlock: "length (Ser_CBlock False (connect_block txs)) =
    80 + length (WriteCompactSize (word_of_nat (length txs))) + sum_list (map (\<lambda>tx. length (SerializeTransaction False tx)) txs)"
  by (simp add: Ser_CBlock_def connect_block_def VectorFormatter_Ser_def Ser_CBlockHeader_def ser_writedata32_def ser_uint256_def length_concat comp_def)

lemma bodies: "check_body (connect_block [coinbase_tx]) = Valid ()" "check_body (connect_block [coinbase_tx, spending_tx]) = Valid ()"
  unfolding check_body_def length_Ser_CBlock
  by (simp_all add: connect_block_def MAX_BLOCK_WEIGHT_def WriteCompactSize_def ser_writedata8_def lens coinbase ctx sig0 Let_def)

lemma pair_root: "ComputeMerkleRoot (merkle_hash length_hashes) [63, 61] = (merkle_hash length_hashes 63 61, False)"
  unfolding ComputeMerkleRoot_def by (subst ComputeMerkleRoot_loop.simps, subst ComputeMerkleRoot_loop.simps) (simp add: merkle_pad_def)

lemma single_root: "ComputeMerkleRoot H [x] = (x, False)"
  unfolding ComputeMerkleRoot_def by (subst ComputeMerkleRoot_loop.simps) simp

lemma roots: "snd (BlockMerkleRoot length_hashes (connect_block [coinbase_tx])) = False" "snd (BlockMerkleRoot length_hashes (connect_block [coinbase_tx, spending_tx])) = False"
  by (simp_all add: BlockMerkleRoot_def connect_block_def txids pair_root single_root)


lemma connect_block_checked:
  assumes "check_body (connect_block txs) = Valid ()" "snd (BlockMerkleRoot length_hashes (connect_block txs)) = False"
  shows "snd (CheckBlock length_hashes connect_params (\<lambda>_. True) (connect_block txs) True True no_memo) = Valid ()"
proof -
  have "snd (CheckMerkleRoot length_hashes (connect_block txs) no_memo) = Valid ()"
    using assms(2) unfolding CheckMerkleRoot_no_memo by (simp add: connect_block_def BlockMerkleRoot_def case_prod_beta)
  moreover have "CheckBlockHeader length_hashes connect_params (connect_block txs) True = Valid ()"
    unfolding CheckBlockHeader_def header_hash using proof_of_work by (simp add: connect_block_def)
  ultimately show ?thesis unfolding CheckBlock_no_memo using assms(1) by simp
qed

lemma anyone_can_spend_flags:
  "VerifyScript \<lparr>hashes = F, secp = E, flags = 0x20801, checker = ch, sigversion = BASE\<rparr> [] [0x51] [] = Ret ()"
  by code_simp

lemma no_witness_sigops: "CountWitnessSigOps [] [0x51] [] 0x20801 = Some 0"
  by code_simp

definition connect_entry :: "int \<Rightarrow> CBlockIndex" where
  "connect_entry h = (CBlockIndex_new CBlockHeader_SetNull)\<lparr>nHeight := h + 1, pprev := Some 1\<rparr>"

lemma connect_entry: "m_block_index (connect_index h) 80 = Some (connect_entry h)" "nHeight (connect_entry h) = h + 1" "pprev (connect_entry h) = Some 1"
  by (simp_all add: connect_index_def connect_entry_def)

lemma example_flags: "h < 999 \<Longrightarrow> GetBlockScriptFlags connect_params 80 (connect_entry h) = 0x20801"
  by (simp add: GetBlockScriptFlags_def connect_params_def example_consensus_def DeploymentActiveAt_def DeploymentHeight_def connect_entry
     SCRIPT_VERIFY_P2SH_def SCRIPT_VERIFY_WITNESS_def SCRIPT_VERIFY_TAPROOT_def)

lemma example_env:
  "ce_hashes connect_example = length_hashes" "ce_secp connect_example = example_secp" "ce_params connect_example = connect_params"
  "ce_signet connect_example = (\<lambda>_. True)" "ce_usage connect_example = example_usage" "ce_write_undo connect_example = (\<lambda>_ _ bm. Some bm)"
  "script_checks connect_example mi pindex b = Some True"
  "sig_cache_sound length_hashes example_secp (ce_cache connect_example)"
  by (simp_all add: connect_example_def script_checks_def sig_cache_sound_def empty_caches_def)

lemma coinbase_cost: "sigop_cost m coinbase_tx fl = Some 0"
  by (simp add: sigop_cost_def coinbase sig0)

lemma example_coins:
  "tx_coins length_hashes h coinbase_tx = [(\<lparr>COutPoint.op_hash = 63, op_n = 0\<rparr>, Coin_new \<lparr>nValue = 5000000000, scriptPubKey = [0x51]\<rparr> h True)]"
proof -
  have "\<not> IsUnspendable [0x51]" using example_coin_spendable by (simp add: example_coin_def)
  then show ?thesis by (simp add: tx_coins_def txids coinbase(1)) (simp add: coinbase_tx_def)
qed

lemma example_subsidy: "0 \<le> h \<Longrightarrow> h < 1000 \<Longrightarrow> GetBlockSubsidy h connect_params = 5000000000"
  by (simp add: GetBlockSubsidy_def connect_params_def example_consensus_def COIN_def signed_divide_int_def)

lemma coinbase_rules: "txs_rules connect_example mi pindex b True [coinbase_tx] 0 0 m"
  by (simp add: coinbase coinbase_cost tx_fee_def MoneyRange_def MAX_MONEY_def COIN_def MAX_BLOCK_SIGOPS_COST_def)

lemma spending_rules:
  assumes "m example_outpoint = Some example_coin"
  shows "spend_rules connect_example (m_block_index (connect_index 7)) 80 (connect_entry 7) True m spending_tx"
proof -
  have o: "spent_outputs m spending_tx = [coin_out example_coin]" using assms by (simp add: spent_outputs_def spending_tx_def coin_or_empty_def)
  have v: "input_verifies length_hashes example_secp spending_tx d 0x20801 0 (coin_out example_coin)" for d
    using anyone_can_spend_flags by (simp add: input_verifies_def spending_tx_def example_coin_def)
  have "length (spent_outputs m spending_tx) = length (vin spending_tx)" by (simp add: spent_outputs_def)
  from Init_defined [OF this, of length_hashes False] obtain d where d:
    "PrecomputedTransactionData_Init length_hashes spending_tx (spent_outputs m spending_tx) False PrecomputedTransactionData_new = Some d" by blast
  have "inputs_ok m 8 (vin spending_tx)" "inputs_value m (vin spending_tx) = 50" "outputs_value (vout spending_tx) = 45" "MoneyRange 50"
    using assms by (simp_all add: inputs_ok_def inputs_value_def outputs_value_def coin_or_empty_def spending_tx_def mature_def example_coin_def coin_value_def
      MoneyRange_def MAX_MONEY_def COIN_def)
  moreover have "SequenceLocks (m_block_index (connect_index 7)) spending_tx fl [x] 80 = Some True" for fl x
  proof -
    have "GetMedianTimePast (m_block_index (connect_index 7)) 1 = 0"
      by (simp add: GetMedianTimePast_def nMedianTimeSpan_def connect_index_def MedianTimes_numeral GetBlockTime_def CBlockIndex_new_def CBlockHeader_SetNull_def)
    moreover have "\<not> (2 :: u32) \<le> 1" by (simp add: word_le_nat_alt)
    ultimately show ?thesis
      by (simp add: SequenceLocks_def CalculateSequenceLocks_def EvaluateSequenceLocks_def spending_tx_def connect_entry)
  qed
  moreover have "length (vin spending_tx) = 1" by (simp add: spending_tx_def)
  ultimately show ?thesis
    unfolding spend_rules_def example_env using d v o example_flags [of 7] by (simp add: connect_entry) (auto simp: spending_tx_def)
qed

lemma example_facts:
  "stack_inv funded_stack" "stack_best funded_stack = 1" "stack_inv example_stack" "stack_utxo example_stack = (\<lambda>_. None)" "stack_best example_stack = 1"
  using funded_stack_inv
  by (simp_all add: stack_best_def cache_best_def funded_stack_def example_stack_def stack_inv_def stack_utxo_def cache_utxo_def CCoinsViewCache_new_def
     cache_inv_def list_sane_def db_ok_def example_db_def fun_eq_iff)

lemma spending_cost: "m example_outpoint = Some example_coin \<Longrightarrow> sigop_cost m spending_tx 0x20801 = Some 0"
proof -
  assume m: "m example_outpoint = Some example_coin"
  have "\<not> IsPayToScriptHash [0x51]" by code_simp
  moreover have "vin spending_tx = [\<lparr>prevout = example_outpoint, scriptSig = [], nSequence = 0, scriptWitness = []\<rparr>]" by (simp add: spending_tx_def)
  moreover have "coin_out example_coin = \<lparr>nValue = 50, scriptPubKey = [0x51]\<rparr>" by (simp add: example_coin_def)
  ultimately show ?thesis using m no_witness_sigops by (simp add: sigop_cost_def coinbase sig0 coin_or_empty_def)
qed

lemma two_outpoints: "set (block_outpoints length_hashes [coinbase_tx, spending_tx]) = {\<lparr>COutPoint.op_hash = 63, op_n = 0\<rparr>, \<lparr>COutPoint.op_hash = 61, op_n = 0\<rparr>}"
proof -
  have "length (vout coinbase_tx) = 1" "length (vout spending_tx) = 1" by (simp_all add: coinbase_tx_def spending_tx_def)
  then show ?thesis by (simp add: block_outpoints_def txids)
qed

lemma two_new: "outputs_new length_hashes [coinbase_tx, spending_tx] (stack_utxo funded_stack)"
  unfolding outputs_new_def two_outpoints by (simp add: txids funded_stack_utxo example_outpoint_def)

lemma after_coinbase: "tx_effect length_hashes h coinbase_tx (stack_utxo funded_stack) example_outpoint = Some example_coin"
  by (simp add: tx_effect_def example_coins tx_points_def coinbase funded_stack_utxo example_outpoint_def)

lemma after_coinbase_fee: "tx_fee (tx_effect length_hashes h coinbase_tx (stack_utxo funded_stack)) spending_tx = 5"
proof -
  have "outputs_value (vout spending_tx) = 45" by (simp add: outputs_value_def spending_tx_def)
  moreover have "inputs_value (tx_effect length_hashes h coinbase_tx (stack_utxo funded_stack)) (vin spending_tx) = 50"
    using after_coinbase [of h] by (simp add: inputs_value_def coin_or_empty_def coin_value_def spending_tx_def example_coin_def)
  ultimately show ?thesis by (simp add: tx_fee_def coinbase)
qed

lemma two_rules: "txs_rules connect_example (m_block_index (connect_index 7)) 80 (connect_entry 7) True [coinbase_tx, spending_tx] 0 0 (stack_utxo funded_stack)"
proof -
  let ?m = "tx_effect length_hashes 8 coinbase_tx (stack_utxo funded_stack)"
  have "tx_fee (stack_utxo funded_stack) coinbase_tx = 0" by (simp add: tx_fee_def coinbase)
  then show ?thesis
    using spending_rules [where m = ?m] spending_cost [where m = ?m] after_coinbase [of 8] after_coinbase_fee [of 8]
    by (simp add: coinbase coinbase_cost example_env example_flags connect_entry MoneyRange_def MAX_MONEY_def COIN_def MAX_BLOCK_SIGOPS_COST_def)
qed

lemma two_tx_block_accepted:
  "\<exists>bm' undos c'. snd (ConnectBlock connect_example (stack_ops example_usage (\<lambda>_. False)) False (connect_block [coinbase_tx, spending_tx]) 80 (connect_index 7)
      funded_stack no_memo) = Valid (bm', undos, c')"
proof -
  have v: "outputs_value (vout coinbase_tx) = 5000000000" by (simp add: outputs_value_def coinbase_tx_def)
  have f: "txs_fees length_hashes 8 [coinbase_tx, spending_tx] (stack_utxo funded_stack) = 5" by (simp add: after_coinbase_fee) (simp add: tx_fee_def coinbase)
  have t: "vtx (connect_block txs) = txs" for txs by (simp add: connect_block_def)
  show ?thesis
    unfolding example_env(5) [symmetric]
    by (rule stack_accepts [where b = "connect_entry 7" and fs = True])
      (use example_facts memo_sound_no_memo connect_block_checked [OF bodies(2) roots(2)] two_new two_rules v f
       in \<open>simp_all add: example_env header_hash connect_entry t example_subsidy del: txs_fees.simps txs_rules.simps\<close>)
qed

lemma two_no_overwrite: "no_overwrite connect_example (connect_index 7) 80 (connect_entry 7) (connect_block [coinbase_tx, spending_tx]) (stack_utxo funded_stack)"
  using two_new by (simp add: no_overwrite_def outputs_new_def example_env connect_block_def)

lemma not_genesis: "80 \<noteq> hashGenesisBlock (ce_params connect_example)"
  by (simp add: example_env connect_params_def example_consensus_def)

section \<open>Properties\<close>

text \<open>
  C6: A block that obeys the rules, stated on the map of unspent outputs, is connected: no cache, view or order of look-ups makes the code refuse it
  or stop. With the round trip and the supply bound this makes acceptance exact on the side of the rules.
\<close>

theorem valid_block_connects:
  assumes "stack_inv c" "memo_sound (ce_hashes X) (ce_params X) (ce_signet X) block memo"
    "snd (CheckBlock (ce_hashes X) (ce_params X) (ce_signet X) block True True no_memo) = Valid ()"
    "pindex = CBlock_GetHash (ce_hashes X) block" "m_block_index bm pindex = Some b" "pprev b = Some (stack_best c)"
    "outputs_new (ce_hashes X) (vtx block) (stack_utxo c)" "sig_cache_sound (ce_hashes X) (ce_secp X) (ce_cache X)"
    "script_checks X (m_block_index bm) pindex b = Some fs" "txs_rules X (m_block_index bm) pindex b fs (vtx block) 0 0 (stack_utxo c)"
    "outputs_value (vout (hd (vtx block))) \<le> txs_fees (ce_hashes X) (nHeight b) (vtx block) (stack_utxo c) + GetBlockSubsidy (nHeight b) (ce_params X)"
    "\<forall>undos. \<exists>bm' b'. ce_write_undo X undos pindex bm = Some bm' \<and> m_block_index bm' pindex = Some b'"
  shows "\<exists>bm' undos c'. snd (ConnectBlock X (stack_ops (ce_usage X) full) False block pindex bm c memo) = Valid (bm', undos, c')"
  by (rule stack_accepts [OF assms])

theorem valid_block_connects_witness:
  "\<exists>bm' undos c'. snd (ConnectBlock connect_example (stack_ops (ce_usage connect_example) (\<lambda>_. False)) False (connect_block [coinbase_tx, spending_tx]) 80 (connect_index 7)
      funded_stack no_memo) = Valid (bm', undos, c')"
proof -
  have v: "outputs_value (vout coinbase_tx) = 5000000000" by (simp add: outputs_value_def coinbase_tx_def)
  have f: "txs_fees length_hashes 8 [coinbase_tx, spending_tx] (stack_utxo funded_stack) = 5" by (simp add: after_coinbase_fee) (simp add: tx_fee_def coinbase)
  have t: "vtx (connect_block txs) = txs" for txs by (simp add: connect_block_def)
  show ?thesis
    by (rule valid_block_connects [where b = "connect_entry 7" and fs = True])
      (use example_facts memo_sound_no_memo connect_block_checked [OF bodies(2) roots(2)] two_new two_rules v f
       in \<open>simp_all add: example_env header_hash connect_entry t example_subsidy del: txs_fees.simps txs_rules.simps\<close>)
qed

text \<open>
  C3: Connecting a valid block adds at most the block subsidy to the total value of the unspent outputs: the transactions create no value beyond it.
\<close>

theorem connect_block_no_inflation:
  assumes "stack_inv c" "memo_sound (ce_hashes X) (ce_params X) (ce_signet X) block memo"
    "m_block_index bm pindex = Some b" "pindex \<noteq> hashGenesisBlock (ce_params X)" "no_overwrite X bm pindex b block (stack_utxo c)"
    "finite (dom (stack_utxo c))" "coins_nonneg (stack_utxo c)"
    "snd (ConnectBlock X (stack_ops (ce_usage X) full) False block pindex bm c memo) = Valid (bm', undos, c')"
  shows "total_value (stack_utxo c') \<le> total_value (stack_utxo c) + GetBlockSubsidy (nHeight b) (ce_params X)"
  using stack_connect_supply [OF assms] by blast

theorem connect_block_no_inflation_witness:
  "\<exists>bm' undos c'. snd (ConnectBlock connect_example (stack_ops example_usage (\<lambda>_. False)) False (connect_block [coinbase_tx, spending_tx]) 80 (connect_index 7)
      funded_stack no_memo) = Valid (bm', undos, c') \<and> total_value (stack_utxo c') \<le> 5000000050"
proof -
  obtain bm' undos c' where r: "snd (ConnectBlock connect_example (stack_ops (ce_usage connect_example) (\<lambda>_. False)) False (connect_block [coinbase_tx, spending_tx]) 80
      (connect_index 7) funded_stack no_memo) = Valid (bm', undos, c')"
    using two_tx_block_accepted unfolding example_env(5) by blast
  have "finite (dom (stack_utxo funded_stack))" "coins_nonneg (stack_utxo funded_stack)" "total_value (stack_utxo funded_stack) = 50"
    by (simp_all add: funded_stack_utxo coins_nonneg_def coin_value_def example_coin_def total_value_def)
  then have "total_value (stack_utxo c') \<le> 50 + GetBlockSubsidy 8 connect_params"
    using connect_block_no_inflation [OF example_facts(1) memo_sound_no_memo connect_entry(1) not_genesis two_no_overwrite _ _ r]
    by (simp add: connect_entry example_env)
  then show ?thesis using r by (auto simp: example_env example_subsidy)
qed

text \<open>
  C5: With the subsidy halved every 210000 blocks, no chain of connected blocks, however long, ever makes the unspent outputs worth more than
  2099994997690000 units: the value stays in the money range.
\<close>

theorem supply_cap:
  assumes "chain_run X n bm c" "nSubsidyHalvingInterval (ce_params X) = 210000"
  shows "0 \<le> total_value (stack_utxo c) \<and> total_value (stack_utxo c) \<le> 2099994997690000 \<and> MoneyRange (total_value (stack_utxo c))"
proof -
  note r = chain_run_supply [OF assms(1)]
  have "{..<Suc n} = insert 0 {1..n}" by auto
  then have "(\<Sum>h < Suc n. GetBlockSubsidy (int h) (ce_params X)) = GetBlockSubsidy 0 (ce_params X) + (\<Sum>h = 1..n. GetBlockSubsidy (int h) (ce_params X))"
    by simp
  moreover have "GetBlockSubsidy 0 (ce_params X) = 5000000000" using assms(2) by (simp add: GetBlockSubsidy_def COIN_def)
  moreover have "(\<Sum>h < Suc n. GetBlockSubsidy (int h) (ce_params X)) \<le> int 210000 * 9999999989"
    by (rule subsidies_bounded) (use assms(2) in simp_all)
  ultimately have "total_value (stack_utxo c) \<le> 2099994997690000" using r by simp
  moreover have "0 \<le> total_value (stack_utxo c)" unfolding total_value_def using r by (intro sum_nonneg) (auto simp: coins_nonneg_def)
  ultimately show ?thesis by (simp add: MoneyRange_def MAX_MONEY_def COIN_def)
qed

theorem supply_cap_witness:
  "\<exists>bm c. chain_run connect_example 1 bm c \<and> total_value (stack_utxo c) \<le> 2099994997690000"
proof -
  have t: "vtx (connect_block txs) = txs" for txs by (simp add: connect_block_def)
  have v: "outputs_value (vout coinbase_tx) = 5000000000" by (simp add: outputs_value_def coinbase_tx_def)
  have f: "txs_fees length_hashes 1 [coinbase_tx] (\<lambda>_. None) = 0" by (simp add: tx_fee_def coinbase)
  have new: "outputs_new length_hashes [coinbase_tx] (\<lambda>_. None)" by (simp add: outputs_new_def)
  have "\<exists>bm' undos c'. snd (ConnectBlock connect_example (stack_ops (ce_usage connect_example) (\<lambda>_. False)) False (connect_block [coinbase_tx]) 80 (connect_index 0)
      example_stack no_memo) = Valid (bm', undos, c')"
    by (rule stack_accepts [where b = "connect_entry 0" and fs = True])
      (use example_facts memo_sound_no_memo connect_block_checked [OF bodies(1) roots(1)] new coinbase_rules v f
       in \<open>simp_all add: example_env header_hash connect_entry t example_subsidy del: txs_fees.simps txs_rules.simps\<close>)
  then obtain bm' undos c' where r: "snd (ConnectBlock connect_example (stack_ops (ce_usage connect_example) (\<lambda>_. False)) False (connect_block [coinbase_tx]) 80
      (connect_index 0) example_stack no_memo) = Valid (bm', undos, c')" by blast
  have "chain_run connect_example 0 (connect_index 0) example_stack" by (rule chain_start) (rule example_facts)+
  then have "chain_run connect_example (Suc 0) bm' c'"
    by (rule chain_connect [OF _ connect_entry(1) _ not_genesis memo_sound_no_memo _ r])
      (use new in \<open>simp_all add: connect_entry no_overwrite_def outputs_new_def example_env t example_facts\<close>)
  moreover have "nSubsidyHalvingInterval (ce_params connect_example) = 210000" by (simp add: example_env connect_params_def example_consensus_def)
  ultimately show ?thesis using supply_cap [of connect_example 1 bm' c'] by auto
qed

text \<open>
  C2: Disconnecting a block with the undo data that connecting it wrote restores the map of unspent outputs and the best block, and
  reports a clean result. The two may happen in different views, as long as the second one starts from the map the first one
  left. The block must not overwrite unspent outputs, which the check of BIP30 ensures where it is enforced, and the coins must carry their height.
\<close>

theorem connect_disconnect_roundtrip:
  assumes "stack_inv c" "memo_sound (ce_hashes X) (ce_params X) (ce_signet X) block memo"
    "m_block_index bm pindex = Some b" "pindex \<noteq> hashGenesisBlock (ce_params X)" "no_overwrite X bm pindex b block (stack_utxo c)"
    "coins_restorable (stack_utxo c)" "0 < nHeight b" "nHeight b < 2 ^ 31"
    "snd (ConnectBlock X (stack_ops (ce_usage X) full) False block pindex bm c memo) = Valid (bm', undos, c')"
    "stack_inv d" "stack_utxo d = stack_utxo c'" "mi pindex = Some b"
  shows "\<exists>d'. DisconnectBlock (ce_hashes X) U (stack_ops U full') mi (Some undos) block pindex d = Valid (DISCONNECT_OK, d') \<and>
    stack_inv d' \<and> stack_utxo d' = stack_utxo c \<and> hashBlock d' = stack_best c"
proof -
  note c = stack_connect [OF assms(1-5,9)]
  then show ?thesis using stack_disconnect [of d "ce_hashes X" b block "stack_utxo c" mi pindex "stack_best c" U full'] assms by simp
qed

theorem connect_disconnect_roundtrip_witness:
  "\<exists>bm' undos c' d'. snd (ConnectBlock connect_example (stack_ops example_usage (\<lambda>_. False)) False (connect_block [coinbase_tx, spending_tx]) 80 (connect_index 7)
      funded_stack no_memo) = Valid (bm', undos, c') \<and>
    DisconnectBlock length_hashes example_usage (stack_ops example_usage (\<lambda>_. False)) (m_block_index (connect_index 7)) (Some undos)
      (connect_block [coinbase_tx, spending_tx]) 80 c' = Valid (DISCONNECT_OK, d') \<and> stack_utxo d' = [example_outpoint \<mapsto> example_coin]"
proof -
  obtain bm' undos c' where r: "snd (ConnectBlock connect_example (stack_ops (ce_usage connect_example) (\<lambda>_. False)) False (connect_block [coinbase_tx, spending_tx]) 80
      (connect_index 7) funded_stack no_memo) = Valid (bm', undos, c')"
    using two_tx_block_accepted unfolding example_env(5) by blast
  have "stack_inv c'" using stack_connect [OF example_facts(1) memo_sound_no_memo connect_entry(1) not_genesis two_no_overwrite r] by blast
  moreover have "coins_restorable (stack_utxo funded_stack)"
    using example_coin_unspent example_coin_spendable by (simp add: funded_stack_utxo coins_restorable_def restorable_def example_coin_def)
  ultimately obtain d' where "DisconnectBlock (ce_hashes connect_example) example_usage (stack_ops example_usage (\<lambda>_. False)) (m_block_index (connect_index 7)) (Some undos)
      (connect_block [coinbase_tx, spending_tx]) 80 c' = Valid (DISCONNECT_OK, d')" "stack_utxo d' = stack_utxo funded_stack"
    using connect_disconnect_roundtrip [OF example_facts(1) memo_sound_no_memo connect_entry(1) not_genesis two_no_overwrite _ _ _ r,
        where d = c' and mi = "m_block_index (connect_index 7)" and U = example_usage and full' = "\<lambda>_. False"]
    by (auto simp: connect_entry)
  then show ?thesis using r by (auto simp: example_env funded_stack_utxo)
qed

end
