(* ===== verification/Hasher.thy ===== *)
theory Hasher
  imports Hashing
begin

text \<open>
  The block buffering that the hash classes of \<open>src/bitcoin/src/crypto\<close> share: a chaining state, a buffer of 64 bytes and a byte count. The locale
  \<open>block_hasher\<close> states what writing promises, and that finalising then hashes the padded message whatever the sizes of the pieces written.
\<close>

unbundle bit_operations_syntax

section \<open>Byte order\<close>

definition ReadBE32 :: "bytes \<Rightarrow> u32" where
  "ReadBE32 ptr = word_of_nat (nat_of_be (take 4 ptr))"

definition WriteBE32 :: "u32 \<Rightarrow> bytes" where
  "WriteBE32 x = be_of_nat 4 (unat x)"

definition WriteBE64 :: "u64 \<Rightarrow> bytes" where
  "WriteBE64 x = be_of_nat 8 (unat x)"

definition ReadLE32 :: "bytes \<Rightarrow> u32" where
  "ReadLE32 ptr = word_of_nat (nat_of_le (take 4 ptr))"

definition WriteLE32 :: "u32 \<Rightarrow> bytes" where
  "WriteLE32 x = le_of_nat 4 (unat x)"

definition WriteLE64 :: "u64 \<Rightarrow> bytes" where
  "WriteLE64 x = le_of_nat 8 (unat x)"

section \<open>Rotations\<close>

lemma rotr_shifts: "0 < n \<Longrightarrow> n < 32 \<Longrightarrow> word_rotr n (x :: u32) = drop_bit n x OR push_bit (32 - n) x"
proof (rule bit_word_eqI)
  fix i assume n: "0 < n" "n < 32" and i: "i < LENGTH(32)"
  then have "(i + n) mod 32 = (if i + n < 32 then i + n else i - (32 - n))" by (auto simp: mod_if)
  with n i show "bit (word_rotr n x) i = bit (drop_bit n x OR push_bit (32 - n) x) i"
    by (auto simp: bit_word_rotr_iff bit_or_iff bit_drop_bit_eq bit_push_bit_iff ac_simps dest: bit_imp_le_length)
qed

lemma rotl_shifts: "0 < n \<Longrightarrow> n < 32 \<Longrightarrow> word_rotl n (x :: u32) = push_bit n x OR drop_bit (32 - n) x"
  by (simp add: word_rotl_eq_word_rotr rotr_shifts or.commute)

section \<open>The buffer\<close>

record 's hasher =
  hs_s :: 's
  hs_buf :: bytes
  hs_bytes :: u64

definition memcpy :: "bytes \<Rightarrow> nat \<Rightarrow> bytes \<Rightarrow> bytes" where
  "memcpy dst n src = take n dst @ src @ drop (n + length src) dst"

text \<open>The first part of \<open>Write\<close>: fill a buffer that is in use and process it. The result is the fill of the buffer, the data left and the hasher.\<close>

definition hasher_fill :: "('s \<Rightarrow> bytes \<Rightarrow> 's) \<Rightarrow> bytes \<Rightarrow> 's hasher \<Rightarrow> nat \<times> bytes \<times> 's hasher" where
  "hasher_fill tr data h =
     (let bufsize = unat (hs_bytes h) mod 64
      in if bufsize \<noteq> 0 \<and> bufsize + length data \<ge> 64
         then let buf = memcpy (hs_buf h) bufsize (take (64 - bufsize) data)
              in (0, drop (64 - bufsize) data,
                  h\<lparr>hs_s := tr (hs_s h) buf, hs_buf := buf, hs_bytes := hs_bytes h + word_of_nat (64 - bufsize)\<rparr>)
         else (bufsize, data, h))"

text \<open>The last part of \<open>Write\<close>: keep what remains in the buffer.\<close>

definition hasher_keep :: "nat \<Rightarrow> bytes \<Rightarrow> 's hasher \<Rightarrow> 's hasher" where
  "hasher_keep bufsize data h =
     (if data \<noteq> [] then h\<lparr>hs_buf := memcpy (hs_buf h) bufsize data, hs_bytes := hs_bytes h + word_of_nat (length data)\<rparr> else h)"

text \<open>Full chunks, one at a time, straight from the data.\<close>

function hasher_chunks :: "('s \<Rightarrow> bytes \<Rightarrow> 's) \<Rightarrow> bytes \<Rightarrow> 's hasher \<Rightarrow> bytes \<times> 's hasher" where
  "hasher_chunks tr data h =
     (if length data \<ge> 64
      then hasher_chunks tr (drop 64 data) (h\<lparr>hs_s := tr (hs_s h) (take 64 data), hs_bytes := hs_bytes h + 64\<rparr>)
      else (data, h))"
  by pat_completeness auto
termination
  by (relation "measure (\<lambda>(tr, data, h). length data)") auto

declare hasher_chunks.simps [simp del]

definition hasher_Write :: "('s \<Rightarrow> bytes \<Rightarrow> 's) \<Rightarrow> bytes \<Rightarrow> 's hasher \<Rightarrow> 's hasher" where
  "hasher_Write tr data h =
     (let (bufsize, data, h) = hasher_fill tr data h; (data, h) = hasher_chunks tr data h in hasher_keep bufsize data h)"

definition hasher_pad :: bytes where
  "hasher_pad = 0x80 # replicate 63 0"

definition pad_size :: "u64 \<Rightarrow> nat" where
  "pad_size bytes = 1 + (119 - unat bytes mod 64) mod 64"

section \<open>Iterated hashing\<close>

text \<open>The chaining state after all full blocks of a message.\<close>

function md_blocks :: "('s \<Rightarrow> bytes \<Rightarrow> 's) \<Rightarrow> 's \<Rightarrow> bytes \<Rightarrow> 's" where
  "md_blocks tr s msg = (if length msg < 64 then s else md_blocks tr (tr s (take 64 msg)) (drop 64 msg))"
  by pat_completeness auto
termination
  by (relation "measure (\<lambda>(tr, s, msg). length msg)") auto

declare md_blocks.simps [simp del]

text \<open>The padded message: a one bit, zeros, and the length in bits in eight bytes.\<close>

definition md_pad :: "(u64 \<Rightarrow> bytes) \<Rightarrow> bytes \<Rightarrow> bytes" where
  "md_pad enc msg = msg @ 0x80 # replicate ((119 - length msg mod 64) mod 64) 0 @ enc (word_of_nat (8 * length msg))"

lemma md_pad_length: "\<forall>x. length (enc x) = 8 \<Longrightarrow> length (md_pad enc msg) mod 64 = 0"
proof -
  assume "\<forall>x. length (enc x) = 8"
  then have "length (md_pad enc msg) = length msg + 9 + (119 - length msg mod 64) mod 64" by (simp add: md_pad_def)
  also have "\<dots> mod 64 = (length msg + 9 + (119 - length msg mod 64)) mod 64" by (simp add: mod_simps)
  also have "length msg + 9 + (119 - length msg mod 64) = 64 * (length msg div 64 + 2)"
  proof -
    have "r < 64 \<Longrightarrow> q * 64 + r = n \<Longrightarrow> n + 9 + (119 - r) = 64 * (q + 2)" for q r n :: nat by simp
    then show ?thesis by simp
  qed
  finally show ?thesis by simp
qed

lemma md_blocks_short: "length msg < 64 \<Longrightarrow> md_blocks tr s msg = s"
  by (simp add: md_blocks.simps)

lemma md_blocks_append: "64 dvd length xs \<Longrightarrow> md_blocks tr s (xs @ ys) = md_blocks tr (md_blocks tr s xs) ys"
proof (induction tr s xs rule: md_blocks.induct)
  case (1 tr s xs)
  show ?case
  proof (cases "length xs < 64")
    case True
    then have "xs = []" using 1(2) by (auto dest: dvd_imp_le)
    then show ?thesis by (simp add: md_blocks_short)
  next
    case False
    then have "64 dvd length (drop 64 xs)" using 1(2) by (simp add: dvd_diff_nat)
    moreover have "md_blocks tr s (xs @ ys) = md_blocks tr (tr s (take 64 xs)) (drop 64 xs @ ys)"
      "md_blocks tr s xs = md_blocks tr (tr s (take 64 xs)) (drop 64 xs)"
      using False by (subst md_blocks.simps, simp)+
    ultimately show ?thesis using 1(1) False by simp
  qed
qed

lemma md_blocks_one: "length xs = 64 \<Longrightarrow> md_blocks tr s xs = tr s xs"
  by (subst md_blocks.simps) (simp add: md_blocks_short)

lemma md_blocks_cong: "(\<And>s b. length b = 64 \<Longrightarrow> tr s b = tr' s b) \<Longrightarrow> md_blocks tr s msg = md_blocks tr' s msg"
proof (induction tr s msg rule: md_blocks.induct)
  case (1 tr s msg)
  then show ?case by (subst (1 2) md_blocks.simps) simp
qed

text \<open>The state of a hasher that has absorbed a message.\<close>

definition absorbed :: "('s \<Rightarrow> bytes \<Rightarrow> 's) \<Rightarrow> 's \<Rightarrow> bytes \<Rightarrow> bytes \<Rightarrow> 's hasher \<Rightarrow> bool" where
  "absorbed tr i blocks rest h \<longleftrightarrow>
     64 dvd length blocks \<and> length rest < 64 \<and> hs_s h = md_blocks tr i blocks \<and> take (length rest) (hs_buf h) = rest \<and> length (hs_buf h) = 64 \<and>
     hs_bytes h = word_of_nat (length (blocks @ rest))"

definition hashing :: "('s \<Rightarrow> bytes \<Rightarrow> 's) \<Rightarrow> 's \<Rightarrow> bytes \<Rightarrow> 's hasher \<Rightarrow> bool" where
  "hashing tr i msg h \<longleftrightarrow> (\<exists>blocks rest. msg = blocks @ rest \<and> absorbed tr i blocks rest h)"

lemma unat_bytes: "unat (word_of_nat n :: u64) mod 64 = n mod 64"
  by (simp add: unsigned_of_nat take_bit_eq_mod mod_mod_cancel)

lemma absorbed_rest: "absorbed tr i blocks rest h \<Longrightarrow> length (blocks @ rest) mod 64 = length rest"
  by (auto simp: absorbed_def elim!: dvdE)

lemma absorbed_fill: "absorbed tr i blocks rest h \<Longrightarrow> unat (hs_bytes h) mod 64 = length rest"
  using absorbed_rest [of tr i blocks rest h] unat_bytes [of "length (blocks @ rest)"] by (simp add: absorbed_def)

lemma hasher_fill_absorbs:
  assumes "absorbed tr i blocks rest h" "hasher_fill tr data h = (n, data', h')"
  shows "\<exists>blocks' rest'. absorbed tr i blocks' rest' h' \<and> blocks @ rest @ data = blocks' @ rest' @ data' \<and> n = length rest' \<and>
    (rest' = [] \<or> length rest' + length data' < 64)"
proof (cases "rest \<noteq> [] \<and> length rest + length data \<ge> 64")
  case True
  note a = assms(1) [unfolded absorbed_def]
  let ?b = "rest @ take (64 - length rest) data"
  have buf: "memcpy (hs_buf h) (length rest) (take (64 - length rest) data) = ?b" and l: "length ?b = 64"
    using a True by (auto simp: memcpy_def min_def)
  have "word_of_nat (length blocks + length rest) + word_of_nat (64 - length rest) = (word_of_nat (length blocks + 64) :: u64)"
    using a by (simp only: of_nat_add [symmetric]) simp
  then have "absorbed tr i (blocks @ ?b) [] (h\<lparr>hs_s := tr (hs_s h) ?b, hs_buf := ?b, hs_bytes := hs_bytes h + word_of_nat (64 - length rest)\<rparr>)"
    using a l by (simp add: absorbed_def md_blocks_append md_blocks_one)
  moreover have "hasher_fill tr data h =
      (0, drop (64 - length rest) data, h\<lparr>hs_s := tr (hs_s h) ?b, hs_buf := ?b, hs_bytes := hs_bytes h + word_of_nat (64 - length rest)\<rparr>)"
    unfolding hasher_fill_def Let_def absorbed_fill [OF assms(1)] buf using True by simp
  ultimately show ?thesis by (intro exI [of _ "blocks @ ?b"] exI [of _ "[]"]) (use assms(2) in simp)
next
  case False
  then have "hasher_fill tr data h = (length rest, data, h)" unfolding hasher_fill_def Let_def absorbed_fill [OF assms(1)] by auto
  then show ?thesis using assms False by (intro exI [of _ blocks] exI [of _ rest]) auto
qed

lemma hasher_keep_absorbs:
  assumes "absorbed tr i blocks rest h" "length rest + length data < 64"
  shows "hashing tr i (blocks @ rest @ data) (hasher_keep (length rest) data h)"
proof -
  have a: "64 dvd length blocks" "length rest < 64" "hs_s h = md_blocks tr i blocks" "take (length rest) (hs_buf h) = rest" "length (hs_buf h) = 64"
    "hs_bytes h = word_of_nat (length (blocks @ rest))" using assms(1) by (simp_all only: absorbed_def)
  have "take (length (rest @ data)) (memcpy (hs_buf h) (length rest) data) = rest @ data" "length (memcpy (hs_buf h) (length rest) data) = 64"
    unfolding memcpy_def a(4) using a(5) assms(2) by simp_all
  moreover have "word_of_nat (length (blocks @ rest)) + word_of_nat (length data) = (word_of_nat (length (blocks @ rest @ data)) :: u64)"
    by (simp add: of_nat_add)
  ultimately have "absorbed tr i blocks (rest @ data) (hasher_keep (length rest) data h)"
    unfolding absorbed_def hasher_keep_def using a assms(2) [folded length_append] by (cases "data = []") (simp_all del: length_append)
  then show ?thesis unfolding hashing_def by (intro exI [of _ blocks] exI [of _ "rest @ data"]) simp
qed

lemma hasher_chunks_absorbs:
  assumes "absorbed tr i blocks [] h" "hasher_chunks tr data h = (data', h')"
  shows "\<exists>blocks'. absorbed tr i blocks' [] h' \<and> blocks @ data = blocks' @ data' \<and> length data' < 64"
  using assms
proof (induction tr data h arbitrary: blocks rule: hasher_chunks.induct)
  case (1 tr data h)
  show ?case
  proof (cases "length data \<ge> 64")
    case True
    let ?h = "h\<lparr>hs_s := tr (hs_s h) (take 64 data), hs_bytes := hs_bytes h + 64\<rparr>"
    have "absorbed tr i (blocks @ take 64 data) [] ?h" using 1(2) True by (simp add: absorbed_def md_blocks_append md_blocks_one)
    moreover have "hasher_chunks tr (drop 64 data) ?h = (data', h')" using 1(3) True by (subst (asm) hasher_chunks.simps) simp
    ultimately obtain blocks' where "absorbed tr i blocks' [] h'" "(blocks @ take 64 data) @ drop 64 data = blocks' @ data'" "length data' < 64"
      using 1(1) [OF True] by blast
    then show ?thesis by auto
  next
    case False
    then show ?thesis using 1(2, 3) by (subst (asm) hasher_chunks.simps) auto
  qed
qed

lemma hasher_chunks_short: "length data < 64 \<Longrightarrow> hasher_chunks tr data h = (data, h)"
  by (simp add: hasher_chunks.simps)

lemma hasher_Write_absorbs:
  assumes "hashing tr i msg h"
  shows "hashing tr i (msg @ data) (hasher_Write tr data h)"
proof -
  obtain blocks rest where m: "msg = blocks @ rest" and a: "absorbed tr i blocks rest h" using assms by (auto simp: hashing_def)
  obtain n d h1 where f: "hasher_fill tr data h = (n, d, h1)" by (metis surj_pair)
  obtain blocks1 rest1 where b: "absorbed tr i blocks1 rest1 h1" "blocks @ rest @ data = blocks1 @ rest1 @ d" "n = length rest1"
    "rest1 = [] \<or> length rest1 + length d < 64" using hasher_fill_absorbs [OF a f] by blast
  obtain d2 h2 where c: "hasher_chunks tr d h1 = (d2, h2)" by (metis surj_pair)
  have "\<exists>blocks2. absorbed tr i blocks2 rest1 h2 \<and> blocks1 @ rest1 @ d = blocks2 @ rest1 @ d2 \<and> length rest1 + length d2 < 64"
  proof (cases "rest1 = []")
    case True
    then show ?thesis using hasher_chunks_absorbs [of tr i blocks1 h1 d d2 h2] b(1) c by auto
  next
    case False
    then show ?thesis using b(1, 4) c by (auto simp: hasher_chunks_short)
  qed
  then show ?thesis using hasher_keep_absorbs [of tr i _ rest1 h2 d2] b(2, 3) f c m by (auto simp: hasher_Write_def)
qed

lemma hashing_new: "length buf = 64 \<Longrightarrow> hashing tr i [] \<lparr>hs_s = i, hs_buf = buf, hs_bytes = 0\<rparr>"
  by (simp add: hashing_def absorbed_def md_blocks_short)

section \<open>Writing and finalising\<close>

locale block_hasher =
  fixes tr :: "'s \<Rightarrow> bytes \<Rightarrow> 's" and put :: "bytes \<Rightarrow> 's hasher \<Rightarrow> 's hasher"
  assumes put_absorbs: "hashing tr i msg h \<Longrightarrow> hashing tr i (msg @ data) (put data h)"
begin

lemma fold_absorbs: "hashing tr i msg h \<Longrightarrow> hashing tr i (msg @ concat ds) (fold put ds h)"
proof (induction ds arbitrary: msg h)
  case (Cons d ds)
  from Cons.IH [OF put_absorbs [OF Cons.prems, of d]] show ?case by simp
qed simp

lemma hashing_state:
  assumes "hashing tr i msg h" "length msg mod 64 = 0"
  shows "hs_s h = md_blocks tr i msg"
proof -
  obtain blocks rest where "msg = blocks @ rest" "absorbed tr i blocks rest h" using assms(1) by (auto simp: hashing_def)
  moreover have "rest = []" using absorbed_rest [OF calculation(2)] calculation(1) assms(2) by simp
  ultimately show ?thesis by (simp add: absorbed_def)
qed

lemma finalised:
  assumes "hashing tr i msg h" "\<forall>x. length (enc x) = 8"
  shows "hs_s (put (enc (push_bit 3 (hs_bytes h))) (put (take (pad_size (hs_bytes h)) hasher_pad) h)) = md_blocks tr i (md_pad enc msg)"
proof -
  have b: "hs_bytes h = word_of_nat (length msg)" using assms(1) by (auto simp: hashing_def absorbed_def)
  have p: "pad_size (hs_bytes h) = 1 + (119 - length msg mod 64) mod 64" by (simp add: b pad_size_def unat_bytes)
  have "(119 - length msg mod 64) mod 64 < 64" by simp
  then have t: "take (pad_size (hs_bytes h)) hasher_pad = 0x80 # replicate ((119 - length msg mod 64) mod 64) 0"
    unfolding p hasher_pad_def by (simp add: min_def)
  have "push_bit 3 (hs_bytes h) = word_of_nat (8 * length msg)" by (simp add: b push_bit_eq_mult)
  then show ?thesis
    using hashing_state [OF put_absorbs [OF put_absorbs [OF assms(1)]]] md_pad_length [OF assms(2), of msg]
    by (simp add: t md_pad_def)
qed

end

end
