(* ===== verification/Sha256.thy ===== *)
theory Sha256
  imports Hasher
begin

text \<open>
  Model of \<open>src/bitcoin/src/crypto/sha256.cpp\<close>: the portable SHA-256 transformation, the class \<open>CSHA256\<close> and the double hash of 64-byte blobs with its
  precomputed constants. The code agrees with SHA-256 as the standard states it, a loop over a message schedule.
\<close>

unbundle bit_operations_syntax

section \<open>The code\<close>

text \<open>The registers \<open>a\<close> to \<open>h\<close>, and the array \<open>s\<close>.\<close>

type_synonym sha256_state = "u32 \<times> u32 \<times> u32 \<times> u32 \<times> u32 \<times> u32 \<times> u32 \<times> u32"

definition sha256_Ch :: "u32 \<Rightarrow> u32 \<Rightarrow> u32 \<Rightarrow> u32" where
  "sha256_Ch x y z = z XOR (x AND (y XOR z))"

definition sha256_Maj :: "u32 \<Rightarrow> u32 \<Rightarrow> u32 \<Rightarrow> u32" where
  "sha256_Maj x y z = (x AND y) OR (z AND (x OR y))"

definition sha256_Sigma0 :: "u32 \<Rightarrow> u32" where
  "sha256_Sigma0 x = (drop_bit 2 x OR push_bit 30 x) XOR (drop_bit 13 x OR push_bit 19 x) XOR (drop_bit 22 x OR push_bit 10 x)"

definition sha256_Sigma1 :: "u32 \<Rightarrow> u32" where
  "sha256_Sigma1 x = (drop_bit 6 x OR push_bit 26 x) XOR (drop_bit 11 x OR push_bit 21 x) XOR (drop_bit 25 x OR push_bit 7 x)"

definition sha256_sigma0 :: "u32 \<Rightarrow> u32" where
  "sha256_sigma0 x = (drop_bit 7 x OR push_bit 25 x) XOR (drop_bit 18 x OR push_bit 14 x) XOR drop_bit 3 x"

definition sha256_sigma1 :: "u32 \<Rightarrow> u32" where
  "sha256_sigma1 x = (drop_bit 17 x OR push_bit 15 x) XOR (drop_bit 19 x OR push_bit 13 x) XOR drop_bit 10 x"

text \<open>The new values of \<open>d\<close> and \<open>h\<close>.\<close>

definition sha256_Round :: "u32 \<Rightarrow> u32 \<Rightarrow> u32 \<Rightarrow> u32 \<Rightarrow> u32 \<Rightarrow> u32 \<Rightarrow> u32 \<Rightarrow> u32 \<Rightarrow> u32 \<Rightarrow> u32 \<times> u32" where
  "sha256_Round a b c d e f g h k =
     (let t1 = h + sha256_Sigma1 e + sha256_Ch e f g + k;
          t2 = sha256_Sigma0 a + sha256_Maj a b c
      in (d + t1, t1 + t2))"

definition sha256_Initialize :: sha256_state where
  "sha256_Initialize = (0x6a09e667, 0xbb67ae85, 0x3c6ef372, 0xa54ff53a, 0x510e527f, 0x9b05688c, 0x1f83d9ab, 0x5be0cd19)"

text \<open>One pass of the loop over the chunks.\<close>

definition sha256_Transform1 :: "sha256_state \<Rightarrow> bytes \<Rightarrow> sha256_state" where
  "sha256_Transform1 s chunk =
     (case s of (s0, s1, s2, s3, s4, s5, s6, s7) \<Rightarrow>
      let a = s0; b = s1; c = s2; d = s3; e = s4; f = s5; g = s6; h = s7;
          w0 = ReadBE32 (drop 0 chunk); (d, h) = sha256_Round a b c d e f g h (0x428a2f98 + w0);
          w1 = ReadBE32 (drop 4 chunk); (c, g) = sha256_Round h a b c d e f g (0x71374491 + w1);
          w2 = ReadBE32 (drop 8 chunk); (b, f) = sha256_Round g h a b c d e f (0xb5c0fbcf + w2);
          w3 = ReadBE32 (drop 12 chunk); (a, e) = sha256_Round f g h a b c d e (0xe9b5dba5 + w3);
          w4 = ReadBE32 (drop 16 chunk); (h, d) = sha256_Round e f g h a b c d (0x3956c25b + w4);
          w5 = ReadBE32 (drop 20 chunk); (g, c) = sha256_Round d e f g h a b c (0x59f111f1 + w5);
          w6 = ReadBE32 (drop 24 chunk); (f, b) = sha256_Round c d e f g h a b (0x923f82a4 + w6);
          w7 = ReadBE32 (drop 28 chunk); (e, a) = sha256_Round b c d e f g h a (0xab1c5ed5 + w7);
          w8 = ReadBE32 (drop 32 chunk); (d, h) = sha256_Round a b c d e f g h (0xd807aa98 + w8);
          w9 = ReadBE32 (drop 36 chunk); (c, g) = sha256_Round h a b c d e f g (0x12835b01 + w9);
          w10 = ReadBE32 (drop 40 chunk); (b, f) = sha256_Round g h a b c d e f (0x243185be + w10);
          w11 = ReadBE32 (drop 44 chunk); (a, e) = sha256_Round f g h a b c d e (0x550c7dc3 + w11);
          w12 = ReadBE32 (drop 48 chunk); (h, d) = sha256_Round e f g h a b c d (0x72be5d74 + w12);
          w13 = ReadBE32 (drop 52 chunk); (g, c) = sha256_Round d e f g h a b c (0x80deb1fe + w13);
          w14 = ReadBE32 (drop 56 chunk); (f, b) = sha256_Round c d e f g h a b (0x9bdc06a7 + w14);
          w15 = ReadBE32 (drop 60 chunk); (e, a) = sha256_Round b c d e f g h a (0xc19bf174 + w15);
          w0 = w0 + (sha256_sigma1 w14 + w9 + sha256_sigma0 w1); (d, h) = sha256_Round a b c d e f g h (0xe49b69c1 + w0);
          w1 = w1 + (sha256_sigma1 w15 + w10 + sha256_sigma0 w2); (c, g) = sha256_Round h a b c d e f g (0xefbe4786 + w1);
          w2 = w2 + (sha256_sigma1 w0 + w11 + sha256_sigma0 w3); (b, f) = sha256_Round g h a b c d e f (0x0fc19dc6 + w2);
          w3 = w3 + (sha256_sigma1 w1 + w12 + sha256_sigma0 w4); (a, e) = sha256_Round f g h a b c d e (0x240ca1cc + w3);
          w4 = w4 + (sha256_sigma1 w2 + w13 + sha256_sigma0 w5); (h, d) = sha256_Round e f g h a b c d (0x2de92c6f + w4);
          w5 = w5 + (sha256_sigma1 w3 + w14 + sha256_sigma0 w6); (g, c) = sha256_Round d e f g h a b c (0x4a7484aa + w5);
          w6 = w6 + (sha256_sigma1 w4 + w15 + sha256_sigma0 w7); (f, b) = sha256_Round c d e f g h a b (0x5cb0a9dc + w6);
          w7 = w7 + (sha256_sigma1 w5 + w0 + sha256_sigma0 w8); (e, a) = sha256_Round b c d e f g h a (0x76f988da + w7);
          w8 = w8 + (sha256_sigma1 w6 + w1 + sha256_sigma0 w9); (d, h) = sha256_Round a b c d e f g h (0x983e5152 + w8);
          w9 = w9 + (sha256_sigma1 w7 + w2 + sha256_sigma0 w10); (c, g) = sha256_Round h a b c d e f g (0xa831c66d + w9);
          w10 = w10 + (sha256_sigma1 w8 + w3 + sha256_sigma0 w11); (b, f) = sha256_Round g h a b c d e f (0xb00327c8 + w10);
          w11 = w11 + (sha256_sigma1 w9 + w4 + sha256_sigma0 w12); (a, e) = sha256_Round f g h a b c d e (0xbf597fc7 + w11);
          w12 = w12 + (sha256_sigma1 w10 + w5 + sha256_sigma0 w13); (h, d) = sha256_Round e f g h a b c d (0xc6e00bf3 + w12);
          w13 = w13 + (sha256_sigma1 w11 + w6 + sha256_sigma0 w14); (g, c) = sha256_Round d e f g h a b c (0xd5a79147 + w13);
          w14 = w14 + (sha256_sigma1 w12 + w7 + sha256_sigma0 w15); (f, b) = sha256_Round c d e f g h a b (0x06ca6351 + w14);
          w15 = w15 + (sha256_sigma1 w13 + w8 + sha256_sigma0 w0); (e, a) = sha256_Round b c d e f g h a (0x14292967 + w15);
          w0 = w0 + (sha256_sigma1 w14 + w9 + sha256_sigma0 w1); (d, h) = sha256_Round a b c d e f g h (0x27b70a85 + w0);
          w1 = w1 + (sha256_sigma1 w15 + w10 + sha256_sigma0 w2); (c, g) = sha256_Round h a b c d e f g (0x2e1b2138 + w1);
          w2 = w2 + (sha256_sigma1 w0 + w11 + sha256_sigma0 w3); (b, f) = sha256_Round g h a b c d e f (0x4d2c6dfc + w2);
          w3 = w3 + (sha256_sigma1 w1 + w12 + sha256_sigma0 w4); (a, e) = sha256_Round f g h a b c d e (0x53380d13 + w3);
          w4 = w4 + (sha256_sigma1 w2 + w13 + sha256_sigma0 w5); (h, d) = sha256_Round e f g h a b c d (0x650a7354 + w4);
          w5 = w5 + (sha256_sigma1 w3 + w14 + sha256_sigma0 w6); (g, c) = sha256_Round d e f g h a b c (0x766a0abb + w5);
          w6 = w6 + (sha256_sigma1 w4 + w15 + sha256_sigma0 w7); (f, b) = sha256_Round c d e f g h a b (0x81c2c92e + w6);
          w7 = w7 + (sha256_sigma1 w5 + w0 + sha256_sigma0 w8); (e, a) = sha256_Round b c d e f g h a (0x92722c85 + w7);
          w8 = w8 + (sha256_sigma1 w6 + w1 + sha256_sigma0 w9); (d, h) = sha256_Round a b c d e f g h (0xa2bfe8a1 + w8);
          w9 = w9 + (sha256_sigma1 w7 + w2 + sha256_sigma0 w10); (c, g) = sha256_Round h a b c d e f g (0xa81a664b + w9);
          w10 = w10 + (sha256_sigma1 w8 + w3 + sha256_sigma0 w11); (b, f) = sha256_Round g h a b c d e f (0xc24b8b70 + w10);
          w11 = w11 + (sha256_sigma1 w9 + w4 + sha256_sigma0 w12); (a, e) = sha256_Round f g h a b c d e (0xc76c51a3 + w11);
          w12 = w12 + (sha256_sigma1 w10 + w5 + sha256_sigma0 w13); (h, d) = sha256_Round e f g h a b c d (0xd192e819 + w12);
          w13 = w13 + (sha256_sigma1 w11 + w6 + sha256_sigma0 w14); (g, c) = sha256_Round d e f g h a b c (0xd6990624 + w13);
          w14 = w14 + (sha256_sigma1 w12 + w7 + sha256_sigma0 w15); (f, b) = sha256_Round c d e f g h a b (0xf40e3585 + w14);
          w15 = w15 + (sha256_sigma1 w13 + w8 + sha256_sigma0 w0); (e, a) = sha256_Round b c d e f g h a (0x106aa070 + w15);
          w0 = w0 + (sha256_sigma1 w14 + w9 + sha256_sigma0 w1); (d, h) = sha256_Round a b c d e f g h (0x19a4c116 + w0);
          w1 = w1 + (sha256_sigma1 w15 + w10 + sha256_sigma0 w2); (c, g) = sha256_Round h a b c d e f g (0x1e376c08 + w1);
          w2 = w2 + (sha256_sigma1 w0 + w11 + sha256_sigma0 w3); (b, f) = sha256_Round g h a b c d e f (0x2748774c + w2);
          w3 = w3 + (sha256_sigma1 w1 + w12 + sha256_sigma0 w4); (a, e) = sha256_Round f g h a b c d e (0x34b0bcb5 + w3);
          w4 = w4 + (sha256_sigma1 w2 + w13 + sha256_sigma0 w5); (h, d) = sha256_Round e f g h a b c d (0x391c0cb3 + w4);
          w5 = w5 + (sha256_sigma1 w3 + w14 + sha256_sigma0 w6); (g, c) = sha256_Round d e f g h a b c (0x4ed8aa4a + w5);
          w6 = w6 + (sha256_sigma1 w4 + w15 + sha256_sigma0 w7); (f, b) = sha256_Round c d e f g h a b (0x5b9cca4f + w6);
          w7 = w7 + (sha256_sigma1 w5 + w0 + sha256_sigma0 w8); (e, a) = sha256_Round b c d e f g h a (0x682e6ff3 + w7);
          w8 = w8 + (sha256_sigma1 w6 + w1 + sha256_sigma0 w9); (d, h) = sha256_Round a b c d e f g h (0x748f82ee + w8);
          w9 = w9 + (sha256_sigma1 w7 + w2 + sha256_sigma0 w10); (c, g) = sha256_Round h a b c d e f g (0x78a5636f + w9);
          w10 = w10 + (sha256_sigma1 w8 + w3 + sha256_sigma0 w11); (b, f) = sha256_Round g h a b c d e f (0x84c87814 + w10);
          w11 = w11 + (sha256_sigma1 w9 + w4 + sha256_sigma0 w12); (a, e) = sha256_Round f g h a b c d e (0x8cc70208 + w11);
          w12 = w12 + (sha256_sigma1 w10 + w5 + sha256_sigma0 w13); (h, d) = sha256_Round e f g h a b c d (0x90befffa + w12);
          w13 = w13 + (sha256_sigma1 w11 + w6 + sha256_sigma0 w14); (g, c) = sha256_Round d e f g h a b c (0xa4506ceb + w13);
          (f, b) = sha256_Round c d e f g h a b (0xbef9a3f7 + (w14 + sha256_sigma1 w12 + w7 + sha256_sigma0 w15));
          (e, a) = sha256_Round b c d e f g h a (0xc67178f2 + (w15 + sha256_sigma1 w13 + w8 + sha256_sigma0 w0))
      in (s0 + a, s1 + b, s2 + c, s3 + d, s4 + e, s5 + f, s6 + g, s7 + h))"

fun sha256_Transform :: "sha256_state \<Rightarrow> bytes \<Rightarrow> nat \<Rightarrow> sha256_state" where
  "sha256_Transform s chunk 0 = s"
| "sha256_Transform s chunk (Suc blocks) = sha256_Transform (sha256_Transform1 s chunk) (drop 64 chunk) blocks"

text \<open>The three parts of the double hash of 64 bytes: the data block, the padding block of the first hash, and the second hash.\<close>

definition TransformD64_1 :: "bytes \<Rightarrow> sha256_state" where
  "TransformD64_1 inp =
     (let (a, b, c, d, e, f, g, h) = (0x6a09e667, 0xbb67ae85, 0x3c6ef372, 0xa54ff53a, 0x510e527f, 0x9b05688c, 0x1f83d9ab, 0x5be0cd19);
          w0 = ReadBE32 (drop 0 inp); (d, h) = sha256_Round a b c d e f g h (0x428a2f98 + w0);
          w1 = ReadBE32 (drop 4 inp); (c, g) = sha256_Round h a b c d e f g (0x71374491 + w1);
          w2 = ReadBE32 (drop 8 inp); (b, f) = sha256_Round g h a b c d e f (0xb5c0fbcf + w2);
          w3 = ReadBE32 (drop 12 inp); (a, e) = sha256_Round f g h a b c d e (0xe9b5dba5 + w3);
          w4 = ReadBE32 (drop 16 inp); (h, d) = sha256_Round e f g h a b c d (0x3956c25b + w4);
          w5 = ReadBE32 (drop 20 inp); (g, c) = sha256_Round d e f g h a b c (0x59f111f1 + w5);
          w6 = ReadBE32 (drop 24 inp); (f, b) = sha256_Round c d e f g h a b (0x923f82a4 + w6);
          w7 = ReadBE32 (drop 28 inp); (e, a) = sha256_Round b c d e f g h a (0xab1c5ed5 + w7);
          w8 = ReadBE32 (drop 32 inp); (d, h) = sha256_Round a b c d e f g h (0xd807aa98 + w8);
          w9 = ReadBE32 (drop 36 inp); (c, g) = sha256_Round h a b c d e f g (0x12835b01 + w9);
          w10 = ReadBE32 (drop 40 inp); (b, f) = sha256_Round g h a b c d e f (0x243185be + w10);
          w11 = ReadBE32 (drop 44 inp); (a, e) = sha256_Round f g h a b c d e (0x550c7dc3 + w11);
          w12 = ReadBE32 (drop 48 inp); (h, d) = sha256_Round e f g h a b c d (0x72be5d74 + w12);
          w13 = ReadBE32 (drop 52 inp); (g, c) = sha256_Round d e f g h a b c (0x80deb1fe + w13);
          w14 = ReadBE32 (drop 56 inp); (f, b) = sha256_Round c d e f g h a b (0x9bdc06a7 + w14);
          w15 = ReadBE32 (drop 60 inp); (e, a) = sha256_Round b c d e f g h a (0xc19bf174 + w15);
          w0 = w0 + (sha256_sigma1 w14 + w9 + sha256_sigma0 w1); (d, h) = sha256_Round a b c d e f g h (0xe49b69c1 + w0);
          w1 = w1 + (sha256_sigma1 w15 + w10 + sha256_sigma0 w2); (c, g) = sha256_Round h a b c d e f g (0xefbe4786 + w1);
          w2 = w2 + (sha256_sigma1 w0 + w11 + sha256_sigma0 w3); (b, f) = sha256_Round g h a b c d e f (0x0fc19dc6 + w2);
          w3 = w3 + (sha256_sigma1 w1 + w12 + sha256_sigma0 w4); (a, e) = sha256_Round f g h a b c d e (0x240ca1cc + w3);
          w4 = w4 + (sha256_sigma1 w2 + w13 + sha256_sigma0 w5); (h, d) = sha256_Round e f g h a b c d (0x2de92c6f + w4);
          w5 = w5 + (sha256_sigma1 w3 + w14 + sha256_sigma0 w6); (g, c) = sha256_Round d e f g h a b c (0x4a7484aa + w5);
          w6 = w6 + (sha256_sigma1 w4 + w15 + sha256_sigma0 w7); (f, b) = sha256_Round c d e f g h a b (0x5cb0a9dc + w6);
          w7 = w7 + (sha256_sigma1 w5 + w0 + sha256_sigma0 w8); (e, a) = sha256_Round b c d e f g h a (0x76f988da + w7);
          w8 = w8 + (sha256_sigma1 w6 + w1 + sha256_sigma0 w9); (d, h) = sha256_Round a b c d e f g h (0x983e5152 + w8);
          w9 = w9 + (sha256_sigma1 w7 + w2 + sha256_sigma0 w10); (c, g) = sha256_Round h a b c d e f g (0xa831c66d + w9);
          w10 = w10 + (sha256_sigma1 w8 + w3 + sha256_sigma0 w11); (b, f) = sha256_Round g h a b c d e f (0xb00327c8 + w10);
          w11 = w11 + (sha256_sigma1 w9 + w4 + sha256_sigma0 w12); (a, e) = sha256_Round f g h a b c d e (0xbf597fc7 + w11);
          w12 = w12 + (sha256_sigma1 w10 + w5 + sha256_sigma0 w13); (h, d) = sha256_Round e f g h a b c d (0xc6e00bf3 + w12);
          w13 = w13 + (sha256_sigma1 w11 + w6 + sha256_sigma0 w14); (g, c) = sha256_Round d e f g h a b c (0xd5a79147 + w13);
          w14 = w14 + (sha256_sigma1 w12 + w7 + sha256_sigma0 w15); (f, b) = sha256_Round c d e f g h a b (0x06ca6351 + w14);
          w15 = w15 + (sha256_sigma1 w13 + w8 + sha256_sigma0 w0); (e, a) = sha256_Round b c d e f g h a (0x14292967 + w15);
          w0 = w0 + (sha256_sigma1 w14 + w9 + sha256_sigma0 w1); (d, h) = sha256_Round a b c d e f g h (0x27b70a85 + w0);
          w1 = w1 + (sha256_sigma1 w15 + w10 + sha256_sigma0 w2); (c, g) = sha256_Round h a b c d e f g (0x2e1b2138 + w1);
          w2 = w2 + (sha256_sigma1 w0 + w11 + sha256_sigma0 w3); (b, f) = sha256_Round g h a b c d e f (0x4d2c6dfc + w2);
          w3 = w3 + (sha256_sigma1 w1 + w12 + sha256_sigma0 w4); (a, e) = sha256_Round f g h a b c d e (0x53380d13 + w3);
          w4 = w4 + (sha256_sigma1 w2 + w13 + sha256_sigma0 w5); (h, d) = sha256_Round e f g h a b c d (0x650a7354 + w4);
          w5 = w5 + (sha256_sigma1 w3 + w14 + sha256_sigma0 w6); (g, c) = sha256_Round d e f g h a b c (0x766a0abb + w5);
          w6 = w6 + (sha256_sigma1 w4 + w15 + sha256_sigma0 w7); (f, b) = sha256_Round c d e f g h a b (0x81c2c92e + w6);
          w7 = w7 + (sha256_sigma1 w5 + w0 + sha256_sigma0 w8); (e, a) = sha256_Round b c d e f g h a (0x92722c85 + w7);
          w8 = w8 + (sha256_sigma1 w6 + w1 + sha256_sigma0 w9); (d, h) = sha256_Round a b c d e f g h (0xa2bfe8a1 + w8);
          w9 = w9 + (sha256_sigma1 w7 + w2 + sha256_sigma0 w10); (c, g) = sha256_Round h a b c d e f g (0xa81a664b + w9);
          w10 = w10 + (sha256_sigma1 w8 + w3 + sha256_sigma0 w11); (b, f) = sha256_Round g h a b c d e f (0xc24b8b70 + w10);
          w11 = w11 + (sha256_sigma1 w9 + w4 + sha256_sigma0 w12); (a, e) = sha256_Round f g h a b c d e (0xc76c51a3 + w11);
          w12 = w12 + (sha256_sigma1 w10 + w5 + sha256_sigma0 w13); (h, d) = sha256_Round e f g h a b c d (0xd192e819 + w12);
          w13 = w13 + (sha256_sigma1 w11 + w6 + sha256_sigma0 w14); (g, c) = sha256_Round d e f g h a b c (0xd6990624 + w13);
          w14 = w14 + (sha256_sigma1 w12 + w7 + sha256_sigma0 w15); (f, b) = sha256_Round c d e f g h a b (0xf40e3585 + w14);
          w15 = w15 + (sha256_sigma1 w13 + w8 + sha256_sigma0 w0); (e, a) = sha256_Round b c d e f g h a (0x106aa070 + w15);
          w0 = w0 + (sha256_sigma1 w14 + w9 + sha256_sigma0 w1); (d, h) = sha256_Round a b c d e f g h (0x19a4c116 + w0);
          w1 = w1 + (sha256_sigma1 w15 + w10 + sha256_sigma0 w2); (c, g) = sha256_Round h a b c d e f g (0x1e376c08 + w1);
          w2 = w2 + (sha256_sigma1 w0 + w11 + sha256_sigma0 w3); (b, f) = sha256_Round g h a b c d e f (0x2748774c + w2);
          w3 = w3 + (sha256_sigma1 w1 + w12 + sha256_sigma0 w4); (a, e) = sha256_Round f g h a b c d e (0x34b0bcb5 + w3);
          w4 = w4 + (sha256_sigma1 w2 + w13 + sha256_sigma0 w5); (h, d) = sha256_Round e f g h a b c d (0x391c0cb3 + w4);
          w5 = w5 + (sha256_sigma1 w3 + w14 + sha256_sigma0 w6); (g, c) = sha256_Round d e f g h a b c (0x4ed8aa4a + w5);
          w6 = w6 + (sha256_sigma1 w4 + w15 + sha256_sigma0 w7); (f, b) = sha256_Round c d e f g h a b (0x5b9cca4f + w6);
          w7 = w7 + (sha256_sigma1 w5 + w0 + sha256_sigma0 w8); (e, a) = sha256_Round b c d e f g h a (0x682e6ff3 + w7);
          w8 = w8 + (sha256_sigma1 w6 + w1 + sha256_sigma0 w9); (d, h) = sha256_Round a b c d e f g h (0x748f82ee + w8);
          w9 = w9 + (sha256_sigma1 w7 + w2 + sha256_sigma0 w10); (c, g) = sha256_Round h a b c d e f g (0x78a5636f + w9);
          w10 = w10 + (sha256_sigma1 w8 + w3 + sha256_sigma0 w11); (b, f) = sha256_Round g h a b c d e f (0x84c87814 + w10);
          w11 = w11 + (sha256_sigma1 w9 + w4 + sha256_sigma0 w12); (a, e) = sha256_Round f g h a b c d e (0x8cc70208 + w11);
          w12 = w12 + (sha256_sigma1 w10 + w5 + sha256_sigma0 w13); (h, d) = sha256_Round e f g h a b c d (0x90befffa + w12);
          w13 = w13 + (sha256_sigma1 w11 + w6 + sha256_sigma0 w14); (g, c) = sha256_Round d e f g h a b c (0xa4506ceb + w13);
          (f, b) = sha256_Round c d e f g h a b (0xbef9a3f7 + (w14 + sha256_sigma1 w12 + w7 + sha256_sigma0 w15));
          (e, a) = sha256_Round b c d e f g h a (0xc67178f2 + (w15 + sha256_sigma1 w13 + w8 + sha256_sigma0 w0))
      in (a + 0x6a09e667, b + 0xbb67ae85, c + 0x3c6ef372, d + 0xa54ff53a, e + 0x510e527f, f + 0x9b05688c, g + 0x1f83d9ab, h + 0x5be0cd19))"

definition TransformD64_2 :: "sha256_state \<Rightarrow> sha256_state" where
  "TransformD64_2 t =
     (case t of (t0, t1, t2, t3, t4, t5, t6, t7) \<Rightarrow>
      let a = t0; b = t1; c = t2; d = t3; e = t4; f = t5; g = t6; h = t7;
          (d, h) = sha256_Round a b c d e f g h 0xc28a2f98;
          (c, g) = sha256_Round h a b c d e f g 0x71374491;
          (b, f) = sha256_Round g h a b c d e f 0xb5c0fbcf;
          (a, e) = sha256_Round f g h a b c d e 0xe9b5dba5;
          (h, d) = sha256_Round e f g h a b c d 0x3956c25b;
          (g, c) = sha256_Round d e f g h a b c 0x59f111f1;
          (f, b) = sha256_Round c d e f g h a b 0x923f82a4;
          (e, a) = sha256_Round b c d e f g h a 0xab1c5ed5;
          (d, h) = sha256_Round a b c d e f g h 0xd807aa98;
          (c, g) = sha256_Round h a b c d e f g 0x12835b01;
          (b, f) = sha256_Round g h a b c d e f 0x243185be;
          (a, e) = sha256_Round f g h a b c d e 0x550c7dc3;
          (h, d) = sha256_Round e f g h a b c d 0x72be5d74;
          (g, c) = sha256_Round d e f g h a b c 0x80deb1fe;
          (f, b) = sha256_Round c d e f g h a b 0x9bdc06a7;
          (e, a) = sha256_Round b c d e f g h a 0xc19bf374;
          (d, h) = sha256_Round a b c d e f g h 0x649b69c1;
          (c, g) = sha256_Round h a b c d e f g 0xf0fe4786;
          (b, f) = sha256_Round g h a b c d e f 0x0fe1edc6;
          (a, e) = sha256_Round f g h a b c d e 0x240cf254;
          (h, d) = sha256_Round e f g h a b c d 0x4fe9346f;
          (g, c) = sha256_Round d e f g h a b c 0x6cc984be;
          (f, b) = sha256_Round c d e f g h a b 0x61b9411e;
          (e, a) = sha256_Round b c d e f g h a 0x16f988fa;
          (d, h) = sha256_Round a b c d e f g h 0xf2c65152;
          (c, g) = sha256_Round h a b c d e f g 0xa88e5a6d;
          (b, f) = sha256_Round g h a b c d e f 0xb019fc65;
          (a, e) = sha256_Round f g h a b c d e 0xb9d99ec7;
          (h, d) = sha256_Round e f g h a b c d 0x9a1231c3;
          (g, c) = sha256_Round d e f g h a b c 0xe70eeaa0;
          (f, b) = sha256_Round c d e f g h a b 0xfdb1232b;
          (e, a) = sha256_Round b c d e f g h a 0xc7353eb0;
          (d, h) = sha256_Round a b c d e f g h 0x3069bad5;
          (c, g) = sha256_Round h a b c d e f g 0xcb976d5f;
          (b, f) = sha256_Round g h a b c d e f 0x5a0f118f;
          (a, e) = sha256_Round f g h a b c d e 0xdc1eeefd;
          (h, d) = sha256_Round e f g h a b c d 0x0a35b689;
          (g, c) = sha256_Round d e f g h a b c 0xde0b7a04;
          (f, b) = sha256_Round c d e f g h a b 0x58f4ca9d;
          (e, a) = sha256_Round b c d e f g h a 0xe15d5b16;
          (d, h) = sha256_Round a b c d e f g h 0x007f3e86;
          (c, g) = sha256_Round h a b c d e f g 0x37088980;
          (b, f) = sha256_Round g h a b c d e f 0xa507ea32;
          (a, e) = sha256_Round f g h a b c d e 0x6fab9537;
          (h, d) = sha256_Round e f g h a b c d 0x17406110;
          (g, c) = sha256_Round d e f g h a b c 0x0d8cd6f1;
          (f, b) = sha256_Round c d e f g h a b 0xcdaa3b6d;
          (e, a) = sha256_Round b c d e f g h a 0xc0bbbe37;
          (d, h) = sha256_Round a b c d e f g h 0x83613bda;
          (c, g) = sha256_Round h a b c d e f g 0xdb48a363;
          (b, f) = sha256_Round g h a b c d e f 0x0b02e931;
          (a, e) = sha256_Round f g h a b c d e 0x6fd15ca7;
          (h, d) = sha256_Round e f g h a b c d 0x521afaca;
          (g, c) = sha256_Round d e f g h a b c 0x31338431;
          (f, b) = sha256_Round c d e f g h a b 0x6ed41a95;
          (e, a) = sha256_Round b c d e f g h a 0x6d437890;
          (d, h) = sha256_Round a b c d e f g h 0xc39c91f2;
          (c, g) = sha256_Round h a b c d e f g 0x9eccabbd;
          (b, f) = sha256_Round g h a b c d e f 0xb5c9a0e6;
          (a, e) = sha256_Round f g h a b c d e 0x532fb63c;
          (h, d) = sha256_Round e f g h a b c d 0xd2c741c6;
          (g, c) = sha256_Round d e f g h a b c 0x07237ea3;
          (f, b) = sha256_Round c d e f g h a b 0xa4954b68;
          (e, a) = sha256_Round b c d e f g h a 0x4c191d76
      in (t0 + a, t1 + b, t2 + c, t3 + d, t4 + e, t5 + f, t6 + g, t7 + h))"

definition TransformD64_3 :: "sha256_state \<Rightarrow> bytes" where
  "TransformD64_3 w =
     (case w of (w0, w1, w2, w3, w4, w5, w6, w7) \<Rightarrow>
      let (a, b, c, d, e, f, g, h) = (0x6a09e667, 0xbb67ae85, 0x3c6ef372, 0xa54ff53a, 0x510e527f, 0x9b05688c, 0x1f83d9ab, 0x5be0cd19);
          (d, h) = sha256_Round a b c d e f g h (0x428a2f98 + w0);
          (c, g) = sha256_Round h a b c d e f g (0x71374491 + w1);
          (b, f) = sha256_Round g h a b c d e f (0xb5c0fbcf + w2);
          (a, e) = sha256_Round f g h a b c d e (0xe9b5dba5 + w3);
          (h, d) = sha256_Round e f g h a b c d (0x3956c25b + w4);
          (g, c) = sha256_Round d e f g h a b c (0x59f111f1 + w5);
          (f, b) = sha256_Round c d e f g h a b (0x923f82a4 + w6);
          (e, a) = sha256_Round b c d e f g h a (0xab1c5ed5 + w7);
          (d, h) = sha256_Round a b c d e f g h 0x5807aa98;
          (c, g) = sha256_Round h a b c d e f g 0x12835b01;
          (b, f) = sha256_Round g h a b c d e f 0x243185be;
          (a, e) = sha256_Round f g h a b c d e 0x550c7dc3;
          (h, d) = sha256_Round e f g h a b c d 0x72be5d74;
          (g, c) = sha256_Round d e f g h a b c 0x80deb1fe;
          (f, b) = sha256_Round c d e f g h a b 0x9bdc06a7;
          (e, a) = sha256_Round b c d e f g h a 0xc19bf274;
          w0 = w0 + sha256_sigma0 w1; (d, h) = sha256_Round a b c d e f g h (0xe49b69c1 + w0);
          w1 = w1 + (0xa00000 + sha256_sigma0 w2); (c, g) = sha256_Round h a b c d e f g (0xefbe4786 + w1);
          w2 = w2 + (sha256_sigma1 w0 + sha256_sigma0 w3); (b, f) = sha256_Round g h a b c d e f (0x0fc19dc6 + w2);
          w3 = w3 + (sha256_sigma1 w1 + sha256_sigma0 w4); (a, e) = sha256_Round f g h a b c d e (0x240ca1cc + w3);
          w4 = w4 + (sha256_sigma1 w2 + sha256_sigma0 w5); (h, d) = sha256_Round e f g h a b c d (0x2de92c6f + w4);
          w5 = w5 + (sha256_sigma1 w3 + sha256_sigma0 w6); (g, c) = sha256_Round d e f g h a b c (0x4a7484aa + w5);
          w6 = w6 + (sha256_sigma1 w4 + 0x100 + sha256_sigma0 w7); (f, b) = sha256_Round c d e f g h a b (0x5cb0a9dc + w6);
          w7 = w7 + (sha256_sigma1 w5 + w0 + 0x11002000); (e, a) = sha256_Round b c d e f g h a (0x76f988da + w7);
          w8 = 0x80000000 + sha256_sigma1 w6 + w1; (d, h) = sha256_Round a b c d e f g h (0x983e5152 + w8);
          w9 = sha256_sigma1 w7 + w2; (c, g) = sha256_Round h a b c d e f g (0xa831c66d + w9);
          w10 = sha256_sigma1 w8 + w3; (b, f) = sha256_Round g h a b c d e f (0xb00327c8 + w10);
          w11 = sha256_sigma1 w9 + w4; (a, e) = sha256_Round f g h a b c d e (0xbf597fc7 + w11);
          w12 = sha256_sigma1 w10 + w5; (h, d) = sha256_Round e f g h a b c d (0xc6e00bf3 + w12);
          w13 = sha256_sigma1 w11 + w6; (g, c) = sha256_Round d e f g h a b c (0xd5a79147 + w13);
          w14 = sha256_sigma1 w12 + w7 + 0x400022; (f, b) = sha256_Round c d e f g h a b (0x06ca6351 + w14);
          w15 = 0x100 + sha256_sigma1 w13 + w8 + sha256_sigma0 w0; (e, a) = sha256_Round b c d e f g h a (0x14292967 + w15);
          w0 = w0 + (sha256_sigma1 w14 + w9 + sha256_sigma0 w1); (d, h) = sha256_Round a b c d e f g h (0x27b70a85 + w0);
          w1 = w1 + (sha256_sigma1 w15 + w10 + sha256_sigma0 w2); (c, g) = sha256_Round h a b c d e f g (0x2e1b2138 + w1);
          w2 = w2 + (sha256_sigma1 w0 + w11 + sha256_sigma0 w3); (b, f) = sha256_Round g h a b c d e f (0x4d2c6dfc + w2);
          w3 = w3 + (sha256_sigma1 w1 + w12 + sha256_sigma0 w4); (a, e) = sha256_Round f g h a b c d e (0x53380d13 + w3);
          w4 = w4 + (sha256_sigma1 w2 + w13 + sha256_sigma0 w5); (h, d) = sha256_Round e f g h a b c d (0x650a7354 + w4);
          w5 = w5 + (sha256_sigma1 w3 + w14 + sha256_sigma0 w6); (g, c) = sha256_Round d e f g h a b c (0x766a0abb + w5);
          w6 = w6 + (sha256_sigma1 w4 + w15 + sha256_sigma0 w7); (f, b) = sha256_Round c d e f g h a b (0x81c2c92e + w6);
          w7 = w7 + (sha256_sigma1 w5 + w0 + sha256_sigma0 w8); (e, a) = sha256_Round b c d e f g h a (0x92722c85 + w7);
          w8 = w8 + (sha256_sigma1 w6 + w1 + sha256_sigma0 w9); (d, h) = sha256_Round a b c d e f g h (0xa2bfe8a1 + w8);
          w9 = w9 + (sha256_sigma1 w7 + w2 + sha256_sigma0 w10); (c, g) = sha256_Round h a b c d e f g (0xa81a664b + w9);
          w10 = w10 + (sha256_sigma1 w8 + w3 + sha256_sigma0 w11); (b, f) = sha256_Round g h a b c d e f (0xc24b8b70 + w10);
          w11 = w11 + (sha256_sigma1 w9 + w4 + sha256_sigma0 w12); (a, e) = sha256_Round f g h a b c d e (0xc76c51a3 + w11);
          w12 = w12 + (sha256_sigma1 w10 + w5 + sha256_sigma0 w13); (h, d) = sha256_Round e f g h a b c d (0xd192e819 + w12);
          w13 = w13 + (sha256_sigma1 w11 + w6 + sha256_sigma0 w14); (g, c) = sha256_Round d e f g h a b c (0xd6990624 + w13);
          w14 = w14 + (sha256_sigma1 w12 + w7 + sha256_sigma0 w15); (f, b) = sha256_Round c d e f g h a b (0xf40e3585 + w14);
          w15 = w15 + (sha256_sigma1 w13 + w8 + sha256_sigma0 w0); (e, a) = sha256_Round b c d e f g h a (0x106aa070 + w15);
          w0 = w0 + (sha256_sigma1 w14 + w9 + sha256_sigma0 w1); (d, h) = sha256_Round a b c d e f g h (0x19a4c116 + w0);
          w1 = w1 + (sha256_sigma1 w15 + w10 + sha256_sigma0 w2); (c, g) = sha256_Round h a b c d e f g (0x1e376c08 + w1);
          w2 = w2 + (sha256_sigma1 w0 + w11 + sha256_sigma0 w3); (b, f) = sha256_Round g h a b c d e f (0x2748774c + w2);
          w3 = w3 + (sha256_sigma1 w1 + w12 + sha256_sigma0 w4); (a, e) = sha256_Round f g h a b c d e (0x34b0bcb5 + w3);
          w4 = w4 + (sha256_sigma1 w2 + w13 + sha256_sigma0 w5); (h, d) = sha256_Round e f g h a b c d (0x391c0cb3 + w4);
          w5 = w5 + (sha256_sigma1 w3 + w14 + sha256_sigma0 w6); (g, c) = sha256_Round d e f g h a b c (0x4ed8aa4a + w5);
          w6 = w6 + (sha256_sigma1 w4 + w15 + sha256_sigma0 w7); (f, b) = sha256_Round c d e f g h a b (0x5b9cca4f + w6);
          w7 = w7 + (sha256_sigma1 w5 + w0 + sha256_sigma0 w8); (e, a) = sha256_Round b c d e f g h a (0x682e6ff3 + w7);
          w8 = w8 + (sha256_sigma1 w6 + w1 + sha256_sigma0 w9); (d, h) = sha256_Round a b c d e f g h (0x748f82ee + w8);
          w9 = w9 + (sha256_sigma1 w7 + w2 + sha256_sigma0 w10); (c, g) = sha256_Round h a b c d e f g (0x78a5636f + w9);
          w10 = w10 + (sha256_sigma1 w8 + w3 + sha256_sigma0 w11); (b, f) = sha256_Round g h a b c d e f (0x84c87814 + w10);
          w11 = w11 + (sha256_sigma1 w9 + w4 + sha256_sigma0 w12); (a, e) = sha256_Round f g h a b c d e (0x8cc70208 + w11);
          w12 = w12 + (sha256_sigma1 w10 + w5 + sha256_sigma0 w13); (h, d) = sha256_Round e f g h a b c d (0x90befffa + w12);
          w13 = w13 + (sha256_sigma1 w11 + w6 + sha256_sigma0 w14); (g, c) = sha256_Round d e f g h a b c (0xa4506ceb + w13);
          (f, b) = sha256_Round c d e f g h a b (0xbef9a3f7 + (w14 + sha256_sigma1 w12 + w7 + sha256_sigma0 w15));
          (e, a) = sha256_Round b c d e f g h a (0xc67178f2 + (w15 + sha256_sigma1 w13 + w8 + sha256_sigma0 w0))
      in WriteBE32 (a + 0x6a09e667) @ WriteBE32 (b + 0xbb67ae85) @ WriteBE32 (c + 0x3c6ef372) @ WriteBE32 (d + 0xa54ff53a) @
         WriteBE32 (e + 0x510e527f) @ WriteBE32 (f + 0x9b05688c) @ WriteBE32 (g + 0x1f83d9ab) @ WriteBE32 (h + 0x5be0cd19))"

definition TransformD64 :: "bytes \<Rightarrow> bytes" where
  "TransformD64 inp = TransformD64_3 (TransformD64_2 (TransformD64_1 inp))"

text \<open>
  Several blobs at once. The three pointers are the implementations for eight, four and two blobs that the node may select at start-up, \<open>None\<close> for a
  null pointer as in a build without them.
\<close>

record sha256_dispatch =
  TransformD64_8way :: "(bytes \<Rightarrow> bytes) option"
  TransformD64_4way :: "(bytes \<Rightarrow> bytes) option"
  TransformD64_2way :: "(bytes \<Rightarrow> bytes) option"

fun D64_loop :: "(bytes \<Rightarrow> bytes) option \<Rightarrow> nat \<Rightarrow> bytes \<Rightarrow> nat \<Rightarrow> bytes \<times> bytes \<times> nat" where
  "D64_loop way n inp blocks =
     (case way of
        None \<Rightarrow> ([], inp, blocks)
      | Some tr \<Rightarrow>
          if n \<le> blocks \<and> 0 < n
          then let (out, inp', blocks') = D64_loop way n (drop (64 * n) inp) (blocks - n) in (tr (take (64 * n) inp) @ out, inp', blocks')
          else ([], inp, blocks))"

declare D64_loop.simps [simp del]

definition SHA256D64 :: "sha256_dispatch \<Rightarrow> bytes \<Rightarrow> nat \<Rightarrow> bytes" where
  "SHA256D64 D inp blocks =
     (let (out8, inp, blocks) = D64_loop (TransformD64_8way D) 8 inp blocks;
          (out4, inp, blocks) = D64_loop (TransformD64_4way D) 4 inp blocks;
          (out2, inp, blocks) = D64_loop (TransformD64_2way D) 2 inp blocks;
          (out1, inp, blocks) = D64_loop (Some TransformD64) 1 inp blocks
      in out8 @ out4 @ out2 @ out1)"

subsection \<open>The class\<close>

text \<open>The buffer of a new object is not initialised; \<open>buf\<close> stands for what it holds.\<close>

definition CSHA256_new :: "bytes \<Rightarrow> sha256_state hasher" where
  "CSHA256_new buf = \<lparr>hs_s = sha256_Initialize, hs_buf = buf, hs_bytes = 0\<rparr>"

definition CSHA256_Write :: "bytes \<Rightarrow> sha256_state hasher \<Rightarrow> sha256_state hasher" where
  "CSHA256_Write data h =
     (let (bufsize, data, h) = hasher_fill (\<lambda>s buf. sha256_Transform s buf 1) data h;
          (data, h) = (if length data \<ge> 64
                       then let blocks = length data div 64
                            in (drop (64 * blocks) data,
                                h\<lparr>hs_s := sha256_Transform (hs_s h) data blocks, hs_bytes := hs_bytes h + word_of_nat (64 * blocks)\<rparr>)
                       else (data, h))
      in hasher_keep bufsize data h)"

definition CSHA256_Finalize :: "sha256_state hasher \<Rightarrow> bytes" where
  "CSHA256_Finalize h =
     (let sizedesc = WriteBE64 (push_bit 3 (hs_bytes h));
          h = CSHA256_Write (take (pad_size (hs_bytes h)) hasher_pad) h;
          h = CSHA256_Write sizedesc h
      in case hs_s h of (s0, s1, s2, s3, s4, s5, s6, s7) \<Rightarrow>
           WriteBE32 s0 @ WriteBE32 s1 @ WriteBE32 s2 @ WriteBE32 s3 @ WriteBE32 s4 @ WriteBE32 s5 @ WriteBE32 s6 @ WriteBE32 s7)"

definition CSHA256_Reset :: "sha256_state hasher \<Rightarrow> sha256_state hasher" where
  "CSHA256_Reset h = h\<lparr>hs_bytes := 0, hs_s := sha256_Initialize\<rparr>"

section \<open>The standard\<close>

definition std_Ch :: "u32 \<Rightarrow> u32 \<Rightarrow> u32 \<Rightarrow> u32" where
  "std_Ch x y z = (x AND y) XOR (NOT x AND z)"

definition std_Maj :: "u32 \<Rightarrow> u32 \<Rightarrow> u32 \<Rightarrow> u32" where
  "std_Maj x y z = (x AND y) XOR (x AND z) XOR (y AND z)"

definition std_Sigma0 :: "u32 \<Rightarrow> u32" where
  "std_Sigma0 x = word_rotr 2 x XOR word_rotr 13 x XOR word_rotr 22 x"

definition std_Sigma1 :: "u32 \<Rightarrow> u32" where
  "std_Sigma1 x = word_rotr 6 x XOR word_rotr 11 x XOR word_rotr 25 x"

definition std_sigma0 :: "u32 \<Rightarrow> u32" where
  "std_sigma0 x = word_rotr 7 x XOR word_rotr 18 x XOR drop_bit 3 x"

definition std_sigma1 :: "u32 \<Rightarrow> u32" where
  "std_sigma1 x = word_rotr 17 x XOR word_rotr 19 x XOR drop_bit 10 x"

text \<open>
  The constants as the standard explains them: the first 32 bits of the fractional parts of the cube roots of the first 64 primes. \<open>cube_root\<close> is the integer
  cube root of numbers below \<open>2 ^ 105\<close>, one bit at a time; 96 more bits of the radicand are 32 more bits of the root.
\<close>

definition sha256_primes :: "int list" where
  "sha256_primes =
    [2, 3, 5, 7, 11, 13, 17, 19, 23, 29, 31, 37, 41, 43, 47, 53,
     59, 61, 67, 71, 73, 79, 83, 89, 97, 101, 103, 107, 109, 113, 127, 131,
     137, 139, 149, 151, 157, 163, 167, 173, 179, 181, 191, 193, 197, 199, 211, 223,
     227, 229, 233, 239, 241, 251, 257, 263, 269, 271, 277, 281, 283, 293, 307, 311]"

definition cube_root :: "int \<Rightarrow> int" where
  "cube_root n = fold (\<lambda>i x. if (x + 2 ^ i) ^ 3 \<le> n then x + 2 ^ i else x) (rev [0..<35]) 0"

definition sha256_constant :: "int \<Rightarrow> u32" where
  "sha256_constant p = word_of_int (cube_root (p * 2 ^ 96))"

definition sha256_k :: "u32 list" where
  "sha256_k = map sha256_constant sha256_primes"

text \<open>The message schedule: each new word from four earlier ones.\<close>

primrec sha256_extend :: "nat \<Rightarrow> u32 list \<Rightarrow> u32 list" where
  "sha256_extend 0 w = w"
| "sha256_extend (Suc n) w =
     (let t = length w
      in sha256_extend n (w @ [std_sigma1 (w ! (t - 2)) + w ! (t - 7) + std_sigma0 (w ! (t - 15)) + w ! (t - 16)]))"

definition sha256_words :: "bytes \<Rightarrow> u32 list" where
  "sha256_words block = map (\<lambda>t. ReadBE32 (drop (4 * t) block)) [0..<16]"

definition sha256_schedule :: "bytes \<Rightarrow> u32 list" where
  "sha256_schedule block = sha256_extend 48 (sha256_words block)"

text \<open>The working variables after \<open>t\<close> rounds.\<close>

primrec sha256_rounds :: "u32 list \<Rightarrow> sha256_state \<Rightarrow> nat \<Rightarrow> sha256_state" where
  "sha256_rounds w s 0 = s"
| "sha256_rounds w s (Suc t) =
     (case sha256_rounds w s t of (a, b, c, d, e, f, g, h) \<Rightarrow>
      let T1 = h + std_Sigma1 e + std_Ch e f g + sha256_k ! t + w ! t; T2 = std_Sigma0 a + std_Maj a b c
      in (T1 + T2, a, b, c, d + T1, e, f, g))"

definition sha256_add :: "sha256_state \<Rightarrow> sha256_state \<Rightarrow> sha256_state" where
  "sha256_add s t =
     (case s of (a, b, c, d, e, f, g, h) \<Rightarrow> case t of (a', b', c', d', e', f', g', h') \<Rightarrow>
      (a + a', b + b', c + c', d + d', e + e', f + f', g + g', h + h'))"

definition sha256_compress :: "sha256_state \<Rightarrow> bytes \<Rightarrow> sha256_state" where
  "sha256_compress s block = sha256_add s (sha256_rounds (sha256_schedule block) s 64)"

definition sha256_digest :: "sha256_state \<Rightarrow> bytes" where
  "sha256_digest s =
     (case s of (a, b, c, d, e, f, g, h) \<Rightarrow>
      WriteBE32 a @ WriteBE32 b @ WriteBE32 c @ WriteBE32 d @ WriteBE32 e @ WriteBE32 f @ WriteBE32 g @ WriteBE32 h)"

definition std_sha256 :: "bytes \<Rightarrow> bytes" where
  "std_sha256 msg = sha256_digest (md_blocks sha256_compress sha256_Initialize (md_pad WriteBE64 msg))"

section \<open>The constants\<close>

lemma first_primes: "sha256_primes = filter (\<lambda>p. \<forall>d \<in> set [2..17]. d < p \<longrightarrow> p mod d \<noteq> 0) [2..311]"
  unfolding sha256_primes_def by (simp add: upto_rec1)

lemma cube_root_bits:
  "x ^ 3 \<le> n \<Longrightarrow> n < (x + 2 ^ k) ^ 3 \<Longrightarrow>
   (fold (\<lambda>i x. if (x + 2 ^ i) ^ 3 \<le> n then x + 2 ^ i else x) (rev [0..<k]) x) ^ 3 \<le> n \<and>
   n < (fold (\<lambda>i x. if (x + 2 ^ i) ^ 3 \<le> n then x + 2 ^ i else x) (rev [0..<k]) x + 1) ^ 3" for x n :: int
proof (induction k arbitrary: x)
  case (Suc k)
  have e: "x + 2 ^ Suc k = x + 2 ^ k + 2 ^ k" by simp
  show ?case
  proof (cases "(x + 2 ^ k) ^ 3 \<le> n")
    case True
    with Suc.IH [of "x + 2 ^ k"] Suc.prems(2) [unfolded e] show ?thesis by simp
  next
    case False
    with Suc.IH [of x] Suc.prems(1) show ?thesis by simp
  qed
qed simp

lemma cube_root_floor: "0 \<le> n \<Longrightarrow> n < 2 ^ 105 \<Longrightarrow> cube_root n ^ 3 \<le> n \<and> n < (cube_root n + 1) ^ 3"
  unfolding cube_root_def by (rule cube_root_bits) simp_all

lemma cube_root_eq:
  assumes "0 \<le> x" "x ^ 3 \<le> n" "n < (x + 1) ^ 3" "n < 2 ^ 105"
  shows "cube_root n = x"
proof -
  have "0 \<le> n" using assms(1, 2) zero_le_power order_trans by blast
  then have r: "cube_root n ^ 3 \<le> n" "n < (cube_root n + 1) ^ 3" using cube_root_floor assms(4) by auto
  have "x < cube_root n + 1" using r(2) assms(2) by (meson linorder_not_le odd_numeral order_less_le_trans power_mono_odd)
  moreover have "cube_root n < x + 1" using r(1) assms(3) by (meson linorder_not_le odd_numeral order_less_le_trans power_mono_odd)
  ultimately show ?thesis by simp
qed

text \<open>The integer part of the root, by the cubes up to 216.\<close>

lemma constant_value:
  assumes "i = (if p < 8 then 1 else if p < 27 then 2 else if p < 64 then 3 else if p < 125 then 4 else if p < 216 then 5 else 6)"
    "p < 512" "(i * 2 ^ 32 + numeral c) ^ 3 \<le> p * 2 ^ 96" "p * 2 ^ 96 < (i * 2 ^ 32 + numeral c + 1) ^ 3"
  shows "(sha256_constant p = numeral c) = True"
proof -
  have "0 \<le> i" by (simp add: assms(1))
  then have "cube_root (p * 2 ^ 96) = i * 2 ^ 32 + numeral c" using assms(2-4) by (intro cube_root_eq) simp_all
  moreover have "(word_of_int (i * 2 ^ 32 + numeral c) :: u32) = word_of_int (numeral c)"
    unfolding word_of_int_eq_iff by (simp add: take_bit_eq_mod)
  ultimately show ?thesis by (simp add: sha256_constant_def)
qed

lemma sha256_k_values:
  "sha256_k ! 0 = 0x428a2f98" "sha256_k ! 1 = 0x71374491" "sha256_k ! 2 = 0xb5c0fbcf" "sha256_k ! 3 = 0xe9b5dba5"
  "sha256_k ! 4 = 0x3956c25b" "sha256_k ! 5 = 0x59f111f1" "sha256_k ! 6 = 0x923f82a4" "sha256_k ! 7 = 0xab1c5ed5"
  "sha256_k ! 8 = 0xd807aa98" "sha256_k ! 9 = 0x12835b01" "sha256_k ! 10 = 0x243185be" "sha256_k ! 11 = 0x550c7dc3"
  "sha256_k ! 12 = 0x72be5d74" "sha256_k ! 13 = 0x80deb1fe" "sha256_k ! 14 = 0x9bdc06a7" "sha256_k ! 15 = 0xc19bf174"
  "sha256_k ! 16 = 0xe49b69c1" "sha256_k ! 17 = 0xefbe4786" "sha256_k ! 18 = 0x0fc19dc6" "sha256_k ! 19 = 0x240ca1cc"
  "sha256_k ! 20 = 0x2de92c6f" "sha256_k ! 21 = 0x4a7484aa" "sha256_k ! 22 = 0x5cb0a9dc" "sha256_k ! 23 = 0x76f988da"
  "sha256_k ! 24 = 0x983e5152" "sha256_k ! 25 = 0xa831c66d" "sha256_k ! 26 = 0xb00327c8" "sha256_k ! 27 = 0xbf597fc7"
  "sha256_k ! 28 = 0xc6e00bf3" "sha256_k ! 29 = 0xd5a79147" "sha256_k ! 30 = 0x06ca6351" "sha256_k ! 31 = 0x14292967"
  "sha256_k ! 32 = 0x27b70a85" "sha256_k ! 33 = 0x2e1b2138" "sha256_k ! 34 = 0x4d2c6dfc" "sha256_k ! 35 = 0x53380d13"
  "sha256_k ! 36 = 0x650a7354" "sha256_k ! 37 = 0x766a0abb" "sha256_k ! 38 = 0x81c2c92e" "sha256_k ! 39 = 0x92722c85"
  "sha256_k ! 40 = 0xa2bfe8a1" "sha256_k ! 41 = 0xa81a664b" "sha256_k ! 42 = 0xc24b8b70" "sha256_k ! 43 = 0xc76c51a3"
  "sha256_k ! 44 = 0xd192e819" "sha256_k ! 45 = 0xd6990624" "sha256_k ! 46 = 0xf40e3585" "sha256_k ! 47 = 0x106aa070"
  "sha256_k ! 48 = 0x19a4c116" "sha256_k ! 49 = 0x1e376c08" "sha256_k ! 50 = 0x2748774c" "sha256_k ! 51 = 0x34b0bcb5"
  "sha256_k ! 52 = 0x391c0cb3" "sha256_k ! 53 = 0x4ed8aa4a" "sha256_k ! 54 = 0x5b9cca4f" "sha256_k ! 55 = 0x682e6ff3"
  "sha256_k ! 56 = 0x748f82ee" "sha256_k ! 57 = 0x78a5636f" "sha256_k ! 58 = 0x84c87814" "sha256_k ! 59 = 0x8cc70208"
  "sha256_k ! 60 = 0x90befffa" "sha256_k ! 61 = 0xa4506ceb" "sha256_k ! 62 = 0xbef9a3f7" "sha256_k ! 63 = 0xc67178f2"
  by (simp_all add: sha256_k_def sha256_primes_def constant_value)

lemma word_numeral_eq: "(numeral a = (numeral b :: u32)) \<longleftrightarrow> (numeral a :: int) mod 4294967296 = numeral b mod 4294967296"
proof -
  have "(numeral a = (numeral b :: u32)) \<longleftrightarrow> (word_of_int (numeral a) :: u32) = word_of_int (numeral b)" by simp
  also have "\<dots> \<longleftrightarrow> (numeral a :: int) mod 4294967296 = numeral b mod 4294967296" unfolding word_of_int_eq_iff by (simp add: take_bit_eq_mod)
  finally show ?thesis .
qed

section \<open>The code computes the standard's functions\<close>

lemma std_functions:
  "sha256_Ch = std_Ch" "sha256_Maj = std_Maj" "sha256_Sigma0 = std_Sigma0" "sha256_Sigma1 = std_Sigma1" "sha256_sigma0 = std_sigma0" "sha256_sigma1 = std_sigma1"
proof -
  show "sha256_Ch = std_Ch" "sha256_Maj = std_Maj"
    by (intro ext bit_word_eqI, auto simp: sha256_Ch_def std_Ch_def sha256_Maj_def std_Maj_def bit_simps)+
qed (simp_all add: fun_eq_iff sha256_Sigma0_def std_Sigma0_def sha256_Sigma1_def std_Sigma1_def sha256_sigma0_def std_sigma0_def sha256_sigma1_def
   std_sigma1_def rotr_shifts)

lemma length_extend: "length (sha256_extend n w) = length w + n"
  by (induction n arbitrary: w) (simp_all add: Let_def)

lemma extend_nth: "t < length w \<Longrightarrow> sha256_extend n w ! t = w ! t"
  by (induction n arbitrary: w) (simp_all add: Let_def nth_append)

lemma extend_step:
  assumes "16 \<le> length w" "length w \<le> t" "t < length w + n"
  shows "sha256_extend n w ! t = std_sigma1 (sha256_extend n w ! (t - 2)) + sha256_extend n w ! (t - 7) + std_sigma0 (sha256_extend n w ! (t - 15)) +
    sha256_extend n w ! (t - 16)"
  using assms
proof (induction n arbitrary: w)
  case (Suc n)
  then show ?case by (cases "t = length w") (auto simp: Let_def extend_nth nth_append)
qed simp

section \<open>The unrolled rounds\<close>

text \<open>The schedule of the padding block of a 64-byte message.\<close>

definition sha256_pad_schedule :: "u32 list" where
  "sha256_pad_schedule =
    [0x80000000, 0x0, 0x0, 0x0, 0x0, 0x0, 0x0, 0x0,
     0x0, 0x0, 0x0, 0x0, 0x0, 0x0, 0x0, 0x200,
     0x80000000, 0x1400000, 0x205000, 0x5088, 0x22000800, 0x22550014, 0x5089742, 0xa0000020,
     0x5a880000, 0x5c9400, 0x16d49d, 0xfa801f00, 0xd33225d0, 0x11675959, 0xf6e6bfda, 0xb30c1549,
     0x8b2b050, 0x9d7c4c27, 0xce2a393, 0x88e6e1ea, 0xa52b4335, 0x67a16f49, 0xd732016f, 0x4eeb2e91,
     0x5dbf55e5, 0x8eee2335, 0xe2bc5ec2, 0xa83f4394, 0x45ad78f7, 0x36f3d0cd, 0xd99c05e8, 0xb0511dc7,
     0x69bc7ac4, 0xbd11375b, 0xe3ba71e5, 0x3b209ff2, 0x18feee17, 0xe25ad9e7, 0x13375046, 0x515089d,
     0x4f0d0f04, 0x2627484e, 0x310128d2, 0xc668b434, 0x420841cc, 0x62d311b8, 0xe59ba771, 0x85a7a484]"

lemma pad_schedule: "sha256_extend 48 ([0x80000000, 0, 0, 0, 0, 0, 0, 0, 0, 0, 0, 0, 0, 0, 0, 0x200]) = sha256_pad_schedule"
  by code_simp

text \<open>
  Sequences that the rounds step through: \<open>A\<close> and \<open>E\<close> hold the values \<open>a\<close> and \<open>e\<close> get, four of each at the start, and \<open>W\<close> is the schedule. A round of
  the code, whichever way its arguments are rotated, takes the next value of both sequences.
\<close>

locale sha256_sequences =
  fixes A E W :: "nat \<Rightarrow> u32"
  assumes round: "t < 64 \<Longrightarrow> sha256_Round (A (t + 3)) (A (t + 2)) (A (t + 1)) (A t) (E (t + 3)) (E (t + 2)) (E (t + 1)) (E t) (sha256_k ! t + W t) =
      (E (t + 4), A (t + 4))"
    and schedule: "t < 48 \<Longrightarrow> W t + (sha256_sigma1 (W (t + 14)) + W (t + 9) + sha256_sigma0 (W (t + 1))) = W (t + 16)"
begin

lemma round_word:
  "t < 64 \<Longrightarrow> t1 = t + 1 \<Longrightarrow> t2 = t + 2 \<Longrightarrow> t3 = t + 3 \<Longrightarrow> sha256_k ! t = k \<Longrightarrow>
   sha256_Round (A t3) (A t2) (A t1) (A t) (E t3) (E t2) (E t1) (E t) (k + W t) = (E (t + 4), A (t + 4))"
  using round by blast

lemma round_constant:
  "t < 64 \<Longrightarrow> t1 = t + 1 \<Longrightarrow> t2 = t + 2 \<Longrightarrow> t3 = t + 3 \<Longrightarrow> sha256_k ! t + W t = numeral c \<Longrightarrow>
   sha256_Round (A t3) (A t2) (A t1) (A t) (E t3) (E t2) (E t1) (E t) (numeral c) = (E (t + 4), A (t + 4))"
  using round by metis

lemma schedule_word:
  "t < 48 \<Longrightarrow> t1 = t + 14 \<Longrightarrow> t2 = t + 9 \<Longrightarrow> t3 = t + 1 \<Longrightarrow> W t + (sha256_sigma1 (W t1) + W t2 + sha256_sigma0 (W t3)) = W (t + 16)"
  using schedule by blast

lemma schedule_last:
  "t < 48 \<Longrightarrow> t1 = t + 14 \<Longrightarrow> t2 = t + 9 \<Longrightarrow> t3 = t + 1 \<Longrightarrow> W t + sha256_sigma1 (W t1) + W t2 + sha256_sigma0 (W t3) = W (t + 16)"
  using schedule_word by (simp add: add.assoc)

lemma Transform1_sequences:
  assumes "\<And>t. t < 16 \<Longrightarrow> ReadBE32 (drop (4 * t) chunk) = W t"
  shows "sha256_Transform1 (A 3, A 2, A 1, A 0, E 3, E 2, E 1, E 0) chunk =
    (A 3 + A 67, A 2 + A 66, A 1 + A 65, A 0 + A 64, E 3 + E 67, E 2 + E 66, E 1 + E 65, E 0 + E 64)"
proof -
  have w: "ReadBE32 (drop n chunk) = W (n div 4)" if "n < 64" "n mod 4 = 0" for n using assms [of "n div 4"] that by auto
  show ?thesis
    unfolding sha256_Transform1_def
    by (simp add: round_word schedule_word schedule_last w w [of 0, simplified] sha256_k_values del: One_nat_def add_2_eq_Suc add_2_eq_Suc'
       cong: let_weak_cong prod.case_cong_weak)
qed

lemma TransformD64_1_sequences:
  assumes "\<And>t. t < 16 \<Longrightarrow> ReadBE32 (drop (4 * t) inp) = W t"
    "(A 3, A 2, A 1, A 0, E 3, E 2, E 1, E 0) = sha256_Initialize"
  shows "TransformD64_1 inp = (A 67 + A 3, A 66 + A 2, A 65 + A 1, A 64 + A 0, E 67 + E 3, E 66 + E 2, E 65 + E 1, E 64 + E 0)"
proof -
  have w: "ReadBE32 (drop n inp) = W (n div 4)" if "n < 64" "n mod 4 = 0" for n using assms(1) [of "n div 4"] that by auto
  have i: "0x6a09e667 = A 3" "0xbb67ae85 = A 2" "0x3c6ef372 = A 1" "0xa54ff53a = A 0" "0x510e527f = E 3" "0x9b05688c = E 2" "0x1f83d9ab = E 1" "0x5be0cd19 = E 0"
    using assms(2) by (simp_all add: sha256_Initialize_def)
  show ?thesis
    unfolding TransformD64_1_def i
    by (simp add: round_word schedule_word schedule_last w w [of 0, simplified] sha256_k_values del: One_nat_def add_2_eq_Suc add_2_eq_Suc'
       cong: let_weak_cong prod.case_cong_weak)
qed

lemma TransformD64_2_sequences:
  assumes "\<And>t. t < 64 \<Longrightarrow> W t = sha256_pad_schedule ! t"
  shows "TransformD64_2 (A 3, A 2, A 1, A 0, E 3, E 2, E 1, E 0) =
    (A 3 + A 67, A 2 + A 66, A 1 + A 65, A 0 + A 64, E 3 + E 67, E 2 + E 66, E 1 + E 65, E 0 + E 64)"
  unfolding TransformD64_2_def
  by (simp add: round_constant assms sha256_pad_schedule_def sha256_k_values word_numeral_eq
     del: word_eq_numeral_iff_iszero One_nat_def add_2_eq_Suc add_2_eq_Suc' cong: let_weak_cong prod.case_cong_weak)

lemma TransformD64_3_sequences:
  assumes w: "W 8 = 0x80000000" "W 9 = 0" "W 10 = 0" "W 11 = 0" "W 12 = 0" "W 13 = 0" "W 14 = 0" "W 15 = 0x100"
    and "(A 3, A 2, A 1, A 0, E 3, E 2, E 1, E 0) = sha256_Initialize"
  shows "TransformD64_3 (W 0, W 1, W 2, W 3, W 4, W 5, W 6, W 7) =
    sha256_digest (A 67 + A 3, A 66 + A 2, A 65 + A 1, A 64 + A 0, E 67 + E 3, E 66 + E 2, E 65 + E 1, E 64 + E 0)"
proof -
  have i: "0x6a09e667 = A 3" "0xbb67ae85 = A 2" "0x3c6ef372 = A 1" "0xa54ff53a = A 0" "0x510e527f = E 3" "0x9b05688c = E 2" "0x1f83d9ab = E 1" "0x5be0cd19 = E 0"
    using assms(9) by (simp_all add: sha256_Initialize_def)
  have z: "sha256_sigma0 0 = 0" "sha256_sigma1 0 = 0" "sha256_sigma1 0x100 = 0xa00000" "sha256_sigma0 0x80000000 = 0x11002000" "sha256_sigma0 0x100 = 0x400022"
    by (simp_all add: sha256_sigma0_def sha256_sigma1_def)
  have "sha256_k ! 8 + W 8 = 0x5807aa98" by (simp add: w sha256_k_values word_numeral_eq)
  then have k: "sha256_Round (A 11) (A 10) (A 9) (A 8) (E 11) (E 10) (E 9) (E 8) 0x5807aa98 = (E 12, A 12)" using round [of 8] by simp
  have s:
    "W 0 + sha256_sigma0 (W 1) = W 16" "W 1 + (0xa00000 + sha256_sigma0 (W 2)) = W 17" "W 2 + (sha256_sigma1 (W 16) + sha256_sigma0 (W 3)) = W 18"
    "W 3 + (sha256_sigma1 (W 17) + sha256_sigma0 (W 4)) = W 19" "W 4 + (sha256_sigma1 (W 18) + sha256_sigma0 (W 5)) = W 20"
    "W 5 + (sha256_sigma1 (W 19) + sha256_sigma0 (W 6)) = W 21" "W 6 + (sha256_sigma1 (W 20) + 0x100 + sha256_sigma0 (W 7)) = W 22"
    "W 7 + (sha256_sigma1 (W 21) + W 16 + 0x11002000) = W 23" "0x80000000 + sha256_sigma1 (W 22) + W 17 = W 24" "sha256_sigma1 (W 23) + W 18 = W 25"
    "sha256_sigma1 (W 24) + W 19 = W 26" "sha256_sigma1 (W 25) + W 20 = W 27" "sha256_sigma1 (W 26) + W 21 = W 28" "sha256_sigma1 (W 27) + W 22 = W 29"
    "sha256_sigma1 (W 28) + W 23 + 0x400022 = W 30" "0x100 + sha256_sigma1 (W 29) + W 24 + sha256_sigma0 (W 16) = W 31"
    using schedule [of 0] schedule [of 1] schedule [of 2] schedule [of 3] schedule [of 4] schedule [of 5] schedule [of 6] schedule [of 7]
      schedule [of 8] schedule [of 9] schedule [of 10] schedule [of 11] schedule [of 12] schedule [of 13] schedule [of 14] schedule [of 15]
    by (simp_all add: w z add.assoc del: One_nat_def)
  show ?thesis
    unfolding TransformD64_3_def i
    by (simp add: round_word round_constant schedule_word schedule_last s k w sha256_k_values sha256_digest_def del: One_nat_def add_2_eq_Suc add_2_eq_Suc'
       cong: let_weak_cong prod.case_cong_weak)
qed

end

text \<open>The values the two registers take in the standard's rounds.\<close>

definition sha256_A :: "u32 list \<Rightarrow> sha256_state \<Rightarrow> nat \<Rightarrow> u32" where
  "sha256_A w s t = (case s of (a, b, c, d, e, f, g, h) \<Rightarrow> if t < 4 then [d, c, b, a] ! t else fst (sha256_rounds w s (t - 3)))"

definition sha256_E :: "u32 list \<Rightarrow> sha256_state \<Rightarrow> nat \<Rightarrow> u32" where
  "sha256_E w s t =
     (case s of (a, b, c, d, e, f, g, h) \<Rightarrow> if t < 4 then [h, g, f, e] ! t else (case sha256_rounds w s (t - 3) of (a, b, c, d, e, f, g, h) \<Rightarrow> e))"

lemma sequences_next:
  "sha256_A w s (t + 4) = fst (sha256_rounds w s (Suc t))" "sha256_E w s (t + 4) = (case sha256_rounds w s (Suc t) of (a, b, c, d, e, f, g, h) \<Rightarrow> e)"
  by (simp_all add: sha256_A_def sha256_E_def Suc_diff_le [symmetric] split_beta del: sha256_rounds.simps)

lemma rounds_sequences:
  "sha256_rounds w s t = (sha256_A w s (t + 3), sha256_A w s (t + 2), sha256_A w s (t + 1), sha256_A w s t,
     sha256_E w s (t + 3), sha256_E w s (t + 2), sha256_E w s (t + 1), sha256_E w s t)"
proof (induction t)
  case 0
  then show ?case by (cases s) (simp add: sha256_A_def sha256_E_def numeral_eq_Suc split: prod.split)
next
  case (Suc t)
  note sequences_next [of w s t, symmetric]
  with Suc show ?case by (simp add: Let_def eval_nat_numeral)
qed

interpretation std: sha256_sequences "sha256_A (sha256_schedule block) s" "sha256_E (sha256_schedule block) s" "\<lambda>t. sha256_schedule block ! t" for block s
proof
  fix t :: nat
  show "sha256_Round (sha256_A (sha256_schedule block) s (t + 3)) (sha256_A (sha256_schedule block) s (t + 2)) (sha256_A (sha256_schedule block) s (t + 1))
      (sha256_A (sha256_schedule block) s t) (sha256_E (sha256_schedule block) s (t + 3)) (sha256_E (sha256_schedule block) s (t + 2))
      (sha256_E (sha256_schedule block) s (t + 1)) (sha256_E (sha256_schedule block) s t) (sha256_k ! t + sha256_schedule block ! t) =
    (sha256_E (sha256_schedule block) s (t + 4), sha256_A (sha256_schedule block) s (t + 4))"
    unfolding sequences_next sha256_rounds.simps rounds_sequences [of _ _ t] by (simp add: sha256_Round_def Let_def std_functions add.assoc)
next
  fix t :: nat
  assume "t < 48"
  then have "sha256_extend 48 (sha256_words block) ! (t + 16) =
      std_sigma1 (sha256_extend 48 (sha256_words block) ! (t + 16 - 2)) + sha256_extend 48 (sha256_words block) ! (t + 16 - 7) +
      std_sigma0 (sha256_extend 48 (sha256_words block) ! (t + 16 - 15)) + sha256_extend 48 (sha256_words block) ! (t + 16 - 16)"
    by (intro extend_step) (simp_all add: sha256_words_def)
  then show "sha256_schedule block ! t + (sha256_sigma1 (sha256_schedule block ! (t + 14)) + sha256_schedule block ! (t + 9) +
      sha256_sigma0 (sha256_schedule block ! (t + 1))) = sha256_schedule block ! (t + 16)"
    by (simp add: sha256_schedule_def std_functions ac_simps)
qed

lemma schedule_words: "t < 16 \<Longrightarrow> sha256_schedule block ! t = ReadBE32 (drop (4 * t) block)"
  by (simp add: sha256_schedule_def extend_nth sha256_words_def)

lemma sequences_start:
  "(sha256_A w s 3, sha256_A w s 2, sha256_A w s 1, sha256_A w s 0, sha256_E w s 3, sha256_E w s 2, sha256_E w s 1, sha256_E w s 0) = s"
  using rounds_sequences [of w s 0, symmetric] by (simp del: add_2_eq_Suc add_2_eq_Suc')

lemma sequences_end:
  "(sha256_A w s 67, sha256_A w s 66, sha256_A w s 65, sha256_A w s 64, sha256_E w s 67, sha256_E w s 66, sha256_E w s 65, sha256_E w s 64) =
    sha256_rounds w s 64"
  using rounds_sequences [of w s 64] by simp

lemma compress_sequences:
  fixes s block
  defines "A \<equiv> sha256_A (sha256_schedule block) s" and "E \<equiv> sha256_E (sha256_schedule block) s"
  shows "sha256_compress s block = (A 3 + A 67, A 2 + A 66, A 1 + A 65, A 0 + A 64, E 3 + E 67, E 2 + E 66, E 1 + E 65, E 0 + E 64)"
proof -
  have "sha256_compress s block = sha256_add (A 3, A 2, A 1, A 0, E 3, E 2, E 1, E 0) (A 67, A 66, A 65, A 64, E 67, E 66, E 65, E 64)"
    unfolding sha256_compress_def assms by (simp only: sequences_start sequences_end)
  then show ?thesis by (simp add: sha256_add_def)
qed

lemma Transform1_compress: "sha256_Transform1 s chunk = sha256_compress s chunk"
proof -
  have "ReadBE32 (drop (4 * t) chunk) = sha256_schedule chunk ! t" if "t < 16" for t using that by (simp add: schedule_words)
  from std.Transform1_sequences [OF this, where s = s] show ?thesis unfolding sequences_start compress_sequences [symmetric] .
qed

section \<open>The class computes SHA-256\<close>

lemma sha256_words_take: "sha256_words (take 64 block) = sha256_words block"
  unfolding sha256_words_def ReadBE32_def by (rule map_cong) (auto simp: take_drop min_def)

lemma Transform_blocks: "64 * blocks \<le> length data \<Longrightarrow> sha256_Transform s data blocks = md_blocks sha256_Transform1 s (take (64 * blocks) data)"
proof (induction blocks arbitrary: s data)
  case (Suc blocks)
  have "length (take 64 data) = 64" "take (64 * Suc blocks) data = take 64 data @ take (64 * blocks) (drop 64 data)"
    using Suc.prems by (simp_all add: take_add)
  moreover have "sha256_Transform1 s data = sha256_Transform1 s (take 64 data)"
    by (simp add: Transform1_compress sha256_compress_def sha256_schedule_def sha256_words_take)
  ultimately show ?case using Suc by (simp add: md_blocks_append md_blocks_one)
qed (simp add: md_blocks_short)

lemma sha256_Transform_one: "sha256_Transform s buf 1 = sha256_Transform1 s buf"
  by simp

interpretation sha256: block_hasher sha256_Transform1 CSHA256_Write
proof
  fix i msg h data assume "hashing sha256_Transform1 i msg h"
  then obtain blocks rest where m: "msg = blocks @ rest" and a: "absorbed sha256_Transform1 i blocks rest h" by (auto simp: hashing_def)
  obtain n d h' where f: "hasher_fill sha256_Transform1 data h = (n, d, h')" by (metis surj_pair)
  obtain blocks' rest' where b: "absorbed sha256_Transform1 i blocks' rest' h'" "blocks @ rest @ data = blocks' @ rest' @ d" "n = length rest'"
    "rest' = [] \<or> length rest' + length d < 64" using hasher_fill_absorbs [OF a f] by blast
  show "hashing sha256_Transform1 i (msg @ data) (CSHA256_Write data h)"
  proof (cases "length d \<ge> 64")
    case True
    define k where "k = length d div 64"
    then have r: "rest' = []" and k: "64 * k \<le> length d" "length (drop (64 * k) d) < 64" using True b(4) by (auto simp: minus_mult_div_eq_mod)
    have "absorbed sha256_Transform1 i (blocks' @ take (64 * k) d) [] (h'\<lparr>hs_s := sha256_Transform (hs_s h') d k, hs_bytes := hs_bytes h' + word_of_nat (64 * k)\<rparr>)"
      using b(1) k unfolding r by (simp add: absorbed_def Transform_blocks md_blocks_append)
    from hasher_keep_absorbs [OF this, of "drop (64 * k) d"] show ?thesis
      using k b(2, 3) f True m unfolding r CSHA256_Write_def by (simp add: k_def [symmetric] eta_contract_eq)
  next
    case False
    then have "length rest' + length d < 64" using b(4) by auto
    from hasher_keep_absorbs [OF b(1) this] show ?thesis using b(2, 3) f False m by (simp add: CSHA256_Write_def)
  qed
qed

lemma CSHA256_Finalize_eq: "hashing sha256_Transform1 sha256_Initialize msg h \<Longrightarrow> CSHA256_Finalize h = std_sha256 msg"
proof -
  assume h: "hashing sha256_Transform1 sha256_Initialize msg h"
  have "md_blocks sha256_Transform1 s m = md_blocks sha256_compress s m" for s m by (rule md_blocks_cong) (simp add: Transform1_compress)
  with sha256.finalised [OF h, of WriteBE64] show ?thesis
    by (simp add: CSHA256_Finalize_def std_sha256_def sha256_digest_def Let_def WriteBE64_def)
qed

section \<open>The double hash of 64 bytes\<close>

lemma ReadBE32_WriteBE32: "ReadBE32 (WriteBE32 x @ ys) = x" "ReadBE32 (WriteBE32 x) = x"
  by (simp_all add: ReadBE32_def WriteBE32_def nat_of_be_of_nat)

lemma length_WriteBE32 [simp]: "length (WriteBE32 x) = 4"
  by (simp add: WriteBE32_def)

lemma length_digest: "length (sha256_digest s) = 32"
  by (simp add: sha256_digest_def WriteBE32_def split: prod.split)

lemma length_std_sha256: "length (std_sha256 msg) = 32"
  by (simp add: std_sha256_def length_digest)

text \<open>The block that pads a message of 64 bytes, and the one that holds a digest.\<close>

lemma sha256_of_64:
  assumes "length inp = 64"
  shows "std_sha256 inp = sha256_digest (sha256_compress (sha256_compress sha256_Initialize inp) (0x80 # replicate 55 0 @ WriteBE64 0x200))"
proof -
  have "length (0x80 # replicate 55 0 @ WriteBE64 0x200) = 64" by (simp add: WriteBE64_def)
  then show ?thesis using assms by (simp add: std_sha256_def md_pad_def md_blocks_append md_blocks_one)
qed

lemma sha256_of_32:
  assumes "length inp = 32"
  shows "std_sha256 inp = sha256_digest (sha256_compress sha256_Initialize (inp @ 0x80 # replicate 23 0 @ WriteBE64 0x100))"
  using assms by (simp add: std_sha256_def md_pad_def md_blocks_one WriteBE64_def)

lemma pad_words: "sha256_words (0x80 # replicate 55 0 @ WriteBE64 0x200) = [0x80000000, 0, 0, 0, 0, 0, 0, 0, 0, 0, 0, 0, 0, 0, 0, 0x200]"
proof -
  have "0x80 # replicate 55 0 @ WriteBE64 0x200 = [0x80, 0, 0, 0, 0, 0, 0, 0, 0, 0, 0, 0, 0, 0, 0, 0, 0, 0, 0, 0, 0, 0, 0, 0, 0, 0, 0, 0, 0, 0, 0, 0, 0, 0, 0, 0, 0, 0, 0, 0, 0, 0, 0, 0, 0, 0, 0, 0, 0, 0, 0, 0, 0, 0, 0, 0, 0, 0, 0, 0, 0, 0, 2, 0]" by code_simp
  then show ?thesis by (simp add: sha256_words_def upt_rec ReadBE32_def nat_of_be_def)
qed

lemma digest_words:
  "sha256_words (sha256_digest (w0, w1, w2, w3, w4, w5, w6, w7) @ 0x80 # replicate 23 0 @ WriteBE64 0x100) =
    [w0, w1, w2, w3, w4, w5, w6, w7, 0x80000000, 0, 0, 0, 0, 0, 0, 0x100]"
proof -
  have p: "0x80 # replicate 23 0 @ WriteBE64 0x100 = [0x80, 0, 0, 0, 0, 0, 0, 0, 0, 0, 0, 0, 0, 0, 0, 0, 0, 0, 0, 0, 0, 0, 0, 0, 0, 0, 0, 0, 0, 0, 1, 0]" by code_simp
  show ?thesis
    unfolding p by (simp add: sha256_words_def upt_rec sha256_digest_def ReadBE32_WriteBE32) (simp add: ReadBE32_def nat_of_be_def)
qed

lemma TransformD64_1_compress: "TransformD64_1 inp = sha256_compress sha256_Initialize inp"
proof -
  have w: "ReadBE32 (drop (4 * t) inp) = sha256_schedule inp ! t" if "t < 16" for t using that by (simp add: schedule_words)
  from std.TransformD64_1_sequences [OF this sequences_start] show ?thesis unfolding compress_sequences by (simp add: add.commute)
qed

lemma TransformD64_2_compress: "TransformD64_2 s = sha256_compress s (0x80 # replicate 55 0 @ WriteBE64 0x200)"
proof -
  have w: "sha256_schedule (0x80 # replicate 55 0 @ WriteBE64 0x200) ! t = sha256_pad_schedule ! t" for t
    unfolding sha256_schedule_def pad_words pad_schedule ..
  from std.TransformD64_2_sequences [OF w] show ?thesis unfolding sequences_start compress_sequences .
qed

lemma TransformD64_3_compress:
  "TransformD64_3 s = sha256_digest (sha256_compress sha256_Initialize (sha256_digest s @ 0x80 # replicate 23 0 @ WriteBE64 0x100))"
proof -
  obtain w0 w1 w2 w3 w4 w5 w6 w7 where s: "s = (w0, w1, w2, w3, w4, w5, w6, w7)" by (metis surj_pair)
  let ?b = "sha256_digest s @ 0x80 # replicate 23 0 @ WriteBE64 0x100"
  have w: "sha256_schedule ?b ! t = [w0, w1, w2, w3, w4, w5, w6, w7, 0x80000000, 0, 0, 0, 0, 0, 0, 0x100] ! t" if "t < 16" for t
    unfolding sha256_schedule_def s digest_words using that by (simp add: extend_nth)
  have "TransformD64_3 (sha256_schedule ?b ! 0, sha256_schedule ?b ! 1, sha256_schedule ?b ! 2, sha256_schedule ?b ! 3, sha256_schedule ?b ! 4,
      sha256_schedule ?b ! 5, sha256_schedule ?b ! 6, sha256_schedule ?b ! 7) = sha256_digest (sha256_compress sha256_Initialize ?b)"
    unfolding compress_sequences using std.TransformD64_3_sequences [OF _ _ _ _ _ _ _ _ sequences_start, of ?b] by (simp add: w add.commute)
  moreover have "(sha256_schedule ?b ! 0, sha256_schedule ?b ! 1, sha256_schedule ?b ! 2, sha256_schedule ?b ! 3, sha256_schedule ?b ! 4,
      sha256_schedule ?b ! 5, sha256_schedule ?b ! 6, sha256_schedule ?b ! 7) = (w0, w1, w2, w3, w4, w5, w6, w7)" by (simp add: w)
  ultimately show ?thesis unfolding s [symmetric] by simp
qed

lemma TransformD64_eq:
  assumes "length inp = 64"
  shows "TransformD64 inp = std_sha256 (std_sha256 inp)"
  unfolding TransformD64_def TransformD64_1_compress TransformD64_2_compress TransformD64_3_compress sha256_of_64 [OF assms]
  by (simp add: sha256_of_32 length_digest)

end
