(* ===== verification/Sha1.thy ===== *)
theory Sha1
  imports Hasher
begin

text \<open>
  Model of \<open>src/bitcoin/src/crypto/sha1.cpp\<close>, and that the unrolled code agrees with SHA-1 as the standard states it.
\<close>

unbundle bit_operations_syntax

section \<open>The code\<close>

type_synonym sha1_state = "u32 \<times> u32 \<times> u32 \<times> u32 \<times> u32"

text \<open>The new values of \<open>b\<close> and \<open>e\<close>.\<close>

definition sha1_Round :: "u32 \<Rightarrow> u32 \<Rightarrow> u32 \<Rightarrow> u32 \<Rightarrow> u32 \<Rightarrow> u32 \<Rightarrow> u32 \<Rightarrow> u32 \<Rightarrow> u32 \<times> u32" where
  "sha1_Round a b c d e f k w = (push_bit 30 b OR drop_bit 2 b, e + ((push_bit 5 a OR drop_bit 27 a) + f + k + w))"

definition sha1_f1 :: "u32 \<Rightarrow> u32 \<Rightarrow> u32 \<Rightarrow> u32" where
  "sha1_f1 b c d = d XOR (b AND (c XOR d))"

definition sha1_f2 :: "u32 \<Rightarrow> u32 \<Rightarrow> u32 \<Rightarrow> u32" where
  "sha1_f2 b c d = b XOR c XOR d"

definition sha1_f3 :: "u32 \<Rightarrow> u32 \<Rightarrow> u32 \<Rightarrow> u32" where
  "sha1_f3 b c d = (b AND c) OR (d AND (b OR c))"

definition sha1_left :: "u32 \<Rightarrow> u32" where
  "sha1_left x = push_bit 1 x OR drop_bit 31 x"

definition sha1_Initialize :: sha1_state where
  "sha1_Initialize = (0x67452301, 0xEFCDAB89, 0x98BADCFE, 0x10325476, 0xC3D2E1F0)"

definition sha1_k1 :: u32 where "sha1_k1 = 0x5A827999"
definition sha1_k2 :: u32 where "sha1_k2 = 0x6ED9EBA1"
definition sha1_k3 :: u32 where "sha1_k3 = 0x8F1BBCDC"
definition sha1_k4 :: u32 where "sha1_k4 = 0xCA62C1D6"

definition sha1_Transform :: "sha1_state \<Rightarrow> bytes \<Rightarrow> sha1_state" where
  "sha1_Transform s chunk =
     (case s of (s0, s1, s2, s3, s4) \<Rightarrow>
      let a = s0; b = s1; c = s2; d = s3; e = s4;
          w0 = ReadBE32 (drop 0 chunk); (b, e) = sha1_Round a b c d e (sha1_f1 b c d) sha1_k1 w0;
          w1 = ReadBE32 (drop 4 chunk); (a, d) = sha1_Round e a b c d (sha1_f1 a b c) sha1_k1 w1;
          w2 = ReadBE32 (drop 8 chunk); (e, c) = sha1_Round d e a b c (sha1_f1 e a b) sha1_k1 w2;
          w3 = ReadBE32 (drop 12 chunk); (d, b) = sha1_Round c d e a b (sha1_f1 d e a) sha1_k1 w3;
          w4 = ReadBE32 (drop 16 chunk); (c, a) = sha1_Round b c d e a (sha1_f1 c d e) sha1_k1 w4;
          w5 = ReadBE32 (drop 20 chunk); (b, e) = sha1_Round a b c d e (sha1_f1 b c d) sha1_k1 w5;
          w6 = ReadBE32 (drop 24 chunk); (a, d) = sha1_Round e a b c d (sha1_f1 a b c) sha1_k1 w6;
          w7 = ReadBE32 (drop 28 chunk); (e, c) = sha1_Round d e a b c (sha1_f1 e a b) sha1_k1 w7;
          w8 = ReadBE32 (drop 32 chunk); (d, b) = sha1_Round c d e a b (sha1_f1 d e a) sha1_k1 w8;
          w9 = ReadBE32 (drop 36 chunk); (c, a) = sha1_Round b c d e a (sha1_f1 c d e) sha1_k1 w9;
          w10 = ReadBE32 (drop 40 chunk); (b, e) = sha1_Round a b c d e (sha1_f1 b c d) sha1_k1 w10;
          w11 = ReadBE32 (drop 44 chunk); (a, d) = sha1_Round e a b c d (sha1_f1 a b c) sha1_k1 w11;
          w12 = ReadBE32 (drop 48 chunk); (e, c) = sha1_Round d e a b c (sha1_f1 e a b) sha1_k1 w12;
          w13 = ReadBE32 (drop 52 chunk); (d, b) = sha1_Round c d e a b (sha1_f1 d e a) sha1_k1 w13;
          w14 = ReadBE32 (drop 56 chunk); (c, a) = sha1_Round b c d e a (sha1_f1 c d e) sha1_k1 w14;
          w15 = ReadBE32 (drop 60 chunk); (b, e) = sha1_Round a b c d e (sha1_f1 b c d) sha1_k1 w15;
          w0 = sha1_left (w0 XOR w13 XOR w8 XOR w2); (a, d) = sha1_Round e a b c d (sha1_f1 a b c) sha1_k1 w0;
          w1 = sha1_left (w1 XOR w14 XOR w9 XOR w3); (e, c) = sha1_Round d e a b c (sha1_f1 e a b) sha1_k1 w1;
          w2 = sha1_left (w2 XOR w15 XOR w10 XOR w4); (d, b) = sha1_Round c d e a b (sha1_f1 d e a) sha1_k1 w2;
          w3 = sha1_left (w3 XOR w0 XOR w11 XOR w5); (c, a) = sha1_Round b c d e a (sha1_f1 c d e) sha1_k1 w3;
          w4 = sha1_left (w4 XOR w1 XOR w12 XOR w6); (b, e) = sha1_Round a b c d e (sha1_f2 b c d) sha1_k2 w4;
          w5 = sha1_left (w5 XOR w2 XOR w13 XOR w7); (a, d) = sha1_Round e a b c d (sha1_f2 a b c) sha1_k2 w5;
          w6 = sha1_left (w6 XOR w3 XOR w14 XOR w8); (e, c) = sha1_Round d e a b c (sha1_f2 e a b) sha1_k2 w6;
          w7 = sha1_left (w7 XOR w4 XOR w15 XOR w9); (d, b) = sha1_Round c d e a b (sha1_f2 d e a) sha1_k2 w7;
          w8 = sha1_left (w8 XOR w5 XOR w0 XOR w10); (c, a) = sha1_Round b c d e a (sha1_f2 c d e) sha1_k2 w8;
          w9 = sha1_left (w9 XOR w6 XOR w1 XOR w11); (b, e) = sha1_Round a b c d e (sha1_f2 b c d) sha1_k2 w9;
          w10 = sha1_left (w10 XOR w7 XOR w2 XOR w12); (a, d) = sha1_Round e a b c d (sha1_f2 a b c) sha1_k2 w10;
          w11 = sha1_left (w11 XOR w8 XOR w3 XOR w13); (e, c) = sha1_Round d e a b c (sha1_f2 e a b) sha1_k2 w11;
          w12 = sha1_left (w12 XOR w9 XOR w4 XOR w14); (d, b) = sha1_Round c d e a b (sha1_f2 d e a) sha1_k2 w12;
          w13 = sha1_left (w13 XOR w10 XOR w5 XOR w15); (c, a) = sha1_Round b c d e a (sha1_f2 c d e) sha1_k2 w13;
          w14 = sha1_left (w14 XOR w11 XOR w6 XOR w0); (b, e) = sha1_Round a b c d e (sha1_f2 b c d) sha1_k2 w14;
          w15 = sha1_left (w15 XOR w12 XOR w7 XOR w1); (a, d) = sha1_Round e a b c d (sha1_f2 a b c) sha1_k2 w15;
          w0 = sha1_left (w0 XOR w13 XOR w8 XOR w2); (e, c) = sha1_Round d e a b c (sha1_f2 e a b) sha1_k2 w0;
          w1 = sha1_left (w1 XOR w14 XOR w9 XOR w3); (d, b) = sha1_Round c d e a b (sha1_f2 d e a) sha1_k2 w1;
          w2 = sha1_left (w2 XOR w15 XOR w10 XOR w4); (c, a) = sha1_Round b c d e a (sha1_f2 c d e) sha1_k2 w2;
          w3 = sha1_left (w3 XOR w0 XOR w11 XOR w5); (b, e) = sha1_Round a b c d e (sha1_f2 b c d) sha1_k2 w3;
          w4 = sha1_left (w4 XOR w1 XOR w12 XOR w6); (a, d) = sha1_Round e a b c d (sha1_f2 a b c) sha1_k2 w4;
          w5 = sha1_left (w5 XOR w2 XOR w13 XOR w7); (e, c) = sha1_Round d e a b c (sha1_f2 e a b) sha1_k2 w5;
          w6 = sha1_left (w6 XOR w3 XOR w14 XOR w8); (d, b) = sha1_Round c d e a b (sha1_f2 d e a) sha1_k2 w6;
          w7 = sha1_left (w7 XOR w4 XOR w15 XOR w9); (c, a) = sha1_Round b c d e a (sha1_f2 c d e) sha1_k2 w7;
          w8 = sha1_left (w8 XOR w5 XOR w0 XOR w10); (b, e) = sha1_Round a b c d e (sha1_f3 b c d) sha1_k3 w8;
          w9 = sha1_left (w9 XOR w6 XOR w1 XOR w11); (a, d) = sha1_Round e a b c d (sha1_f3 a b c) sha1_k3 w9;
          w10 = sha1_left (w10 XOR w7 XOR w2 XOR w12); (e, c) = sha1_Round d e a b c (sha1_f3 e a b) sha1_k3 w10;
          w11 = sha1_left (w11 XOR w8 XOR w3 XOR w13); (d, b) = sha1_Round c d e a b (sha1_f3 d e a) sha1_k3 w11;
          w12 = sha1_left (w12 XOR w9 XOR w4 XOR w14); (c, a) = sha1_Round b c d e a (sha1_f3 c d e) sha1_k3 w12;
          w13 = sha1_left (w13 XOR w10 XOR w5 XOR w15); (b, e) = sha1_Round a b c d e (sha1_f3 b c d) sha1_k3 w13;
          w14 = sha1_left (w14 XOR w11 XOR w6 XOR w0); (a, d) = sha1_Round e a b c d (sha1_f3 a b c) sha1_k3 w14;
          w15 = sha1_left (w15 XOR w12 XOR w7 XOR w1); (e, c) = sha1_Round d e a b c (sha1_f3 e a b) sha1_k3 w15;
          w0 = sha1_left (w0 XOR w13 XOR w8 XOR w2); (d, b) = sha1_Round c d e a b (sha1_f3 d e a) sha1_k3 w0;
          w1 = sha1_left (w1 XOR w14 XOR w9 XOR w3); (c, a) = sha1_Round b c d e a (sha1_f3 c d e) sha1_k3 w1;
          w2 = sha1_left (w2 XOR w15 XOR w10 XOR w4); (b, e) = sha1_Round a b c d e (sha1_f3 b c d) sha1_k3 w2;
          w3 = sha1_left (w3 XOR w0 XOR w11 XOR w5); (a, d) = sha1_Round e a b c d (sha1_f3 a b c) sha1_k3 w3;
          w4 = sha1_left (w4 XOR w1 XOR w12 XOR w6); (e, c) = sha1_Round d e a b c (sha1_f3 e a b) sha1_k3 w4;
          w5 = sha1_left (w5 XOR w2 XOR w13 XOR w7); (d, b) = sha1_Round c d e a b (sha1_f3 d e a) sha1_k3 w5;
          w6 = sha1_left (w6 XOR w3 XOR w14 XOR w8); (c, a) = sha1_Round b c d e a (sha1_f3 c d e) sha1_k3 w6;
          w7 = sha1_left (w7 XOR w4 XOR w15 XOR w9); (b, e) = sha1_Round a b c d e (sha1_f3 b c d) sha1_k3 w7;
          w8 = sha1_left (w8 XOR w5 XOR w0 XOR w10); (a, d) = sha1_Round e a b c d (sha1_f3 a b c) sha1_k3 w8;
          w9 = sha1_left (w9 XOR w6 XOR w1 XOR w11); (e, c) = sha1_Round d e a b c (sha1_f3 e a b) sha1_k3 w9;
          w10 = sha1_left (w10 XOR w7 XOR w2 XOR w12); (d, b) = sha1_Round c d e a b (sha1_f3 d e a) sha1_k3 w10;
          w11 = sha1_left (w11 XOR w8 XOR w3 XOR w13); (c, a) = sha1_Round b c d e a (sha1_f3 c d e) sha1_k3 w11;
          w12 = sha1_left (w12 XOR w9 XOR w4 XOR w14); (b, e) = sha1_Round a b c d e (sha1_f2 b c d) sha1_k4 w12;
          w13 = sha1_left (w13 XOR w10 XOR w5 XOR w15); (a, d) = sha1_Round e a b c d (sha1_f2 a b c) sha1_k4 w13;
          w14 = sha1_left (w14 XOR w11 XOR w6 XOR w0); (e, c) = sha1_Round d e a b c (sha1_f2 e a b) sha1_k4 w14;
          w15 = sha1_left (w15 XOR w12 XOR w7 XOR w1); (d, b) = sha1_Round c d e a b (sha1_f2 d e a) sha1_k4 w15;
          w0 = sha1_left (w0 XOR w13 XOR w8 XOR w2); (c, a) = sha1_Round b c d e a (sha1_f2 c d e) sha1_k4 w0;
          w1 = sha1_left (w1 XOR w14 XOR w9 XOR w3); (b, e) = sha1_Round a b c d e (sha1_f2 b c d) sha1_k4 w1;
          w2 = sha1_left (w2 XOR w15 XOR w10 XOR w4); (a, d) = sha1_Round e a b c d (sha1_f2 a b c) sha1_k4 w2;
          w3 = sha1_left (w3 XOR w0 XOR w11 XOR w5); (e, c) = sha1_Round d e a b c (sha1_f2 e a b) sha1_k4 w3;
          w4 = sha1_left (w4 XOR w1 XOR w12 XOR w6); (d, b) = sha1_Round c d e a b (sha1_f2 d e a) sha1_k4 w4;
          w5 = sha1_left (w5 XOR w2 XOR w13 XOR w7); (c, a) = sha1_Round b c d e a (sha1_f2 c d e) sha1_k4 w5;
          w6 = sha1_left (w6 XOR w3 XOR w14 XOR w8); (b, e) = sha1_Round a b c d e (sha1_f2 b c d) sha1_k4 w6;
          w7 = sha1_left (w7 XOR w4 XOR w15 XOR w9); (a, d) = sha1_Round e a b c d (sha1_f2 a b c) sha1_k4 w7;
          w8 = sha1_left (w8 XOR w5 XOR w0 XOR w10); (e, c) = sha1_Round d e a b c (sha1_f2 e a b) sha1_k4 w8;
          w9 = sha1_left (w9 XOR w6 XOR w1 XOR w11); (d, b) = sha1_Round c d e a b (sha1_f2 d e a) sha1_k4 w9;
          w10 = sha1_left (w10 XOR w7 XOR w2 XOR w12); (c, a) = sha1_Round b c d e a (sha1_f2 c d e) sha1_k4 w10;
          w11 = sha1_left (w11 XOR w8 XOR w3 XOR w13); (b, e) = sha1_Round a b c d e (sha1_f2 b c d) sha1_k4 w11;
          w12 = sha1_left (w12 XOR w9 XOR w4 XOR w14); (a, d) = sha1_Round e a b c d (sha1_f2 a b c) sha1_k4 w12;
          (e, c) = sha1_Round d e a b c (sha1_f2 e a b) sha1_k4 (sha1_left (w13 XOR w10 XOR w5 XOR w15));
          (d, b) = sha1_Round c d e a b (sha1_f2 d e a) sha1_k4 (sha1_left (w14 XOR w11 XOR w6 XOR w0));
          (c, a) = sha1_Round b c d e a (sha1_f2 c d e) sha1_k4 (sha1_left (w15 XOR w12 XOR w7 XOR w1))
      in (s0 + a, s1 + b, s2 + c, s3 + d, s4 + e))"

definition CSHA1_new :: "bytes \<Rightarrow> sha1_state hasher" where
  "CSHA1_new buf = \<lparr>hs_s = sha1_Initialize, hs_buf = buf, hs_bytes = 0\<rparr>"

definition CSHA1_Write :: "bytes \<Rightarrow> sha1_state hasher \<Rightarrow> sha1_state hasher" where
  "CSHA1_Write = hasher_Write sha1_Transform"

definition CSHA1_Finalize :: "sha1_state hasher \<Rightarrow> bytes" where
  "CSHA1_Finalize h =
     (let sizedesc = WriteBE64 (push_bit 3 (hs_bytes h));
          h = CSHA1_Write (take (pad_size (hs_bytes h)) hasher_pad) h;
          h = CSHA1_Write sizedesc h
      in case hs_s h of (s0, s1, s2, s3, s4) \<Rightarrow> WriteBE32 s0 @ WriteBE32 s1 @ WriteBE32 s2 @ WriteBE32 s3 @ WriteBE32 s4)"

definition CSHA1_Reset :: "sha1_state hasher \<Rightarrow> sha1_state hasher" where
  "CSHA1_Reset h = h\<lparr>hs_bytes := 0, hs_s := sha1_Initialize\<rparr>"

section \<open>The standard\<close>

definition std_sha1_f :: "nat \<Rightarrow> u32 \<Rightarrow> u32 \<Rightarrow> u32 \<Rightarrow> u32" where
  "std_sha1_f t x y z =
     (if t < 20 then (x AND y) XOR (NOT x AND z)
      else if 40 \<le> t \<and> t < 60 then (x AND y) XOR (x AND z) XOR (y AND z)
      else x XOR y XOR z)"

definition std_sha1_k :: "nat \<Rightarrow> u32" where
  "std_sha1_k t = (if t < 20 then 0x5A827999 else if t < 40 then 0x6ED9EBA1 else if t < 60 then 0x8F1BBCDC else 0xCA62C1D6)"

primrec sha1_extend :: "nat \<Rightarrow> u32 list \<Rightarrow> u32 list" where
  "sha1_extend 0 w = w"
| "sha1_extend (Suc n) w =
     (let t = length w in sha1_extend n (w @ [word_rotl 1 (w ! (t - 3) XOR w ! (t - 8) XOR w ! (t - 14) XOR w ! (t - 16))]))"

definition sha1_schedule :: "bytes \<Rightarrow> u32 list" where
  "sha1_schedule block = sha1_extend 64 (map (\<lambda>t. ReadBE32 (drop (4 * t) block)) [0..<16])"

primrec sha1_rounds :: "u32 list \<Rightarrow> sha1_state \<Rightarrow> nat \<Rightarrow> sha1_state" where
  "sha1_rounds w s 0 = s"
| "sha1_rounds w s (Suc t) =
     (case sha1_rounds w s t of (a, b, c, d, e) \<Rightarrow>
      (word_rotl 5 a + std_sha1_f t b c d + e + std_sha1_k t + w ! t, a, word_rotl 30 b, c, d))"

definition sha1_compress :: "sha1_state \<Rightarrow> bytes \<Rightarrow> sha1_state" where
  "sha1_compress s block =
     (case s of (a, b, c, d, e) \<Rightarrow> case sha1_rounds (sha1_schedule block) s 80 of (a', b', c', d', e') \<Rightarrow> (a + a', b + b', c + c', d + d', e + e'))"

definition sha1_digest :: "sha1_state \<Rightarrow> bytes" where
  "sha1_digest s = (case s of (a, b, c, d, e) \<Rightarrow> WriteBE32 a @ WriteBE32 b @ WriteBE32 c @ WriteBE32 d @ WriteBE32 e)"

definition std_sha1 :: "bytes \<Rightarrow> bytes" where
  "std_sha1 msg = sha1_digest (md_blocks sha1_compress sha1_Initialize (md_pad WriteBE64 msg))"

section \<open>The unrolled rounds\<close>

lemma sha1_functions:
  "t < 20 \<Longrightarrow> std_sha1_f t = sha1_f1" "20 \<le> t \<Longrightarrow> t < 40 \<Longrightarrow> std_sha1_f t = sha1_f2" "40 \<le> t \<Longrightarrow> t < 60 \<Longrightarrow> std_sha1_f t = sha1_f3"
  "60 \<le> t \<Longrightarrow> std_sha1_f t = sha1_f2"
  by (intro ext bit_word_eqI, auto simp: std_sha1_f_def sha1_f1_def sha1_f2_def sha1_f3_def bit_simps)+

text \<open>
  The values \<open>a\<close> gets, and the rotated values \<open>c\<close> gets, as sequences \<open>P\<close> and \<open>Q\<close>: at round \<open>t\<close> the five registers are two values of \<open>P\<close> and three of \<open>Q\<close>.
\<close>

locale sha1_sequences =
  fixes P Q W :: "nat \<Rightarrow> u32"
  assumes round: "t < 80 \<Longrightarrow> sha1_Round (P (t + 1)) (P t) (Q (t + 2)) (Q (t + 1)) (Q t) (std_sha1_f t (P t) (Q (t + 2)) (Q (t + 1))) (std_sha1_k t) (W t) =
      (Q (t + 3), P (t + 2))"
    and schedule: "t < 64 \<Longrightarrow> sha1_left (W t XOR W (t + 13) XOR W (t + 8) XOR W (t + 2)) = W (t + 16)"
begin

lemma rounds:
  "t < 20 \<Longrightarrow> t1 = t + 1 \<Longrightarrow> t2 = t + 2 \<Longrightarrow>
     sha1_Round (P t1) (P t) (Q t2) (Q t1) (Q t) (sha1_f1 (P t) (Q t2) (Q t1)) sha1_k1 (W t) = (Q (t + 3), P (t + 2))"
  "20 \<le> t \<Longrightarrow> t < 40 \<Longrightarrow> t1 = t + 1 \<Longrightarrow> t2 = t + 2 \<Longrightarrow>
     sha1_Round (P t1) (P t) (Q t2) (Q t1) (Q t) (sha1_f2 (P t) (Q t2) (Q t1)) sha1_k2 (W t) = (Q (t + 3), P (t + 2))"
  "40 \<le> t \<Longrightarrow> t < 60 \<Longrightarrow> t1 = t + 1 \<Longrightarrow> t2 = t + 2 \<Longrightarrow>
     sha1_Round (P t1) (P t) (Q t2) (Q t1) (Q t) (sha1_f3 (P t) (Q t2) (Q t1)) sha1_k3 (W t) = (Q (t + 3), P (t + 2))"
  "60 \<le> t \<Longrightarrow> t < 80 \<Longrightarrow> t1 = t + 1 \<Longrightarrow> t2 = t + 2 \<Longrightarrow>
     sha1_Round (P t1) (P t) (Q t2) (Q t1) (Q t) (sha1_f2 (P t) (Q t2) (Q t1)) sha1_k4 (W t) = (Q (t + 3), P (t + 2))"
  using round [of t] by (simp_all add: sha1_functions std_sha1_k_def sha1_k1_def sha1_k2_def sha1_k3_def sha1_k4_def)

lemma schedule_word:
  "t < 64 \<Longrightarrow> t1 = t + 13 \<Longrightarrow> t2 = t + 8 \<Longrightarrow> t3 = t + 2 \<Longrightarrow> sha1_left (W t XOR W t1 XOR W t2 XOR W t3) = W (t + 16)"
  using schedule by blast

lemma Transform_sequences:
  assumes "\<And>t. t < 16 \<Longrightarrow> ReadBE32 (drop (4 * t) chunk) = W t"
  shows "sha1_Transform (P 1, P 0, Q 2, Q 1, Q 0) chunk = (P 1 + P 81, P 0 + P 80, Q 2 + Q 82, Q 1 + Q 81, Q 0 + Q 80)"
proof -
  have w: "ReadBE32 (drop n chunk) = W (n div 4)" if "n < 64" "n mod 4 = 0" for n using assms [of "n div 4"] that by auto
  show ?thesis
    unfolding sha1_Transform_def
    by (simp add: rounds schedule_word w w [of 0, simplified] del: One_nat_def add_2_eq_Suc add_2_eq_Suc' cong: let_weak_cong prod.case_cong_weak)
qed

end

definition sha1_P :: "u32 list \<Rightarrow> sha1_state \<Rightarrow> nat \<Rightarrow> u32" where
  "sha1_P w s t = (case s of (a, b, c, d, e) \<Rightarrow> if t < 2 then [b, a] ! t else fst (sha1_rounds w s (t - 1)))"

definition sha1_Q :: "u32 list \<Rightarrow> sha1_state \<Rightarrow> nat \<Rightarrow> u32" where
  "sha1_Q w s t = (case s of (a, b, c, d, e) \<Rightarrow> if t < 3 then [e, d, c] ! t else (case sha1_rounds w s (t - 2) of (a, b, c, d, e) \<Rightarrow> c))"

lemma sha1_sequences_next:
  "sha1_P w s (t + 2) = fst (sha1_rounds w s (Suc t))" "sha1_Q w s (t + 3) = (case sha1_rounds w s (Suc t) of (a, b, c, d, e) \<Rightarrow> c)"
  by (simp_all add: sha1_P_def sha1_Q_def Suc_diff_le [symmetric] split_beta numeral_3_eq_3 del: sha1_rounds.simps)

lemma sha1_rounds_sequences: "sha1_rounds w s t = (sha1_P w s (t + 1), sha1_P w s t, sha1_Q w s (t + 2), sha1_Q w s (t + 1), sha1_Q w s t)"
proof (induction t)
  case 0
  then show ?case by (cases s) (simp add: sha1_P_def sha1_Q_def numeral_eq_Suc split: prod.split)
next
  case (Suc t)
  note sha1_sequences_next [of w s t, symmetric]
  with Suc show ?case by (simp add: eval_nat_numeral)
qed

lemma sha1_extend_nth: "t < length w \<Longrightarrow> sha1_extend n w ! t = w ! t"
  by (induction n arbitrary: w) (simp_all add: Let_def nth_append)

lemma sha1_extend_step:
  assumes "16 \<le> length w" "length w \<le> t" "t < length w + n"
  shows "sha1_extend n w ! t =
    word_rotl 1 (sha1_extend n w ! (t - 3) XOR sha1_extend n w ! (t - 8) XOR sha1_extend n w ! (t - 14) XOR sha1_extend n w ! (t - 16))"
  using assms
proof (induction n arbitrary: w)
  case (Suc n)
  then show ?case by (cases "t = length w") (auto simp: Let_def sha1_extend_nth nth_append)
qed simp

interpretation std_sha1: sha1_sequences "sha1_P (sha1_schedule block) s" "sha1_Q (sha1_schedule block) s" "\<lambda>t. sha1_schedule block ! t" for block s
proof
  fix t :: nat
  show "sha1_Round (sha1_P (sha1_schedule block) s (t + 1)) (sha1_P (sha1_schedule block) s t) (sha1_Q (sha1_schedule block) s (t + 2))
      (sha1_Q (sha1_schedule block) s (t + 1)) (sha1_Q (sha1_schedule block) s t)
      (std_sha1_f t (sha1_P (sha1_schedule block) s t) (sha1_Q (sha1_schedule block) s (t + 2)) (sha1_Q (sha1_schedule block) s (t + 1)))
      (std_sha1_k t) (sha1_schedule block ! t) = (sha1_Q (sha1_schedule block) s (t + 3), sha1_P (sha1_schedule block) s (t + 2))"
    unfolding sha1_sequences_next sha1_rounds.simps sha1_rounds_sequences [of _ _ t] by (simp add: sha1_Round_def rotl_shifts ac_simps)
next
  fix t :: nat
  assume "t < 64"
  let ?w = "map (\<lambda>t. ReadBE32 (drop (4 * t) block)) [0..<16]"
  have "sha1_extend 64 ?w ! (t + 16) = word_rotl 1 (sha1_extend 64 ?w ! (t + 16 - 3) XOR sha1_extend 64 ?w ! (t + 16 - 8) XOR
      sha1_extend 64 ?w ! (t + 16 - 14) XOR sha1_extend 64 ?w ! (t + 16 - 16))"
    by (intro sha1_extend_step) (use \<open>t < 64\<close> in simp_all)
  then show "sha1_left (sha1_schedule block ! t XOR sha1_schedule block ! (t + 13) XOR sha1_schedule block ! (t + 8) XOR sha1_schedule block ! (t + 2)) =
      sha1_schedule block ! (t + 16)"
    by (simp add: sha1_schedule_def sha1_left_def rotl_shifts ac_simps)
qed

lemma sha1_Transform_compress: "sha1_Transform s chunk = sha1_compress s chunk"
proof -
  let ?P = "sha1_P (sha1_schedule chunk) s" and ?Q = "sha1_Q (sha1_schedule chunk) s"
  have "ReadBE32 (drop (4 * t) chunk) = sha1_schedule chunk ! t" if "t < 16" for t using that by (simp add: sha1_schedule_def sha1_extend_nth)
  from std_sha1.Transform_sequences [OF this, where s = s]
  have "sha1_Transform (?P 1, ?P 0, ?Q 2, ?Q 1, ?Q 0) chunk = (?P 1 + ?P 81, ?P 0 + ?P 80, ?Q 2 + ?Q 82, ?Q 1 + ?Q 81, ?Q 0 + ?Q 80)" .
  moreover have s: "(?P 1, ?P 0, ?Q 2, ?Q 1, ?Q 0) = s"
    using sha1_rounds_sequences [of "sha1_schedule chunk" s 0, symmetric] by (simp del: add_2_eq_Suc add_2_eq_Suc')
  moreover have "sha1_rounds (sha1_schedule chunk) s 80 = (?P 81, ?P 80, ?Q 82, ?Q 81, ?Q 80)" using sha1_rounds_sequences [of _ s 80] by simp
  moreover have "(case s of (a, b, c, d, e) \<Rightarrow> (a + a', b + b', c + c', d + d', e + e')) = (?P 1 + a', ?P 0 + b', ?Q 2 + c', ?Q 1 + d', ?Q 0 + e')" for a' b' c' d' e'
    by (subst s [symmetric]) simp
  ultimately show ?thesis by (simp add: sha1_compress_def split_beta)
qed

section \<open>The class computes SHA-1\<close>

interpretation sha1: block_hasher sha1_Transform CSHA1_Write
  by unfold_locales (simp add: CSHA1_Write_def hasher_Write_absorbs)

lemma CSHA1_Finalize_eq: "hashing sha1_Transform sha1_Initialize msg h \<Longrightarrow> CSHA1_Finalize h = std_sha1 msg"
proof -
  assume h: "hashing sha1_Transform sha1_Initialize msg h"
  have "md_blocks sha1_Transform s m = md_blocks sha1_compress s m" for s m by (rule md_blocks_cong) (simp add: sha1_Transform_compress)
  with sha1.finalised [OF h, of WriteBE64] show ?thesis
    by (simp add: CSHA1_Finalize_def std_sha1_def sha1_digest_def Let_def WriteBE64_def)
qed

lemma length_std_sha1: "length (std_sha1 msg) = 20"
  by (simp add: std_sha1_def sha1_digest_def WriteBE32_def split: prod.split)

end
