(* ===== verification/Ripemd160.thy ===== *)
theory Ripemd160
  imports Hasher
begin

text \<open>
  Model of \<open>src/bitcoin/src/crypto/ripemd160.cpp\<close>, and that the unrolled code, which interleaves the two lines, agrees with RIPEMD-160 as its authors state it,
  with tables for the order of the words and the rotations.
\<close>

unbundle bit_operations_syntax

section \<open>The code\<close>

type_synonym ripemd160_state = "u32 \<times> u32 \<times> u32 \<times> u32 \<times> u32"

definition ripemd160_f1 :: "u32 \<Rightarrow> u32 \<Rightarrow> u32 \<Rightarrow> u32" where
  "ripemd160_f1 x y z = x XOR y XOR z"

definition ripemd160_f2 :: "u32 \<Rightarrow> u32 \<Rightarrow> u32 \<Rightarrow> u32" where
  "ripemd160_f2 x y z = (x AND y) OR (NOT x AND z)"

definition ripemd160_f3 :: "u32 \<Rightarrow> u32 \<Rightarrow> u32 \<Rightarrow> u32" where
  "ripemd160_f3 x y z = (x OR NOT y) XOR z"

definition ripemd160_f4 :: "u32 \<Rightarrow> u32 \<Rightarrow> u32 \<Rightarrow> u32" where
  "ripemd160_f4 x y z = (x AND z) OR (y AND NOT z)"

definition ripemd160_f5 :: "u32 \<Rightarrow> u32 \<Rightarrow> u32 \<Rightarrow> u32" where
  "ripemd160_f5 x y z = x XOR (y OR NOT z)"

definition ripemd160_Initialize :: ripemd160_state where
  "ripemd160_Initialize = (0x67452301, 0xEFCDAB89, 0x98BADCFE, 0x10325476, 0xC3D2E1F0)"

definition ripemd160_rol :: "u32 \<Rightarrow> nat \<Rightarrow> u32" where
  "ripemd160_rol x i = push_bit i x OR drop_bit (32 - i) x"

text \<open>The new values of \<open>a\<close> and \<open>c\<close>.\<close>

definition ripemd160_Round :: "u32 \<Rightarrow> u32 \<Rightarrow> u32 \<Rightarrow> u32 \<Rightarrow> u32 \<Rightarrow> u32 \<Rightarrow> u32 \<Rightarrow> u32 \<Rightarrow> nat \<Rightarrow> u32 \<times> u32" where
  "ripemd160_Round a b c d e f x k r = (ripemd160_rol (a + f + x + k) r + e, ripemd160_rol c 10)"

definition R11 :: "u32 \<Rightarrow> u32 \<Rightarrow> u32 \<Rightarrow> u32 \<Rightarrow> u32 \<Rightarrow> u32 \<Rightarrow> nat \<Rightarrow> u32 \<times> u32" where
  "R11 a b c d e x r = ripemd160_Round a b c d e (ripemd160_f1 b c d) x 0 r"

definition R21 :: "u32 \<Rightarrow> u32 \<Rightarrow> u32 \<Rightarrow> u32 \<Rightarrow> u32 \<Rightarrow> u32 \<Rightarrow> nat \<Rightarrow> u32 \<times> u32" where
  "R21 a b c d e x r = ripemd160_Round a b c d e (ripemd160_f2 b c d) x 0x5A827999 r"

definition R31 :: "u32 \<Rightarrow> u32 \<Rightarrow> u32 \<Rightarrow> u32 \<Rightarrow> u32 \<Rightarrow> u32 \<Rightarrow> nat \<Rightarrow> u32 \<times> u32" where
  "R31 a b c d e x r = ripemd160_Round a b c d e (ripemd160_f3 b c d) x 0x6ED9EBA1 r"

definition R41 :: "u32 \<Rightarrow> u32 \<Rightarrow> u32 \<Rightarrow> u32 \<Rightarrow> u32 \<Rightarrow> u32 \<Rightarrow> nat \<Rightarrow> u32 \<times> u32" where
  "R41 a b c d e x r = ripemd160_Round a b c d e (ripemd160_f4 b c d) x 0x8F1BBCDC r"

definition R51 :: "u32 \<Rightarrow> u32 \<Rightarrow> u32 \<Rightarrow> u32 \<Rightarrow> u32 \<Rightarrow> u32 \<Rightarrow> nat \<Rightarrow> u32 \<times> u32" where
  "R51 a b c d e x r = ripemd160_Round a b c d e (ripemd160_f5 b c d) x 0xA953FD4E r"

definition R12 :: "u32 \<Rightarrow> u32 \<Rightarrow> u32 \<Rightarrow> u32 \<Rightarrow> u32 \<Rightarrow> u32 \<Rightarrow> nat \<Rightarrow> u32 \<times> u32" where
  "R12 a b c d e x r = ripemd160_Round a b c d e (ripemd160_f5 b c d) x 0x50A28BE6 r"

definition R22 :: "u32 \<Rightarrow> u32 \<Rightarrow> u32 \<Rightarrow> u32 \<Rightarrow> u32 \<Rightarrow> u32 \<Rightarrow> nat \<Rightarrow> u32 \<times> u32" where
  "R22 a b c d e x r = ripemd160_Round a b c d e (ripemd160_f4 b c d) x 0x5C4DD124 r"

definition R32 :: "u32 \<Rightarrow> u32 \<Rightarrow> u32 \<Rightarrow> u32 \<Rightarrow> u32 \<Rightarrow> u32 \<Rightarrow> nat \<Rightarrow> u32 \<times> u32" where
  "R32 a b c d e x r = ripemd160_Round a b c d e (ripemd160_f3 b c d) x 0x6D703EF3 r"

definition R42 :: "u32 \<Rightarrow> u32 \<Rightarrow> u32 \<Rightarrow> u32 \<Rightarrow> u32 \<Rightarrow> u32 \<Rightarrow> nat \<Rightarrow> u32 \<times> u32" where
  "R42 a b c d e x r = ripemd160_Round a b c d e (ripemd160_f2 b c d) x 0x7A6D76E9 r"

definition R52 :: "u32 \<Rightarrow> u32 \<Rightarrow> u32 \<Rightarrow> u32 \<Rightarrow> u32 \<Rightarrow> u32 \<Rightarrow> nat \<Rightarrow> u32 \<times> u32" where
  "R52 a b c d e x r = ripemd160_Round a b c d e (ripemd160_f1 b c d) x 0 r"

definition ripemd160_Transform :: "ripemd160_state \<Rightarrow> bytes \<Rightarrow> ripemd160_state" where
  "ripemd160_Transform s chunk =
     (case s of (s0, s1, s2, s3, s4) \<Rightarrow>
      let a1 = s0; b1 = s1; c1 = s2; d1 = s3; e1 = s4;
          a2 = a1; b2 = b1; c2 = c1; d2 = d1; e2 = e1;
          w0 = ReadLE32 (drop 0 chunk); w1 = ReadLE32 (drop 4 chunk); w2 = ReadLE32 (drop 8 chunk); w3 = ReadLE32 (drop 12 chunk);
          w4 = ReadLE32 (drop 16 chunk); w5 = ReadLE32 (drop 20 chunk); w6 = ReadLE32 (drop 24 chunk); w7 = ReadLE32 (drop 28 chunk);
          w8 = ReadLE32 (drop 32 chunk); w9 = ReadLE32 (drop 36 chunk); w10 = ReadLE32 (drop 40 chunk); w11 = ReadLE32 (drop 44 chunk);
          w12 = ReadLE32 (drop 48 chunk); w13 = ReadLE32 (drop 52 chunk); w14 = ReadLE32 (drop 56 chunk); w15 = ReadLE32 (drop 60 chunk);
          (a1, c1) = R11 a1 b1 c1 d1 e1 w0 11;
          (a2, c2) = R12 a2 b2 c2 d2 e2 w5 8;
          (e1, b1) = R11 e1 a1 b1 c1 d1 w1 14;
          (e2, b2) = R12 e2 a2 b2 c2 d2 w14 9;
          (d1, a1) = R11 d1 e1 a1 b1 c1 w2 15;
          (d2, a2) = R12 d2 e2 a2 b2 c2 w7 9;
          (c1, e1) = R11 c1 d1 e1 a1 b1 w3 12;
          (c2, e2) = R12 c2 d2 e2 a2 b2 w0 11;
          (b1, d1) = R11 b1 c1 d1 e1 a1 w4 5;
          (b2, d2) = R12 b2 c2 d2 e2 a2 w9 13;
          (a1, c1) = R11 a1 b1 c1 d1 e1 w5 8;
          (a2, c2) = R12 a2 b2 c2 d2 e2 w2 15;
          (e1, b1) = R11 e1 a1 b1 c1 d1 w6 7;
          (e2, b2) = R12 e2 a2 b2 c2 d2 w11 15;
          (d1, a1) = R11 d1 e1 a1 b1 c1 w7 9;
          (d2, a2) = R12 d2 e2 a2 b2 c2 w4 5;
          (c1, e1) = R11 c1 d1 e1 a1 b1 w8 11;
          (c2, e2) = R12 c2 d2 e2 a2 b2 w13 7;
          (b1, d1) = R11 b1 c1 d1 e1 a1 w9 13;
          (b2, d2) = R12 b2 c2 d2 e2 a2 w6 7;
          (a1, c1) = R11 a1 b1 c1 d1 e1 w10 14;
          (a2, c2) = R12 a2 b2 c2 d2 e2 w15 8;
          (e1, b1) = R11 e1 a1 b1 c1 d1 w11 15;
          (e2, b2) = R12 e2 a2 b2 c2 d2 w8 11;
          (d1, a1) = R11 d1 e1 a1 b1 c1 w12 6;
          (d2, a2) = R12 d2 e2 a2 b2 c2 w1 14;
          (c1, e1) = R11 c1 d1 e1 a1 b1 w13 7;
          (c2, e2) = R12 c2 d2 e2 a2 b2 w10 14;
          (b1, d1) = R11 b1 c1 d1 e1 a1 w14 9;
          (b2, d2) = R12 b2 c2 d2 e2 a2 w3 12;
          (a1, c1) = R11 a1 b1 c1 d1 e1 w15 8;
          (a2, c2) = R12 a2 b2 c2 d2 e2 w12 6;
          (e1, b1) = R21 e1 a1 b1 c1 d1 w7 7;
          (e2, b2) = R22 e2 a2 b2 c2 d2 w6 9;
          (d1, a1) = R21 d1 e1 a1 b1 c1 w4 6;
          (d2, a2) = R22 d2 e2 a2 b2 c2 w11 13;
          (c1, e1) = R21 c1 d1 e1 a1 b1 w13 8;
          (c2, e2) = R22 c2 d2 e2 a2 b2 w3 15;
          (b1, d1) = R21 b1 c1 d1 e1 a1 w1 13;
          (b2, d2) = R22 b2 c2 d2 e2 a2 w7 7;
          (a1, c1) = R21 a1 b1 c1 d1 e1 w10 11;
          (a2, c2) = R22 a2 b2 c2 d2 e2 w0 12;
          (e1, b1) = R21 e1 a1 b1 c1 d1 w6 9;
          (e2, b2) = R22 e2 a2 b2 c2 d2 w13 8;
          (d1, a1) = R21 d1 e1 a1 b1 c1 w15 7;
          (d2, a2) = R22 d2 e2 a2 b2 c2 w5 9;
          (c1, e1) = R21 c1 d1 e1 a1 b1 w3 15;
          (c2, e2) = R22 c2 d2 e2 a2 b2 w10 11;
          (b1, d1) = R21 b1 c1 d1 e1 a1 w12 7;
          (b2, d2) = R22 b2 c2 d2 e2 a2 w14 7;
          (a1, c1) = R21 a1 b1 c1 d1 e1 w0 12;
          (a2, c2) = R22 a2 b2 c2 d2 e2 w15 7;
          (e1, b1) = R21 e1 a1 b1 c1 d1 w9 15;
          (e2, b2) = R22 e2 a2 b2 c2 d2 w8 12;
          (d1, a1) = R21 d1 e1 a1 b1 c1 w5 9;
          (d2, a2) = R22 d2 e2 a2 b2 c2 w12 7;
          (c1, e1) = R21 c1 d1 e1 a1 b1 w2 11;
          (c2, e2) = R22 c2 d2 e2 a2 b2 w4 6;
          (b1, d1) = R21 b1 c1 d1 e1 a1 w14 7;
          (b2, d2) = R22 b2 c2 d2 e2 a2 w9 15;
          (a1, c1) = R21 a1 b1 c1 d1 e1 w11 13;
          (a2, c2) = R22 a2 b2 c2 d2 e2 w1 13;
          (e1, b1) = R21 e1 a1 b1 c1 d1 w8 12;
          (e2, b2) = R22 e2 a2 b2 c2 d2 w2 11;
          (d1, a1) = R31 d1 e1 a1 b1 c1 w3 11;
          (d2, a2) = R32 d2 e2 a2 b2 c2 w15 9;
          (c1, e1) = R31 c1 d1 e1 a1 b1 w10 13;
          (c2, e2) = R32 c2 d2 e2 a2 b2 w5 7;
          (b1, d1) = R31 b1 c1 d1 e1 a1 w14 6;
          (b2, d2) = R32 b2 c2 d2 e2 a2 w1 15;
          (a1, c1) = R31 a1 b1 c1 d1 e1 w4 7;
          (a2, c2) = R32 a2 b2 c2 d2 e2 w3 11;
          (e1, b1) = R31 e1 a1 b1 c1 d1 w9 14;
          (e2, b2) = R32 e2 a2 b2 c2 d2 w7 8;
          (d1, a1) = R31 d1 e1 a1 b1 c1 w15 9;
          (d2, a2) = R32 d2 e2 a2 b2 c2 w14 6;
          (c1, e1) = R31 c1 d1 e1 a1 b1 w8 13;
          (c2, e2) = R32 c2 d2 e2 a2 b2 w6 6;
          (b1, d1) = R31 b1 c1 d1 e1 a1 w1 15;
          (b2, d2) = R32 b2 c2 d2 e2 a2 w9 14;
          (a1, c1) = R31 a1 b1 c1 d1 e1 w2 14;
          (a2, c2) = R32 a2 b2 c2 d2 e2 w11 12;
          (e1, b1) = R31 e1 a1 b1 c1 d1 w7 8;
          (e2, b2) = R32 e2 a2 b2 c2 d2 w8 13;
          (d1, a1) = R31 d1 e1 a1 b1 c1 w0 13;
          (d2, a2) = R32 d2 e2 a2 b2 c2 w12 5;
          (c1, e1) = R31 c1 d1 e1 a1 b1 w6 6;
          (c2, e2) = R32 c2 d2 e2 a2 b2 w2 14;
          (b1, d1) = R31 b1 c1 d1 e1 a1 w13 5;
          (b2, d2) = R32 b2 c2 d2 e2 a2 w10 13;
          (a1, c1) = R31 a1 b1 c1 d1 e1 w11 12;
          (a2, c2) = R32 a2 b2 c2 d2 e2 w0 13;
          (e1, b1) = R31 e1 a1 b1 c1 d1 w5 7;
          (e2, b2) = R32 e2 a2 b2 c2 d2 w4 7;
          (d1, a1) = R31 d1 e1 a1 b1 c1 w12 5;
          (d2, a2) = R32 d2 e2 a2 b2 c2 w13 5;
          (c1, e1) = R41 c1 d1 e1 a1 b1 w1 11;
          (c2, e2) = R42 c2 d2 e2 a2 b2 w8 15;
          (b1, d1) = R41 b1 c1 d1 e1 a1 w9 12;
          (b2, d2) = R42 b2 c2 d2 e2 a2 w6 5;
          (a1, c1) = R41 a1 b1 c1 d1 e1 w11 14;
          (a2, c2) = R42 a2 b2 c2 d2 e2 w4 8;
          (e1, b1) = R41 e1 a1 b1 c1 d1 w10 15;
          (e2, b2) = R42 e2 a2 b2 c2 d2 w1 11;
          (d1, a1) = R41 d1 e1 a1 b1 c1 w0 14;
          (d2, a2) = R42 d2 e2 a2 b2 c2 w3 14;
          (c1, e1) = R41 c1 d1 e1 a1 b1 w8 15;
          (c2, e2) = R42 c2 d2 e2 a2 b2 w11 14;
          (b1, d1) = R41 b1 c1 d1 e1 a1 w12 9;
          (b2, d2) = R42 b2 c2 d2 e2 a2 w15 6;
          (a1, c1) = R41 a1 b1 c1 d1 e1 w4 8;
          (a2, c2) = R42 a2 b2 c2 d2 e2 w0 14;
          (e1, b1) = R41 e1 a1 b1 c1 d1 w13 9;
          (e2, b2) = R42 e2 a2 b2 c2 d2 w5 6;
          (d1, a1) = R41 d1 e1 a1 b1 c1 w3 14;
          (d2, a2) = R42 d2 e2 a2 b2 c2 w12 9;
          (c1, e1) = R41 c1 d1 e1 a1 b1 w7 5;
          (c2, e2) = R42 c2 d2 e2 a2 b2 w2 12;
          (b1, d1) = R41 b1 c1 d1 e1 a1 w15 6;
          (b2, d2) = R42 b2 c2 d2 e2 a2 w13 9;
          (a1, c1) = R41 a1 b1 c1 d1 e1 w14 8;
          (a2, c2) = R42 a2 b2 c2 d2 e2 w9 12;
          (e1, b1) = R41 e1 a1 b1 c1 d1 w5 6;
          (e2, b2) = R42 e2 a2 b2 c2 d2 w7 5;
          (d1, a1) = R41 d1 e1 a1 b1 c1 w6 5;
          (d2, a2) = R42 d2 e2 a2 b2 c2 w10 15;
          (c1, e1) = R41 c1 d1 e1 a1 b1 w2 12;
          (c2, e2) = R42 c2 d2 e2 a2 b2 w14 8;
          (b1, d1) = R51 b1 c1 d1 e1 a1 w4 9;
          (b2, d2) = R52 b2 c2 d2 e2 a2 w12 8;
          (a1, c1) = R51 a1 b1 c1 d1 e1 w0 15;
          (a2, c2) = R52 a2 b2 c2 d2 e2 w15 5;
          (e1, b1) = R51 e1 a1 b1 c1 d1 w5 5;
          (e2, b2) = R52 e2 a2 b2 c2 d2 w10 12;
          (d1, a1) = R51 d1 e1 a1 b1 c1 w9 11;
          (d2, a2) = R52 d2 e2 a2 b2 c2 w4 9;
          (c1, e1) = R51 c1 d1 e1 a1 b1 w7 6;
          (c2, e2) = R52 c2 d2 e2 a2 b2 w1 12;
          (b1, d1) = R51 b1 c1 d1 e1 a1 w12 8;
          (b2, d2) = R52 b2 c2 d2 e2 a2 w5 5;
          (a1, c1) = R51 a1 b1 c1 d1 e1 w2 13;
          (a2, c2) = R52 a2 b2 c2 d2 e2 w8 14;
          (e1, b1) = R51 e1 a1 b1 c1 d1 w10 12;
          (e2, b2) = R52 e2 a2 b2 c2 d2 w7 6;
          (d1, a1) = R51 d1 e1 a1 b1 c1 w14 5;
          (d2, a2) = R52 d2 e2 a2 b2 c2 w6 8;
          (c1, e1) = R51 c1 d1 e1 a1 b1 w1 12;
          (c2, e2) = R52 c2 d2 e2 a2 b2 w2 13;
          (b1, d1) = R51 b1 c1 d1 e1 a1 w3 13;
          (b2, d2) = R52 b2 c2 d2 e2 a2 w13 6;
          (a1, c1) = R51 a1 b1 c1 d1 e1 w8 14;
          (a2, c2) = R52 a2 b2 c2 d2 e2 w14 5;
          (e1, b1) = R51 e1 a1 b1 c1 d1 w11 11;
          (e2, b2) = R52 e2 a2 b2 c2 d2 w0 15;
          (d1, a1) = R51 d1 e1 a1 b1 c1 w6 8;
          (d2, a2) = R52 d2 e2 a2 b2 c2 w3 13;
          (c1, e1) = R51 c1 d1 e1 a1 b1 w15 5;
          (c2, e2) = R52 c2 d2 e2 a2 b2 w9 11;
          (b1, d1) = R51 b1 c1 d1 e1 a1 w13 6;
          (b2, d2) = R52 b2 c2 d2 e2 a2 w11 11
      in (s1 + c1 + d2, s2 + d1 + e2, s3 + e1 + a2, s4 + a1 + b2, s0 + b1 + c2))"

definition CRIPEMD160_new :: "bytes \<Rightarrow> ripemd160_state hasher" where
  "CRIPEMD160_new buf = \<lparr>hs_s = ripemd160_Initialize, hs_buf = buf, hs_bytes = 0\<rparr>"

definition CRIPEMD160_Write :: "bytes \<Rightarrow> ripemd160_state hasher \<Rightarrow> ripemd160_state hasher" where
  "CRIPEMD160_Write = hasher_Write ripemd160_Transform"

definition CRIPEMD160_Finalize :: "ripemd160_state hasher \<Rightarrow> bytes" where
  "CRIPEMD160_Finalize h =
     (let sizedesc = WriteLE64 (push_bit 3 (hs_bytes h));
          h = CRIPEMD160_Write (take (pad_size (hs_bytes h)) hasher_pad) h;
          h = CRIPEMD160_Write sizedesc h
      in case hs_s h of (s0, s1, s2, s3, s4) \<Rightarrow> WriteLE32 s0 @ WriteLE32 s1 @ WriteLE32 s2 @ WriteLE32 s3 @ WriteLE32 s4)"

definition CRIPEMD160_Reset :: "ripemd160_state hasher \<Rightarrow> ripemd160_state hasher" where
  "CRIPEMD160_Reset h = h\<lparr>hs_bytes := 0, hs_s := ripemd160_Initialize\<rparr>"

section \<open>The algorithm as published\<close>

definition ripemd_f :: "nat \<Rightarrow> u32 \<Rightarrow> u32 \<Rightarrow> u32 \<Rightarrow> u32" where
  "ripemd_f t x y z =
     (if t < 16 then x XOR y XOR z else if t < 32 then (x AND y) OR (NOT x AND z) else if t < 48 then (x OR NOT y) XOR z
      else if t < 64 then (x AND z) OR (y AND NOT z) else x XOR (y OR NOT z))"

definition ripemd_k1 :: "nat \<Rightarrow> u32" where
  "ripemd_k1 t = [0, 0x5A827999, 0x6ED9EBA1, 0x8F1BBCDC, 0xA953FD4E] ! (t div 16)"

definition ripemd_k2 :: "nat \<Rightarrow> u32" where
  "ripemd_k2 t = [0x50A28BE6, 0x5C4DD124, 0x6D703EF3, 0x7A6D76E9, 0] ! (t div 16)"

definition ripemd_r1 :: "nat list" where
  "ripemd_r1 =
    [0, 1, 2, 3, 4, 5, 6, 7, 8, 9, 10, 11, 12, 13, 14, 15,
     7, 4, 13, 1, 10, 6, 15, 3, 12, 0, 9, 5, 2, 14, 11, 8,
     3, 10, 14, 4, 9, 15, 8, 1, 2, 7, 0, 6, 13, 11, 5, 12,
     1, 9, 11, 10, 0, 8, 12, 4, 13, 3, 7, 15, 14, 5, 6, 2,
     4, 0, 5, 9, 7, 12, 2, 10, 14, 1, 3, 8, 11, 6, 15, 13]"

definition ripemd_r2 :: "nat list" where
  "ripemd_r2 =
    [5, 14, 7, 0, 9, 2, 11, 4, 13, 6, 15, 8, 1, 10, 3, 12,
     6, 11, 3, 7, 0, 13, 5, 10, 14, 15, 8, 12, 4, 9, 1, 2,
     15, 5, 1, 3, 7, 14, 6, 9, 11, 8, 12, 2, 10, 0, 4, 13,
     8, 6, 4, 1, 3, 11, 15, 0, 5, 12, 2, 13, 9, 7, 10, 14,
     12, 15, 10, 4, 1, 5, 8, 7, 6, 2, 13, 14, 0, 3, 9, 11]"

definition ripemd_s1 :: "nat list" where
  "ripemd_s1 =
    [11, 14, 15, 12, 5, 8, 7, 9, 11, 13, 14, 15, 6, 7, 9, 8,
     7, 6, 8, 13, 11, 9, 7, 15, 7, 12, 15, 9, 11, 7, 13, 12,
     11, 13, 6, 7, 14, 9, 13, 15, 14, 8, 13, 6, 5, 12, 7, 5,
     11, 12, 14, 15, 14, 15, 9, 8, 9, 14, 5, 6, 8, 6, 5, 12,
     9, 15, 5, 11, 6, 8, 13, 12, 5, 12, 13, 14, 11, 8, 5, 6]"

definition ripemd_s2 :: "nat list" where
  "ripemd_s2 =
    [8, 9, 9, 11, 13, 15, 15, 5, 7, 7, 8, 11, 14, 14, 12, 6,
     9, 13, 15, 7, 12, 8, 9, 11, 7, 7, 12, 7, 6, 15, 13, 11,
     9, 7, 15, 11, 8, 6, 6, 14, 12, 13, 5, 14, 13, 13, 7, 5,
     15, 5, 8, 11, 14, 14, 6, 14, 6, 9, 12, 9, 12, 5, 15, 8,
     8, 5, 12, 9, 12, 5, 14, 6, 8, 13, 6, 5, 15, 13, 11, 11]"

text \<open>One step of a line, and a line of steps.\<close>

definition ripemd_step :: "u32 \<Rightarrow> u32 \<Rightarrow> nat \<Rightarrow> (u32 \<Rightarrow> u32 \<Rightarrow> u32 \<Rightarrow> u32) \<Rightarrow> ripemd160_state \<Rightarrow> ripemd160_state" where
  "ripemd_step x k s f st = (case st of (a, b, c, d, e) \<Rightarrow> (e, word_rotl s (a + f b c d + x + k) + e, b, word_rotl 10 c, d))"

primrec ripemd_line1 :: "(nat \<Rightarrow> u32) \<Rightarrow> ripemd160_state \<Rightarrow> nat \<Rightarrow> ripemd160_state" where
  "ripemd_line1 X st 0 = st"
| "ripemd_line1 X st (Suc t) = ripemd_step (X (ripemd_r1 ! t)) (ripemd_k1 t) (ripemd_s1 ! t) (ripemd_f t) (ripemd_line1 X st t)"

primrec ripemd_line2 :: "(nat \<Rightarrow> u32) \<Rightarrow> ripemd160_state \<Rightarrow> nat \<Rightarrow> ripemd160_state" where
  "ripemd_line2 X st 0 = st"
| "ripemd_line2 X st (Suc t) = ripemd_step (X (ripemd_r2 ! t)) (ripemd_k2 t) (ripemd_s2 ! t) (ripemd_f (79 - t)) (ripemd_line2 X st t)"

definition ripemd160_words :: "bytes \<Rightarrow> nat \<Rightarrow> u32" where
  "ripemd160_words block t = ReadLE32 (drop (4 * t) block)"

definition ripemd160_compress :: "ripemd160_state \<Rightarrow> bytes \<Rightarrow> ripemd160_state" where
  "ripemd160_compress st block =
     (case st of (h0, h1, h2, h3, h4) \<Rightarrow>
      case ripemd_line1 (ripemd160_words block) st 80 of (a, b, c, d, e) \<Rightarrow>
      case ripemd_line2 (ripemd160_words block) st 80 of (a', b', c', d', e') \<Rightarrow>
      (h1 + c + d', h2 + d + e', h3 + e + a', h4 + a + b', h0 + b + c'))"

definition ripemd160_digest :: "ripemd160_state \<Rightarrow> bytes" where
  "ripemd160_digest s = (case s of (a, b, c, d, e) \<Rightarrow> WriteLE32 a @ WriteLE32 b @ WriteLE32 c @ WriteLE32 d @ WriteLE32 e)"

definition std_ripemd160 :: "bytes \<Rightarrow> bytes" where
  "std_ripemd160 msg = ripemd160_digest (md_blocks ripemd160_compress ripemd160_Initialize (md_pad WriteLE64 msg))"

section \<open>The unrolled lines\<close>

lemma ripemd_functions:
  "t < 16 \<Longrightarrow> ripemd_f t = ripemd160_f1" "16 \<le> t \<Longrightarrow> t < 32 \<Longrightarrow> ripemd_f t = ripemd160_f2" "32 \<le> t \<Longrightarrow> t < 48 \<Longrightarrow> ripemd_f t = ripemd160_f3"
  "48 \<le> t \<Longrightarrow> t < 64 \<Longrightarrow> ripemd_f t = ripemd160_f4" "64 \<le> t \<Longrightarrow> ripemd_f t = ripemd160_f5"
  by (simp_all add: fun_eq_iff ripemd_f_def ripemd160_f1_def ripemd160_f2_def ripemd160_f3_def ripemd160_f4_def ripemd160_f5_def)

lemma rol_shifts: "0 < n \<Longrightarrow> n < 32 \<Longrightarrow> ripemd160_rol x n = word_rotl n x"
  by (simp add: ripemd160_rol_def rotl_shifts)

lemma ripemd_tables: "t < 80 \<Longrightarrow> 0 < ripemd_s1 ! t \<and> ripemd_s1 ! t < 32 \<and> 0 < ripemd_s2 ! t \<and> ripemd_s2 ! t < 32"
proof -
  have "list_all (\<lambda>n. 0 < n \<and> n < 32) ripemd_s1" "list_all (\<lambda>n. 0 < n \<and> n < 32) ripemd_s2" "length ripemd_s1 = 80" "length ripemd_s2 = 80"
    by (simp_all add: ripemd_s1_def ripemd_s2_def)
  then show "t < 80 \<Longrightarrow> ?thesis" by (simp add: list_all_length)
qed

lemma div_16: "t < 80 \<Longrightarrow> (t :: nat) div 16 = (if t < 16 then 0 else if t < 32 then 1 else if t < 48 then 2 else if t < 64 then 3 else 4)"
  by (auto intro!: div_nat_eqI)

text \<open>At step \<open>t\<close> of a line the registers \<open>b\<close> and \<open>c\<close> are values of one sequence, and \<open>d\<close>, \<open>e\<close> and \<open>a\<close> of the sequence of rotated values.\<close>

locale ripemd_sequences =
  fixes P Q P' Q' W :: "nat \<Rightarrow> u32"
  assumes line1: "t < 80 \<Longrightarrow> ripemd160_Round (Q t) (P (t + 1)) (P t) (Q (t + 2)) (Q (t + 1)) (ripemd_f t (P (t + 1)) (P t) (Q (t + 2)))
      (W (ripemd_r1 ! t)) (ripemd_k1 t) (ripemd_s1 ! t) = (P (t + 2), Q (t + 3))"
    and line2: "t < 80 \<Longrightarrow> ripemd160_Round (Q' t) (P' (t + 1)) (P' t) (Q' (t + 2)) (Q' (t + 1)) (ripemd_f (79 - t) (P' (t + 1)) (P' t) (Q' (t + 2)))
      (W (ripemd_r2 ! t)) (ripemd_k2 t) (ripemd_s2 ! t) = (P' (t + 2), Q' (t + 3))"
begin

lemma steps1:
  "t < 16 \<Longrightarrow> t1 = t + 1 \<Longrightarrow> t2 = t + 2 \<Longrightarrow> ripemd_r1 ! t = j \<Longrightarrow> ripemd_s1 ! t = n \<Longrightarrow>
     R11 (Q t) (P t1) (P t) (Q t2) (Q t1) (W j) n = (P (t + 2), Q (t + 3))"
  "16 \<le> t \<Longrightarrow> t < 32 \<Longrightarrow> t1 = t + 1 \<Longrightarrow> t2 = t + 2 \<Longrightarrow> ripemd_r1 ! t = j \<Longrightarrow> ripemd_s1 ! t = n \<Longrightarrow>
     R21 (Q t) (P t1) (P t) (Q t2) (Q t1) (W j) n = (P (t + 2), Q (t + 3))"
  "32 \<le> t \<Longrightarrow> t < 48 \<Longrightarrow> t1 = t + 1 \<Longrightarrow> t2 = t + 2 \<Longrightarrow> ripemd_r1 ! t = j \<Longrightarrow> ripemd_s1 ! t = n \<Longrightarrow>
     R31 (Q t) (P t1) (P t) (Q t2) (Q t1) (W j) n = (P (t + 2), Q (t + 3))"
  "48 \<le> t \<Longrightarrow> t < 64 \<Longrightarrow> t1 = t + 1 \<Longrightarrow> t2 = t + 2 \<Longrightarrow> ripemd_r1 ! t = j \<Longrightarrow> ripemd_s1 ! t = n \<Longrightarrow>
     R41 (Q t) (P t1) (P t) (Q t2) (Q t1) (W j) n = (P (t + 2), Q (t + 3))"
  "64 \<le> t \<Longrightarrow> t < 80 \<Longrightarrow> t1 = t + 1 \<Longrightarrow> t2 = t + 2 \<Longrightarrow> ripemd_r1 ! t = j \<Longrightarrow> ripemd_s1 ! t = n \<Longrightarrow>
     R51 (Q t) (P t1) (P t) (Q t2) (Q t1) (W j) n = (P (t + 2), Q (t + 3))"
  using line1 [of t] by (auto simp: ripemd_functions ripemd_k1_def div_16 R11_def R21_def R31_def R41_def R51_def)

lemma steps2:
  "t < 16 \<Longrightarrow> t1 = t + 1 \<Longrightarrow> t2 = t + 2 \<Longrightarrow> ripemd_r2 ! t = j \<Longrightarrow> ripemd_s2 ! t = n \<Longrightarrow>
     R12 (Q' t) (P' t1) (P' t) (Q' t2) (Q' t1) (W j) n = (P' (t + 2), Q' (t + 3))"
  "16 \<le> t \<Longrightarrow> t < 32 \<Longrightarrow> t1 = t + 1 \<Longrightarrow> t2 = t + 2 \<Longrightarrow> ripemd_r2 ! t = j \<Longrightarrow> ripemd_s2 ! t = n \<Longrightarrow>
     R22 (Q' t) (P' t1) (P' t) (Q' t2) (Q' t1) (W j) n = (P' (t + 2), Q' (t + 3))"
  "32 \<le> t \<Longrightarrow> t < 48 \<Longrightarrow> t1 = t + 1 \<Longrightarrow> t2 = t + 2 \<Longrightarrow> ripemd_r2 ! t = j \<Longrightarrow> ripemd_s2 ! t = n \<Longrightarrow>
     R32 (Q' t) (P' t1) (P' t) (Q' t2) (Q' t1) (W j) n = (P' (t + 2), Q' (t + 3))"
  "48 \<le> t \<Longrightarrow> t < 64 \<Longrightarrow> t1 = t + 1 \<Longrightarrow> t2 = t + 2 \<Longrightarrow> ripemd_r2 ! t = j \<Longrightarrow> ripemd_s2 ! t = n \<Longrightarrow>
     R42 (Q' t) (P' t1) (P' t) (Q' t2) (Q' t1) (W j) n = (P' (t + 2), Q' (t + 3))"
  "64 \<le> t \<Longrightarrow> t < 80 \<Longrightarrow> t1 = t + 1 \<Longrightarrow> t2 = t + 2 \<Longrightarrow> ripemd_r2 ! t = j \<Longrightarrow> ripemd_s2 ! t = n \<Longrightarrow>
     R52 (Q' t) (P' t1) (P' t) (Q' t2) (Q' t1) (W j) n = (P' (t + 2), Q' (t + 3))"
  using line2 [of t] by (auto simp: ripemd_functions ripemd_k2_def div_16 R12_def R22_def R32_def R42_def R52_def)

lemma Transform_sequences:
  assumes "\<And>t. t < 16 \<Longrightarrow> ReadLE32 (drop (4 * t) chunk) = W t"
    "(Q' 0, P' 1, P' 0, Q' 2, Q' 1) = (Q 0, P 1, P 0, Q 2, Q 1)"
  shows "ripemd160_Transform (Q 0, P 1, P 0, Q 2, Q 1) chunk =
    (P 1 + P 80 + Q' 82, P 0 + Q 82 + Q' 81, Q 2 + Q 81 + Q' 80, Q 1 + Q 80 + P' 81, Q 0 + P 81 + P' 80)"
proof -
  have w: "ReadLE32 (drop n chunk) = W (n div 4)" if "n < 64" "n mod 4 = 0" for n using assms(1) [of "n div 4"] that by auto
  have e: "Q' 0 = Q 0" "P' 1 = P 1" "P' 0 = P 0" "Q' 2 = Q 2" "Q' 1 = Q 1" using assms(2) by simp_all
  have i: "R12 (Q 0) (P 1) (P 0) (Q 2) (Q 1) (W 5) 8 = (P' 2, Q' 3)" "R12 (Q 1) (P' 2) (P 1) (Q' 3) (Q 2) (W 14) 9 = (P' 3, Q' 4)"
    "R12 (Q 2) (P' 3) (P' 2) (Q' 4) (Q' 3) (W 7) 9 = (P' 4, Q' 5)"
    using steps2(1) [of 0 1 2 5 8] steps2(1) [of 1 2 3 14 9] steps2(1) [of 2 3 4 7 9]
    by (simp_all add: e ripemd_r2_def ripemd_s2_def del: One_nat_def add_2_eq_Suc add_2_eq_Suc')
  show ?thesis
    unfolding ripemd160_Transform_def
    by (simp add: i steps1 steps2 w w [of 0, simplified] ripemd_r1_def ripemd_r2_def ripemd_s1_def ripemd_s2_def
       del: One_nat_def add_2_eq_Suc add_2_eq_Suc' cong: let_weak_cong prod.case_cong_weak)
qed

end

text \<open>The sequences of a line given by its states.\<close>

definition line_P :: "(nat \<Rightarrow> ripemd160_state) \<Rightarrow> nat \<Rightarrow> u32" where
  "line_P l t = (if t = 0 then (case l 0 of (a, b, c, d, e) \<Rightarrow> c) else (case l (t - 1) of (a, b, c, d, e) \<Rightarrow> b))"

definition line_Q :: "(nat \<Rightarrow> ripemd160_state) \<Rightarrow> nat \<Rightarrow> u32" where
  "line_Q l t = (if t = 0 then fst (l 0) else if t = 1 then (case l 0 of (a, b, c, d, e) \<Rightarrow> e) else (case l (t - 2) of (a, b, c, d, e) \<Rightarrow> d))"

lemma line_sequences:
  assumes "\<And>t. l (Suc t) = ripemd_step (x t) (k t) (s t) (f t) (l t)"
  shows "l t = (line_Q l t, line_P l (t + 1), line_P l t, line_Q l (t + 2), line_Q l (t + 1))"
proof (induction t)
  case 0
  then show ?case by (cases "l 0") (simp add: line_P_def line_Q_def)
next
  case (Suc t)
  obtain a b c d e where "l t = (a, b, c, d, e)" by (metis surj_pair)
  with Suc show ?case by (simp add: line_P_def line_Q_def assms ripemd_step_def)
qed

lemma line_round:
  assumes "\<And>t. l (Suc t) = ripemd_step (x t) (k t) (s t) (f t) (l t)" "0 < s t" "s t < 32"
  shows "ripemd160_Round (line_Q l t) (line_P l (t + 1)) (line_P l t) (line_Q l (t + 2)) (line_Q l (t + 1))
      (f t (line_P l (t + 1)) (line_P l t) (line_Q l (t + 2))) (x t) (k t) (s t) = (line_P l (t + 2), line_Q l (t + 3))"
proof -
  obtain a b c d e where l: "l t = (a, b, c, d, e)" by (metis surj_pair)
  have "line_P l (t + 2) = word_rotl (s t) (a + f t b c d + x t + k t) + e" "line_Q l (t + 3) = word_rotl 10 c"
    by (simp_all add: line_P_def line_Q_def assms(1) l ripemd_step_def numeral_3_eq_3)
  moreover have "(line_Q l t, line_P l (t + 1), line_P l t, line_Q l (t + 2), line_Q l (t + 1)) = (a, b, c, d, e)"
    unfolding line_sequences [of l x k s f t, OF assms(1), symmetric] l ..
  ultimately show ?thesis using assms(2, 3) by (simp add: ripemd160_Round_def rol_shifts)
qed

interpretation std_ripemd: ripemd_sequences "line_P (ripemd_line1 (ripemd160_words block) st)" "line_Q (ripemd_line1 (ripemd160_words block) st)"
    "line_P (ripemd_line2 (ripemd160_words block) st)" "line_Q (ripemd_line2 (ripemd160_words block) st)" "ripemd160_words block" for block st
proof
  fix t :: nat
  assume t: "t < 80"
  show "ripemd160_Round (line_Q (ripemd_line1 (ripemd160_words block) st) t) (line_P (ripemd_line1 (ripemd160_words block) st) (t + 1))
      (line_P (ripemd_line1 (ripemd160_words block) st) t) (line_Q (ripemd_line1 (ripemd160_words block) st) (t + 2))
      (line_Q (ripemd_line1 (ripemd160_words block) st) (t + 1))
      (ripemd_f t (line_P (ripemd_line1 (ripemd160_words block) st) (t + 1)) (line_P (ripemd_line1 (ripemd160_words block) st) t)
         (line_Q (ripemd_line1 (ripemd160_words block) st) (t + 2))) (ripemd160_words block (ripemd_r1 ! t)) (ripemd_k1 t) (ripemd_s1 ! t) =
    (line_P (ripemd_line1 (ripemd160_words block) st) (t + 2), line_Q (ripemd_line1 (ripemd160_words block) st) (t + 3))"
    using ripemd_tables [OF t] by (intro line_round [where x = "\<lambda>t. ripemd160_words block (ripemd_r1 ! t)" and k = ripemd_k1 and s = "\<lambda>t. ripemd_s1 ! t" and f = ripemd_f]) simp_all
  show "ripemd160_Round (line_Q (ripemd_line2 (ripemd160_words block) st) t) (line_P (ripemd_line2 (ripemd160_words block) st) (t + 1))
      (line_P (ripemd_line2 (ripemd160_words block) st) t) (line_Q (ripemd_line2 (ripemd160_words block) st) (t + 2))
      (line_Q (ripemd_line2 (ripemd160_words block) st) (t + 1))
      (ripemd_f (79 - t) (line_P (ripemd_line2 (ripemd160_words block) st) (t + 1)) (line_P (ripemd_line2 (ripemd160_words block) st) t)
         (line_Q (ripemd_line2 (ripemd160_words block) st) (t + 2))) (ripemd160_words block (ripemd_r2 ! t)) (ripemd_k2 t) (ripemd_s2 ! t) =
    (line_P (ripemd_line2 (ripemd160_words block) st) (t + 2), line_Q (ripemd_line2 (ripemd160_words block) st) (t + 3))"
    using ripemd_tables [OF t]
    by (intro line_round [where x = "\<lambda>t. ripemd160_words block (ripemd_r2 ! t)" and k = ripemd_k2 and s = "\<lambda>t. ripemd_s2 ! t" and f = "\<lambda>t. ripemd_f (79 - t)"]) simp_all
qed

lemma ripemd160_Transform_compress: "ripemd160_Transform st chunk = ripemd160_compress st chunk"
proof -
  let ?l = "ripemd_line1 (ripemd160_words chunk) st" and ?l' = "ripemd_line2 (ripemd160_words chunk) st"
  have l: "?l t = (line_Q ?l t, line_P ?l (t + 1), line_P ?l t, line_Q ?l (t + 2), line_Q ?l (t + 1))" for t
    by (rule line_sequences [where x = "\<lambda>t. ripemd160_words chunk (ripemd_r1 ! t)" and k = ripemd_k1 and s = "\<lambda>t. ripemd_s1 ! t" and f = ripemd_f]) simp
  have l': "?l' t = (line_Q ?l' t, line_P ?l' (t + 1), line_P ?l' t, line_Q ?l' (t + 2), line_Q ?l' (t + 1))" for t
    by (rule line_sequences [where x = "\<lambda>t. ripemd160_words chunk (ripemd_r2 ! t)" and k = ripemd_k2 and s = "\<lambda>t. ripemd_s2 ! t" and f = "\<lambda>t. ripemd_f (79 - t)"]) simp
  have s: "(line_Q ?l 0, line_P ?l 1, line_P ?l 0, line_Q ?l 2, line_Q ?l 1) = st" "(line_Q ?l' 0, line_P ?l' 1, line_P ?l' 0, line_Q ?l' 2, line_Q ?l' 1) = st"
    using l [of 0, symmetric] l' [of 0, symmetric] by (simp_all del: add_2_eq_Suc add_2_eq_Suc')
  have "ReadLE32 (drop (4 * t) chunk) = ripemd160_words chunk t" for t by (simp add: ripemd160_words_def)
  then have t: "ripemd160_Transform st chunk =
      (line_P ?l 1 + line_P ?l 80 + line_Q ?l' 82, line_P ?l 0 + line_Q ?l 82 + line_Q ?l' 81, line_Q ?l 2 + line_Q ?l 81 + line_Q ?l' 80,
       line_Q ?l 1 + line_Q ?l 80 + line_P ?l' 81, line_Q ?l 0 + line_P ?l 81 + line_P ?l' 80)"
    using std_ripemd.Transform_sequences [of chunk chunk st] unfolding s by blast
  have "(case st of (h0, h1, h2, h3, h4) \<Rightarrow> (h1 + a, h2 + b, h3 + c, h4 + d, h0 + e)) =
      (line_P ?l 1 + a, line_P ?l 0 + b, line_Q ?l 2 + c, line_Q ?l 1 + d, line_Q ?l 0 + e)" for a b c d e
    by (subst (1) s(1) [symmetric]) simp
  then show ?thesis unfolding t ripemd160_compress_def l [of 80] l' [of 80] by (simp add: add.assoc)
qed

section \<open>The class computes RIPEMD-160\<close>

interpretation ripemd160: block_hasher ripemd160_Transform CRIPEMD160_Write
  by unfold_locales (simp add: CRIPEMD160_Write_def hasher_Write_absorbs)

lemma CRIPEMD160_Finalize_eq: "hashing ripemd160_Transform ripemd160_Initialize msg h \<Longrightarrow> CRIPEMD160_Finalize h = std_ripemd160 msg"
proof -
  assume h: "hashing ripemd160_Transform ripemd160_Initialize msg h"
  have "md_blocks ripemd160_Transform s m = md_blocks ripemd160_compress s m" for s m by (rule md_blocks_cong) (simp add: ripemd160_Transform_compress)
  with ripemd160.finalised [OF h, of WriteLE64] show ?thesis
    by (simp add: CRIPEMD160_Finalize_def std_ripemd160_def ripemd160_digest_def Let_def WriteLE64_def)
qed

lemma length_std_ripemd160: "length (std_ripemd160 msg) = 20"
  by (simp add: std_ripemd160_def ripemd160_digest_def WriteLE32_def split: prod.split)

end
