(* ===== verification/NodeHashes.thy ===== *)
theory NodeHashes
  imports Sha256 Sha1 Ripemd160 Merkle
begin

text \<open>
  The hash functions of the node: the classes give the functions of the standards whatever the sizes of the pieces written and whatever the buffer held,
  the double hash of many blobs is the hash the Merkle tree needs, and the three functions together are an instance of the parameters of the
  other theories.
\<close>

text \<open>The one-shot use of the three classes; \<open>buf\<close> is the content of the uninitialised buffers.\<close>

definition node_hashes :: "bytes \<Rightarrow> hash_functions" where
  "node_hashes buf =
     \<lparr>SHA256 = (\<lambda>m. CSHA256_Finalize (CSHA256_Write m (CSHA256_new buf))),
      RIPEMD160 = (\<lambda>m. CRIPEMD160_Finalize (CRIPEMD160_Write m (CRIPEMD160_new buf))),
      SHA1 = (\<lambda>m. CSHA1_Finalize (CSHA1_Write m (CSHA1_new buf)))\<rparr>"

section \<open>Many blobs at once\<close>

text \<open>What the implementations for several blobs promise: the hashes of their blobs one after another.\<close>

definition way_ok :: "(bytes \<Rightarrow> bytes) option \<Rightarrow> nat \<Rightarrow> bool" where
  "way_ok way n \<longleftrightarrow>
     (\<forall>tr inp. way = Some tr \<longrightarrow> length inp = 64 * n \<longrightarrow> tr inp = concat (map (\<lambda>i. TransformD64 (take 64 (drop (64 * i) inp))) [0..<n]))"

definition dispatch_ok :: "sha256_dispatch \<Rightarrow> bool" where
  "dispatch_ok D \<longleftrightarrow> way_ok (TransformD64_8way D) 8 \<and> way_ok (TransformD64_4way D) 4 \<and> way_ok (TransformD64_2way D) 2"

definition blob_hashes :: "bytes \<Rightarrow> nat \<Rightarrow> bytes" where
  "blob_hashes inp n = concat (map (\<lambda>i. TransformD64 (take 64 (drop (64 * i) inp))) [0..<n])"

lemma blob_hashes_add: "blob_hashes inp (m + n) = blob_hashes inp m @ blob_hashes (drop (64 * m) inp) n"
proof -
  have "[0..<m + n] = [0..<m] @ map ((+) m) [0..<n]" proof -
    have "(\<lambda>i. i + m) = (+) m" by (simp add: fun_eq_iff)
    then show ?thesis using map_add_upt [of m n] upt_add_eq_append [of 0 m n] by (simp add: add.commute)
  qed
  then show ?thesis by (simp add: blob_hashes_def comp_def add.commute distrib_left)
qed

lemma blob_hashes_take: "blob_hashes (take (64 * n) inp) n = blob_hashes inp n"
  unfolding blob_hashes_def by (rule arg_cong [of _ _ concat], rule map_cong) (auto simp: take_drop min_def)

lemma D64_loop_hashes:
  assumes "way_ok way n" "64 * blocks \<le> length inp"
  shows "\<exists>k \<le> blocks. D64_loop way n inp blocks = (blob_hashes inp k, drop (64 * k) inp, blocks - k) \<and> (way \<noteq> None \<and> n = 1 \<longrightarrow> k = blocks)"
  using assms
proof (induction way n inp blocks rule: D64_loop.induct)
  case (1 way n inp blocks)
  show ?case
  proof (cases "\<exists>tr. way = Some tr \<and> n \<le> blocks \<and> 0 < n")
    case True
    then obtain tr where t: "way = Some tr" "n \<le> blocks" "0 < n" by blast
    have "64 * (blocks - n) \<le> length (drop (64 * n) inp)" using 1(3) by (simp add: right_diff_distrib')
    then obtain k where k: "k \<le> blocks - n" "D64_loop way n (drop (64 * n) inp) (blocks - n) =
        (blob_hashes (drop (64 * n) inp) k, drop (64 * k) (drop (64 * n) inp), blocks - n - k)" "way \<noteq> None \<and> n = 1 \<longrightarrow> k = blocks - n"
      using 1(1) [OF t(1)] t 1(2) by blast
    have "length (take (64 * n) inp) = 64 * n" using t(2) 1(3) by (simp add: min_def)
    then have "tr (take (64 * n) inp) = blob_hashes (take (64 * n) inp) n" using 1(2) t(1) by (simp add: way_ok_def blob_hashes_def)
    moreover have "drop (64 * (n + k)) inp = drop (64 * k) (drop (64 * n) inp)" by (simp add: distrib_left add.commute)
    ultimately have "D64_loop way n inp blocks = (blob_hashes inp (n + k), drop (64 * (n + k)) inp, blocks - (n + k))"
      using t k(2) by (subst D64_loop.simps) (simp add: blob_hashes_add blob_hashes_take del: drop_drop)
    then show ?thesis using k t(2, 3) by (intro exI [of _ "n + k"]) auto
  next
    case False
    then have "D64_loop way n inp blocks = ([], inp, blocks)" by (subst D64_loop.simps) (auto split: option.split)
    moreover have "way \<noteq> None \<and> n = 1 \<longrightarrow> blocks = 0" using False by auto
    ultimately show ?thesis by (intro exI [of _ 0]) (auto simp: blob_hashes_def)
  qed
qed

lemma SHA256D64_hashes:
  assumes "dispatch_ok D" "length inp = 64 * blocks"
  shows "SHA256D64 D inp blocks = blob_hashes inp blocks"
proof -
  have w: "way_ok (TransformD64_8way D) 8" "way_ok (TransformD64_4way D) 4" "way_ok (TransformD64_2way D) 2" "way_ok (Some TransformD64) 1"
    using assms(1) by (simp_all add: dispatch_ok_def way_ok_def)
  obtain k8 where k8: "k8 \<le> blocks" "D64_loop (TransformD64_8way D) 8 inp blocks = (blob_hashes inp k8, drop (64 * k8) inp, blocks - k8)"
    using D64_loop_hashes [OF w(1), of blocks inp] assms(2) by auto
  let ?i = "drop (64 * k8) inp" and ?b = "blocks - k8"
  have "64 * ?b \<le> length ?i" using assms(2) k8(1) by (simp add: right_diff_distrib')
  then obtain k4 where k4: "k4 \<le> ?b" "D64_loop (TransformD64_4way D) 4 ?i ?b = (blob_hashes ?i k4, drop (64 * k4) ?i, ?b - k4)"
    using D64_loop_hashes [OF w(2), of ?b ?i] by auto
  let ?j = "drop (64 * k4) ?i" and ?c = "?b - k4"
  have "64 * ?c \<le> length ?j" using assms(2) k8(1) k4(1) by simp
  then obtain k2 where k2: "k2 \<le> ?c" "D64_loop (TransformD64_2way D) 2 ?j ?c = (blob_hashes ?j k2, drop (64 * k2) ?j, ?c - k2)"
    using D64_loop_hashes [OF w(3), of ?c ?j] by auto
  let ?l = "drop (64 * k2) ?j" and ?d = "?c - k2"
  have "64 * ?d \<le> length ?l" using assms(2) k8(1) k4(1) k2(1) by simp
  then have "D64_loop (Some TransformD64) 1 ?l ?d = (blob_hashes ?l ?d, drop (64 * ?d) ?l, 0)"
    using D64_loop_hashes [OF w(4), of ?d ?l] by auto
  then have "SHA256D64 D inp blocks = blob_hashes inp k8 @ blob_hashes ?i k4 @ blob_hashes ?j k2 @ blob_hashes ?l ?d"
    unfolding SHA256D64_def k8(2) Let_def split_conv k4(2) k2(2) by simp
  also have "\<dots> = blob_hashes inp (k8 + (k4 + (k2 + ?d)))" by (simp add: blob_hashes_add)
  also have "k8 + (k4 + (k2 + ?d)) = blocks" using k8(1) k4(1) k2(1) by simp
  finally show ?thesis .
qed

section \<open>The classes and the standards\<close>

lemma sha256_stream: "length buf = 64 \<Longrightarrow> CSHA256_Finalize (fold CSHA256_Write pieces (CSHA256_new buf)) = std_sha256 (concat pieces)"
  using CSHA256_Finalize_eq [OF sha256.fold_absorbs [OF hashing_new], of buf pieces] by (simp add: CSHA256_new_def)

lemma be_of_nat_4: "be_of_nat 4 n = [word_of_nat (n div 16777216), word_of_nat (n div 65536), word_of_nat (n div 256), word_of_nat n]"
proof -
  have "4 = Suc (Suc (Suc (Suc 0)))" by simp
  then show ?thesis by (simp only: be_of_nat_def le_of_nat.simps) (simp add: div_mult2_eq [symmetric])
qed

text \<open>The rounds with each constant already added to its word of the schedule, to evaluate an example.\<close>

primrec sum_rounds :: "u32 list \<Rightarrow> sha256_state \<Rightarrow> nat \<Rightarrow> sha256_state" where
  "sum_rounds kw s 0 = s"
| "sum_rounds kw s (Suc t) =
     (case sum_rounds kw s t of (a, b, c, d, e, f, g, h) \<Rightarrow>
      let T1 = h + std_Sigma1 e + std_Ch e f g + kw ! t; T2 = std_Sigma0 a + std_Maj a b c
      in (T1 + T2, a, b, c, d + T1, e, f, g))"

lemma sum_rounds: "n \<le> length sha256_k \<Longrightarrow> n \<le> length w \<Longrightarrow> sum_rounds (map2 (+) sha256_k w) s n = sha256_rounds w s n"
  by (induction n) (simp_all add: Let_def add.assoc split: prod.split)

definition abc_schedule :: "u32 list" where
  "abc_schedule =
    [0x61626380, 0x0, 0x0, 0x0, 0x0, 0x0, 0x0, 0x0,
     0x0, 0x0, 0x0, 0x0, 0x0, 0x0, 0x0, 0x18,
     0x61626380, 0xf0000, 0x7da86405, 0x600003c6, 0x3e9d7b78, 0x183fc00, 0x12dcbfdb, 0xe2e2c38e,
     0xc8215c1a, 0xb73679a2, 0xe5bc3909, 0x32663c5b, 0x9d209d67, 0xec8726cb, 0x702138a4, 0xd3b7973b,
     0x93f5997f, 0x3b68ba73, 0xaff4ffc1, 0xf10a5c62, 0xa8b3996, 0x72af830a, 0x9409e33e, 0x24641522,
     0x9f47bf94, 0xf0a64f5a, 0x3e246a79, 0x27333ba3, 0xc4763f2, 0x840abf27, 0x7a290d5d, 0x65c43da,
     0xfb3e89cb, 0xcc7617db, 0xb9e66c34, 0xa9993667, 0x84badedd, 0xc21462bc, 0x1487472c, 0xb20f7a99,
     0xef57b9cd, 0xebe6b238, 0x9fe3095e, 0x78bc8d4b, 0xa43fcf15, 0x668b2ff8, 0xeeaba2cc, 0x12b1edeb]"

definition abc_sums :: "u32 list" where
  "abc_sums =
    [0xa3ec9318, 0x71374491, 0xb5c0fbcf, 0xe9b5dba5, 0x3956c25b, 0x59f111f1, 0x923f82a4, 0xab1c5ed5,
     0xd807aa98, 0x12835b01, 0x243185be, 0x550c7dc3, 0x72be5d74, 0x80deb1fe, 0x9bdc06a7, 0xc19bf18c,
     0x45fdcd41, 0xefcd4786, 0x8d6a01cb, 0x840ca592, 0x6c86a7e7, 0x4bf880aa, 0x6f8d69b7, 0x59dc4c68,
     0x605fad6c, 0x5f68400f, 0x95bf60d1, 0xf1bfbc22, 0x6400a95a, 0xc22eb812, 0x76eb9bf5, 0xe7e0c0a2,
     0xbbaca404, 0x6983dbab, 0xfd216dbd, 0x44426975, 0x6f95acea, 0xe9198dc5, 0x15ccac6c, 0xb6d641a7,
     0x4207a835, 0x98c0b5a5, 0x6ff5e9, 0xee9f8d46, 0xddda4c0b, 0x5aa3c54b, 0x6e3742e2, 0x16c6e44a,
     0x14e34ae1, 0xeaad83e3, 0xe12ee380, 0xde49f31c, 0xbdd6eb90, 0x10ed0d06, 0x7024117b, 0x1a3dea8c,
     0x63e73cbb, 0x648c15a7, 0x24ab8172, 0x5838f53, 0x34fecf0f, 0xadb9ce3, 0xada546c3, 0xd92366dd]"

lemma abc_schedule: "sha256_extend 48 [0x61626380, 0, 0, 0, 0, 0, 0, 0, 0, 0, 0, 0, 0, 0, 0, 0x18] = abc_schedule"
  by code_simp

lemma length_sha256_k: "length sha256_k = 64"
  by (simp add: sha256_k_def sha256_primes_def)

lemma abc_sums: "map2 (+) sha256_k abc_schedule = abc_sums"
proof -
  let ?i = "[0, 1, 2, 3, 4, 5, 6, 7, 8, 9, 10, 11, 12, 13, 14, 15, 16, 17, 18, 19, 20, 21, 22, 23, 24, 25, 26, 27, 28, 29, 30, 31,
      32, 33, 34, 35, 36, 37, 38, 39, 40, 41, 42, 43, 44, 45, 46, 47, 48, 49, 50, 51, 52, 53, 54, 55, 56, 57, 58, 59, 60, 61, 62, 63] :: nat list"
  have "[0..<64] = ?i" by code_simp
  then have "sha256_k = map ((!) sha256_k) ?i" using map_nth [of sha256_k] by (simp only: length_sha256_k)
  then have "map2 (+) sha256_k abc_schedule = map2 (+) (map ((!) sha256_k) ?i) abc_schedule" by (rule arg_cong)
  also have "\<dots> = abc_sums"
    by (simp add: sha256_k_values abc_schedule_def abc_sums_def word_numeral_eq del: word_eq_numeral_iff_iszero One_nat_def)
  finally show ?thesis .
qed

lemma sha256_abc:
  "std_sha256 [0x61, 0x62, 0x63] =
    [0xba, 0x78, 0x16, 0xbf, 0x8f, 0x01, 0xcf, 0xea, 0x41, 0x41, 0x40, 0xde, 0x5d, 0xae, 0x22, 0x23,
     0xb0, 0x03, 0x61, 0xa3, 0x96, 0x17, 0x7a, 0x9c, 0xb4, 0x10, 0xff, 0x61, 0xf2, 0x00, 0x15, 0xad]"
proof -
  let ?b = "[0x61, 0x62, 0x63, 0x80, 0, 0, 0, 0, 0, 0, 0, 0, 0, 0, 0, 0, 0, 0, 0, 0, 0, 0, 0, 0, 0, 0, 0, 0, 0, 0, 0, 0,
     0, 0, 0, 0, 0, 0, 0, 0, 0, 0, 0, 0, 0, 0, 0, 0, 0, 0, 0, 0, 0, 0, 0, 0, 0, 0, 0, 0, 0, 0, 0, 0x18] :: bytes"
  have p: "md_pad WriteBE64 [0x61, 0x62, 0x63] = ?b" by code_simp
  have "sha256_words ?b = [0x61626380, 0, 0, 0, 0, 0, 0, 0, 0, 0, 0, 0, 0, 0, 0, 0x18]" by (simp add: sha256_words_def upt_rec ReadBE32_def nat_of_be_def)
  then have w: "sha256_schedule ?b = abc_schedule" by (simp only: sha256_schedule_def abc_schedule)
  have "sha256_rounds abc_schedule sha256_Initialize 64 = sum_rounds abc_sums sha256_Initialize 64"
    unfolding abc_sums [symmetric] by (rule sum_rounds [symmetric]) (simp_all add: length_sha256_k abc_schedule_def)
  moreover have "sha256_add sha256_Initialize (sum_rounds abc_sums sha256_Initialize 64) =
      (0xba7816bf, 0x8f01cfea, 0x414140de, 0x5dae2223, 0xb00361a3, 0x96177a9c, 0xb410ff61, 0xf20015ad)" by code_simp
  moreover have "md_blocks sha256_compress sha256_Initialize ?b = sha256_compress sha256_Initialize ?b" by (rule md_blocks_one) simp
  ultimately show ?thesis
    unfolding std_sha256_def p by (simp add: sha256_compress_def w sha256_digest_def WriteBE32_def be_of_nat_4)
qed

lemma sha1_stream: "length buf = 64 \<Longrightarrow> CSHA1_Finalize (fold CSHA1_Write pieces (CSHA1_new buf)) = std_sha1 (concat pieces)"
  using CSHA1_Finalize_eq [OF sha1.fold_absorbs [OF hashing_new], of buf pieces] by (simp add: CSHA1_new_def)

lemma ripemd160_stream: "length buf = 64 \<Longrightarrow> CRIPEMD160_Finalize (fold CRIPEMD160_Write pieces (CRIPEMD160_new buf)) = std_ripemd160 (concat pieces)"
  using CRIPEMD160_Finalize_eq [OF ripemd160.fold_absorbs [OF hashing_new], of buf pieces] by (simp add: CRIPEMD160_new_def)

lemma double_sha256: "length buf = 64 \<Longrightarrow> CHash256 (node_hashes buf) m = std_sha256 (std_sha256 m)"
  using sha256_stream [of buf "[m]" for m] by (simp add: CHash256_def node_hashes_def)

lemma blob_hashes_double:
  assumes "length inp = 64 * n"
  shows "blob_hashes inp n = concat (map (\<lambda>i. std_sha256 (std_sha256 (take 64 (drop (64 * i) inp)))) [0..<n])"
  unfolding blob_hashes_def using assms by (intro arg_cong [of _ _ concat] map_cong) (auto simp: TransformD64_eq)

lemma blob_hashes_pairs:
  assumes "length buf = 64" "even (length hs)"
  shows "blob_hashes (concat (map ser_uint256 hs)) (length hs div 2) = concat (map ser_uint256 (merkle_pairs (merkle_hash (node_hashes buf)) hs))"
  using assms(2)
proof (induction "merkle_hash (node_hashes buf)" hs rule: merkle_pairs.induct)
  case (1 a b hs)
  have l: "length (ser_uint256 a @ ser_uint256 b) = 64" by (simp add: ser_uint256_def)
  have "blob_hashes (concat (map ser_uint256 (a # b # hs))) (1 + length hs div 2) =
      TransformD64 (ser_uint256 a @ ser_uint256 b) @ blob_hashes (concat (map ser_uint256 hs)) (length hs div 2)"
    unfolding blob_hashes_add using l by (simp add: blob_hashes_def)
  moreover have "TransformD64 (ser_uint256 a @ ser_uint256 b) = ser_uint256 (merkle_hash (node_hashes buf) a b)"
    using l by (simp add: TransformD64_eq merkle_hash_def Hash_2_def double_sha256 [OF assms(1)] ser_uint256_of_bytes length_std_sha256)
  ultimately show ?case using 1 by simp
qed (simp_all add: blob_hashes_def)

section \<open>Properties\<close>

text \<open>
  C9: A message written to \<open>CSHA256\<close> in pieces of any sizes is hashed to its SHA-256 hash as the standard defines it, whatever the uninitialised buffer held: the
  unrolled rounds with the rotated registers and the schedule kept in sixteen words, the buffering and the padding are right.
\<close>

theorem sha256_class_correct:
  "length buf = 64 \<Longrightarrow> CSHA256_Finalize (fold CSHA256_Write pieces (CSHA256_new buf)) = std_sha256 (concat pieces)"
  by (rule sha256_stream)

theorem sha256_class_correct_witness:
  "CSHA256_Finalize (fold CSHA256_Write [[0x61], [0x62, 0x63]] (CSHA256_new (replicate 64 0xff))) =
    [0xba, 0x78, 0x16, 0xbf, 0x8f, 0x01, 0xcf, 0xea, 0x41, 0x41, 0x40, 0xde, 0x5d, 0xae, 0x22, 0x23,
     0xb0, 0x03, 0x61, 0xa3, 0x96, 0x17, 0x7a, 0x9c, 0xb4, 0x10, 0xff, 0x61, 0xf2, 0x00, 0x15, 0xad]"
  using sha256_class_correct [of "replicate 64 0xff" "[[0x61], [0x62, 0x63]]"] unfolding sha256_abc [symmetric] by simp

text \<open>
  C10: \<open>SHA256D64\<close> computes the double SHA-256 hash of every 64-byte blob: the specialised transformation with precomputed constants agrees with the general
  one, and the split over the implementations for eight, four and two blobs loses nothing, as long as each of those hashes its own blobs.
\<close>

theorem sha256d64_correct:
  assumes "dispatch_ok D" "length inp = 64 * blocks"
  shows "SHA256D64 D inp blocks = concat (map (\<lambda>i. std_sha256 (std_sha256 (take 64 (drop (64 * i) inp)))) [0..<blocks])"
  using SHA256D64_hashes [OF assms] blob_hashes_double [OF assms(2)] by simp

theorem sha256d64_correct_witness:
  "SHA256D64 \<lparr>TransformD64_8way = None, TransformD64_4way = None, TransformD64_2way = Some (\<lambda>inp. TransformD64 (take 64 inp) @ TransformD64 (drop 64 inp))\<rparr>
      (replicate 192 7) 3 = concat (replicate 3 (std_sha256 (std_sha256 (replicate 64 7))))"
proof -
  let ?D = "\<lparr>TransformD64_8way = None, TransformD64_4way = None, TransformD64_2way = Some (\<lambda>inp. TransformD64 (take 64 inp) @ TransformD64 (drop 64 inp))\<rparr>"
  have "dispatch_ok ?D" by (auto simp: dispatch_ok_def way_ok_def upt_rec)
  from sha256d64_correct [OF this, of "replicate 192 7" 3] show ?thesis by (simp add: upt_rec numeral_3_eq_3)
qed

text \<open>
  C14: \<open>CSHA1\<close> and \<open>CRIPEMD160\<close> compute the published functions on messages written in pieces of any sizes; the code of RIPEMD-160 interleaves its two lines.
\<close>

theorem script_hash_classes_correct:
  "length buf = 64 \<Longrightarrow>
    CSHA1_Finalize (fold CSHA1_Write pieces (CSHA1_new buf)) = std_sha1 (concat pieces) \<and>
    CRIPEMD160_Finalize (fold CRIPEMD160_Write pieces (CRIPEMD160_new buf)) = std_ripemd160 (concat pieces)"
  using sha1_stream ripemd160_stream by blast

theorem script_hash_classes_correct_witness:
  "CSHA1_Finalize (fold CSHA1_Write [[1], replicate 70 2] (CSHA1_new (replicate 64 0))) = std_sha1 (1 # replicate 70 2) \<and>
    CRIPEMD160_Finalize (fold CRIPEMD160_Write [[1], replicate 70 2] (CRIPEMD160_new (replicate 64 0))) = std_ripemd160 (1 # replicate 70 2)"
  using script_hash_classes_correct [of "replicate 64 0" "[[1], replicate 70 2]"] by simp

text \<open>
  C12: One level of the Merkle tree, computed by \<open>SHA256D64\<close> on the array of hashes, is the list of the hashes of neighbouring pairs that the model of
  \<open>ComputeMerkleRoot\<close> takes, for the node's own hash functions.
\<close>

theorem merkle_level_hashed:
  assumes "dispatch_ok D" "length buf = 64" "even (length hs)"
  shows "SHA256D64 D (concat (map ser_uint256 hs)) (length hs div 2) = concat (map ser_uint256 (merkle_pairs (merkle_hash (node_hashes buf)) hs))"
proof -
  have "length (concat (map ser_uint256 hs)) = 64 * (length hs div 2)" using assms(3) by (simp add: length_concat comp_def ser_uint256_def sum_list_triv)
  from SHA256D64_hashes [OF assms(1) this] show ?thesis by (simp add: blob_hashes_pairs [OF assms(2, 3)])
qed

theorem merkle_level_hashed_witness:
  "SHA256D64 \<lparr>TransformD64_8way = None, TransformD64_4way = None, TransformD64_2way = None\<rparr> (ser_uint256 5 @ ser_uint256 6) 1 =
    ser_uint256 (merkle_hash (node_hashes (replicate 64 0)) 5 6)"
proof -
  have "dispatch_ok \<lparr>TransformD64_8way = None, TransformD64_4way = None, TransformD64_2way = None\<rparr>" by (simp add: dispatch_ok_def way_ok_def)
  from merkle_level_hashed [OF this, of "replicate 64 0" "[5, 6]"] show ?thesis by simp
qed


end
