(* ===== verification/Spec2Isabelle.thy ===== *)
theory Spec2Isabelle
  imports Pow ScriptVerifyProps MerkleBlock BlockProps NodeHashes
begin

text \<open>
  \<^bold>\<open>Verification of the consensus core of btcsharp\<close>

  The program is a Bitcoin node: the C++ sources under \<open>src/bitcoin/src\<close> with a small C# front end. This library models the part of the node that
  decides what is valid and what the state of the ledger is: encodings, big integers, the block index, proof of work, the script machine, Merkle
  trees, the set of unspent outputs with its caches and its database, the checks of transactions and blocks, and the connection and
  disconnection of blocks. Every definition that models code is translated from the named source file and keeps the name it has there.

  \<^bold>\<open>Conventions.\<close> A byte is \<open>8 word\<close> and a byte string a list; hashes are \<open>256 word\<close>; amounts are \<open>int\<close>, since every sum the code forms is range
  checked first. A struct is a \<open>record\<close>, an enum a \<open>datatype\<close>. A pointer to an index entry is the hash of the block, the block index a map from hashes
  to entries. Code that can throw returns a sum, code that can fail an assertion an \<open>option\<close> with \<open>None\<close> for the abort. The interpreter returns an
  \<open>outcome\<close>: a result, a script error or an abort. The checks of validation return a \<open>verdict\<close>: valid, invalid with the reject reason of the source,
  or fatal. SHA-256, RIPEMD-160 and SHA-1 are the fields of \<open>hash_functions\<close>, the elliptic curve library the fields of \<open>secp256k1\<close>: they are
  parameters of every definition that calls them, with the node's own hash functions as an instance in \<open>NodeHashes\<close>, and no theorem assumes that
  they are collision free. A theorem that needs the absence of a collision
  has the colliding inputs as an alternative of its conclusion.

  \<^bold>\<open>Theories, in the order of their imports.\<close>

  \<^item> \<open>Prelude\<close>: types, byte orders (\<open>crypto/common.h\<close>), the reader type, shared lemmas on lists and words.
  \<^item> \<open>Serialize\<close>: \<open>serialize.h\<close>, \<open>streams.h\<close>. The locale \<open>codec\<close> states what a serialiser and its reader promise each other; it is interpreted for every
    integer width, both variable-length integer formats, vectors, and later for the transaction and header formats. Variable-length integers are
    bijective with what the reader accepts.
  \<^item> \<open>Transaction\<close>, \<open>Block\<close>: \<open>primitives/transaction.h\<close>, \<open>primitives/block.h\<close>. Reading accepts exactly the canonical encodings, with and without witness.
  \<^item> \<open>ArithUint256\<close>: \<open>arith_uint256.h\<close>. The digit-array operators compute arithmetic modulo the width; the compact format is exact and stable.
  \<^item> \<open>Chain\<close>, \<open>ActiveChain\<close>: \<open>chain.h\<close>, \<open>chain.cpp\<close> and \<open>AddToBlockIndex\<close> of \<open>node/blockstorage.cpp\<close>. \<open>index_ok\<close> is the invariant of the block index; the skip list
    agrees with the chain of predecessors; locators, forks, common ancestors and bisections find what they should.
  \<^item> \<open>Pow\<close>: \<open>pow.cpp\<close>. The difficulty prescribed for a block always passes the check used on headers of unknown chains.
  \<^item> \<open>Script\<close>, \<open>Hashing\<close>, \<open>PubKey\<close>: \<open>script/script.h\<close>, \<open>hash.h\<close>, \<open>pubkey.h\<close>. Script numbers and pushes are round trips.
  \<^item> \<open>Interpreter\<close>, \<open>InterpreterParts\<close>, \<open>EvalSafety\<close>: \<open>script/interpreter.cpp\<close> up to \<open>EvalScript\<close>, every opcode. The condition stack with two integers is a
    refinement of a stack of booleans (locale \<open>condition_stack\<close>); the signature syntax check accepts exactly strict DER; \<open>EvalScript\<close> fails no
    assertion and keeps its limits.
  \<^item> \<open>SigHash\<close>, \<open>SigHashProps\<close>, \<open>ScriptVerify\<close>, \<open>ScriptVerifyProps\<close>: the rest of \<open>script/interpreter.cpp\<close>. Precomputed and direct signature hashes agree; \<open>VerifyScript\<close>
    fails no assertion; spending a version 0 key hash output is characterised.
  \<^item> \<open>Merkle\<close>, \<open>MerkleBlock\<close>: \<open>consensus/merkle.cpp\<close>, \<open>merkleblock.cpp\<close>. The constant-space algorithm equals the level-by-level one, unmutated roots bind
    their leaves, partial trees are sound and complete.
  \<^item> \<open>Coins\<close>, \<open>CoinsDB\<close>: \<open>coins.h\<close>, \<open>coins.cpp\<close>, \<open>txdb.cpp\<close>. The locale \<open>coins_view\<close> states what a view of the unspent outputs promises; a cache over a view is
    again a view, and the interpretations \<open>db\<close> and \<open>tip\<close> give the database and the stack of caches the node uses. Caches refine a map with a best
    block; an interrupted database write is detected and can be repeated.
  \<^item> \<open>TxVerify\<close>, \<open>InputScripts\<close>: \<open>consensus/tx_check.cpp\<close>, \<open>consensus/tx_verify.cpp\<close>, \<open>script/sigcache.cpp\<close> and \<open>CheckInputScripts\<close> of \<open>validation.cpp\<close>. The checks are
    exact on the map of unspent outputs, with any sound content of the caches.
  \<^item> \<open>BlockCheck\<close>: the checks of headers and blocks in \<open>validation.cpp\<close>. The flags by which a block remembers passed checks change no verdict.
  \<^item> \<open>Connect\<close>: \<open>GetBlockSubsidy\<close>, \<open>UpdateCoins\<close>, \<open>ConnectBlock\<close>, \<open>ApplyTxInUndo\<close>, \<open>DisconnectBlock\<close> of \<open>validation.cpp\<close>.
  \<^item> \<open>CoinEffects\<close>, \<open>ConnectProps\<close>, \<open>Disconnect\<close>, \<open>Accept\<close>: the specification on maps (effect, undo data, fees and rules of a transaction) and the lemmas,
    mostly inside \<open>coins_view\<close>, that the code on caches implements it.
  \<^item> \<open>BlockProps\<close>: a block that obeys the rules is connected; a connected block creates at most its subsidy; the supply of any run of blocks is
    capped; disconnecting restores the map; with an example block that meets all hypotheses.
  \<^item> \<open>Hasher\<close>, \<open>Sha256\<close>, \<open>Sha1\<close>, \<open>Ripemd160\<close>: the portable code of \<open>crypto/sha256.cpp\<close>, \<open>crypto/sha1.cpp\<close> and \<open>crypto/ripemd160.cpp\<close>, rounds unrolled as in the source. The
    locale \<open>block_hasher\<close> states what writing to a buffered hasher promises and is interpreted for the three classes; \<open>sha256_sequences\<close>, \<open>sha1_sequences\<close> and
    \<open>ripemd_sequences\<close> carry the unrolled rounds over to loops as the standards state them. The round constants of SHA-256 are defined from the cube
    roots of primes, and the literals of the code are shown to be those.
  \<^item> \<open>NodeHashes\<close>: the classes compute the published functions for pieces of any sizes, the double hash of many blobs is right for any correct
    vectorised variants, one level of a Merkle tree is hashed as \<open>Merkle\<close> says, and the three functions are an instance of \<open>hash_functions\<close>.
  \<^bold>\<open>Loops and bounds.\<close> Loops with a decreasing measure are functions with a termination proof. The walks over the block tree, which would not end
  on a cyclic index, are partial functions into \<open>option\<close>, and their theorems show that they return on every index that satisfies \<open>index_ok\<close>. There is no
  fuel. The Merkle computation is stated for at most \<open>2 ^ 31\<close> leaves, beyond which its 32-bit counter wraps.

  \<^bold>\<open>Not modelled.\<close> Networking, RPC, initialisation, logging and the C# host are input and output. LevelDB, libsecp256k1, minisketch, CRC32C and
  UniValue are vendored libraries. Of \<open>validation.cpp\<close> the mempool, snapshots and the threads are not modelled: they depend on clocks, locks
  and databases. Block and undo files are parameters (\<open>ce_write_undo\<close> and the argument \<open>read_undo\<close>), as are the signet check and which entries
  the lossy signature and script caches hold. Script checks run in the order of the inputs, where the node may hand them to worker threads.
  The vectorised variants of SHA-256 and their selection at start-up are parameters of \<open>SHA256D64\<close>, which is modelled as writing to a fresh array.
  Descriptors, miniscript, addresses and the wallet interface take no part in validation.
\<close>

end
